(* ===== verification/Prelude.thy ===== *)
theory Prelude
  imports Main "HOL-Library.Word"
begin

unbundle bit_operations_syntax

text \<open>
  Shared vocabulary of the development: the C++ integer types, the outcome of a
  piece of code that may abort or leave defined behaviour, counted loops, the
  byte view of 64-bit words that \<open>reinterpret_cast<uint8_t*>\<close> gives, and the
  SystemC bit vectors \<open>sc_bv<W>\<close> as natural numbers below \<open>2 ^ W\<close>.
\<close>

named_theorems bv_simps \<open>bit-vector selection and update\<close>

section \<open>Machine types and outcomes\<close>

type_synonym u8 = "8 word"
type_synonym u16 = "16 word"
type_synonym u32 = "32 word"
type_synonym u64 = "64 word"

text \<open>
  \<open>Assertion_failed\<close>: \<open>assert\<close> or \<open>sc_assert\<close> fires. \<open>Undefined_behaviour\<close>: the C++
  standard gives the execution no meaning (access outside an array, shift by the
  width of the operand or more). \<open>Range_error\<close>: SystemC reports a selection outside a bit
  vector. \<open>Process_exit\<close>: the code calls \<open>exit\<close>.
\<close>

datatype fault = Assertion_failed | Undefined_behaviour | Range_error | Process_exit

type_synonym 'a outcome = "fault + 'a"

definition andthen :: "'e + 'a \<Rightarrow> ('a \<Rightarrow> 'e + 'b) \<Rightarrow> 'e + 'b" where
  "andthen r f = (case r of Inl e \<Rightarrow> Inl e | Inr a \<Rightarrow> f a)"

lemma andthen_simps [simp]:
  "andthen (Inl e) f = Inl e"
  "andthen (Inr a) f = f a"
  by (simp_all add: andthen_def)

lemma andthen_Inr_iff:
  "andthen r f = Inr b \<longleftrightarrow> (\<exists>a. r = Inr a \<and> f a = Inr b)"
  by (cases r) auto

section \<open>Counted loops\<close>

text \<open>
  \<open>fold_ok f [a..<b] s\<close> is the loop \<open>for (i = a; i < b; i++)\<close> whose body \<open>f i\<close> updates the
  state and may fault; it stops at the first fault.
\<close>

fun fold_ok :: "('i \<Rightarrow> 's \<Rightarrow> 'e + 's) \<Rightarrow> 'i list \<Rightarrow> 's \<Rightarrow> 'e + 's" where
  "fold_ok f [] s = Inr s"
| "fold_ok f (i # is) s = andthen (f i s) (fold_ok f is)"

lemma fold_ok_append:
  "fold_ok f (is @ js) s = andthen (fold_ok f is s) (fold_ok f js)"
proof (induction "is" arbitrary: s)
  case Nil
  then show ?case by simp
next
  case (Cons i "is")
  then show ?case by (cases "f i s") simp_all
qed

text \<open>Total correctness of a counted loop, from an invariant kept by every round.\<close>

lemma fold_ok_upt:
  assumes "P 0 s"
    and "\<And>i s. i < n \<Longrightarrow> P i s \<Longrightarrow> \<exists>s'. f i s = Inr s' \<and> P (Suc i) s'"
  shows "\<exists>s'. fold_ok f [0..<n] s = Inr s' \<and> P n s'"
  using assms(2)
proof (induction n)
  case 0
  then show ?case using assms(1) by simp
next
  case (Suc n)
  then obtain s1 where s1: "fold_ok f [0..<n] s = Inr s1" "P n s1"
    by (metis less_SucI)
  with Suc.prems obtain s2 where "f n s1 = Inr s2" "P (Suc n) s2"
    by blast
  with s1 show ?case by (simp add: fold_ok_append)
qed

text \<open>Whatever a successful loop returns satisfies an invariant of its body.\<close>

lemma fold_ok_inv:
  assumes "fold_ok f is s = Inr s'" and "P s"
    and "\<And>i s t. i \<in> set is \<Longrightarrow> f i s = Inr t \<Longrightarrow> P s \<Longrightarrow> P t"
  shows "P s'"
  using assms
proof (induction "is" arbitrary: s)
  case Nil
  then show ?case by simp
next
  case (Cons i "is")
  from Cons.prems(1) obtain t where t: "f i s = Inr t" "fold_ok f is t = Inr s'"
    by (auto simp: andthen_Inr_iff)
  have "P t" by (rule Cons.prems(3) [OF _ t(1) Cons.prems(2)]) simp
  then show ?case
    by (rule Cons.IH [OF t(2)]) (rule Cons.prems(3), simp_all)
qed

lemma foldl_inv:
  assumes "P s" and "\<And>s i. i \<in> set is \<Longrightarrow> P s \<Longrightarrow> P (f s i)"
  shows "P (foldl f s is)"
  using assms by (induction "is" arbitrary: s) simp_all

section \<open>Bytes of a 64-bit word\<close>

lemma unat_word_of_nat: "n < 2 ^ 64 \<Longrightarrow> unat (word_of_nat n :: u64) = n"
  by (simp add: unsigned_of_nat take_bit_nat_eq_self)

lemma unat_u64_less: "unat (a :: u64) < 2 ^ 64"
  using unsigned_less [where 'b = 64 and 'a = nat, of a] by simp

lemma unat_drop_bit_u64: "unat (drop_bit n (a :: u64)) = unat a div 2 ^ n"
proof -
  have "unat (drop_bit n a) = drop_bit n (unat a)"
    using unat_u64_less [of a] by (simp add: unsigned_drop_bit_eq take_bit_nat_eq_self)
  then show ?thesis by (simp add: drop_bit_eq_div [where 'a = nat])
qed

lemma unat_take_bit_u64: "unat (take_bit n (a :: u64)) = unat a mod 2 ^ n"
proof -
  have "unat (take_bit n a) = take_bit n (unat a)" by (simp add: unsigned_take_bit_eq)
  then show ?thesis by (simp add: take_bit_eq_mod [where 'a = nat])
qed

lemma word_of_nat_unat [simp]: "word_of_nat (unat w) = w"
  by simp

text \<open>Little-endian: byte \<open>i\<close> of a word holds its bits \<open>8 i\<close> to \<open>8 i + 7\<close>.\<close>

definition byte_of :: "u64 \<Rightarrow> nat \<Rightarrow> u8" where
  "byte_of w i = ucast (drop_bit (8 * i) w)"

definition bytes_of_words :: "u64 list \<Rightarrow> u8 list" where
  "bytes_of_words ws = concat (map (\<lambda>w. map (byte_of w) [0..<8]) ws)"

definition word_of_bytes :: "u8 list \<Rightarrow> u64" where
  "word_of_bytes bs = foldr (\<lambda>b w. ucast b OR push_bit 8 w) bs 0"

definition merge_mask :: "u64 \<Rightarrow> u64 \<Rightarrow> u64 \<Rightarrow> u64" where
  "merge_mask old data m = (old AND NOT m) OR (data AND m)"

lemma bit_byte_of [simp]: "bit (byte_of w i) n \<longleftrightarrow> n < 8 \<and> bit w (8 * i + n)"
  by (auto simp: byte_of_def bit_ucast_iff bit_drop_bit_eq)

lemma bit_merge_mask [simp]:
  "bit (merge_mask old data m) n
     \<longleftrightarrow> (if bit m n then bit data n else bit old n)"
proof (cases "n < 64")
  case True
  then show ?thesis by (simp add: merge_mask_def bit_or_iff bit_and_iff bit_not_iff)
next
  case False
  then have "\<not> bit (x :: u64) n" for x
    using bit_imp_le_length [of x n] by auto
  then show ?thesis by simp
qed

lemma byte_of_eqI:
  assumes "\<And>i. i < 8 \<Longrightarrow> byte_of a i = byte_of b i"
  shows "a = b"
proof (rule bit_word_eqI)
  fix n
  assume "n < LENGTH(64)"
  then have "bit (byte_of a (n div 8)) (n mod 8) = bit (byte_of b (n div 8)) (n mod 8)"
    using assms [of "n div 8"] by simp
  then show "bit a n = bit b n" by simp
qed

lemma bytes_of_words_Nil [simp]: "bytes_of_words [] = []"
  by (simp add: bytes_of_words_def)

lemma bytes_of_words_Cons:
  "bytes_of_words (w # ws) = map (byte_of w) [0..<8] @ bytes_of_words ws"
  by (simp add: bytes_of_words_def)

lemma length_bytes_of_words [simp]: "length (bytes_of_words ws) = 8 * length ws"
  by (induction ws) (simp_all add: bytes_of_words_Cons)

lemma nth_bytes_of_words:
  "i < 8 * length ws \<Longrightarrow> bytes_of_words ws ! i = byte_of (ws ! (i div 8)) (i mod 8)"
proof (induction ws arbitrary: i)
  case Nil
  then show ?case by simp
next
  case (Cons w ws)
  show ?case
  proof (cases "i < 8")
    case True
    then show ?thesis by (simp add: bytes_of_words_Cons nth_append)
  next
    case False
    then have "i div 8 = Suc ((i - 8) div 8)" and "i mod 8 = (i - 8) mod 8"
      by (simp_all add: div_if [of i 8] mod_if [of i 8])
    with False Cons show ?thesis
      by (simp add: bytes_of_words_Cons nth_append)
  qed
qed

lemma bit_word_of_bytes:
  "length bs \<le> 8 \<Longrightarrow>
     bit (word_of_bytes bs) n \<longleftrightarrow> n < 8 * length bs \<and> bit (bs ! (n div 8)) (n mod 8)"
proof (induction bs arbitrary: n)
  case Nil
  then show ?case by (simp add: word_of_bytes_def)
next
  case (Cons b bs)
  have rec: "word_of_bytes (b # bs) = ucast b OR push_bit 8 (word_of_bytes bs)"
    by (simp add: word_of_bytes_def)
  show ?case
  proof (cases "n < 8")
    case True
    then show ?thesis
      by (simp add: rec bit_or_iff bit_push_bit_iff bit_ucast_iff)
  next
    case False
    then have dm: "n div 8 = Suc ((n - 8) div 8)" "n mod 8 = (n - 8) mod 8"
      by (simp_all add: div_if [of n 8] mod_if [of n 8])
    have nb: "\<not> bit b n" using False bit_imp_le_length [of b n] by auto
    show ?thesis
      using False Cons.prems Cons.IH [of "n - 8"] nb
      by (auto simp: rec dm bit_or_iff bit_push_bit_iff bit_ucast_iff)
  qed
qed

lemma byte_of_word_of_bytes:
  assumes "length bs = 8" and "i < 8"
  shows "byte_of (word_of_bytes bs) i = bs ! i"
  by (rule bit_word_eqI) (use assms in \<open>auto simp: bit_word_of_bytes\<close>)

lemma word_of_bytes_byte_of: "word_of_bytes (map (byte_of w) [0..<8]) = w"
  by (rule byte_of_eqI) (simp add: byte_of_word_of_bytes)

section \<open>SystemC bit vectors\<close>

text \<open>
  \<open>sc_bv<W>\<close> values are natural numbers below \<open>2 ^ W\<close>. Assignment keeps the low \<open>W\<close> bits,
  \<open>range(hi, lo)\<close> selects bits \<open>lo\<close> to \<open>hi\<close>, and assigning to a range replaces them by
  the low bits of the value.
\<close>

definition bv :: "nat \<Rightarrow> nat \<Rightarrow> nat" where
  "bv W v = take_bit W v"

definition bv_range :: "nat \<Rightarrow> nat \<Rightarrow> nat \<Rightarrow> nat" where
  "bv_range hi lo v = take_bit (Suc hi - lo) (drop_bit lo v)"

definition bv_set_range :: "nat \<Rightarrow> nat \<Rightarrow> nat \<Rightarrow> nat \<Rightarrow> nat" where
  "bv_set_range hi lo x v =
     take_bit lo v OR push_bit lo (take_bit (Suc hi - lo) x)
       OR push_bit (Suc hi) (drop_bit (Suc hi) v)"

definition bv_to_uint :: "nat \<Rightarrow> u32" where
  "bv_to_uint v = word_of_nat v"

definition bv_to_uint64 :: "nat \<Rightarrow> u64" where
  "bv_to_uint64 v = word_of_nat v"

lemma bit_bv [bv_simps]: "bit (bv W v) n \<longleftrightarrow> n < W \<and> bit v n"
  by (simp add: bv_def bit_take_bit_iff)

lemma bit_bv_range [bv_simps]:
  "bit (bv_range hi lo v) n \<longleftrightarrow> n < Suc hi - lo \<and> bit v (lo + n)"
  by (simp add: bv_range_def bit_take_bit_iff bit_drop_bit_eq add.commute)

lemma bit_bv_set_range [bv_simps]:
  "bit (bv_set_range hi lo x v) n \<longleftrightarrow>
     (if lo \<le> n \<and> n \<le> hi then bit x (n - lo) else n < lo \<and> bit v n \<or> hi < n \<and> bit v n)"
proof -
  define h where "h = Suc hi"
  have h: "n \<le> hi \<longleftrightarrow> n < h" "hi < n \<longleftrightarrow> h \<le> n"
    by (auto simp: h_def)
  show ?thesis
    unfolding bv_set_range_def h h_def [symmetric]
    by (auto simp: bit_or_iff bit_take_bit_iff bit_push_bit_iff bit_drop_bit_eq)
qed

lemma bv_less: "bv W v < 2 ^ W"
  by (simp add: bv_def)

lemma bv_range_less: "bv_range hi lo v < 2 ^ (Suc hi - lo)"
  by (simp add: bv_range_def)

lemma bv_idem [simp]: "v < 2 ^ W \<Longrightarrow> bv W v = v"
  by (simp add: bv_def take_bit_nat_eq_self)

lemma bit_word_of_nat_u64 [bv_simps]:
  "bit (bv_to_uint64 v) n \<longleftrightarrow> n < 64 \<and> bit v n"
  by (auto simp: bv_to_uint64_def bit_of_nat_iff)

lemma nat_bit_eqI:
  fixes a b :: nat
  assumes "\<And>n. bit a n \<longleftrightarrow> bit b n"
  shows "a = b"
  using assms by (simp add: bit_eq_iff)

lemma bit_nat_lt_imp_less:
  fixes v :: nat
  assumes "v < 2 ^ W" and "bit v n"
  shows "n < W"
proof (rule ccontr)
  assume "\<not> n < W"
  then have "v < 2 ^ n"
    using assms(1) by (meson le_less_trans less_le_trans not_less power_increasing one_le_numeral)
  then have "\<not> bit v n" by (simp add: bit_iff_odd)
  with assms(2) show False by simp
qed

text \<open>Reading back the range that was just written, and reading a disjoint one.\<close>

lemma bv_range_set_same [bv_simps]:
  assumes "lo \<le> hi"
  shows "bv_range hi lo (bv_set_range hi lo x v) = take_bit (Suc hi - lo) x"
  by (rule nat_bit_eqI) (use assms in \<open>auto simp: bit_bv_range bit_bv_set_range bit_take_bit_iff\<close>)

lemma bv_range_set_above [bv_simps]:
  assumes "hi' < lo"
  shows "bv_range hi' lo' (bv_set_range hi lo x v) = bv_range hi' lo' v"
  by (rule nat_bit_eqI) (use assms in \<open>auto simp: bit_bv_range bit_bv_set_range\<close>)

lemma bv_range_set_below [bv_simps]:
  assumes "hi < lo'"
  shows "bv_range hi' lo' (bv_set_range hi lo x v) = bv_range hi' lo' v"
  by (rule nat_bit_eqI) (use assms in \<open>auto simp: bit_bv_range bit_bv_set_range\<close>)

text \<open>Fields of a packed vector: position and width instead of the two end bits.\<close>

definition put_field :: "nat \<Rightarrow> nat \<Rightarrow> nat \<Rightarrow> nat \<Rightarrow> nat" where
  "put_field pos w x v = bv_set_range (pos + w - 1) pos x v"

definition get_field :: "nat \<Rightarrow> nat \<Rightarrow> nat \<Rightarrow> nat" where
  "get_field pos w v = bv_range (pos + w - 1) pos v"

lemma get_put_same: "0 < w \<Longrightarrow> get_field pos w (put_field pos w x v) = take_bit w x"
  by (simp add: get_field_def put_field_def bv_range_set_same)

lemma get_put_above:
  "0 < w \<Longrightarrow> 0 < w' \<Longrightarrow> pos' + w' \<le> pos \<Longrightarrow> get_field pos' w' (put_field pos w x v) = get_field pos' w' v"
  by (simp add: get_field_def put_field_def bv_range_set_above)

lemma get_put_below:
  "0 < w \<Longrightarrow> 0 < w' \<Longrightarrow> pos + w \<le> pos' \<Longrightarrow> get_field pos' w' (put_field pos w x v) = get_field pos' w' v"
  by (simp add: get_field_def put_field_def bv_range_set_below)

lemmas get_put = get_put_same get_put_above get_put_below

lemma bit_put_field:
  "0 < w \<Longrightarrow> bit (put_field pos w x v) n \<longleftrightarrow>
     (if pos \<le> n \<and> n < pos + w then bit x (n - pos) else bit v n)"
  by (auto simp: put_field_def bit_bv_set_range)

lemma put_field_less:
  assumes "v < 2 ^ N" and "0 < w" and "pos + w \<le> N"
  shows "put_field pos w x v < 2 ^ N"
proof -
  have "put_field pos w x v = take_bit N (put_field pos w x v)"
    by (rule nat_bit_eqI)
      (use assms bit_nat_lt_imp_less [OF assms(1)] in \<open>auto simp: bit_put_field bit_take_bit_iff\<close>)
  then show ?thesis by (metis take_bit_nat_less_exp)
qed

end
