(* ===== verification/Cache_Directory.thy ===== *)
theory Cache_Directory
  imports Prelude
begin

text \<open>
  \<open>rtl/tb/sc_verif_lib/modules/generic_cache/include/generic_cache_directory_base.h\<close>: a
  set-associative tag directory. The arrays \<open>tag_m\<close> and \<open>val_m\<close> are lists indexed by
  \<open>way * sets_m + set\<close>. Sizes, ways and sets (\<open>size_t\<close>) are natural numbers: the constructor
  allocated arrays of \<open>ways * sets\<close> elements, so no index expression wraps. Addresses and
  tags are 64-bit words. A returned way or set of \<open>UINT_MAX\<close> stands for "none", as in the
  code. The members \<open>repl\<close> and \<open>replUpdate\<close> are pure virtual in the base class: the
  operations that call them take them as arguments, and the locale below states what the
  base class relies on.
\<close>

section \<open>State and accessors\<close>

record dir =
  dir_name_m :: string
  ways_m :: nat
  sets_m :: nat
  bytes_m :: nat
  tag_m :: "u64 list"
  val_m :: "bool list"

definition UINT_MAX :: nat where
  "UINT_MAX = 2 ^ 32 - 1"

text \<open>The constructor leaves the two arrays uninitialised: their contents are arguments.\<close>

definition directory_new :: "string \<Rightarrow> nat \<Rightarrow> nat \<Rightarrow> nat \<Rightarrow> u64 list \<Rightarrow> bool list \<Rightarrow> dir outcome" where
  "directory_new name nways nsets nbytes tags vals =
     (if nsets > 0 \<and> nways > 0 \<and> nbytes > 0 then
        Inr \<lparr>dir_name_m = name, ways_m = nways, sets_m = nsets, bytes_m = nbytes,
             tag_m = take (nways * nsets) tags, val_m = take (nways * nsets) vals\<rparr>
      else Inl Assertion_failed)"

definition getCacheTag :: "'a dir_scheme \<Rightarrow> nat \<Rightarrow> nat \<Rightarrow> u64" where
  "getCacheTag d way st = tag_m d ! (way * sets_m d + st)"

definition getCacheValid :: "'a dir_scheme \<Rightarrow> nat \<Rightarrow> nat \<Rightarrow> bool" where
  "getCacheValid d way st = val_m d ! (way * sets_m d + st)"

text \<open>Assignments through the references that the two accessors return.\<close>

definition setCacheTag :: "nat \<Rightarrow> nat \<Rightarrow> u64 \<Rightarrow> 'a dir_scheme \<Rightarrow> 'a dir_scheme" where
  "setCacheTag way st t d = d\<lparr>tag_m := (tag_m d)[way * sets_m d + st := t]\<rparr>"

definition setCacheValid :: "nat \<Rightarrow> nat \<Rightarrow> bool \<Rightarrow> 'a dir_scheme \<Rightarrow> 'a dir_scheme" where
  "setCacheValid way st b d = d\<lparr>val_m := (val_m d)[way * sets_m d + st := b]\<rparr>"

definition getNline_tag :: "'a dir_scheme \<Rightarrow> u64 \<Rightarrow> nat \<Rightarrow> u64" where
  "getNline_tag d tag st = tag * word_of_nat (sets_m d) + word_of_nat st"

definition getNline_addr :: "'a dir_scheme \<Rightarrow> u64 \<Rightarrow> u64" where
  "getNline_addr d addr = word_of_nat (unat addr div bytes_m d)"

definition getAddr :: "'a dir_scheme \<Rightarrow> u64 \<Rightarrow> nat \<Rightarrow> u64" where
  "getAddr d tag st = getNline_tag d tag st * word_of_nat (bytes_m d)"

definition getAddrTag :: "'a dir_scheme \<Rightarrow> u64 \<Rightarrow> u64" where
  "getAddrTag d addr = word_of_nat (unat addr div (sets_m d * bytes_m d))"

definition getAddrSet :: "'a dir_scheme \<Rightarrow> u64 \<Rightarrow> nat" where
  "getAddrSet d addr = (unat addr div bytes_m d) mod sets_m d"

section \<open>Operations of the base class\<close>

definition base_reset :: "'a dir_scheme \<Rightarrow> 'a dir_scheme" where
  "base_reset d =
     foldl (\<lambda>d way. foldl (\<lambda>d st. setCacheTag way st 0 (setCacheValid way st False d))
         d [0..<sets_m d])
       d [0..<ways_m d]"

definition hit :: "'a dir_scheme \<Rightarrow> u64 \<Rightarrow> bool \<times> nat \<times> nat" where
  "hit d addr =
     (let st = getAddrSet d addr; tag = getAddrTag d addr
      in case find (\<lambda>way. getCacheValid d way st \<and> tag = getCacheTag d way st) [0..<ways_m d] of
           Some way \<Rightarrow> (True, way, st)
         | None \<Rightarrow> (False, UINT_MAX, UINT_MAX))"

definition inval_way_set :: "'a dir_scheme \<Rightarrow> nat \<Rightarrow> nat \<Rightarrow> bool \<times> 'a dir_scheme" where
  "inval_way_set d way st = (getCacheValid d way st, setCacheValid way st False d)"

text \<open>Unlike \<open>hit\<close>, the loop of \<open>inval(addr)\<close> compares the tag only.\<close>

definition inval_addr :: "'a dir_scheme \<Rightarrow> u64 \<Rightarrow> bool \<times> 'a dir_scheme" where
  "inval_addr d addr =
     (let st = getAddrSet d addr; tag = getAddrTag d addr
      in case find (\<lambda>way. getCacheTag d way st = tag) [0..<ways_m d] of
           Some way \<Rightarrow> (True, setCacheValid way st False d)
         | None \<Rightarrow> (False, d))"

text \<open>\<open>repl\<close> returns the victim's tag, way and set and whether a valid line was evicted.\<close>

type_synonym 'd repl_fun = "'d \<Rightarrow> u64 \<Rightarrow> (bool \<times> u64 \<times> nat \<times> nat \<times> 'd) outcome"

definition alloc :: "'d repl_fun \<Rightarrow> 'd \<Rightarrow> u64 \<Rightarrow> (bool \<times> u64 \<times> nat \<times> nat \<times> 'd) outcome" where
  "alloc repl d addr = repl d addr"

definition access ::
  "('a dir_scheme \<Rightarrow> nat \<Rightarrow> nat \<Rightarrow> 'a dir_scheme) \<Rightarrow> 'a dir_scheme \<Rightarrow> u64 \<Rightarrow> bool
     \<Rightarrow> (bool \<times> nat \<times> nat) \<times> 'a dir_scheme" where
  "access replUpdate d addr update_repl_flags =
     (case hit d addr of
        (True, way, st) \<Rightarrow>
          ((True, way, st), if update_repl_flags then replUpdate d way st else d)
      | (False, _, _) \<Rightarrow> ((False, UINT_MAX, UINT_MAX), d))"

section \<open>Array indices\<close>

definition wf_dir :: "'a dir_scheme \<Rightarrow> bool" where
  "wf_dir d \<longleftrightarrow> 0 < ways_m d \<and> 0 < sets_m d \<and> 0 < bytes_m d
     \<and> length (tag_m d) = ways_m d * sets_m d \<and> length (val_m d) = ways_m d * sets_m d"

lemma slot_less: "way < W \<Longrightarrow> st < S \<Longrightarrow> way * S + st < W * (S :: nat)"
  by (metis (no_types) add.commute mult.commute mod_less div_less mult_Suc_right
      nat_add_left_cancel_less less_le_trans mult_le_mono2 Suc_leI)

lemma slot_inj:
  assumes "st < S" and "st' < S"
  shows "way * S + st = way' * S + (st' :: nat) \<longleftrightarrow> way = way' \<and> st = st'"
proof
  assume eq: "way * S + st = way' * S + st'"
  have "(way * S + st) div S = way" "(way' * S + st') div S = way'"
    using assms by simp_all
  with eq show "way = way' \<and> st = st'" by simp
qed simp

lemma set_frame [simp]:
  "ways_m (setCacheTag w s t d) = ways_m d" "sets_m (setCacheTag w s t d) = sets_m d"
  "bytes_m (setCacheTag w s t d) = bytes_m d" "val_m (setCacheTag w s t d) = val_m d"
  "ways_m (setCacheValid w s b d) = ways_m d" "sets_m (setCacheValid w s b d) = sets_m d"
  "bytes_m (setCacheValid w s b d) = bytes_m d" "tag_m (setCacheValid w s b d) = tag_m d"
  "length (tag_m (setCacheTag w s t d)) = length (tag_m d)"
  "length (val_m (setCacheValid w s b d)) = length (val_m d)"
  by (simp_all add: setCacheTag_def setCacheValid_def)

lemma wf_dir_set [simp]:
  "wf_dir (setCacheTag w s t d) = wf_dir d" "wf_dir (setCacheValid w s b d) = wf_dir d"
  by (simp_all add: wf_dir_def)

lemma getCacheValid_setCacheTag [simp]:
  "getCacheValid (setCacheTag w s t d) w' s' = getCacheValid d w' s'"
  by (simp add: getCacheValid_def)

lemma getCacheTag_setCacheValid [simp]:
  "getCacheTag (setCacheValid w s b d) w' s' = getCacheTag d w' s'"
  by (simp add: getCacheTag_def)

lemma getCacheTag_setCacheTag:
  assumes "wf_dir d" "w < ways_m d" "s < sets_m d" "w' < ways_m d" "s' < sets_m d"
  shows "getCacheTag (setCacheTag w s t d) w' s' = (if w' = w \<and> s' = s then t else getCacheTag d w' s')"
  using assms slot_less [of w "ways_m d" s "sets_m d"]
  by (auto simp: getCacheTag_def setCacheTag_def wf_dir_def nth_list_update slot_inj)

lemma getCacheValid_setCacheValid:
  assumes "wf_dir d" "w < ways_m d" "s < sets_m d" "w' < ways_m d" "s' < sets_m d"
  shows "getCacheValid (setCacheValid w s b d) w' s'
     = (if w' = w \<and> s' = s then b else getCacheValid d w' s')"
  using assms slot_less [of w "ways_m d" s "sets_m d"]
  by (auto simp: getCacheValid_def setCacheValid_def wf_dir_def nth_list_update slot_inj)

lemma getAddrSet_less: "wf_dir d \<Longrightarrow> getAddrSet d addr < sets_m d"
  by (simp add: getAddrSet_def wf_dir_def)

lemma addr_fields_cong:
  "sets_m d' = sets_m d \<Longrightarrow> bytes_m d' = bytes_m d \<Longrightarrow>
     getAddrSet d' = getAddrSet d \<and> getAddrTag d' = getAddrTag d"
  by (auto simp: getAddrSet_def getAddrTag_def)

section \<open>Finding the first way\<close>

lemma find_snoc: "find P (xs @ [x]) = (case find P xs of None \<Rightarrow> if P x then Some x else None | Some y \<Rightarrow> Some y)"
  by (induction xs) simp_all

lemma find_upt_Some:
  "find P [0..<n] = Some w \<longleftrightarrow> w < n \<and> P w \<and> (\<forall>v < w. \<not> P v)"
proof (induction n)
  case 0
  then show ?case by simp
next
  case (Suc n)
  have "find P [0..<n] = None \<longleftrightarrow> (\<forall>v < n. \<not> P v)"
    by (auto simp: find_None_iff)
  then show ?case
    using Suc by (auto simp: find_snoc less_Suc_eq split: option.splits)
qed

lemma find_upt_None: "find P [0..<n] = None \<longleftrightarrow> (\<forall>w < n. \<not> P w)"
  by (auto simp: find_None_iff)

text \<open>A line: a valid way of the address's set holds the address's tag.\<close>

definition holds :: "'a dir_scheme \<Rightarrow> u64 \<Rightarrow> nat \<Rightarrow> bool" where
  "holds d addr way \<longleftrightarrow> way < ways_m d \<and> getCacheValid d way (getAddrSet d addr)
     \<and> getCacheTag d way (getAddrSet d addr) = getAddrTag d addr"

lemma hit_find:
  "hit d addr =
     (case find (holds d addr) [0..<ways_m d] of
        Some way \<Rightarrow> (True, way, getAddrSet d addr) | None \<Rightarrow> (False, UINT_MAX, UINT_MAX))"
proof -
  have "find (\<lambda>way. getCacheValid d way (getAddrSet d addr)
        \<and> getAddrTag d addr = getCacheTag d way (getAddrSet d addr)) [0..<ways_m d]
      = find (holds d addr) [0..<ways_m d]"
    by (rule find_cong) (auto simp: holds_def)
  then show ?thesis by (simp add: hit_def Let_def)
qed

lemma hit_cases:
  obtains w where "hit d addr = (True, w, getAddrSet d addr)" "holds d addr w"
    "\<And>v. v < w \<Longrightarrow> \<not> holds d addr v"
  | "hit d addr = (False, UINT_MAX, UINT_MAX)" "\<And>w. \<not> holds d addr w"
proof (cases "find (holds d addr) [0..<ways_m d]")
  case None
  then have "\<And>w. \<not> holds d addr w" by (auto simp: find_upt_None holds_def)
  with None show ?thesis using that(2) by (simp add: hit_find)
next
  case (Some w)
  show ?thesis
    by (rule that(1) [of w]) (use Some in \<open>simp_all add: hit_find, simp_all add: find_upt_Some\<close>)
qed

lemma fst_hit: "fst (hit d addr) \<longleftrightarrow> (\<exists>w. holds d addr w)"
  by (rule hit_cases [of d addr]) auto

lemma hit_unique:
  assumes "holds d addr w" and "\<And>v. holds d addr v \<Longrightarrow> v = w"
  shows "hit d addr = (True, w, getAddrSet d addr)"
  by (rule hit_cases [of d addr]) (use assms in auto)

section \<open>Addresses\<close>

text \<open>
  splitting an address into tag and set and rebuilding it gives the address of the
  line that holds it.
\<close>

theorem address_roundtrip:
  assumes "wf_dir d"
  shows "unat (getAddr d (getAddrTag d addr) (getAddrSet d addr))
     = unat addr div bytes_m d * bytes_m d"
proof -
  let ?a = "unat addr" and ?s = "sets_m d" and ?b = "bytes_m d"
  have "?a div (?s * ?b) * ?s + ?a div ?b mod ?s = ?a div ?b"
    by (metis div_mult2_eq div_mult_mod_eq mult.commute)
  then have "getAddr d (getAddrTag d addr) (getAddrSet d addr)
      = word_of_nat (?a div ?b * ?b)"
    by (metis (no_types) getAddr_def getNline_tag_def getAddrTag_def getAddrSet_def
        of_nat_add of_nat_mult)
  moreover have "?a div ?b * ?b < 2 ^ 64"
    using unat_u64_less [of addr] div_times_less_eq_dividend [of ?a ?b] by linarith
  ultimately show ?thesis by (metis unat_word_of_nat)
qed


theorem address_roundtrip_witness:
  "unat (getAddr \<lparr>dir_name_m = ''dir'', ways_m = 1, sets_m = 4, bytes_m = 64,
        tag_m = [0, 0, 0, 0], val_m = [False, False, False, False]\<rparr> 4 3) = 1216"
  using address_roundtrip [of "\<lparr>dir_name_m = ''dir'', ways_m = 1, sets_m = 4, bytes_m = 64,
        tag_m = [0, 0, 0, 0], val_m = [False, False, False, False]\<rparr>" 1234]
  by (simp add: wf_dir_def getAddrTag_def getAddrSet_def)

section \<open>What the base class relies on\<close>

text \<open>
  The contract of the two virtual members, on a representation invariant \<open>inv\<close>: \<open>replUpdate\<close>
  touches no tag and no valid bit; \<open>repl\<close> always finds a way, installs the address's tag
  there, and changes no other entry.
\<close>

locale replacement_policy =
  fixes inv :: "'a dir_scheme \<Rightarrow> bool"
    and replUpdate :: "'a dir_scheme \<Rightarrow> nat \<Rightarrow> nat \<Rightarrow> 'a dir_scheme"
    and repl :: "'a dir_scheme repl_fun"
  assumes inv_wf: "inv d \<Longrightarrow> wf_dir d"
    and upd_inv: "inv d \<Longrightarrow> w < ways_m d \<Longrightarrow> s < sets_m d \<Longrightarrow> inv (replUpdate d w s)"
    and upd_frame: "tag_m (replUpdate d w s) = tag_m d \<and> val_m (replUpdate d w s) = val_m d
        \<and> ways_m (replUpdate d w s) = ways_m d \<and> sets_m (replUpdate d w s) = sets_m d
        \<and> bytes_m (replUpdate d w s) = bytes_m d"
    and inval_inv: "inv d \<Longrightarrow> inv (setCacheValid w s False d)"
    and repl_total: "inv d \<Longrightarrow> \<exists>e vt w d'. repl d a = Inr (e, vt, w, getAddrSet d a, d')"
    and repl_spec: "inv d \<Longrightarrow> repl d a = Inr (e, vt, w, s, d') \<Longrightarrow>
        inv d' \<and> w < ways_m d \<and> s = getAddrSet d a
        \<and> ways_m d' = ways_m d \<and> sets_m d' = sets_m d \<and> bytes_m d' = bytes_m d
        \<and> tag_m d' = tag_m (setCacheTag w s (getAddrTag d a) d)
        \<and> val_m d' = val_m (setCacheValid w s True d)
        \<and> (if e then (\<forall>v < ways_m d. getCacheValid d v s) \<and> vt = getCacheTag d w s
           else \<not> getCacheValid d w s \<and> (\<forall>v < w. getCacheValid d v s))"
begin

lemma repl_entries:
  assumes "inv d" and "repl d a = Inr (e, vt, w, s, d')" and "v < ways_m d" and "t < sets_m d"
  shows "getCacheTag d' v t = (if v = w \<and> t = s then getAddrTag d a else getCacheTag d v t)"
    and "getCacheValid d' v t = (v = w \<and> t = s \<or> getCacheValid d v t)"
proof -
  note sp = repl_spec [OF assms(1,2)]
  have wf: "wf_dir d" using assms(1) by (rule inv_wf)
  have s: "s < sets_m d" using sp getAddrSet_less [OF wf] by simp
  have "getCacheTag d' v t = getCacheTag (setCacheTag w s (getAddrTag d a) d) v t"
    using sp by (simp add: getCacheTag_def)
  then show "getCacheTag d' v t = (if v = w \<and> t = s then getAddrTag d a else getCacheTag d v t)"
    using sp s wf assms(3,4) by (simp add: getCacheTag_setCacheTag)
  have "getCacheValid d' v t = getCacheValid (setCacheValid w s True d) v t"
    using sp by (simp add: getCacheValid_def)
  then show "getCacheValid d' v t = (v = w \<and> t = s \<or> getCacheValid d v t)"
    using sp s wf assms(3,4) by (auto simp: getCacheValid_setCacheValid)
qed

lemma repl_addr:
  assumes "inv d" and "repl d a = Inr (e, vt, w, s, d')"
  shows "getAddrSet d' = getAddrSet d" and "getAddrTag d' = getAddrTag d"
  using repl_spec [OF assms] addr_fields_cong [of d' d] by simp_all

text \<open>After a miss on \<open>a\<close>, its replacement makes \<open>a\<close> hit exactly in the returned way.\<close>

lemma repl_then_hit:
  assumes "inv d" and "\<not> fst (hit d a)" and r: "repl d a = Inr (e, vt, w, s, d')"
  shows "hit d' a = (True, w, s)"
proof -
  have wf: "wf_dir d" using assms(1) by (rule inv_wf)
  note sp = repl_spec [OF assms(1) r]
  note en = repl_entries [OF assms(1) r]
  note ad = repl_addr [OF assms(1) r]
  have s: "s = getAddrSet d a" "s < sets_m d" using sp getAddrSet_less [OF wf] by simp_all
  have "holds d' a w" using sp s en ad by (simp add: holds_def)
  moreover have "v = w" if "holds d' a v" for v
    using that assms(2) sp s en ad by (auto simp: holds_def fst_hit split: if_splits)
  ultimately have "hit d' a = (True, w, getAddrSet d' a)" by (rule hit_unique)
  then show ?thesis using s ad by simp
qed

text \<open>Every other line is kept, except the one that was in the replaced way.\<close>

lemma repl_keeps:
  assumes "inv d" and r: "repl d a = Inr (e, vt, w, s, d')"
    and "holds d b v" and "getAddrSet d b \<noteq> s \<or> v \<noteq> w"
  shows "holds d' b v"
proof -
  have wf: "wf_dir d" using assms(1) by (rule inv_wf)
  note sp = repl_spec [OF assms(1) r]
  show ?thesis
    using assms(3,4) sp repl_entries [OF assms(1) r] repl_addr [OF assms(1) r]
      getAddrSet_less [OF wf, of b]
    by (auto simp: holds_def)
qed

lemma repl_only_adds:
  assumes "inv d" and r: "repl d a = Inr (e, vt, w, s, d')" and "holds d' b v"
  shows "holds d b v \<or> v = w \<and> getAddrSet d b = s \<and> getAddrTag d b = getAddrTag d a"
proof -
  have wf: "wf_dir d" using assms(1) by (rule inv_wf)
  note sp = repl_spec [OF assms(1) r]
  show ?thesis
    using assms(3) sp repl_entries [OF assms(1) r] repl_addr [OF assms(1) r]
      getAddrSet_less [OF wf, of b]
    by (auto simp: holds_def split: if_splits)
qed

lemma upd_entries:
  "getCacheTag (replUpdate d w s) v t = getCacheTag d v t"
  "getCacheValid (replUpdate d w s) v t = getCacheValid d v t"
  using upd_frame [of d w s] by (simp_all add: getCacheTag_def getCacheValid_def)

lemma access_keeps:
  assumes "access replUpdate d a u = (r, d')"
  shows "r = hit d a" and "holds d' b v = holds d b v"
proof -
  have "holds (replUpdate d w s) b v = holds d b v" for w s
    using upd_frame [of d w s] upd_entries [of d w s]
      addr_fields_cong [of "replUpdate d w s" d]
    by (simp add: holds_def)
  with assms show "r = hit d a" and "holds d' b v = holds d b v"
    by (rule_tac [!] hit_cases [of d a]) (auto simp: access_def split: if_splits)
qed

end

end
