(* ===== verification/Cache_Directory_Plru.thy ===== *)
theory Cache_Directory_Plru
  imports Cache_Directory
begin

text \<open>
  \<open>rtl/tb/sc_verif_lib/modules/generic_cache/include/generic_cache_directory_plru.h\<close>: the
  directory with a bit-pseudo-LRU policy. The record of the base class is extended with the
  array \<open>plru_m\<close>, and the two virtual members are defined.
\<close>

section \<open>State and operations\<close>

record plru_dir = dir +
  plru_m :: "bool list"

definition plru_new ::
  "string \<Rightarrow> nat \<Rightarrow> nat \<Rightarrow> nat \<Rightarrow> u64 list \<Rightarrow> bool list \<Rightarrow> bool list \<Rightarrow> plru_dir outcome" where
  "plru_new name nways nsets nbytes tags vals plrus =
     andthen (directory_new name nways nsets nbytes tags vals)
       (\<lambda>d. Inr (dir.extend d \<lparr>plru_m = take (nways * nsets) plrus\<rparr>))"

definition getCachePlru :: "plru_dir \<Rightarrow> nat \<Rightarrow> nat \<Rightarrow> bool" where
  "getCachePlru d way st = plru_m d ! (way * sets_m d + st)"

definition setCachePlru :: "nat \<Rightarrow> nat \<Rightarrow> bool \<Rightarrow> plru_dir \<Rightarrow> plru_dir" where
  "setCachePlru way st b d = d\<lparr>plru_m := (plru_m d)[way * sets_m d + st := b]\<rparr>"

definition plru_reset :: "plru_dir \<Rightarrow> plru_dir" where
  "plru_reset d =
     (let d = base_reset d
      in foldl (\<lambda>d way. foldl (\<lambda>d st. setCachePlru way st False d) d [0..<sets_m d])
           d [0..<ways_m d])"

definition replUpdate :: "plru_dir \<Rightarrow> nat \<Rightarrow> nat \<Rightarrow> plru_dir" where
  "replUpdate d way st =
     (let d1 = setCachePlru way st True d;
          reset = foldl (\<lambda>reset w. reset \<and> getCachePlru d1 w st) True [0..<ways_m d1]
      in if reset then
           foldl (\<lambda>d w. if w \<noteq> way then setCachePlru w st False d else d) d1 [0..<ways_m d1]
         else d1)"

definition repl :: "plru_dir \<Rightarrow> u64 \<Rightarrow> (bool \<times> u64 \<times> nat \<times> nat \<times> plru_dir) outcome" where
  "repl d addr =
     (let st = getAddrSet d addr; tag = getAddrTag d addr
      in case find (\<lambda>way. \<not> getCacheValid d way st) [0..<ways_m d] of
           Some way \<Rightarrow>
             Inr (False, 0, way, st,
                  replUpdate (setCacheTag way st tag (setCacheValid way st True d)) way st)
         | None \<Rightarrow>
             (case find (\<lambda>way. \<not> getCachePlru d way st) [0..<ways_m d] of
                Some way \<Rightarrow>
                  Inr (True, getCacheTag d way st, way, st,
                       replUpdate (setCacheTag way st tag d) way st)
              | None \<Rightarrow> Inl Assertion_failed))"

section \<open>The pseudo-LRU bits\<close>

definition wf_plru :: "plru_dir \<Rightarrow> bool" where
  "wf_plru d \<longleftrightarrow> wf_dir d \<and> length (plru_m d) = ways_m d * sets_m d"

lemma setCachePlru_frame [simp]:
  "tag_m (setCachePlru w s b d) = tag_m d" "val_m (setCachePlru w s b d) = val_m d"
  "ways_m (setCachePlru w s b d) = ways_m d" "sets_m (setCachePlru w s b d) = sets_m d"
  "bytes_m (setCachePlru w s b d) = bytes_m d"
  "length (plru_m (setCachePlru w s b d)) = length (plru_m d)"
  by (simp_all add: setCachePlru_def)

lemma wf_plru_setCachePlru [simp]: "wf_plru (setCachePlru w s b d) = wf_plru d"
  by (simp add: wf_plru_def wf_dir_def)

lemma plru_set_frame [simp]:
  "plru_m (setCacheTag w s t d) = plru_m d" "plru_m (setCacheValid w s b d) = plru_m d"
  by (simp_all add: setCacheTag_def setCacheValid_def)

lemma getCachePlru_set_frame [simp]:
  "getCachePlru (setCacheTag w s t d) = getCachePlru d"
  "getCachePlru (setCacheValid w s b d) = getCachePlru d"
  by (simp_all add: getCachePlru_def fun_eq_iff)

lemma wf_plru_set [simp]:
  "wf_plru (setCacheTag w s t d) = wf_plru d" "wf_plru (setCacheValid w s b d) = wf_plru d"
  by (simp_all add: wf_plru_def)

lemma getCachePlru_setCachePlru:
  assumes "wf_plru d" "w < ways_m d" "s < sets_m d" "v < ways_m d" "t < sets_m d"
  shows "getCachePlru (setCachePlru w s b d) v t = (if v = w \<and> t = s then b else getCachePlru d v t)"
  using assms slot_less [of w "ways_m d" s "sets_m d"]
  by (auto simp: getCachePlru_def setCachePlru_def wf_plru_def nth_list_update slot_inj)

lemma all_bits_loop: "foldl (\<lambda>r w. r \<and> P w) b ws \<longleftrightarrow> b \<and> (\<forall>w \<in> set ws. P w)"
  by (induction ws arbitrary: b) auto

lemma clear_loop:
  fixes way :: nat
  assumes "wf_plru d" "s < sets_m d" "set ws \<subseteq> {..<ways_m d}"
    and "d' = foldl (\<lambda>d w. if w \<noteq> way then setCachePlru w s False d else d) d ws"
  shows "wf_plru d' \<and> tag_m d' = tag_m d \<and> val_m d' = val_m d \<and> ways_m d' = ways_m d
     \<and> sets_m d' = sets_m d \<and> bytes_m d' = bytes_m d
     \<and> (\<forall>v < ways_m d. \<forall>t < sets_m d.
          getCachePlru d' v t = (getCachePlru d v t \<and> \<not> (t = s \<and> v \<noteq> way \<and> v \<in> set ws)))"
  using assms
proof (induction ws arbitrary: d)
  case Nil
  then show ?case by simp
next
  case (Cons w ws)
  let ?d = "if w \<noteq> way then setCachePlru w s False d else d"
  have prems: "wf_plru ?d" "s < sets_m ?d" "set ws \<subseteq> {..<ways_m ?d}"
    "d' = foldl (\<lambda>d w. if w \<noteq> way then setCachePlru w s False d else d) ?d ws"
    using Cons.prems by auto
  have "getCachePlru ?d v t = (getCachePlru d v t \<and> \<not> (t = s \<and> v \<noteq> way \<and> v = w))"
    if "v < ways_m d" "t < sets_m d" for v t
    using Cons.prems that by (auto simp: getCachePlru_setCachePlru)
  with Cons.IH [OF prems] show ?case
    by (cases "w \<noteq> way") auto
qed

text \<open>The whole effect of \<open>replUpdate\<close>.\<close>

lemma replUpdate_effect:
  assumes "wf_plru d" "way < ways_m d" "s < sets_m d"
  defines "full \<equiv> \<forall>v < ways_m d. v \<noteq> way \<longrightarrow> getCachePlru d v s"
  shows "wf_plru (replUpdate d way s)"
    and "v < ways_m d \<Longrightarrow> t < sets_m d \<Longrightarrow> getCachePlru (replUpdate d way s) v t
       = (if t = s then v = way \<or> \<not> full \<and> getCachePlru d v s else getCachePlru d v t)"
proof -
  let ?d = "setCachePlru way s True d"
  let ?c = "foldl (\<lambda>d w. if w \<noteq> way then setCachePlru w s False d else d) ?d [0..<ways_m ?d]"
  have wf: "wf_plru ?d" "s < sets_m ?d" "set [0..<ways_m ?d] \<subseteq> {..<ways_m ?d}"
    using assms by auto
  have "foldl (\<lambda>r w. r \<and> getCachePlru ?d w s) True [0..<ways_m ?d] = full"
    using assms by (auto simp: all_bits_loop getCachePlru_setCachePlru full_def)
  then have upd: "replUpdate d way s = (if full then ?c else ?d)"
    by (simp add: replUpdate_def Let_def)
  note loop = clear_loop [OF wf refl, where way = way]
  show "wf_plru (replUpdate d way s)"
    unfolding upd using loop assms(1) by simp
  assume vt: "v < ways_m d" "t < sets_m d"
  have "getCachePlru ?c v t = (getCachePlru ?d v t \<and> \<not> (t = s \<and> v \<noteq> way))"
    using loop vt by simp
  then show "getCachePlru (replUpdate d way s) v t
       = (if t = s then v = way \<or> \<not> full \<and> getCachePlru d v s else getCachePlru d v t)"
    unfolding upd using assms(1-3) vt by (auto simp: getCachePlru_setCachePlru full_def)
qed

lemma replUpdate_frame:
  "tag_m (replUpdate d w s) = tag_m d \<and> val_m (replUpdate d w s) = val_m d
     \<and> ways_m (replUpdate d w s) = ways_m d \<and> sets_m (replUpdate d w s) = sets_m d
     \<and> bytes_m (replUpdate d w s) = bytes_m d"
proof -
  let ?P = "\<lambda>d'. tag_m d' = tag_m d \<and> val_m d' = val_m d \<and> ways_m d' = ways_m d
     \<and> sets_m d' = sets_m d \<and> bytes_m d' = bytes_m d"
  let ?d = "setCachePlru w s True d"
  have "?P (foldl (\<lambda>d v. if v \<noteq> w then setCachePlru v s False d else d) ?d [0..<ways_m ?d])"
    by (rule foldl_inv) auto
  then show ?thesis by (simp add: replUpdate_def Let_def)
qed

section \<open>The policy satisfies the contract of the base class\<close>

text \<open>With at least two ways, every set keeps a way whose bit is clear.\<close>

definition plru_inv :: "plru_dir \<Rightarrow> bool" where
  "plru_inv d \<longleftrightarrow> wf_plru d \<and> 2 \<le> ways_m d
     \<and> (\<forall>s < sets_m d. \<exists>v < ways_m d. \<not> getCachePlru d v s)"

lemma plru_inv_cong:
  assumes "plru_m d' = plru_m d" "ways_m d' = ways_m d" "sets_m d' = sets_m d" "wf_dir d'"
  shows "plru_inv d \<Longrightarrow> plru_inv d'"
  using assms by (auto simp: plru_inv_def wf_plru_def getCachePlru_def)

lemma plru_inv_replUpdate:
  assumes "plru_inv d" "w < ways_m d" "s < sets_m d"
  shows "plru_inv (replUpdate d w s)"
proof -
  let ?d = "replUpdate d w s"
  have wf: "wf_plru d" "2 \<le> ways_m d" using assms(1) by (simp_all add: plru_inv_def)
  note eff = replUpdate_effect [OF wf(1) assms(2,3)]
  have "\<exists>v < ways_m d. \<not> getCachePlru ?d v t" if "t < sets_m d" for t
  proof (cases "t = s \<and> (\<forall>v < ways_m d. v \<noteq> w \<longrightarrow> getCachePlru d v s)")
    case True
    obtain v where "v < ways_m d" "v \<noteq> w"
      using wf(2) by (metis One_nat_def Suc_1 Suc_le_lessD lessI less_trans zero_neq_one)
    then show ?thesis
      using eff(2) [of v t] True that by auto
  next
    case False
    then obtain v where "v < ways_m d" "\<not> getCachePlru d v t" "t = s \<longrightarrow> v \<noteq> w"
      using assms(1) \<open>t < sets_m d\<close> by (auto simp: plru_inv_def)
    then show ?thesis using eff(2) [of v t] that by (auto split: if_splits)
  qed
  then show ?thesis
    using eff(1) wf(2) replUpdate_frame [of d w s] by (simp add: plru_inv_def)
qed

lemma repl_cases:
  assumes "plru_inv d"
  obtains (empty) way where "way < ways_m d" "\<not> getCacheValid d way (getAddrSet d a)"
      "\<forall>v < way. getCacheValid d v (getAddrSet d a)"
      "repl d a = Inr (False, 0, way, getAddrSet d a,
         replUpdate (setCacheTag way (getAddrSet d a) (getAddrTag d a)
           (setCacheValid way (getAddrSet d a) True d)) way (getAddrSet d a))"
  | (evict) way where "way < ways_m d" "\<not> getCachePlru d way (getAddrSet d a)"
      "\<forall>v < ways_m d. getCacheValid d v (getAddrSet d a)"
      "\<forall>v < way. getCachePlru d v (getAddrSet d a)"
      "repl d a = Inr (True, getCacheTag d way (getAddrSet d a), way, getAddrSet d a,
         replUpdate (setCacheTag way (getAddrSet d a) (getAddrTag d a) d) way (getAddrSet d a))"
proof (cases "find (\<lambda>way. \<not> getCacheValid d way (getAddrSet d a)) [0..<ways_m d]")
  case (Some way)
  moreover from Some have "way < ways_m d \<and> \<not> getCacheValid d way (getAddrSet d a)
      \<and> (\<forall>v < way. getCacheValid d v (getAddrSet d a))"
    by (simp add: find_upt_Some)
  ultimately show thesis using empty [of way] by (simp add: repl_def Let_def)
next
  case None
  then have all: "\<forall>v < ways_m d. getCacheValid d v (getAddrSet d a)"
    by (simp add: find_upt_None)
  have "getAddrSet d a < sets_m d"
    using assms by (simp add: plru_inv_def wf_plru_def getAddrSet_less)
  then obtain way where
    way: "find (\<lambda>way. \<not> getCachePlru d way (getAddrSet d a)) [0..<ways_m d] = Some way"
    using assms by (cases "find (\<lambda>way. \<not> getCachePlru d way (getAddrSet d a)) [0..<ways_m d]")
      (auto simp: plru_inv_def find_upt_None)
  moreover from way have "way < ways_m d \<and> \<not> getCachePlru d way (getAddrSet d a)
      \<and> (\<forall>v < way. getCachePlru d v (getAddrSet d a))"
    by (simp add: find_upt_Some)
  ultimately show thesis using None all evict [of way] by (simp add: repl_def Let_def)
qed

lemma plru_inv_install:
  assumes "plru_inv d" "way < ways_m d" "s < sets_m d"
  shows "plru_inv (replUpdate (setCacheTag way s t d) way s)"
    and "plru_inv (replUpdate (setCacheTag way s t (setCacheValid way s True d)) way s)"
proof -
  have "wf_dir d" using assms(1) by (simp add: plru_inv_def wf_plru_def)
  then show "plru_inv (replUpdate (setCacheTag way s t d) way s)"
    and "plru_inv (replUpdate (setCacheTag way s t (setCacheValid way s True d)) way s)"
    using assms by (auto intro!: plru_inv_replUpdate elim!: plru_inv_cong [rotated 4])
qed

lemma tag_m_set_both:
  "tag_m (setCacheTag w s t (setCacheValid w' s' b d)) = tag_m (setCacheTag w s t d)"
  by (simp add: setCacheTag_def setCacheValid_def)

interpretation plru: replacement_policy plru_inv replUpdate repl
proof unfold_locales
  fix d
  assume "plru_inv d"
  then show "wf_dir d" by (simp add: plru_inv_def wf_plru_def)
next
  fix d w s
  assume "plru_inv d" "w < ways_m d" "s < sets_m d"
  then show "plru_inv (replUpdate d w s)" by (rule plru_inv_replUpdate)
next
  fix d :: plru_dir and w s
  show "tag_m (replUpdate d w s) = tag_m d \<and> val_m (replUpdate d w s) = val_m d
     \<and> ways_m (replUpdate d w s) = ways_m d \<and> sets_m (replUpdate d w s) = sets_m d
     \<and> bytes_m (replUpdate d w s) = bytes_m d" by (rule replUpdate_frame)
next
  fix d w s
  assume "plru_inv d"
  then show "plru_inv (setCacheValid w s False d)"
    by (auto simp: plru_inv_def)
next
  fix d a
  assume "plru_inv d"
  then show "\<exists>e vt w d'. repl d a = Inr (e, vt, w, getAddrSet d a, d')"
    by (rule repl_cases [of d a]) blast+
next
  fix d a e vt w s d'
  assume inv: "plru_inv d" and r: "repl d a = Inr (e, vt, w, s, d')"
  have st: "getAddrSet d a < sets_m d"
    using inv by (simp add: plru_inv_def wf_plru_def getAddrSet_less)
  from inv show "plru_inv d' \<and> w < ways_m d \<and> s = getAddrSet d a
        \<and> ways_m d' = ways_m d \<and> sets_m d' = sets_m d \<and> bytes_m d' = bytes_m d
        \<and> tag_m d' = tag_m (setCacheTag w s (getAddrTag d a) d)
        \<and> val_m d' = val_m (setCacheValid w s True d)
        \<and> (if e then (\<forall>v < ways_m d. getCacheValid d v s) \<and> vt = getCacheTag d w s
           else \<not> getCacheValid d w s \<and> (\<forall>v < w. getCacheValid d v s))"
  proof (rule repl_cases [of d a])
    fix way
    assume "way < ways_m d" "\<not> getCacheValid d way (getAddrSet d a)"
      "\<forall>v < way. getCacheValid d v (getAddrSet d a)"
      "repl d a = Inr (False, 0, way, getAddrSet d a,
         replUpdate (setCacheTag way (getAddrSet d a) (getAddrTag d a)
           (setCacheValid way (getAddrSet d a) True d)) way (getAddrSet d a))"
    then show ?thesis
      using r st inv
      by (auto simp: replUpdate_frame plru_inv_install tag_m_set_both)
  next
    fix way
    assume evict: "way < ways_m d" "\<not> getCachePlru d way (getAddrSet d a)"
      "\<forall>v < ways_m d. getCacheValid d v (getAddrSet d a)"
      "\<forall>v < way. getCachePlru d v (getAddrSet d a)"
      "repl d a = Inr (True, getCacheTag d way (getAddrSet d a), way, getAddrSet d a,
         replUpdate (setCacheTag way (getAddrSet d a) (getAddrTag d a) d) way (getAddrSet d a))"
    have "(val_m d)[way * sets_m d + getAddrSet d a := True] = val_m d"
      using evict(1,3) by (metis getCacheValid_def list_update_id)
    then have "val_m (setCacheValid way (getAddrSet d a) True d) = val_m d"
      by (simp add: setCacheValid_def)
    with evict show ?thesis
      using r st inv by (auto simp: replUpdate_frame plru_inv_install)
  qed
qed

section \<open>The constructor and reset\<close>

lemma setCachePlru_loop:
  assumes "wf_plru d" "w < ways_m d" "set sts \<subseteq> {..<sets_m d}"
    and "d' = foldl (\<lambda>d s. setCachePlru w s False d) d sts"
  shows "wf_plru d' \<and> ways_m d' = ways_m d \<and> sets_m d' = sets_m d \<and> bytes_m d' = bytes_m d
     \<and> val_m d' = val_m d \<and> tag_m d' = tag_m d
     \<and> (\<forall>v < ways_m d. \<forall>t < sets_m d.
          getCachePlru d' v t = (getCachePlru d v t \<and> \<not> (v = w \<and> t \<in> set sts)))"
  using assms
proof (induction sts arbitrary: d)
  case Nil
  then show ?case by simp
next
  case (Cons s sts)
  have "wf_plru (setCachePlru w s False d)" "w < ways_m (setCachePlru w s False d)"
    "set sts \<subseteq> {..<sets_m (setCachePlru w s False d)}"
    "d' = foldl (\<lambda>d s. setCachePlru w s False d) (setCachePlru w s False d) sts"
    using Cons.prems by auto
  from Cons.IH [OF this] show ?case
    using Cons.prems by (auto simp: getCachePlru_setCachePlru)
qed

lemma setCachePlru_loops:
  assumes "wf_plru d" "set ws \<subseteq> {..<ways_m d}"
    and "d' = foldl (\<lambda>d w. foldl (\<lambda>d s. setCachePlru w s False d) d [0..<sets_m d]) d ws"
  shows "wf_plru d' \<and> ways_m d' = ways_m d \<and> sets_m d' = sets_m d \<and> bytes_m d' = bytes_m d
     \<and> val_m d' = val_m d \<and> tag_m d' = tag_m d
     \<and> (\<forall>v < ways_m d. \<forall>t < sets_m d.
          getCachePlru d' v t = (getCachePlru d v t \<and> v \<notin> set ws))"
  using assms
proof (induction ws arbitrary: d)
  case Nil
  then show ?case by simp
next
  case (Cons w ws)
  let ?d = "foldl (\<lambda>d s. setCachePlru w s False d) d [0..<sets_m d]"
  have one: "wf_plru ?d \<and> ways_m ?d = ways_m d \<and> sets_m ?d = sets_m d \<and> bytes_m ?d = bytes_m d
     \<and> val_m ?d = val_m d \<and> tag_m ?d = tag_m d
     \<and> (\<forall>v < ways_m d. \<forall>t < sets_m d.
          getCachePlru ?d v t = (getCachePlru d v t \<and> \<not> (v = w \<and> t \<in> set [0..<sets_m d])))"
    by (rule setCachePlru_loop) (use Cons.prems in auto)
  have "wf_plru ?d" "set ws \<subseteq> {..<ways_m ?d}"
    "d' = foldl (\<lambda>d w. foldl (\<lambda>d s. setCachePlru w s False d) d [0..<sets_m d]) ?d ws"
    using Cons.prems one by auto
  from Cons.IH [OF this] show ?case using one by auto
qed

lemma base_row_loop:
  assumes "wf_plru d" "w < ways_m d" "set sts \<subseteq> {..<sets_m d}"
    and "d' = foldl (\<lambda>d s. setCacheTag w s 0 (setCacheValid w s False d)) d sts"
  shows "wf_plru d' \<and> ways_m d' = ways_m d \<and> sets_m d' = sets_m d \<and> bytes_m d' = bytes_m d
     \<and> (\<forall>v < ways_m d. \<forall>t < sets_m d.
          getCacheValid d' v t = (getCacheValid d v t \<and> \<not> (v = w \<and> t \<in> set sts)))"
  using assms
proof (induction sts arbitrary: d)
  case Nil
  then show ?case by simp
next
  case (Cons s sts)
  let ?d = "setCacheTag w s 0 (setCacheValid w s False d)"
  have "wf_plru ?d" "w < ways_m ?d" "set sts \<subseteq> {..<sets_m ?d}"
    "d' = foldl (\<lambda>d s. setCacheTag w s 0 (setCacheValid w s False d)) ?d sts"
    using Cons.prems by auto
  from Cons.IH [OF this] show ?case
    using Cons.prems by (auto simp: getCacheValid_setCacheValid wf_plru_def)
qed

lemma base_reset_loops:
  assumes "wf_plru d" "set ws \<subseteq> {..<ways_m d}"
    and "d' = foldl (\<lambda>d w. foldl (\<lambda>d s. setCacheTag w s 0 (setCacheValid w s False d))
                d [0..<sets_m d]) d ws"
  shows "wf_plru d' \<and> ways_m d' = ways_m d \<and> sets_m d' = sets_m d \<and> bytes_m d' = bytes_m d
     \<and> (\<forall>v < ways_m d. \<forall>t < sets_m d.
          getCacheValid d' v t = (getCacheValid d v t \<and> v \<notin> set ws))"
  using assms
proof (induction ws arbitrary: d)
  case Nil
  then show ?case by simp
next
  case (Cons w ws)
  let ?d = "foldl (\<lambda>d s. setCacheTag w s 0 (setCacheValid w s False d)) d [0..<sets_m d]"
  have one: "wf_plru ?d \<and> ways_m ?d = ways_m d \<and> sets_m ?d = sets_m d \<and> bytes_m ?d = bytes_m d
     \<and> (\<forall>v < ways_m d. \<forall>t < sets_m d.
          getCacheValid ?d v t = (getCacheValid d v t \<and> \<not> (v = w \<and> t \<in> set [0..<sets_m d])))"
    by (rule base_row_loop) (use Cons.prems in auto)
  have "wf_plru ?d" "set ws \<subseteq> {..<ways_m ?d}"
    "d' = foldl (\<lambda>d w. foldl (\<lambda>d s. setCacheTag w s 0 (setCacheValid w s False d))
                d [0..<sets_m d]) ?d ws"
    using Cons.prems one by auto
  from Cons.IH [OF this] show ?case using one by auto
qed

text \<open>\<open>reset\<close> invalidates every entry and clears every pseudo-LRU bit.\<close>

lemma plru_reset_effect:
  assumes "wf_plru d"
  shows "wf_plru (plru_reset d)" "ways_m (plru_reset d) = ways_m d"
    "sets_m (plru_reset d) = sets_m d" "bytes_m (plru_reset d) = bytes_m d"
    "v < ways_m d \<Longrightarrow> t < sets_m d \<Longrightarrow> \<not> getCacheValid (plru_reset d) v t"
    "v < ways_m d \<Longrightarrow> t < sets_m d \<Longrightarrow> \<not> getCachePlru (plru_reset d) v t"
proof -
  have ws: "set [0..<n] \<subseteq> {..<n}" for n by auto
  note base = base_reset_loops [OF assms ws base_reset_def]
  have wf: "wf_plru (base_reset d)" using base by auto
  note top = setCachePlru_loops [OF wf ws refl]
  have r: "plru_reset d = foldl (\<lambda>d w. foldl (\<lambda>d s. setCachePlru w s False d) d [0..<sets_m d])
      (base_reset d) [0..<ways_m (base_reset d)]"
    by (simp add: plru_reset_def Let_def)
  show "wf_plru (plru_reset d)" "ways_m (plru_reset d) = ways_m d"
    "sets_m (plru_reset d) = sets_m d" "bytes_m (plru_reset d) = bytes_m d"
    unfolding r using base top by simp_all
  have "val_m (plru_reset d) = val_m (base_reset d)" "sets_m (plru_reset d) = sets_m (base_reset d)"
    unfolding r using top by simp_all
  then have val: "getCacheValid (plru_reset d) = getCacheValid (base_reset d)"
    by (simp add: getCacheValid_def fun_eq_iff)
  assume vt: "v < ways_m d" "t < sets_m d"
  then show "\<not> getCacheValid (plru_reset d) v t"
    unfolding val using base by simp
  show "\<not> getCachePlru (plru_reset d) v t"
    unfolding r using base top vt by simp
qed

lemma plru_inv_reset:
  assumes "wf_plru d" "2 \<le> ways_m d"
  shows "plru_inv (plru_reset d)"
  unfolding plru_inv_def
  using assms(2) plru_reset_effect [OF assms(1)] by (auto intro!: exI [of _ 0])

section \<open>Runs of the directory\<close>

text \<open>
  What a client does with the directory: look an address up (updating the policy's bits or
  not), allocate a line after a miss, invalidate an entry or a line.
\<close>

inductive dir_step :: "plru_dir \<Rightarrow> plru_dir \<Rightarrow> bool" where
  step_access: "access replUpdate d a u = (r, d') \<Longrightarrow> dir_step d d'"
| step_refill: "\<not> fst (hit d a) \<Longrightarrow> alloc repl d a = Inr (e, vt, w, s, d') \<Longrightarrow> dir_step d d'"
| step_inval_entry: "w < ways_m d \<Longrightarrow> s < sets_m d \<Longrightarrow> inval_way_set d w s = (r, d') \<Longrightarrow> dir_step d d'"
| step_inval_line: "inval_addr d a = (r, d') \<Longrightarrow> dir_step d d'"

inductive dir_reach :: "plru_dir \<Rightarrow> bool" where
  reach_reset: "wf_plru d \<Longrightarrow> dir_reach (plru_reset d)"
| reach_step: "dir_reach d \<Longrightarrow> dir_step d d' \<Longrightarrow> dir_reach d'"

text \<open>
  No two valid ways of a set hold the same tag, and no stale tag below a valid way equals
  that way's tag: the second part is what makes \<open>inval(addr)\<close>, which looks at tags only,
  reach the valid way.
\<close>

definition tags_distinct :: "plru_dir \<Rightarrow> bool" where
  "tags_distinct d \<longleftrightarrow>
     (\<forall>s < sets_m d. \<forall>v < ways_m d. \<forall>w < ways_m d.
        v \<noteq> w \<longrightarrow> getCacheValid d w s \<longrightarrow> getCacheValid d v s \<or> v < w \<longrightarrow>
        getCacheTag d v s \<noteq> getCacheTag d w s)"

lemma tags_distinctD:
  assumes "tags_distinct d" "s < sets_m d" "v < ways_m d" "w < ways_m d" "v \<noteq> w"
    "getCacheValid d w s" "getCacheValid d v s \<or> v < w"
  shows "getCacheTag d v s \<noteq> getCacheTag d w s"
  using assms unfolding tags_distinct_def by blast

lemma tags_distinct_cong:
  assumes "tags_distinct d" "tag_m d' = tag_m d" "val_m d' = val_m d"
    "ways_m d' = ways_m d" "sets_m d' = sets_m d"
  shows "tags_distinct d'"
  using assms by (simp add: tags_distinct_def getCacheValid_def getCacheTag_def)

lemma tags_distinct_inval:
  assumes "tags_distinct d" "wf_dir d" "w < ways_m d" "s < sets_m d"
  shows "tags_distinct (setCacheValid w s False d)"
  unfolding tags_distinct_def
proof (intro allI impI)
  fix s' v u
  assume a: "s' < sets_m (setCacheValid w s False d)" "v < ways_m (setCacheValid w s False d)"
    "u < ways_m (setCacheValid w s False d)" "v \<noteq> u"
    "getCacheValid (setCacheValid w s False d) u s'"
    "getCacheValid (setCacheValid w s False d) v s' \<or> v < u"
  then have "getCacheValid d u s'" "getCacheValid d v s' \<or> v < u"
    using assms(2-4) by (auto simp: getCacheValid_setCacheValid split: if_splits)
  then show "getCacheTag (setCacheValid w s False d) v s' \<noteq> getCacheTag (setCacheValid w s False d) u s'"
    using a tags_distinctD [OF assms(1), of s' v u] by simp
qed

lemma tags_distinct_repl:
  assumes "tags_distinct d" "plru_inv d" "\<not> fst (hit d a)" and r: "repl d a = Inr (e, vt, w, s, d')"
  shows "tags_distinct d'"
  unfolding tags_distinct_def
proof (intro allI impI)
  note sp = plru.repl_spec [OF assms(2) r]
  note en = plru.repl_entries [OF assms(2) r]
  fix t v u
  assume a: "t < sets_m d'" "v < ways_m d'" "u < ways_m d'" "v \<noteq> u"
    "getCacheValid d' u t" "getCacheValid d' v t \<or> v < u"
  have miss: "getCacheValid d x s \<Longrightarrow> getCacheTag d x s \<noteq> getAddrTag d a" if "x < ways_m d" for x
    using assms(3) sp that by (auto simp: fst_hit holds_def)
  show "getCacheTag d' v t \<noteq> getCacheTag d' u t"
  proof (cases "t = s")
    case False
    then show ?thesis using a sp en tags_distinctD [OF assms(1), of t v u] by simp
  next
    case True
    consider "v = w" | "u = w" | "v \<noteq> w" "u \<noteq> w" by blast
    then show ?thesis
    proof cases
      case 1
      then show ?thesis using a sp en True miss [of u] by auto
    next
      case 2
      have "getCacheValid d v s"
        using 2 a sp en True by (cases e) auto
      then show ?thesis using 2 a sp en True miss [of v] by auto
    next
      case 3
      then show ?thesis using a sp en True tags_distinctD [OF assms(1), of t v u] by simp
    qed
  qed
qed

lemma inval_addr_cases:
  obtains w where "w < ways_m d" "getCacheTag d w (getAddrSet d a) = getAddrTag d a"
      "\<forall>v < w. getCacheTag d v (getAddrSet d a) \<noteq> getAddrTag d a"
      "inval_addr d a = (True, setCacheValid w (getAddrSet d a) False d)"
  | "\<forall>w < ways_m d. getCacheTag d w (getAddrSet d a) \<noteq> getAddrTag d a" "inval_addr d a = (False, d)"
proof (cases "find (\<lambda>way. getCacheTag d way (getAddrSet d a) = getAddrTag d a) [0..<ways_m d]")
  case None
  show thesis
    by (rule that(2)) (use None in \<open>simp_all add: inval_addr_def Let_def, simp_all add: find_upt_None\<close>)
next
  case (Some w)
  show thesis
    by (rule that(1) [of w])
      (use Some in \<open>simp_all add: inval_addr_def Let_def, simp_all add: find_upt_Some\<close>)
qed

lemma dir_step_inv:
  assumes "dir_step d d'" "plru_inv d" "tags_distinct d"
  shows "plru_inv d' \<and> tags_distinct d' \<and> ways_m d' = ways_m d \<and> sets_m d' = sets_m d
     \<and> bytes_m d' = bytes_m d"
  using assms
proof (induction rule: dir_step.induct)
  case (step_access d a u r d')
  have wf: "wf_dir d" using step_access.prems(1) by (rule plru.inv_wf)
  show ?case
    by (rule hit_cases [of d a])
      (use step_access wf getAddrSet_less [OF wf, of a] in
        \<open>auto simp: access_def holds_def replUpdate_frame split: if_splits
          intro!: plru_inv_replUpdate elim!: tags_distinct_cong\<close>)
next
  case (step_refill d a e vt w s d')
  then have r: "repl d a = Inr (e, vt, w, s, d')" by (simp add: alloc_def)
  from step_refill show ?case
    using plru.repl_spec [OF step_refill.prems(1) r] tags_distinct_repl [OF _ _ _ r] by simp
next
  case (step_inval_entry w d s r d')
  have "wf_dir d" using step_inval_entry.prems(1) by (rule plru.inv_wf)
  then show ?case
    using step_inval_entry plru.inval_inv [of d w s] tags_distinct_inval
    by (auto simp: inval_way_set_def)
next
  case (step_inval_line d a r d')
  have wf: "wf_dir d" using step_inval_line.prems(1) by (rule plru.inv_wf)
  show ?case
    by (rule inval_addr_cases [of d a])
      (use step_inval_line wf getAddrSet_less [OF wf, of a] plru.inval_inv tags_distinct_inval in auto)
qed

text \<open>What holds with any number of ways, a single one included.\<close>

lemma repl_frame:
  assumes "wf_plru d" and "repl d a = Inr (e, vt, w, s, d')"
  shows "wf_plru d' \<and> ways_m d' = ways_m d"
proof -
  have st: "getAddrSet d a < sets_m d" using assms(1) by (simp add: wf_plru_def getAddrSet_less)
  have upd: "wf_plru (replUpdate x w (getAddrSet d a)) \<and> ways_m (replUpdate x w (getAddrSet d a)) = ways_m d"
    if "wf_plru x" "ways_m x = ways_m d" "sets_m x = sets_m d" "w < ways_m d" for x w
    using that st replUpdate_effect(1) [of x w] replUpdate_frame [of x w] by simp
  show ?thesis
    using assms
    by (auto simp: repl_def Let_def find_upt_Some intro!: upd [THEN conjunct1] upd [THEN conjunct2]
        split: option.splits)
qed

lemma dir_step_frame:
  assumes "dir_step d d'" and "wf_plru d"
  shows "wf_plru d' \<and> ways_m d' = ways_m d"
  using assms
proof (induction rule: dir_step.induct)
  case (step_access d a u r d')
  have wf: "wf_dir d" using step_access.prems by (simp add: wf_plru_def)
  show ?case
    by (rule hit_cases [of d a])
      (use step_access getAddrSet_less [OF wf, of a] in
        \<open>auto simp: access_def holds_def replUpdate_frame replUpdate_effect(1) split: if_splits\<close>)
next
  case (step_refill d a e vt w s d')
  then show ?case using repl_frame by (simp add: alloc_def)
next
  case (step_inval_entry w d s r d')
  then show ?case by (auto simp: inval_way_set_def)
next
  case (step_inval_line d a r d')
  show ?case by (rule inval_addr_cases [of d a]) (use step_inval_line in auto)
qed

lemma dir_reach_inv: "dir_reach d \<Longrightarrow> wf_plru d \<and> tags_distinct d \<and> (2 \<le> ways_m d \<longrightarrow> plru_inv d)"
proof (induction rule: dir_reach.induct)
  case (reach_reset d)
  then show ?case
    using plru_reset_effect [OF reach_reset(1)] plru_inv_reset [OF reach_reset]
    by (auto simp: tags_distinct_def)
next
  case (reach_step d d')
  then have f: "wf_plru d'" "ways_m d' = ways_m d" using dir_step_frame by blast+
  show ?case
  proof (cases "2 \<le> ways_m d")
    case True
    then show ?thesis using dir_step_inv [OF reach_step.hyps(2)] reach_step.IH f by auto
  next
    case False
    then have "tags_distinct d'" using f(2) by (auto simp: tags_distinct_def)
    then show ?thesis using False f by simp
  qed
qed

section \<open>Properties\<close>

lemma reach_wf: "dir_reach d \<Longrightarrow> wf_dir d"
  using dir_reach_inv by (auto simp: wf_plru_def)

lemma reach_unique:
  assumes "dir_reach d" "holds d a v" "holds d a w"
  shows "v = w"
proof (rule ccontr)
  assume "v \<noteq> w"
  have td: "tags_distinct d" using assms(1) dir_reach_inv by blast
  have s: "getAddrSet d a < sets_m d" using assms(1) reach_wf getAddrSet_less by blast
  show False
    using tags_distinctD [OF td s, of v w] assms(2,3) \<open>v \<noteq> w\<close> by (simp add: holds_def)
qed

lemma used_line_kept:
  assumes "plru_inv d" and "fst (hit d b)"
  shows "\<exists>e vt w s d'. repl (snd (access replUpdate d b True)) a = Inr (e, vt, w, s, d')
     \<and> fst (hit d' b)"
proof -
  have inv: "plru_inv d" "wf_dir d" "wf_plru d"
    using assms(1) by (simp_all add: plru_inv_def wf_plru_def)
  obtain v where v: "hit d b = (True, v, getAddrSet d b)" "holds d b v"
    using assms(2) by (rule_tac hit_cases [of d b]) auto
  let ?s = "getAddrSet d b" and ?d = "replUpdate d v (getAddrSet d b)"
  have acc: "snd (access replUpdate d b True) = ?d" by (simp add: access_def v)
  have vs: "v < ways_m d" "?s < sets_m d"
    using v(2) inv(2) by (simp_all add: holds_def getAddrSet_less)
  have inv': "plru_inv ?d" using inv(1) vs by (rule plru_inv_replUpdate)
  have fr: "ways_m ?d = ways_m d" "getAddrSet ?d = getAddrSet d"
    using replUpdate_frame [of d v ?s] addr_fields_cong [of ?d d] by simp_all
  have hb: "holds ?d b v"
    using plru.access_keeps(2) [of d b True _ ?d b v] v by (simp add: access_def)
  obtain e vt w s d' where r: "repl ?d a = Inr (e, vt, w, s, d')"
    using plru.repl_total [OF inv'] by blast
  note sp = plru.repl_spec [OF inv' r]
  have "w \<noteq> v \<or> s \<noteq> ?s"
  proof (rule repl_cases [OF inv', of a])
    fix way
    assume "way < ways_m ?d" "\<not> getCacheValid ?d way (getAddrSet ?d a)"
      and "repl ?d a = Inr (False, 0, way, getAddrSet ?d a,
         replUpdate (setCacheTag way (getAddrSet ?d a) (getAddrTag ?d a)
           (setCacheValid way (getAddrSet ?d a) True ?d)) way (getAddrSet ?d a))"
    then show ?thesis using r hb fr by (auto simp: holds_def)
  next
    fix way
    assume w: "way < ways_m ?d" "\<not> getCachePlru ?d way (getAddrSet ?d a)"
      and "repl ?d a = Inr (True, getCacheTag ?d way (getAddrSet ?d a), way, getAddrSet ?d a,
         replUpdate (setCacheTag way (getAddrSet ?d a) (getAddrTag ?d a) ?d) way (getAddrSet ?d a))"
    then have "w = way" "s = getAddrSet d a" using r fr by auto
    then show ?thesis
      using w fr replUpdate_effect(2) [OF inv(3) vs, of v ?s] vs by auto
  qed
  then have "holds d' b v"
    using plru.repl_keeps [OF inv' r hb] fr by auto
  with r show ?thesis unfolding acc by (auto simp: fst_hit)
qed

text \<open>The only way of a set is valid and its bit is set: there is no candidate.\<close>

lemma used_only_way:
  assumes "wf_plru d" and "ways_m d = 1" and "fst (hit d b)" and "getAddrSet d a = getAddrSet d b"
  shows "repl (snd (access replUpdate d b True)) a = Inl Assertion_failed"
proof -
  let ?s = "getAddrSet d b"
  obtain v where v: "hit d b = (True, v, ?s)" "holds d b v"
    using assms(3) by (rule_tac hit_cases [of d b]) auto
  have v0: "v = 0" "getCacheValid d 0 ?s" using v(2) assms(2) by (auto simp: holds_def)
  have ws: "0 < ways_m d" "?s < sets_m d"
    using assms(1,2) by (simp_all add: wf_plru_def getAddrSet_less)
  let ?d = "replUpdate d 0 ?s"
  have acc: "snd (access replUpdate d b True) = ?d" by (simp add: access_def v v0)
  have fr: "ways_m ?d = 1" "getAddrSet ?d = getAddrSet d" "getCacheValid ?d 0 ?s"
    using replUpdate_frame [of d 0 ?s] addr_fields_cong [of ?d d] assms(2) v0
    by (simp_all add: getCacheValid_def)
  have "getCachePlru ?d 0 ?s" using replUpdate_effect(2) [OF assms(1) ws, of 0 ?s] ws by simp
  then show ?thesis using fr assms(4) unfolding acc by (simp add: repl_def Let_def)
qed

text \<open>
  C31: With two ways or more, in every reachable directory, the pseudo-LRU replacement never runs
  out of candidates, and it never evicts the line that was used last: after a lookup that hits
  \<open>b\<close> the next replacement (for any address) succeeds and \<open>b\<close> still hits. A direct-mapped
  directory, of one way, has no other candidate: the next replacement in the set of \<open>b\<close> fails
  the assertion of the code.
\<close>

theorem recently_used_line_survives:
  assumes "dir_reach d" and "fst (hit d b)"
  shows "if 2 \<le> ways_m d
     then \<exists>e vt w s d'. repl (snd (access replUpdate d b True)) a = Inr (e, vt, w, s, d') \<and> fst (hit d' b)
     else getAddrSet d a = getAddrSet d b \<longrightarrow>
       repl (snd (access replUpdate d b True)) a = Inl Assertion_failed"
proof -
  have "1 \<le> ways_m d"
    using assms(2) by (rule_tac hit_cases [of d b]) (auto simp: holds_def)
  then show ?thesis
    using used_line_kept [OF _ assms(2), of a] used_only_way [OF _ _ assms(2), of a]
      dir_reach_inv [OF assms(1)] by (cases "ways_m d = 1") auto
qed

text \<open>A two-way, one-set directory for the examples below.\<close>

definition ex_dir :: plru_dir where
  "ex_dir = plru_reset \<lparr>dir_name_m = ''dir'', ways_m = 2, sets_m = 1, bytes_m = 64,
     tag_m = [9, 9], val_m = [True, True], plru_m = [True, True]\<rparr>"

lemma ex_dir_reach: "dir_reach ex_dir"
  unfolding ex_dir_def by (rule reach_reset) (simp add: wf_plru_def wf_dir_def)

lemma ex_dir_eq:
  "ex_dir = \<lparr>dir_name_m = ''dir'', ways_m = 2, sets_m = 1, bytes_m = 64,
     tag_m = [0, 0], val_m = [False, False], plru_m = [False, False]\<rparr>"
  by (simp add: ex_dir_def plru_reset_def base_reset_def setCachePlru_def setCacheTag_def
      setCacheValid_def upt_rec)

definition ex_dir1 :: plru_dir where
  "ex_dir1 = \<lparr>dir_name_m = ''dir'', ways_m = 2, sets_m = 1, bytes_m = 64,
     tag_m = [5, 0], val_m = [True, False], plru_m = [True, False]\<rparr>"

lemma ex_dir_miss: "\<not> fst (hit ex_dir 320)"
  by (simp add: ex_dir_eq hit_def getAddrSet_def getAddrTag_def getCacheValid_def upt_rec)

lemma ex_dir1_repl: "repl ex_dir 320 = Inr (False, 0, 0, 0, ex_dir1)"
  by (simp add: ex_dir_eq ex_dir1_def repl_def getAddrSet_def getAddrTag_def getCacheValid_def
      upt_rec setCacheTag_def setCacheValid_def replUpdate_def setCachePlru_def getCachePlru_def Let_def)

lemma ex_dir1_reach: "dir_reach ex_dir1"
  by (rule reach_step [OF ex_dir_reach],
      rule step_refill [OF ex_dir_miss, of False 0 0 0]) (simp add: alloc_def ex_dir1_repl)

lemma ex_dir1_hit: "hit ex_dir1 320 = (True, 0, 0)"
  by (simp add: ex_dir1_def hit_def getAddrSet_def getAddrTag_def getCacheValid_def
      getCacheTag_def upt_rec)

theorem recently_used_line_survives_witness:
  "\<exists>e vt w s d'. repl (snd (access replUpdate ex_dir1 320 True)) 640 = Inr (e, vt, w, s, d')
     \<and> fst (hit d' 320)"
proof -
  have "ways_m ex_dir1 = 2" by (simp add: ex_dir1_def)
  then show ?thesis
    using recently_used_line_survives [OF ex_dir1_reach, of 320 640] by (simp add: ex_dir1_hit)
qed

text \<open>
  what an allocation after a miss does to the set of cached lines. In every reachable
  directory of two ways or more it succeeds, the new line hits in the returned way, and an address hits
  afterwards exactly if it belongs to the new line, or hit before and does not belong to
  the evicted line, whose tag is the returned one.
\<close>

theorem refill_updates_cached_lines:
  assumes "dir_reach d" and "2 \<le> ways_m d" and "\<not> fst (hit d a)"
  shows "\<exists>e vt w d'. alloc repl d a = Inr (e, vt, w, getAddrSet d a, d')
     \<and> hit d' a = (True, w, getAddrSet d a)
     \<and> (\<forall>b. fst (hit d' b) \<longleftrightarrow>
            getAddrSet d b = getAddrSet d a \<and> getAddrTag d b = getAddrTag d a
            \<or> fst (hit d b)
              \<and> \<not> (e \<and> getAddrSet d b = getAddrSet d a \<and> getAddrTag d b = vt))"
proof -
  have inv: "plru_inv d" and wf: "wf_dir d"
    using dir_reach_inv [OF assms(1)] reach_wf [OF assms(1)] assms(2) by simp_all
  obtain e vt w d' where r: "repl d a = Inr (e, vt, w, getAddrSet d a, d')"
    using plru.repl_total [OF inv] by blast
  note sp = plru.repl_spec [OF inv r]
  have hita: "hit d' a = (True, w, getAddrSet d a)"
    by (rule plru.repl_then_hit [OF inv assms(3) r])
  have reach': "dir_reach d'"
    by (rule reach_step [OF assms(1) step_refill [OF assms(3)]]) (simp add: alloc_def r)
  have ad: "getAddrSet d' = getAddrSet d" "getAddrTag d' = getAddrTag d"
    by (rule plru.repl_addr [OF inv r])+
  have w': "holds d' a w" using hita by (rule_tac hit_cases [of d' a]) auto
  have "fst (hit d' b) \<longleftrightarrow>
            getAddrSet d b = getAddrSet d a \<and> getAddrTag d b = getAddrTag d a
            \<or> fst (hit d b) \<and> \<not> (e \<and> getAddrSet d b = getAddrSet d a \<and> getAddrTag d b = vt)"
    (is "_ \<longleftrightarrow> ?new \<or> ?old \<and> \<not> ?victim") for b
  proof
    assume "fst (hit d' b)"
    then obtain v where v: "holds d' b v" by (auto simp: fst_hit)
    show "?new \<or> ?old \<and> \<not> ?victim"
    proof (cases ?new)
      case False
      then have hv: "holds d b v" using plru.repl_only_adds [OF inv r v] by blast
      have "\<not> ?victim"
      proof
        assume vic: ?victim
        then have "holds d b w" using sp wf by (auto simp: holds_def)
        then have "v = w" using reach_unique [OF assms(1) hv] by simp
        then have "holds d' a v" using w' by simp
        then show False using v vic False by (auto simp: holds_def ad)
      qed
      then show ?thesis using hv by (auto simp: fst_hit)
    qed simp
  next
    assume rhs: "?new \<or> ?old \<and> \<not> ?victim"
    show "fst (hit d' b)"
    proof (cases ?new)
      case True
      then have "holds d' b w" using w' by (simp add: holds_def ad)
      then show ?thesis by (auto simp: fst_hit)
    next
      case False
      with rhs obtain v where v: "holds d b v" and nv: "\<not> ?victim" by (auto simp: fst_hit)
      have "getAddrSet d b \<noteq> getAddrSet d a \<or> v \<noteq> w"
        using v nv sp by (cases e) (auto simp: holds_def)
      then show ?thesis using plru.repl_keeps [OF inv r v] by (auto simp: fst_hit)
    qed
  qed
  with r hita show ?thesis by (auto simp: alloc_def)
qed

theorem refill_updates_cached_lines_witness:
  "\<exists>e vt w d'. alloc repl ex_dir 320 = Inr (e, vt, w, getAddrSet ex_dir 320, d')
     \<and> hit d' 320 = (True, w, getAddrSet ex_dir 320)"
proof -
  have "2 \<le> ways_m ex_dir" by (simp add: ex_dir_eq)
  then show ?thesis using refill_updates_cached_lines [OF ex_dir_reach _ ex_dir_miss] by blast
qed

text \<open>
  C36: Invalidating a line. Although \<open>inval(addr)\<close> stops at the first way whose tag matches,
  valid or not, in every reachable directory, of any number of ways, the address no longer hits
  afterwards, and the other lines are untouched.
\<close>

theorem inval_removes_exactly_the_line:
  assumes "dir_reach d"
  shows "fst (hit (snd (inval_addr d a)) b)
     \<longleftrightarrow> fst (hit d b) \<and> \<not> (getAddrSet d b = getAddrSet d a \<and> getAddrTag d b = getAddrTag d a)"
proof (rule inval_addr_cases [of d a])
  fix w
  assume w: "w < ways_m d" "getCacheTag d w (getAddrSet d a) = getAddrTag d a"
    "\<forall>v < w. getCacheTag d v (getAddrSet d a) \<noteq> getAddrTag d a"
    and i: "inval_addr d a = (True, setCacheValid w (getAddrSet d a) False d)"
  let ?s = "getAddrSet d a" and ?d = "setCacheValid w (getAddrSet d a) False d"
  have wf: "wf_dir d" and td: "tags_distinct d"
    using reach_wf [OF assms] dir_reach_inv [OF assms] by simp_all
  have s: "?s < sets_m d" using wf by (rule getAddrSet_less)
  have ad: "getAddrSet ?d = getAddrSet d" "getAddrTag ?d = getAddrTag d"
    using addr_fields_cong [of ?d d] by simp_all
  have h: "holds ?d b v \<longleftrightarrow> holds d b v \<and> \<not> (v = w \<and> getAddrSet d b = ?s)" for v
    using w(1) s wf getAddrSet_less [OF wf, of b]
    by (auto simp: holds_def ad getCacheValid_setCacheValid split: if_splits)
  have only: "v = w" if "holds d a v" for v
  proof (rule ccontr)
    assume "v \<noteq> w"
    have v: "v < ways_m d" "getCacheValid d v ?s" "getCacheTag d v ?s = getAddrTag d a"
      using that by (simp_all add: holds_def)
    then have "w < v" using w(3) \<open>v \<noteq> w\<close> by (metis linorder_neqE_nat)
    then show False
      using tags_distinctD [OF td s w(1) v(1)] v w(2) \<open>v \<noteq> w\<close> by auto
  qed
  have line: "holds d b = holds d a" if "getAddrSet d b = ?s" "getAddrTag d b = getAddrTag d a"
    using that by (auto simp: holds_def)
  have nline: "v \<noteq> w" if "holds d b v" "getAddrSet d b = ?s" "getAddrTag d b \<noteq> getAddrTag d a" for v
    using that w(2) by (auto simp: holds_def)
  show ?thesis
    using h only line nline by (auto simp: i fst_hit)
next
  assume nt: "\<forall>w < ways_m d. getCacheTag d w (getAddrSet d a) \<noteq> getAddrTag d a"
    and i: "inval_addr d a = (False, d)"
  then show ?thesis by (auto simp: fst_hit holds_def)
qed

theorem inval_removes_exactly_the_line_witness:
  "\<not> fst (hit (snd (inval_addr ex_dir1 320)) 320)"
  by (subst inval_removes_exactly_the_line) (simp_all add: ex_dir1_reach)

text \<open>
  in every reachable directory an address is held by at most one way of its set.
\<close>

theorem at_most_one_way_per_line:
  assumes "dir_reach d" and "v < ways_m d" and "w < ways_m d" and "s < sets_m d"
    and "getCacheValid d v s" and "getCacheValid d w s"
    and "getCacheTag d v s = getCacheTag d w s"
  shows "v = w"
  using tags_distinctD [of d s v w] dir_reach_inv [OF assms(1)] assms by blast

theorem at_most_one_way_per_line_witness: "getCacheValid ex_dir1 0 0 \<and> (0 :: nat) = 0"
  using at_most_one_way_per_line [OF ex_dir1_reach, of 0 0 0]
  by (simp add: ex_dir1_def getCacheValid_def)

text \<open>
  \<open>inval(addr)\<close> reports success for a line that is not in the cache: right after \<open>reset\<close>
  every address with tag 0 is reported as invalidated.
\<close>

lemma inval_reports_stale_tag: "\<not> fst (hit ex_dir 0) \<and> fst (inval_addr ex_dir 0)"
  by (simp add: ex_dir_eq hit_def inval_addr_def getAddrSet_def getAddrTag_def getCacheValid_def
      getCacheTag_def upt_rec)

text \<open>
  a direct-mapped directory cannot replace a line. The only pseudo-LRU bit of a set is
  set by the first allocation and never cleared, so the next allocation in the same set
  runs into the assertion "all plru bits are set".
\<close>

theorem direct_mapped_refill_asserts:
  assumes "wf_plru d" and "ways_m d = 1"
    and r: "repl (plru_reset d) a = Inr (e, vt, w, s, d1)"
    and "getAddrSet d b = getAddrSet d a"
  shows "repl d1 b = Inl Assertion_failed"
proof -
  note eff = plru_reset_effect [OF assms(1)]
  let ?d = "plru_reset d" and ?s = "getAddrSet d a"
  have ad: "getAddrSet ?d = getAddrSet d" using eff addr_fields_cong [of ?d d] by simp
  have s: "?s < sets_m d" using assms(1) by (simp add: wf_plru_def getAddrSet_less)
  let ?dz = "setCacheTag 0 ?s (getAddrTag ?d a) (setCacheValid 0 ?s True ?d)"
  have inv: "\<not> getCacheValid ?d 0 ?s" using eff(5) [of 0 ?s] s assms(2) by simp
  have d1: "d1 = replUpdate ?dz 0 ?s"
    using r inv assms(2) eff(2) by (auto simp: repl_def Let_def ad)
  have wf0: "wf_plru ?dz" "0 < ways_m ?dz" "?s < sets_m ?dz" using eff assms(2) s by simp_all
  have val: "getCacheValid (setCacheValid 0 ?s True ?d) 0 ?s"
    using getCacheValid_setCacheValid [of ?d 0 ?s 0 ?s True] eff(1-3) s assms(2)
    by (simp add: wf_plru_def)
  have fr: "ways_m d1 = 1" "getAddrSet d1 = getAddrSet d" "getCacheValid d1 0 ?s"
    using replUpdate_frame [of ?dz 0 ?s] eff(1-4) assms(2) addr_fields_cong [of d1 d] val
    by (simp_all add: d1 getCacheValid_def wf_plru_def)
  have "getCachePlru d1 0 ?s"
    unfolding d1 using replUpdate_effect(2) [OF wf0, of 0 ?s] wf0 by simp
  then show ?thesis using fr assms(4) by (simp add: repl_def Let_def)
qed

theorem direct_mapped_refill_asserts_witness:
  "\<exists>d1. repl (plru_reset \<lparr>dir_name_m = ''dir'', ways_m = 1, sets_m = 1, bytes_m = 64,
       tag_m = [0], val_m = [False], plru_m = [False]\<rparr>) 0 = Inr (False, 0, 0, 0, d1)
     \<and> repl d1 64 = Inl Assertion_failed"
proof -
  let ?d = "\<lparr>dir_name_m = ''dir'', ways_m = 1, sets_m = 1, bytes_m = 64,
       tag_m = [0], val_m = [False], plru_m = [False]\<rparr> :: plru_dir"
  have r: "repl (plru_reset ?d) 0 = Inr (False, 0, 0, 0, ?d\<lparr>val_m := [True], plru_m := [True]\<rparr>)"
    by (simp add: plru_reset_def base_reset_def setCachePlru_def setCacheTag_def
        setCacheValid_def upt_rec repl_def getAddrSet_def getAddrTag_def getCacheValid_def
        replUpdate_def getCachePlru_def Let_def)
  have "repl (?d\<lparr>val_m := [True], plru_m := [True]\<rparr>) 64 = Inl Assertion_failed"
    by (rule direct_mapped_refill_asserts [OF _ _ r])
      (simp_all add: wf_plru_def wf_dir_def getAddrSet_def)
  with r show ?thesis by blast
qed

end
