(* ===== verification/Cache_Data.thy ===== *)
theory Cache_Data
  imports Prelude
begin

text \<open>
  \<open>rtl/tb/sc_verif_lib/modules/generic_cache/include/generic_cache_data.h\<close>: the data array of a
  set-associative cache, a vector of 64-bit words indexed by way, set and word. Sizes are
  natural numbers (\<open>size_t\<close> products are taken not to overflow); the debug output is left out.
\<close>

section \<open>State and operations\<close>

record cache_data =
  data_name_m :: string
  data_m :: "u64 list"
  data_ways_m :: nat
  data_sets_m :: nat
  data_words_m :: nat

definition cache_data_new :: "string \<Rightarrow> nat \<Rightarrow> nat \<Rightarrow> nat \<Rightarrow> cache_data outcome" where
  "cache_data_new n nways nsets nwords =
     (if 0 < nsets \<and> 0 < nways \<and> 0 < nwords then
        Inr \<lparr>data_name_m = n, data_m = replicate (nways * nsets * nwords) 0, data_ways_m = nways,
             data_sets_m = nsets, data_words_m = nwords\<rparr>
      else Inl Assertion_failed)"

definition data_addr_set :: "cache_data \<Rightarrow> u64 \<Rightarrow> nat" where
  "data_addr_set d addr = (unat addr div (data_words_m d * 8)) mod data_sets_m d"

definition data_addr_word :: "cache_data \<Rightarrow> u64 \<Rightarrow> nat" where
  "data_addr_word d addr = (unat addr div 8) mod data_words_m d"

definition data_index :: "cache_data \<Rightarrow> nat \<Rightarrow> nat \<Rightarrow> nat \<Rightarrow> nat" where
  "data_index d way st word = way * (data_sets_m d * data_words_m d) + st * data_words_m d + word"

definition getCacheData :: "cache_data \<Rightarrow> nat \<Rightarrow> nat \<Rightarrow> nat \<Rightarrow> u64 outcome" where
  "getCacheData d way st word =
     (let i = data_index d way st word
      in if i < length (data_m d) then Inr (data_m d ! i) else Inl Undefined_behaviour)"

text \<open>
  The byte mask. \<open>0xff << (i * 8)\<close> is an \<open>int\<close> of 32 bits: a shift by 32 or more has no meaning,
  and \<open>0xff << 24\<close> is negative, so that it is extended with ones when it meets the 64-bit mask.
\<close>

definition byte_shift :: "nat \<Rightarrow> u64 outcome" where
  "byte_shift i =
     (if i * 8 < 32 then Inr (scast (push_bit (i * 8) 0xff :: u32)) else Inl Undefined_behaviour)"

definition data_mask :: "u8 \<Rightarrow> u64 outcome" where
  "data_mask be =
     fold_ok (\<lambda>i m. if drop_bit i be AND 1 \<noteq> 0 then andthen (byte_shift i) (\<lambda>x. Inr (m OR x)) else Inr m)
       [0..<8] 0"

definition data_write :: "u64 \<Rightarrow> u8 \<Rightarrow> nat \<Rightarrow> nat \<Rightarrow> nat \<Rightarrow> cache_data \<Rightarrow> cache_data outcome" where
  "data_write wdata be way st word d =
     andthen (data_mask be) (\<lambda>m.
     andthen (getCacheData d way st word) (\<lambda>prev.
       Inr (d\<lparr>data_m := (data_m d)[data_index d way st word := (prev AND NOT m) OR (wdata AND m)]\<rparr>)))"

definition data_read :: "nat \<Rightarrow> nat \<Rightarrow> nat \<Rightarrow> cache_data \<Rightarrow> u64 outcome" where
  "data_read way st word d = getCacheData d way st word"

section \<open>Indices and masks\<close>

definition wf_cache_data :: "cache_data \<Rightarrow> bool" where
  "wf_cache_data d \<longleftrightarrow> length (data_m d) = data_ways_m d * data_sets_m d * data_words_m d"

definition in_cache :: "cache_data \<Rightarrow> nat \<times> nat \<times> nat \<Rightarrow> bool" where
  "in_cache d = (\<lambda>(way, st, word). way < data_ways_m d \<and> st < data_sets_m d \<and> word < data_words_m d)"

lemma mixed_radix_less:
  fixes a b m n :: nat
  assumes "a < m" and "b < n"
  shows "a * n + b < m * n"
proof -
  have "a * n + b < Suc a * n" using assms(2) by simp
  also have "\<dots> \<le> m * n" using assms(1) by (intro mult_le_mono1) simp
  finally show ?thesis .
qed

lemma mixed_radix_inject:
  fixes a b n :: nat
  assumes "b < n" and "b' < n" and "a * n + b = a' * n + b'"
  shows "a = a' \<and> b = b'"
proof -
  have "(a * n + b) div n = a" "(a' * n + b') div n = a'" using assms(1,2) by simp_all
  moreover have "(a * n + b) mod n = b" "(a' * n + b') mod n = b'" using assms(1,2) by simp_all
  ultimately show ?thesis using assms(3) by simp
qed

lemma data_index_eq:
  "data_index d way st word = (way * data_sets_m d + st) * data_words_m d + word"
  by (simp add: data_index_def add_mult_distrib mult.assoc)

lemma data_index_less:
  assumes "wf_cache_data d" and "in_cache d (way, st, word)"
  shows "data_index d way st word < length (data_m d)"
  using assms by (simp add: data_index_eq wf_cache_data_def in_cache_def mixed_radix_less)

lemma data_index_inject:
  assumes "in_cache d (way, st, word)" and "in_cache d (way', st', word')"
  shows "data_index d way st word = data_index d way' st' word'
     \<longleftrightarrow> (way, st, word) = (way', st', word')"
proof
  assume eq: "data_index d way st word = data_index d way' st' word'"
  have b: "word < data_words_m d" "word' < data_words_m d" "st < data_sets_m d" "st' < data_sets_m d"
    using assms by (simp_all add: in_cache_def)
  from eq have "way * data_sets_m d + st = way' * data_sets_m d + st' \<and> word = word'"
    unfolding data_index_eq by (rule mixed_radix_inject [OF b(1,2)])
  moreover from this have "way = way' \<and> st = st'"
    by (intro mixed_radix_inject [OF b(3,4)]) simp
  ultimately show "(way, st, word) = (way', st', word')" by simp
qed simp

lemma byte_shift_simps:
  "byte_shift 0 = Inr (push_bit 0 (mask 8))" "byte_shift 1 = Inr (push_bit 8 (mask 8))"
  "byte_shift 2 = Inr (push_bit 16 (mask 8))" "byte_shift 3 = Inr (push_bit 24 (mask 40))"
  "4 \<le> i \<Longrightarrow> byte_shift i = Inl Undefined_behaviour"
  by (simp_all add: byte_shift_def mask_eq_exp_minus_1 push_bit_eq_mult)

lemma data_mask_unfold:
  "data_mask be =
     (if \<exists>i \<in> {4..<8}. bit be i then Inl Undefined_behaviour
      else Inr ((if bit be 0 then push_bit 0 (mask 8) else 0)
             OR (if bit be 1 then push_bit 8 (mask 8) else 0)
             OR (if bit be 2 then push_bit 16 (mask 8) else 0)
             OR (if bit be 3 then push_bit 24 (mask 40) else 0)))"
proof -
  have odd_bit: "drop_bit i be AND 1 \<noteq> 0 \<longleftrightarrow> bit be i" for i
    by (simp add: bit_iff_odd_drop_bit and_one_eq odd_iff_mod_2_eq_one)
  have ivl: "{4..<8} = {4, 5, 6, 7 :: nat}" by auto
  have upt: "[0..<8] = [0, 1, 2, 3, 4, 5, 6, 7 :: nat]" by (simp add: upt_rec)
  show ?thesis
    unfolding data_mask_def odd_bit ivl upt
    by (simp add: byte_shift_simps or.assoc del: One_nat_def)
qed

text \<open>Which bytes of the word a byte enable selects, as coded.\<close>

definition enabled_byte :: "u8 \<Rightarrow> nat \<Rightarrow> bool" where
  "enabled_byte be i = bit be (if i < 3 then i else 3)"

lemma data_mask_bit:
  assumes "data_mask be = Inr m"
  shows "bit m n \<longleftrightarrow> n < 64 \<and> enabled_byte be (n div 8)"
proof (cases "n < 64")
  case True
  have m: "m = (if bit be 0 then push_bit 0 (mask 8) else 0)
             OR (if bit be 1 then push_bit 8 (mask 8) else 0)
             OR (if bit be 2 then push_bit 16 (mask 8) else 0)
             OR (if bit be 3 then push_bit 24 (mask 40) else 0)"
    using assms by (auto simp: data_mask_unfold split: if_splits)
  have "n div 8 = 0 \<longleftrightarrow> n < 8" "n div 8 = 1 \<longleftrightarrow> 8 \<le> n \<and> n < 16" "n div 8 = 2 \<longleftrightarrow> 16 \<le> n \<and> n < 24"
    "n div 8 < 3 \<longleftrightarrow> n < 24"
    by auto
  then show ?thesis
    using True
    by (cases "n < 8"; cases "n < 16"; cases "n < 24")
      (auto simp: m enabled_byte_def bit_or_iff bit_push_bit_iff bit_mask_iff)
next
  case False
  then show ?thesis using bit_imp_le_length [of m n] by auto
qed

lemma high_enable_iff: "(\<exists>i \<in> {4..<8}. bit (be :: u8) i) \<longleftrightarrow> 16 \<le> unat be"
proof -
  have "(\<exists>i \<in> {4..<8}. bit be i) \<longleftrightarrow> drop_bit 4 be \<noteq> 0"
  proof
    assume "\<exists>i \<in> {4..<8}. bit be i"
    then obtain i where "4 \<le> i" "bit be i" by auto
    then have "bit (drop_bit 4 be) (i - 4)" by (simp add: bit_drop_bit_eq)
    then show "drop_bit 4 be \<noteq> 0" by auto
  next
    assume "drop_bit 4 be \<noteq> 0"
    then obtain k where k: "bit be (4 + k)" by (auto simp: bit_eq_iff bit_drop_bit_eq)
    then have "4 + k < 8" using bit_imp_le_length [of be "4 + k"] by simp
    then show "\<exists>i \<in> {4..<8}. bit be i" using k by (intro bexI [of _ "4 + k"]) auto
  qed
  also have "\<dots> \<longleftrightarrow> unat be div 16 \<noteq> 0"
  proof -
    have "unat (drop_bit 4 be) = unat be div 16"
      using unsigned_less [where 'b = 8 and 'a = nat, of be]
      by (simp add: unsigned_drop_bit_eq take_bit_nat_eq_self drop_bit_eq_div [where 'a = nat])
    then show ?thesis by (metis unat_eq_zero)
  qed
  finally show ?thesis by auto
qed

lemma data_mask_defined:
  "(16 \<le> unat be \<longrightarrow> data_mask be = Inl Undefined_behaviour)
     \<and> (unat be < 16 \<longrightarrow> (\<exists>m. data_mask be = Inr m))"
  unfolding data_mask_unfold high_enable_iff by simp

lemma byte_of_masked:
  assumes "data_mask be = Inr m" and "i < 8"
  shows "byte_of ((prev AND NOT m) OR (wdata AND m)) i
     = (if enabled_byte be i then byte_of wdata i else byte_of prev i)"
  unfolding merge_mask_def [symmetric]
  by (rule bit_word_eqI) (use assms(2) in \<open>auto simp: data_mask_bit [OF assms(1)]\<close>)

section \<open>Properties\<close>

text \<open>
  Writing the data array. A byte enable below 16 writes, at the given way, set and word only,
  the bytes it enables, where the enable of byte 3 also stands for the bytes 4 to 7; every
  other word keeps its value. A byte enable with one of its four high bits set, that of a whole
  word included, has no meaning in C++.
\<close>

theorem cache_data_write:
  assumes "wf_cache_data d" and "in_cache d (way, st, word)"
  shows "if unat be < 16
     then \<exists>d' old new. data_write wdata be way st word d = Inr d' \<and> wf_cache_data d'
       \<and> data_read way st word d = Inr old \<and> data_read way st word d' = Inr new
       \<and> (\<forall>i < 8. byte_of new i = (if enabled_byte be i then byte_of wdata i else byte_of old i))
       \<and> (\<forall>way' st' word'. in_cache d (way', st', word') \<and> (way', st', word') \<noteq> (way, st, word)
            \<longrightarrow> data_read way' st' word' d' = data_read way' st' word' d)
     else data_write wdata be way st word d = Inl Undefined_behaviour"
proof (cases "unat be < 16")
  case False
  then show ?thesis using data_mask_defined [of be] by (simp add: data_write_def)
next
  case True
  then obtain m where m: "data_mask be = Inr m" using data_mask_defined [of be] by blast
  let ?i = "data_index d way st word"
  let ?new = "(data_m d ! ?i AND NOT m) OR (wdata AND m)"
  let ?d = "d\<lparr>data_m := (data_m d)[?i := ?new]\<rparr>"
  have i: "?i < length (data_m d)" by (rule data_index_less [OF assms])
  have w: "data_write wdata be way st word d = Inr ?d"
    using m i by (simp add: data_write_def getCacheData_def)
  have ix: "data_index ?d w' s' x' = data_index d w' s' x'" for w' s' x'
    by (simp add: data_index_def)
  have others: "data_read w' s' x' ?d = data_read w' s' x' d"
    if "in_cache d (w', s', x')" "(w', s', x') \<noteq> (way, st, word)" for w' s' x'
  proof -
    have "data_index d w' s' x' \<noteq> ?i"
      using that(2) unfolding data_index_inject [OF that(1) assms(2)] .
    then show ?thesis
      by (simp add: data_read_def getCacheData_def ix Let_def)
  qed
  have "data_read way st word d = Inr (data_m d ! ?i)" "data_read way st word ?d = Inr ?new"
    using i by (simp_all add: data_read_def getCacheData_def ix)
  moreover have "wf_cache_data ?d" using assms(1) by (simp add: wf_cache_data_def)
  ultimately show ?thesis
    using True w others byte_of_masked [OF m]
    by (intro if_P [THEN iffD2] exI [of _ ?d] exI [of _ "data_m d ! ?i"] exI [of _ ?new]) auto
qed

definition ex_data :: cache_data where
  "ex_data = \<lparr>data_name_m = ''data'', data_m = replicate 8 0, data_ways_m = 2, data_sets_m = 2,
     data_words_m = 2\<rparr>"

theorem cache_data_write_witness:
  "data_write 0x1122334455667788 0xff 1 0 1 ex_data = Inl Undefined_behaviour
     \<and> (\<exists>d' new. data_write 0x1122334455667788 8 1 0 1 ex_data = Inr d' \<and> data_read 1 0 1 d' = Inr new
          \<and> byte_of new 7 = 0x11 \<and> byte_of new 0 = 0)"
proof -
  have wf: "wf_cache_data ex_data" "in_cache ex_data (1, 0, 1)"
    by (simp_all add: wf_cache_data_def in_cache_def ex_data_def)
  have old: "data_read 1 0 1 ex_data = Inr 0"
    by (simp add: data_read_def getCacheData_def data_index_def ex_data_def)
  have en: "enabled_byte 8 7" "\<not> enabled_byte 8 0" by (simp_all add: enabled_byte_def bit_simps)
  have bytes: "byte_of 0x1122334455667788 7 = 0x11" "byte_of 0 0 = 0"
    by (simp_all add: byte_of_def drop_bit_eq_div)
  show ?thesis
    using cache_data_write [OF wf, of "0xff" "0x1122334455667788"]
      cache_data_write [OF wf, of 8 "0x1122334455667788"] old en bytes
    by auto
qed

end
