(* ===== verification/Test_Defs.thy ===== *)
theory Test_Defs
  imports Prelude
begin

text \<open>
  \<open>rtl/tb/include/hpdcache_test_defs.h\<close>: the parameters of the cache under test and the
  widths the testbench derives from them. Each \<open>CONF_HPDCACHE_\<dots>\<close> macro that the build may
  set is a field of the record \<open>cfg\<close>; \<open>default_cfg\<close> holds the values of the \<open>#ifndef\<close>
  branches. Every other theory takes the configuration as an argument.
\<close>

section \<open>Parameters\<close>

record cfg =
  HPDCACHE_WAYS :: nat
  HPDCACHE_SETS :: nat
  HPDCACHE_CL_WORDS :: nat
  HPDCACHE_WORD_WIDTH :: nat
  HPDCACHE_MSHR_SETS :: nat
  HPDCACHE_MSHR_WAYS :: nat
  HPDCACHE_PA_WIDTH :: nat
  HPDCACHE_REQ_WORDS :: nat
  HPDCACHE_MEM_ADDR_WIDTH :: nat
  HPDCACHE_MEM_DATA_WIDTH :: nat
  HPDCACHE_MEM_ID_WIDTH :: nat
  HPDCACHE_WBUF_WORDS :: nat
  HPDCACHE_WBUF_DIR_ENTRIES :: nat
  HPDCACHE_WBUF_DATA_ENTRIES :: nat
  HPDCACHE_REQ_SRC_ID_WIDTH :: nat
  HPDCACHE_REQ_TRANS_ID_WIDTH :: nat

definition default_cfg :: cfg where
  "default_cfg =
     \<lparr>HPDCACHE_WAYS = 8,
      HPDCACHE_SETS = 64,
      HPDCACHE_CL_WORDS = 8,
      HPDCACHE_WORD_WIDTH = 64,
      HPDCACHE_MSHR_SETS = 1,
      HPDCACHE_MSHR_WAYS = 8,
      HPDCACHE_PA_WIDTH = 49,
      HPDCACHE_REQ_WORDS = 1,
      HPDCACHE_MEM_ADDR_WIDTH = 64,
      HPDCACHE_MEM_DATA_WIDTH = 512,
      HPDCACHE_MEM_ID_WIDTH = 4,
      HPDCACHE_WBUF_WORDS = 2,
      HPDCACHE_WBUF_DIR_ENTRIES = 8,
      HPDCACHE_WBUF_DATA_ENTRIES = 4,
      HPDCACHE_REQ_SRC_ID_WIDTH = 3,
      HPDCACHE_REQ_TRANS_ID_WIDTH = 6\<rparr>"

definition SCOREBOARD_RAM_SIZE :: nat where
  "SCOREBOARD_RAM_SIZE = push_bit 20 16"

definition NREQUESTERS :: nat where
  "NREQUESTERS = 8"

definition HPDCACHE_TEST_DEFS_LOG2 :: "nat \<Rightarrow> nat" where
  "HPDCACHE_TEST_DEFS_LOG2 x =
     (if x \<le> 1 then 0
      else if x \<le> 2 then 1
      else if x \<le> 4 then 2
      else if x \<le> 8 then 3
      else if x \<le> 16 then 4
      else if x \<le> 32 then 5
      else if x \<le> 64 then 6
      else if x \<le> 128 then 7
      else if x \<le> 256 then 8
      else if x \<le> 512 then 9
      else if x \<le> 1024 then 10
      else if x \<le> 2048 then 11
      else if x \<le> 4096 then 12
      else if x \<le> 8192 then 13
      else if x \<le> 16384 then 14
      else 0)"

section \<open>Derived widths\<close>

definition HPDCACHE_REQ_DATA_WIDTH :: "cfg \<Rightarrow> nat" where
  "HPDCACHE_REQ_DATA_WIDTH c = HPDCACHE_REQ_WORDS c * HPDCACHE_WORD_WIDTH c"

definition HPDCACHE_SET_WIDTH :: "cfg \<Rightarrow> nat" where
  "HPDCACHE_SET_WIDTH c = HPDCACHE_TEST_DEFS_LOG2 (HPDCACHE_SETS c)"

definition HPDCACHE_CL_OFFSET_WIDTH :: "cfg \<Rightarrow> nat" where
  "HPDCACHE_CL_OFFSET_WIDTH c =
     HPDCACHE_TEST_DEFS_LOG2 ((HPDCACHE_CL_WORDS c * HPDCACHE_WORD_WIDTH c) div 8)"

definition HPDCACHE_NLINE_WIDTH :: "cfg \<Rightarrow> nat" where
  "HPDCACHE_NLINE_WIDTH c = HPDCACHE_PA_WIDTH c - HPDCACHE_CL_OFFSET_WIDTH c"

definition HPDCACHE_TAG_WIDTH :: "cfg \<Rightarrow> nat" where
  "HPDCACHE_TAG_WIDTH c = HPDCACHE_NLINE_WIDTH c - HPDCACHE_SET_WIDTH c"

definition HPDCACHE_ADDR_OFFSET_WIDTH :: "cfg \<Rightarrow> nat" where
  "HPDCACHE_ADDR_OFFSET_WIDTH c = HPDCACHE_PA_WIDTH c - HPDCACHE_TAG_WIDTH c"

definition HPDCACHE_REQ_OP_WIDTH :: nat where "HPDCACHE_REQ_OP_WIDTH = 5"
definition HPDCACHE_REQ_SIZE_WIDTH :: nat where "HPDCACHE_REQ_SIZE_WIDTH = 3"
definition HPDCACHE_REQ_PMA_WIDTH :: nat where "HPDCACHE_REQ_PMA_WIDTH = 5"
definition HPDCACHE_REQ_NEED_RSP_WIDTH :: nat where "HPDCACHE_REQ_NEED_RSP_WIDTH = 1"
definition HPDCACHE_REQ_PHYS_INDEXED_WIDTH :: nat where "HPDCACHE_REQ_PHYS_INDEXED_WIDTH = 1"
definition HPDCACHE_RSP_ERROR_WIDTH :: nat where "HPDCACHE_RSP_ERROR_WIDTH = 1"
definition HPDCACHE_RSP_ABORTED_WIDTH :: nat where "HPDCACHE_RSP_ABORTED_WIDTH = 1"

definition HPDCACHE_CORE_REQ_WIDTH :: "cfg \<Rightarrow> nat" where
  "HPDCACHE_CORE_REQ_WIDTH c =
     HPDCACHE_ADDR_OFFSET_WIDTH c + HPDCACHE_REQ_DATA_WIDTH c + HPDCACHE_REQ_OP_WIDTH
     + HPDCACHE_REQ_DATA_WIDTH c div 8 + HPDCACHE_REQ_SIZE_WIDTH + HPDCACHE_REQ_SRC_ID_WIDTH c
     + HPDCACHE_REQ_TRANS_ID_WIDTH c + HPDCACHE_REQ_NEED_RSP_WIDTH
     + HPDCACHE_REQ_PHYS_INDEXED_WIDTH + HPDCACHE_TAG_WIDTH c + HPDCACHE_REQ_PMA_WIDTH"

definition HPDCACHE_CORE_RSP_WIDTH :: "cfg \<Rightarrow> nat" where
  "HPDCACHE_CORE_RSP_WIDTH c =
     HPDCACHE_REQ_DATA_WIDTH c + HPDCACHE_REQ_SRC_ID_WIDTH c + HPDCACHE_REQ_TRANS_ID_WIDTH c
     + HPDCACHE_RSP_ERROR_WIDTH + HPDCACHE_RSP_ABORTED_WIDTH"

lemmas fixed_widths =
  HPDCACHE_REQ_OP_WIDTH_def HPDCACHE_REQ_SIZE_WIDTH_def HPDCACHE_REQ_PMA_WIDTH_def
  HPDCACHE_REQ_NEED_RSP_WIDTH_def HPDCACHE_REQ_PHYS_INDEXED_WIDTH_def
  HPDCACHE_RSP_ERROR_WIDTH_def HPDCACHE_RSP_ABORTED_WIDTH_def

lemmas derived_widths =
  HPDCACHE_REQ_DATA_WIDTH_def HPDCACHE_SET_WIDTH_def HPDCACHE_CL_OFFSET_WIDTH_def
  HPDCACHE_NLINE_WIDTH_def HPDCACHE_TAG_WIDTH_def HPDCACHE_ADDR_OFFSET_WIDTH_def

section \<open>What the logarithm macro computes\<close>

lemma LOG2_le_14: "HPDCACHE_TEST_DEFS_LOG2 x \<le> 14"
  by (simp add: HPDCACHE_TEST_DEFS_LOG2_def)

lemma LOG2_upper: "x \<le> 16384 \<Longrightarrow> x \<le> 2 ^ HPDCACHE_TEST_DEFS_LOG2 x"
  by (simp add: HPDCACHE_TEST_DEFS_LOG2_def)

lemma LOG2_lower: "1 < x \<Longrightarrow> x \<le> 16384 \<Longrightarrow> 2 ^ HPDCACHE_TEST_DEFS_LOG2 x < 2 * x"
  by (simp add: HPDCACHE_TEST_DEFS_LOG2_def)

lemma LOG2_power: "k \<le> 14 \<Longrightarrow> HPDCACHE_TEST_DEFS_LOG2 (2 ^ k) = k"
proof -
  assume "k \<le> 14"
  then have "k \<in> set [0..<15]" by simp
  then show ?thesis
    by (simp add: upt_rec HPDCACHE_TEST_DEFS_LOG2_def, elim disjE) simp_all
qed

text \<open>
  A configuration whose sizes the macro can handle: powers of two up to 16384, 64-bit or
  32-bit words, a physical address wide enough for offset and set.
\<close>

definition wf_cfg :: "cfg \<Rightarrow> bool" where
  "wf_cfg c \<longleftrightarrow>
     HPDCACHE_WORD_WIDTH c \<in> {32, 64} \<and> 0 < HPDCACHE_REQ_WORDS c
     \<and> HPDCACHE_SETS c = 2 ^ HPDCACHE_SET_WIDTH c
     \<and> (HPDCACHE_CL_WORDS c * HPDCACHE_WORD_WIDTH c) div 8 = 2 ^ HPDCACHE_CL_OFFSET_WIDTH c
     \<and> HPDCACHE_CL_OFFSET_WIDTH c + HPDCACHE_SET_WIDTH c < HPDCACHE_PA_WIDTH c
     \<and> HPDCACHE_PA_WIDTH c \<le> 64
     \<and> 0 < HPDCACHE_REQ_TRANS_ID_WIDTH c \<and> HPDCACHE_REQ_TRANS_ID_WIDTH c < 31
     \<and> 0 < HPDCACHE_REQ_SRC_ID_WIDTH c \<and> HPDCACHE_REQ_SRC_ID_WIDTH c \<le> 32"

lemma wf_default_cfg: "wf_cfg default_cfg"
  by (simp add: wf_cfg_def default_cfg_def derived_widths HPDCACHE_TEST_DEFS_LOG2_def)

lemma addr_offset_width:
  assumes "wf_cfg c"
  shows "HPDCACHE_ADDR_OFFSET_WIDTH c = HPDCACHE_CL_OFFSET_WIDTH c + HPDCACHE_SET_WIDTH c"
    and "HPDCACHE_TAG_WIDTH c + HPDCACHE_ADDR_OFFSET_WIDTH c = HPDCACHE_PA_WIDTH c"
    and "0 < HPDCACHE_TAG_WIDTH c"
  using assms
  by (simp_all add: wf_cfg_def HPDCACHE_ADDR_OFFSET_WIDTH_def HPDCACHE_TAG_WIDTH_def
      HPDCACHE_NLINE_WIDTH_def)


lemma cl_offset_width_pos:
  assumes "wf_cfg c"
  shows "2 \<le> HPDCACHE_CL_OFFSET_WIDTH c"
proof (rule ccontr)
  assume "\<not> ?thesis"
  then have "HPDCACHE_CL_OFFSET_WIDTH c = 0 \<or> HPDCACHE_CL_OFFSET_WIDTH c = 1" by linarith
  then have cl: "(HPDCACHE_CL_WORDS c * HPDCACHE_WORD_WIDTH c) div 8 \<in> {1, 2}"
    using assms by (auto simp: wf_cfg_def)
  have "HPDCACHE_WORD_WIDTH c = 32 \<or> HPDCACHE_WORD_WIDTH c = 64"
    using assms by (simp add: wf_cfg_def)
  then have "(HPDCACHE_CL_WORDS c * HPDCACHE_WORD_WIDTH c) div 8 = HPDCACHE_CL_WORDS c * 4
      \<or> (HPDCACHE_CL_WORDS c * HPDCACHE_WORD_WIDTH c) div 8 = HPDCACHE_CL_WORDS c * 8"
    by (auto simp flip: div_mult_swap)
  with cl show False by auto
qed

lemma req_data_width:
  assumes "wf_cfg c"
  shows "32 \<le> HPDCACHE_REQ_DATA_WIDTH c" and "8 dvd HPDCACHE_REQ_DATA_WIDTH c"
proof -
  have w: "HPDCACHE_WORD_WIDTH c = 32 \<or> HPDCACHE_WORD_WIDTH c = 64" "0 < HPDCACHE_REQ_WORDS c"
    using assms by (simp_all add: wf_cfg_def)
  then show "32 \<le> HPDCACHE_REQ_DATA_WIDTH c" by (auto simp: HPDCACHE_REQ_DATA_WIDTH_def)
  have "8 dvd HPDCACHE_WORD_WIDTH c" using w(1) by auto
  then show "8 dvd HPDCACHE_REQ_DATA_WIDTH c" by (simp add: HPDCACHE_REQ_DATA_WIDTH_def)
qed

end
