(* ===== verification/Transaction.thy ===== *)
theory Transaction
  imports Test_Defs Cache_Directory
begin

text \<open>
  \<open>rtl/tb/include/hpdcache_test_transaction.h\<close> and
  \<open>rtl/tb/sc_verif_lib/include/transaction.h\<close>: the transactions exchanged between the
  sequences, the driver, the memory model and the scoreboard. A class is a record that
  extends the record of its base class; \<open>sc_bv<W>\<close> fields are natural numbers below \<open>2 ^ W\<close>;
  an enumeration is a datatype with a function giving the value of each constant, because
  the code compares and stores the values. Also \<open>domain_e\<close> of
  \<open>rtl/tb/include/hpdcache_fault_injection.h\<close>, which a request carries.
\<close>

section \<open>Enumerations\<close>

datatype hpdcache_req_op_e =
    HPDCACHE_REQ_LOAD | HPDCACHE_REQ_STORE
  | HPDCACHE_REQ_AMO_LR | HPDCACHE_REQ_AMO_SC | HPDCACHE_REQ_AMO_SWAP | HPDCACHE_REQ_AMO_ADD
  | HPDCACHE_REQ_AMO_AND | HPDCACHE_REQ_AMO_OR | HPDCACHE_REQ_AMO_XOR | HPDCACHE_REQ_AMO_MAX
  | HPDCACHE_REQ_AMO_MAXU | HPDCACHE_REQ_AMO_MIN | HPDCACHE_REQ_AMO_MINU
  | HPDCACHE_REQ_CMO_FENCE | HPDCACHE_REQ_CMO_PREFETCH | HPDCACHE_REQ_CMO_INVAL_NLINE
  | HPDCACHE_REQ_CMO_INVAL_ALL | HPDCACHE_REQ_CMO_FLUSH_NLINE | HPDCACHE_REQ_CMO_FLUSH_ALL
  | HPDCACHE_REQ_CMO_FLUSH_INVAL_NLINE | HPDCACHE_REQ_CMO_FLUSH_INVAL_ALL

primrec op_code :: "hpdcache_req_op_e \<Rightarrow> nat" where
  "op_code HPDCACHE_REQ_LOAD = 0x00"
| "op_code HPDCACHE_REQ_STORE = 0x01"
| "op_code HPDCACHE_REQ_AMO_LR = 0x04"
| "op_code HPDCACHE_REQ_AMO_SC = 0x05"
| "op_code HPDCACHE_REQ_AMO_SWAP = 0x06"
| "op_code HPDCACHE_REQ_AMO_ADD = 0x07"
| "op_code HPDCACHE_REQ_AMO_AND = 0x08"
| "op_code HPDCACHE_REQ_AMO_OR = 0x09"
| "op_code HPDCACHE_REQ_AMO_XOR = 0x0a"
| "op_code HPDCACHE_REQ_AMO_MAX = 0x0b"
| "op_code HPDCACHE_REQ_AMO_MAXU = 0x0c"
| "op_code HPDCACHE_REQ_AMO_MIN = 0x0d"
| "op_code HPDCACHE_REQ_AMO_MINU = 0x0e"
| "op_code HPDCACHE_REQ_CMO_FENCE = 0x10"
| "op_code HPDCACHE_REQ_CMO_PREFETCH = 0x11"
| "op_code HPDCACHE_REQ_CMO_INVAL_NLINE = 0x12"
| "op_code HPDCACHE_REQ_CMO_INVAL_ALL = 0x13"
| "op_code HPDCACHE_REQ_CMO_FLUSH_NLINE = 0x14"
| "op_code HPDCACHE_REQ_CMO_FLUSH_ALL = 0x15"
| "op_code HPDCACHE_REQ_CMO_FLUSH_INVAL_NLINE = 0x16"
| "op_code HPDCACHE_REQ_CMO_FLUSH_INVAL_ALL = 0x17"

datatype hpdcache_wr_policy_hint_e =
  HPDCACHE_WR_POLICY_AUTO | HPDCACHE_WR_POLICY_WB | HPDCACHE_WR_POLICY_WT

datatype domain_e = CACHE_DIR | CACHE_DAT

datatype hpdcache_mem_command_e = HPDCACHE_MEM_READ | HPDCACHE_MEM_WRITE | HPDCACHE_MEM_ATOMIC

primrec mem_command_code :: "hpdcache_mem_command_e \<Rightarrow> u32" where
  "mem_command_code HPDCACHE_MEM_READ = 0x0"
| "mem_command_code HPDCACHE_MEM_WRITE = 0x1"
| "mem_command_code HPDCACHE_MEM_ATOMIC = 0x2"

datatype hpdcache_mem_atomic_e =
    HPDCACHE_MEM_ATOMIC_ADD | HPDCACHE_MEM_ATOMIC_CLR | HPDCACHE_MEM_ATOMIC_SET
  | HPDCACHE_MEM_ATOMIC_EOR | HPDCACHE_MEM_ATOMIC_SMAX | HPDCACHE_MEM_ATOMIC_SMIN
  | HPDCACHE_MEM_ATOMIC_UMAX | HPDCACHE_MEM_ATOMIC_UMIN | HPDCACHE_MEM_ATOMIC_SWAP
  | HPDCACHE_MEM_ATOMIC_LDEX | HPDCACHE_MEM_ATOMIC_STEX

primrec mem_atomic_code :: "hpdcache_mem_atomic_e \<Rightarrow> u32" where
  "mem_atomic_code HPDCACHE_MEM_ATOMIC_ADD = 0x0"
| "mem_atomic_code HPDCACHE_MEM_ATOMIC_CLR = 0x1"
| "mem_atomic_code HPDCACHE_MEM_ATOMIC_SET = 0x2"
| "mem_atomic_code HPDCACHE_MEM_ATOMIC_EOR = 0x3"
| "mem_atomic_code HPDCACHE_MEM_ATOMIC_SMAX = 0x4"
| "mem_atomic_code HPDCACHE_MEM_ATOMIC_SMIN = 0x5"
| "mem_atomic_code HPDCACHE_MEM_ATOMIC_UMAX = 0x6"
| "mem_atomic_code HPDCACHE_MEM_ATOMIC_UMIN = 0x7"
| "mem_atomic_code HPDCACHE_MEM_ATOMIC_SWAP = 0x8"
| "mem_atomic_code HPDCACHE_MEM_ATOMIC_LDEX = 0xc"
| "mem_atomic_code HPDCACHE_MEM_ATOMIC_STEX = 0xd"

section \<open>Transaction records\<close>

record transaction =
  trans_id :: u64

definition set_id :: "u64 \<Rightarrow> 'a transaction_scheme \<Rightarrow> 'a transaction_scheme" where
  "set_id i t = t\<lparr>trans_id := i\<rparr>"

definition get_id :: "'a transaction_scheme \<Rightarrow> u64" where
  "get_id t = trans_id t"

record fault_req =
  fault_valid :: bool
  fault_set :: int
  fault_way :: int
  fault_word :: int
  fault_domain :: domain_e
  fault_mask :: nat

definition fault_req_new :: fault_req where
  "fault_req_new = \<lparr>fault_valid = False, fault_set = 0, fault_way = 0, fault_word = 0,
     fault_domain = CACHE_DIR, fault_mask = 0\<rparr>"

record req = transaction +
  req_addr :: nat
  req_wdata :: nat
  req_op :: nat
  req_be :: nat
  req_size :: nat
  req_sid :: nat
  req_tid :: nat
  req_need_rsp :: bool
  req_phys_indexed :: bool
  req_uncacheable :: bool
  req_io :: bool
  req_wr_policy_hint :: hpdcache_wr_policy_hint_e
  req_abort :: bool
  req_fault :: fault_req

definition req_new :: req where
  "req_new = \<lparr>trans_id = 0, req_addr = 0, req_wdata = 0, req_op = 0, req_be = 0, req_size = 0,
     req_sid = 0, req_tid = 0, req_need_rsp = False, req_phys_indexed = False,
     req_uncacheable = False, req_io = False, req_wr_policy_hint = HPDCACHE_WR_POLICY_AUTO,
     req_abort = False, req_fault = fault_req_new\<rparr>"

record resp = transaction +
  rsp_rdata :: nat
  rsp_sid :: nat
  rsp_tid :: nat
  rsp_error :: bool
  rsp_aborted :: bool

definition resp_new :: resp where
  "resp_new = \<lparr>trans_id = 0, rsp_rdata = 0, rsp_sid = 0, rsp_tid = 0, rsp_error = False,
     rsp_aborted = False\<rparr>"

record mem_req =
  mr_addr :: u64
  mr_len :: u32
  mr_size :: u32
  mr_id :: u32
  mr_command :: u32
  mr_atomic :: u32
  mr_cacheable :: bool

definition mem_req_new :: mem_req where
  "mem_req_new = \<lparr>mr_addr = 0, mr_len = 0, mr_size = 0, mr_id = 0, mr_command = 0, mr_atomic = 0,
     mr_cacheable = False\<rparr>"

record mem_write_req = mem_req +
  mw_data :: nat
  mw_be :: nat
  mw_last :: bool

definition mem_write_req_new :: mem_write_req where
  "mem_write_req_new = mem_req.extend mem_req_new \<lparr>mw_data = 0, mw_be = 0, mw_last = False\<rparr>"

record mem_read_resp =
  rr_error :: u32
  rr_id :: u32
  rr_data :: nat
  rr_last :: bool

definition mem_read_resp_new :: mem_read_resp where
  "mem_read_resp_new = \<lparr>rr_error = 0, rr_id = 0, rr_data = 0, rr_last = False\<rparr>"

record mem_write_resp =
  wr_is_atomic :: bool
  wr_error :: u32
  wr_id :: u32

definition mem_write_resp_new :: mem_write_resp where
  "mem_write_resp_new = \<lparr>wr_is_atomic = False, wr_error = 0, wr_id = 0\<rparr>"

section \<open>Classification of requests\<close>

definition is_wr_policy_wb :: "'a req_scheme \<Rightarrow> bool" where
  "is_wr_policy_wb t \<longleftrightarrow> req_wr_policy_hint t = HPDCACHE_WR_POLICY_WB"

definition is_wr_policy_wt :: "'a req_scheme \<Rightarrow> bool" where
  "is_wr_policy_wt t \<longleftrightarrow> req_wr_policy_hint t = HPDCACHE_WR_POLICY_WT"

definition is_wr_policy_auto :: "'a req_scheme \<Rightarrow> bool" where
  "is_wr_policy_auto t \<longleftrightarrow> req_wr_policy_hint t = HPDCACHE_WR_POLICY_AUTO"

definition is_load :: "'a req_scheme \<Rightarrow> bool" where
  "is_load t \<longleftrightarrow> req_op t = op_code HPDCACHE_REQ_LOAD"

definition is_store :: "'a req_scheme \<Rightarrow> bool" where
  "is_store t \<longleftrightarrow> req_op t = op_code HPDCACHE_REQ_STORE"

definition is_amo :: "'a req_scheme \<Rightarrow> bool" where
  "is_amo t \<longleftrightarrow>
     (let op = req_op t
      in op = op_code HPDCACHE_REQ_AMO_SWAP \<or> op = op_code HPDCACHE_REQ_AMO_ADD
         \<or> op = op_code HPDCACHE_REQ_AMO_AND \<or> op = op_code HPDCACHE_REQ_AMO_OR
         \<or> op = op_code HPDCACHE_REQ_AMO_XOR \<or> op = op_code HPDCACHE_REQ_AMO_MAX
         \<or> op = op_code HPDCACHE_REQ_AMO_MAXU \<or> op = op_code HPDCACHE_REQ_AMO_MIN
         \<or> op = op_code HPDCACHE_REQ_AMO_MINU)"

definition is_amo_lr :: "'a req_scheme \<Rightarrow> bool" where
  "is_amo_lr t \<longleftrightarrow> req_op t = op_code HPDCACHE_REQ_AMO_LR"

definition is_amo_sc :: "'a req_scheme \<Rightarrow> bool" where
  "is_amo_sc t \<longleftrightarrow> req_op t = op_code HPDCACHE_REQ_AMO_SC"

definition is_cmo :: "'a req_scheme \<Rightarrow> bool" where
  "is_cmo t \<longleftrightarrow>
     (let op = req_op t
      in op = op_code HPDCACHE_REQ_CMO_FENCE \<or> op = op_code HPDCACHE_REQ_CMO_PREFETCH
         \<or> op = op_code HPDCACHE_REQ_CMO_INVAL_NLINE \<or> op = op_code HPDCACHE_REQ_CMO_INVAL_ALL
         \<or> op = op_code HPDCACHE_REQ_CMO_FLUSH_NLINE \<or> op = op_code HPDCACHE_REQ_CMO_FLUSH_ALL
         \<or> op = op_code HPDCACHE_REQ_CMO_FLUSH_INVAL_NLINE
         \<or> op = op_code HPDCACHE_REQ_CMO_FLUSH_INVAL_ALL)"

definition is_cmo_prefetch :: "'a req_scheme \<Rightarrow> bool" where
  "is_cmo_prefetch t \<longleftrightarrow> req_op t = op_code HPDCACHE_REQ_CMO_PREFETCH"

definition mr_is_amo :: "'a mem_req_scheme \<Rightarrow> bool" where
  "mr_is_amo r \<longleftrightarrow> mr_command r = mem_command_code HPDCACHE_MEM_ATOMIC
     \<and> mr_atomic r \<noteq> mem_atomic_code HPDCACHE_MEM_ATOMIC_STEX
     \<and> mr_atomic r \<noteq> mem_atomic_code HPDCACHE_MEM_ATOMIC_LDEX"

definition mr_is_stex :: "'a mem_req_scheme \<Rightarrow> bool" where
  "mr_is_stex r \<longleftrightarrow> mr_command r = mem_command_code HPDCACHE_MEM_ATOMIC
     \<and> mr_atomic r = mem_atomic_code HPDCACHE_MEM_ATOMIC_STEX"

definition mr_is_ldex :: "'a mem_req_scheme \<Rightarrow> bool" where
  "mr_is_ldex r \<longleftrightarrow> mr_command r = mem_command_code HPDCACHE_MEM_ATOMIC
     \<and> mr_atomic r = mem_atomic_code HPDCACHE_MEM_ATOMIC_LDEX"

section \<open>Cache coordinates of a request\<close>

definition get_cache_tag :: "cfg \<Rightarrow> 'a req_scheme \<Rightarrow> u64" where
  "get_cache_tag c t =
     drop_bit (HPDCACHE_CL_OFFSET_WIDTH c + HPDCACHE_SET_WIDTH c) (bv_to_uint64 (req_addr t))"

definition get_cache_set :: "cfg \<Rightarrow> 'a req_scheme \<Rightarrow> u64" where
  "get_cache_set c t =
     drop_bit (HPDCACHE_CL_OFFSET_WIDTH c) (bv_to_uint64 (req_addr t))
       AND (push_bit (HPDCACHE_SET_WIDTH c) 1 - 1)"

definition get_cache_word :: "cfg \<Rightarrow> 'a req_scheme \<Rightarrow> u64" where
  "get_cache_word c t =
     (bv_to_uint64 (req_addr t) * 8 div word_of_nat (HPDCACHE_WORD_WIDTH c))
       mod word_of_nat (HPDCACHE_CL_WORDS c)"

section \<open>Printing\<close>

text \<open>
  \<open>to_string\<close> of each class. The argument \<open>hexbv\<close> stands for \<open>sc_bv::to_string(SC_HEX)\<close> of
  the SystemC library, given the width and the value; \<open>hex\<close> is the C++ stream's \<open>std::hex\<close>.
\<close>

definition op_to_string :: "nat \<Rightarrow> string" where
  "op_to_string op =
     (if op = op_code HPDCACHE_REQ_LOAD then ''LOAD''
      else if op = op_code HPDCACHE_REQ_STORE then ''STORE''
      else if op = op_code HPDCACHE_REQ_AMO_LR then ''LR''
      else if op = op_code HPDCACHE_REQ_AMO_SC then ''SC''
      else if op = op_code HPDCACHE_REQ_AMO_SWAP then ''AMO_SWAP''
      else if op = op_code HPDCACHE_REQ_AMO_ADD then ''AMO_ADD''
      else if op = op_code HPDCACHE_REQ_AMO_AND then ''AMO_AND''
      else if op = op_code HPDCACHE_REQ_AMO_OR then ''AMO_OR''
      else if op = op_code HPDCACHE_REQ_AMO_XOR then ''AMO_XOR''
      else if op = op_code HPDCACHE_REQ_AMO_MAX then ''AMO_MAX''
      else if op = op_code HPDCACHE_REQ_AMO_MAXU then ''AMO_MAXU''
      else if op = op_code HPDCACHE_REQ_AMO_MIN then ''AMO_MIN''
      else if op = op_code HPDCACHE_REQ_AMO_MINU then ''AMO_MINU''
      else if op = op_code HPDCACHE_REQ_CMO_FENCE then ''CMO_FENCE''
      else if op = op_code HPDCACHE_REQ_CMO_PREFETCH then ''CMO_PREFETCH''
      else if op = op_code HPDCACHE_REQ_CMO_INVAL_NLINE then ''CMO_INVAL_NLINE''
      else if op = op_code HPDCACHE_REQ_CMO_INVAL_ALL then ''CMO_INVAL_ALL''
      else if op = op_code HPDCACHE_REQ_CMO_FLUSH_NLINE then ''CMO_FLUSH_NLINE''
      else if op = op_code HPDCACHE_REQ_CMO_FLUSH_ALL then ''CMO_FLUSH_ALL''
      else if op = op_code HPDCACHE_REQ_CMO_FLUSH_INVAL_NLINE then ''CMO_FLUSH_INVAL_NLINE''
      else if op = op_code HPDCACHE_REQ_CMO_FLUSH_INVAL_ALL then ''CMO_FLUSH_INVAL_ALL''
      else ''UNKNOWN'')"

definition cmo_to_string :: "nat \<Rightarrow> string" where
  "cmo_to_string cmo =
     (if cmo = op_code HPDCACHE_REQ_CMO_FENCE then ''CMO_FENCE''
      else if cmo = op_code HPDCACHE_REQ_CMO_PREFETCH then ''CMO_PREFETCH''
      else if cmo = op_code HPDCACHE_REQ_CMO_INVAL_NLINE then ''CMO_INVAL_NLINE''
      else if cmo = op_code HPDCACHE_REQ_CMO_INVAL_ALL then ''CMO_INVAL_ALL''
      else if cmo = op_code HPDCACHE_REQ_CMO_FLUSH_NLINE then ''CMO_FLUSH_NLINE''
      else if cmo = op_code HPDCACHE_REQ_CMO_FLUSH_ALL then ''CMO_FLUSH_ALL''
      else if cmo = op_code HPDCACHE_REQ_CMO_FLUSH_INVAL_NLINE then ''CMO_FLUSH_INVAL_NLINE''
      else if cmo = op_code HPDCACHE_REQ_CMO_FLUSH_INVAL_ALL then ''CMO_FLUSH_INVAL_ALL''
      else ''UNKNOWN'')"

definition wr_policy_to_string :: "hpdcache_wr_policy_hint_e \<Rightarrow> string" where
  "wr_policy_to_string hint =
     (case hint of
        HPDCACHE_WR_POLICY_AUTO \<Rightarrow> ''WR_POLICY_AUTO''
      | HPDCACHE_WR_POLICY_WB \<Rightarrow> ''WR_POLICY_WB''
      | HPDCACHE_WR_POLICY_WT \<Rightarrow> ''WR_POLICY_WT'')"

definition command_to_string :: "u32 \<Rightarrow> string" where
  "command_to_string command =
     (if command = mem_command_code HPDCACHE_MEM_READ then ''READ''
      else if command = mem_command_code HPDCACHE_MEM_WRITE then ''STORE''
      else if command = mem_command_code HPDCACHE_MEM_ATOMIC then ''ATOMIC''
      else ''UNKNOWN'')"

definition atomic_to_string :: "u32 \<Rightarrow> string" where
  "atomic_to_string atomic =
     (if atomic = mem_atomic_code HPDCACHE_MEM_ATOMIC_ADD then ''ATOMIC_ADD''
      else if atomic = mem_atomic_code HPDCACHE_MEM_ATOMIC_CLR then ''ATOMIC_CLR''
      else if atomic = mem_atomic_code HPDCACHE_MEM_ATOMIC_SET then ''ATOMIC_SET''
      else if atomic = mem_atomic_code HPDCACHE_MEM_ATOMIC_EOR then ''ATOMIC_EOR''
      else if atomic = mem_atomic_code HPDCACHE_MEM_ATOMIC_SMAX then ''ATOMIC_SMAX''
      else if atomic = mem_atomic_code HPDCACHE_MEM_ATOMIC_SMIN then ''ATOMIC_SMIN''
      else if atomic = mem_atomic_code HPDCACHE_MEM_ATOMIC_UMAX then ''ATOMIC_UMAX''
      else if atomic = mem_atomic_code HPDCACHE_MEM_ATOMIC_UMIN then ''ATOMIC_UMIN''
      else if atomic = mem_atomic_code HPDCACHE_MEM_ATOMIC_SWAP then ''ATOMIC_SWAP''
      else if atomic = mem_atomic_code HPDCACHE_MEM_ATOMIC_LDEX then ''ATOMIC_LDEX''
      else if atomic = mem_atomic_code HPDCACHE_MEM_ATOMIC_STEX then ''ATOMIC_STEX''
      else ''UNKNOWN'')"

fun hex_digit :: "nat \<Rightarrow> char" where
  "hex_digit n = (if n < 10 then char_of (48 + n) else char_of (87 + n))"

fun hex :: "nat \<Rightarrow> string" where
  "hex n = (if n < 16 then [hex_digit n] else hex (n div 16) @ [hex_digit (n mod 16)])"

declare hex.simps [simp del]

text \<open>\<open>std::dec\<close> output of a signed \<open>int\<close>.\<close>

fun dec_nat :: "nat \<Rightarrow> string" where
  "dec_nat n = (if n < 10 then [char_of (48 + n)] else dec_nat (n div 10) @ [char_of (48 + n mod 10)])"

declare dec_nat.simps [simp del]

definition dec_int :: "int \<Rightarrow> string" where
  "dec_int i = (if i < 0 then ''-'' @ dec_nat (nat (- i)) else dec_nat (nat i))"

definition contains_data :: "nat \<Rightarrow> bool" where
  "contains_data op \<longleftrightarrow>
     (op = op_code HPDCACHE_REQ_STORE \<or> op = op_code HPDCACHE_REQ_AMO_SC
      \<or> op = op_code HPDCACHE_REQ_AMO_SWAP \<or> op = op_code HPDCACHE_REQ_AMO_ADD
      \<or> op = op_code HPDCACHE_REQ_AMO_AND \<or> op = op_code HPDCACHE_REQ_AMO_OR
      \<or> op = op_code HPDCACHE_REQ_AMO_XOR \<or> op = op_code HPDCACHE_REQ_AMO_MAX
      \<or> op = op_code HPDCACHE_REQ_AMO_MAXU \<or> op = op_code HPDCACHE_REQ_AMO_MIN
      \<or> op = op_code HPDCACHE_REQ_AMO_MINU)"

definition req_to_string :: "cfg \<Rightarrow> (nat \<Rightarrow> nat \<Rightarrow> string) \<Rightarrow> 'a req_scheme \<Rightarrow> string" where
  "req_to_string c hexbv t =
     (let op = req_op t
      in ''CORE_REQ'' @ '' / @ = '' @ hexbv (HPDCACHE_PA_WIDTH c) (req_addr t)
         @ '' / '' @ op_to_string op
         @ '' / SET = 0x'' @ hex (unat (get_cache_set c t))
         @ '' / WORD = 0x'' @ hex (unat (get_cache_word c t))
         @ '' / TAG = 0x'' @ hex (unat (get_cache_tag c t))
         @ '' / SID = 0x'' @ hex (req_sid t) @ '' / TID = 0x'' @ hex (req_tid t)
         @ '' / WR_POLICY_HINT = '' @ wr_policy_to_string (req_wr_policy_hint t)
         @ (if \<not> is_cmo t then
              (if req_uncacheable t then '' / UNCACHED'' else '' / CACHED'')
              @ '' / SIZE = '' @ hexbv HPDCACHE_REQ_SIZE_WIDTH (req_size t)
              @ (if req_need_rsp t then '' / NEED_RSP'' else '' / NO NEED_RSP'')
              @ (if req_phys_indexed t then '' / PHYS_INDEXED'' else '' / VIRT_INDEXED'')
              @ (if contains_data op then
                   '' / WDATA = '' @ hexbv (HPDCACHE_REQ_DATA_WIDTH c) (req_wdata t)
                   @ '' / BE = '' @ hexbv (HPDCACHE_REQ_DATA_WIDTH c div 8) (req_be t)
                 else [])
            else '' / '' @ cmo_to_string op)
         @ (if fault_valid (req_fault t) then
              '' / FAULT INJECTION / WAY = '' @ dec_int (fault_way (req_fault t))
              @ (case fault_domain (req_fault t) of
                   CACHE_DIR \<Rightarrow> '' / CACHE_DIR'' | CACHE_DAT \<Rightarrow> '' / CACHE_DAT'')
            else []))"

definition resp_to_string :: "cfg \<Rightarrow> (nat \<Rightarrow> nat \<Rightarrow> string) \<Rightarrow> 'a resp_scheme \<Rightarrow> string" where
  "resp_to_string c hexbv r =
     ''CORE_RESP / RDATA = '' @ hexbv (HPDCACHE_REQ_DATA_WIDTH c) (rsp_rdata r)
     @ '' / SID = 0x'' @ hex (rsp_sid r) @ '' / TID = 0x'' @ hex (rsp_tid r)
     @ (if rsp_error r then '' / ERROR'' else []) @ (if rsp_aborted r then '' / ABORTED'' else [])"

definition mem_read_req_to_string :: "'a mem_req_scheme \<Rightarrow> string" where
  "mem_read_req_to_string r =
     ''MEM_READ_REQ / @ = '' @ hex (unat (mr_addr r))
     @ '' / CMD = '' @ command_to_string (mr_command r) @ '' / LEN = '' @ hex (unat (mr_len r))
     @ '' / SIZE = '' @ hex (unat (mr_size r)) @ '' / ID = 0x'' @ hex (unat (mr_id r))
     @ (if mr_cacheable r then '' / CACHEABLE'' else '' / UNCACHEABLE'')"

definition mem_write_req_to_string ::
  "cfg \<Rightarrow> (nat \<Rightarrow> nat \<Rightarrow> string) \<Rightarrow> 'a mem_write_req_scheme \<Rightarrow> string" where
  "mem_write_req_to_string c hexbv r =
     ''MEM_WRITE_REQ / @ = '' @ hex (unat (mr_addr r))
     @ '' / COMMAND = '' @ command_to_string (mr_command r)
     @ (if mr_command r = mem_command_code HPDCACHE_MEM_ATOMIC
        then '' / ATOMIC = '' @ atomic_to_string (mr_atomic r) else [])
     @ '' / LEN = '' @ hex (unat (mr_len r)) @ '' / SIZE = '' @ hex (unat (mr_size r))
     @ '' / ID = 0x'' @ hex (unat (mr_id r))
     @ '' / DATA = '' @ hexbv (HPDCACHE_MEM_DATA_WIDTH c) (mw_data r)
     @ '' / BE = '' @ hexbv (HPDCACHE_MEM_DATA_WIDTH c div 8) (mw_be r)
     @ (if mw_last r then '' / LAST'' else '' '')
     @ (if mr_cacheable r then '' / CACHEABLE'' else '' / UNCACHEABLE'')"

definition mem_read_resp_to_string :: "cfg \<Rightarrow> (nat \<Rightarrow> nat \<Rightarrow> string) \<Rightarrow> mem_read_resp \<Rightarrow> string" where
  "mem_read_resp_to_string c hexbv r =
     ''MEM_READ_RESP / RDATA = '' @ hexbv (HPDCACHE_MEM_DATA_WIDTH c) (rr_data r)
     @ '' / ID = 0x'' @ hex (unat (rr_id r)) @ (if rr_last r then '' / LAST'' else [])
     @ (if rr_error r \<noteq> 0 then '' / ERROR'' else [])"

definition mem_write_resp_to_string :: "mem_write_resp \<Rightarrow> string" where
  "mem_write_resp_to_string r =
     ''MEM_WRITE_RESP'' @ '' / ID = 0x'' @ hex (unat (wr_id r))
     @ (if wr_error r \<noteq> 0 then '' / ERROR'' else [])
     @ (if wr_is_atomic r then '' / ATOMIC'' else [])"

section \<open>Lemmas and properties\<close>

lemmas op_class_defs =
  is_load_def is_store_def is_amo_def is_amo_lr_def is_amo_sc_def is_cmo_def Let_def

lemma op_code_less: "op_code op < 2 ^ HPDCACHE_REQ_OP_WIDTH"
  by (cases op) (simp_all add: HPDCACHE_REQ_OP_WIDTH_def)

lemma op_code_inject: "op_code a = op_code b \<longleftrightarrow> a = b"
  by (cases a; cases b) simp_all

text \<open>
  every request whose operation code belongs to the enumeration is in exactly one of the
  six classes the testbench dispatches on, and a request with another code in none.
\<close>

theorem request_classes_partition:
  "length (filter (\<lambda>p. p t) [is_load, is_store, is_amo, is_amo_lr, is_amo_sc, is_cmo])
     = (if req_op t \<in> range op_code then 1 else 0)"
proof (cases "\<exists>op. req_op t = op_code op")
  case True
  then obtain op where op: "req_op t = op_code op" ..
  have "length (filter (\<lambda>p. p t) [is_load, is_store, is_amo, is_amo_lr, is_amo_sc, is_cmo]) = 1"
    using op by (cases op) (simp_all add: op_class_defs)
  then show ?thesis using op by simp
next
  case False
  then have "req_op t \<noteq> op_code op" for op by blast
  then show ?thesis by (auto simp: op_class_defs simp del: op_code.simps)
qed

text \<open>
  the set and tag that a request computes with shifts and masks are those the cache
  directory computes with divisions, for a directory of the configuration's geometry.
\<close>

theorem request_coordinates_match_directory:
  assumes "wf_cfg c" and "sets_m d = HPDCACHE_SETS c"
    and "bytes_m d = HPDCACHE_CL_WORDS c * HPDCACHE_WORD_WIDTH c div 8"
  shows "unat (get_cache_set c t) = getAddrSet d (bv_to_uint64 (req_addr t))
     \<and> get_cache_tag c t = getAddrTag d (bv_to_uint64 (req_addr t))"
proof -
  let ?o = "HPDCACHE_CL_OFFSET_WIDTH c" and ?s = "HPDCACHE_SET_WIDTH c"
  let ?a = "bv_to_uint64 (req_addr t)"
  have sz: "sets_m d = 2 ^ ?s" "bytes_m d = 2 ^ ?o" and lt: "?o + ?s < 64"
    using assms by (auto simp: wf_cfg_def)
  have m: "push_bit ?s 1 - 1 = (mask ?s :: u64)"
    by (simp add: mask_eq_exp_minus_1 push_bit_of_1)
  have "get_cache_set c t = take_bit ?s (drop_bit ?o ?a)"
    by (simp only: get_cache_set_def m take_bit_eq_mask)
  then have set: "unat (get_cache_set c t) = unat ?a div 2 ^ ?o mod 2 ^ ?s"
    by (simp add: unat_drop_bit_u64 unat_take_bit_u64)
  have "unat (get_cache_tag c t) = unat ?a div 2 ^ (?o + ?s)"
    by (simp add: get_cache_tag_def unat_drop_bit_u64)
  then have tag: "get_cache_tag c t = word_of_nat (unat ?a div 2 ^ (?o + ?s))"
    by (metis word_of_nat_unat)
  show ?thesis
    using set tag by (simp add: getAddrSet_def getAddrTag_def sz power_add mult.commute)
qed

theorem request_coordinates_match_directory_witness:
  "unat (get_cache_set default_cfg (req_new\<lparr>req_addr := 0x12345\<rparr>)) = 13"
  using request_coordinates_match_directory [OF wf_default_cfg, of "\<lparr>dir_name_m = ''dir'',
      ways_m = 8, sets_m = 64, bytes_m = 64, tag_m = [], val_m = []\<rparr>" "req_new\<lparr>req_addr := 0x12345\<rparr>"]
  by (simp add: default_cfg_def getAddrSet_def bv_to_uint64_def)

end
