(* ===== verification/Fault_Injection.thy ===== *)
theory Fault_Injection
  imports Transaction
begin

text \<open>
  \<open>rtl/tb/include/hpdcache_fault_injection.h\<close>, as compiled with \<open>HPDCACHE_DPI_ON\<close>: where the
  errors that the testbench injects land in the RAMs of the cache. The scopes that the DPI
  library returns are named by their position; what is passed to the simulated RAM is the
  vector of \<open>svLogicVecVal\<close>, of which the code only sets \<open>aval\<close>. A selection outside the mask
  is an error of SystemC.
\<close>

section \<open>Geometry\<close>

record fi_cfg =
  DATA_WAYS_PER_RAM_WORD :: nat
  ACCESS_WORDS :: nat

datatype scope = Dir_scope nat | Dat_scope nat nat

definition DATA_ROWS :: "cfg \<Rightarrow> fi_cfg \<Rightarrow> nat" where
  "DATA_ROWS c fc = HPDCACHE_WAYS c div DATA_WAYS_PER_RAM_WORD fc"

definition DATA_COLS :: "fi_cfg \<Rightarrow> nat" where
  "DATA_COLS fc = ACCESS_WORDS fc"

definition getDir :: "nat \<Rightarrow> nat" where "getDir way = way"

definition getDatRow :: "fi_cfg \<Rightarrow> nat \<Rightarrow> nat" where
  "getDatRow fc way = way div DATA_WAYS_PER_RAM_WORD fc"

definition getDatCol :: "fi_cfg \<Rightarrow> nat \<Rightarrow> nat" where
  "getDatCol fc word = word mod ACCESS_WORDS fc"

definition getParBits :: "nat \<Rightarrow> nat" where
  "getParBits wordWidth = (if wordWidth < 64 then 7 else 8)"

definition getScope :: "cfg \<Rightarrow> fi_cfg \<Rightarrow> domain_e \<Rightarrow> nat \<Rightarrow> nat \<Rightarrow> scope outcome" where
  "getScope c fc domain way word =
     (case domain of
        CACHE_DIR \<Rightarrow> if getDir way < HPDCACHE_WAYS c then Inr (Dir_scope (getDir way))
                     else Inl Undefined_behaviour
      | CACHE_DAT \<Rightarrow> if getDatRow fc way < DATA_ROWS c fc \<and> getDatCol fc word < DATA_COLS fc
                     then Inr (Dat_scope (getDatRow fc way) (getDatCol fc word))
                     else Inl Undefined_behaviour)"

section \<open>Vectors of the simulator\<close>

definition SV_PACKED_DATA_NELEMS :: "nat \<Rightarrow> nat" where
  "SV_PACKED_DATA_NELEMS w = (w + 31) div 32"

text \<open>\<open>mask.range(hi, lo).to_uint()\<close> of a mask of \<open>W\<close> bits.\<close>

definition mask_range :: "nat \<Rightarrow> nat \<Rightarrow> nat \<Rightarrow> nat \<Rightarrow> u32 outcome" where
  "mask_range W hi lo m =
     (if lo \<le> hi \<and> hi < W then Inr (bv_to_uint (bv_range hi lo m)) else Inl Range_error)"

definition put_lv :: "nat \<Rightarrow> u32 \<Rightarrow> u32 list \<Rightarrow> u32 list outcome" where
  "put_lv b x lv = (if b < length lv then Inr (lv[b := x]) else Inl Undefined_behaviour)"

record injection =
  inj_scope :: scope
  inj_index :: nat
  inj_mask :: "u32 list"

section \<open>Injecting in the directory\<close>

definition dir_word_bits :: "cfg \<Rightarrow> nat" where
  "dir_word_bits c = (let DirBits = HPDCACHE_TAG_WIDTH c + 4 in DirBits + getParBits DirBits)"

definition dir_mask_vector :: "nat \<Rightarrow> nat \<Rightarrow> u32 list outcome" where
  "dir_mask_vector WordBits m =
     fold_ok
       (\<lambda>b lv. let loIdx = b * 32; hiIdx = min ((b + 1) * 32) WordBits
               in if loIdx < WordBits
                  then andthen (mask_range 64 (hiIdx - 1) loIdx m) (\<lambda>x. put_lv b x lv)
                  else Inr lv)
       [0..<SV_PACKED_DATA_NELEMS WordBits]
       (replicate (SV_PACKED_DATA_NELEMS WordBits) 0)"

definition injectDirFault :: "cfg \<Rightarrow> fi_cfg \<Rightarrow> nat \<Rightarrow> nat \<Rightarrow> nat \<Rightarrow> injection outcome" where
  "injectDirFault c fc st way m =
     andthen (getScope c fc CACHE_DIR way 0) (\<lambda>scope.
     andthen (dir_mask_vector (dir_word_bits c) m) (\<lambda>lv.
       Inr \<lparr>inj_scope = scope, inj_index = st, inj_mask = lv\<rparr>))"

section \<open>Injecting in the data array\<close>

definition dat_word_bits :: "cfg \<Rightarrow> nat" where
  "dat_word_bits c = HPDCACHE_WORD_WIDTH c + getParBits (HPDCACHE_WORD_WIDTH c)"

text \<open>The loop over the middle words; the state is \<open>(b, hiIdx, bits, lv)\<close>.\<close>

fun dat_middle :: "nat \<Rightarrow> nat \<times> nat \<times> nat \<times> u32 list \<Rightarrow> (nat \<times> nat \<times> nat \<times> u32 list) outcome" where
  "dat_middle m (b, hiIdx, bits, lv) =
     (if 32 \<le> bits then
        (let loIdx = hiIdx; hiIdx = loIdx + 32
         in case andthen (mask_range 72 (hiIdx - 1) loIdx m) (\<lambda>x. put_lv b x lv) of
              Inl f \<Rightarrow> Inl f
            | Inr lv \<Rightarrow> dat_middle m (b + 1, hiIdx, bits - 32, lv))
      else Inr (b, hiIdx, bits, lv))"

declare dat_middle.simps [simp del]

definition dat_mask_vector :: "nat \<Rightarrow> nat \<Rightarrow> nat \<Rightarrow> nat \<Rightarrow> u32 list outcome" where
  "dat_mask_vector WordBits RamBits ramOffset m =
     (let wordOffset = ramOffset mod 32;
          bits = WordBits;
          lv = replicate (SV_PACKED_DATA_NELEMS RamBits) 0;
          b = ramOffset div 32;
          hiIdx = (if bits \<ge> 32 then 32 - wordOffset else bits)
      in andthen (mask_range 72 (hiIdx - 1) 0 m) (\<lambda>x.
         andthen (put_lv b (push_bit wordOffset x) lv) (\<lambda>lv.
         andthen (dat_middle m (b + 1, hiIdx, bits - hiIdx, lv)) (\<lambda>(b, hiIdx, bits, lv).
         if bits \<noteq> 0 then
           (let loIdx = hiIdx; hiIdx = loIdx + bits
            in andthen (mask_range 72 (hiIdx - 1) loIdx m) (\<lambda>x. put_lv b x lv))
         else Inr lv))))"

definition injectDatFault :: "cfg \<Rightarrow> fi_cfg \<Rightarrow> nat \<Rightarrow> nat \<Rightarrow> nat \<Rightarrow> nat \<Rightarrow> injection outcome" where
  "injectDatFault c fc st way word m =
     andthen (getScope c fc CACHE_DAT way word) (\<lambda>scope.
     (let WordBits = dat_word_bits c;
          RamBits = WordBits * DATA_WAYS_PER_RAM_WORD fc;
          ramWord = way mod DATA_WAYS_PER_RAM_WORD fc;
          ramOffset = ramWord * WordBits
      in andthen (dat_mask_vector WordBits RamBits ramOffset m) (\<lambda>lv.
           Inr \<lparr>inj_scope = scope,
                inj_index = (st * HPDCACHE_CL_WORDS c + word) div ACCESS_WORDS fc,
                inj_mask = lv\<rparr>)))"

section \<open>Where the bits of the mask land\<close>

text \<open>Bit \<open>n\<close> of a packed vector.\<close>

definition vec_bit :: "u32 list \<Rightarrow> nat \<Rightarrow> bool" where
  "vec_bit lv n \<longleftrightarrow> n div 32 < length lv \<and> bit (lv ! (n div 32)) (n mod 32)"

text \<open>
  \<open>holds_slice ro k m lv\<close>: the vector holds the low \<open>k\<close> bits of the mask from bit \<open>ro\<close> on, and is
  zero elsewhere.
\<close>

definition holds_slice :: "nat \<Rightarrow> nat \<Rightarrow> nat \<Rightarrow> u32 list \<Rightarrow> bool" where
  "holds_slice ro k m lv \<longleftrightarrow> (\<forall>n. vec_bit lv n \<longleftrightarrow> ro \<le> n \<and> n < ro + k \<and> bit m (n - ro))"

lemma bit_bv_to_uint: "bit (bv_to_uint v) n \<longleftrightarrow> n < 32 \<and> bit v n"
  by (auto simp: bv_to_uint_def bit_of_nat_iff)

lemma vec_bit_zero [simp]: "\<not> vec_bit (replicate k 0) n"
  by (simp add: vec_bit_def)

lemma vec_bit_update:
  "b < length lv \<Longrightarrow> vec_bit (lv[b := x]) n = (if n div 32 = b then bit x (n mod 32) else vec_bit lv n)"
  by (auto simp: vec_bit_def nth_list_update)

lemma in_word_iff: "n div 32 = b \<longleftrightarrow> 32 * b \<le> n \<and> n < 32 * b + (32 :: nat)"
  by auto

text \<open>Appending a chunk that starts at a word of the vector.\<close>

lemma holds_slice_extend:
  assumes "holds_slice ro k m lv" and "32 * b = ro + k" and "b < length lv" and "0 < w" and "w \<le> 32"
  shows "holds_slice ro (k + w) m (lv[b := bv_to_uint (bv_range (k + w - 1) k m)])"
proof -
  have "vec_bit (lv[b := bv_to_uint (bv_range (k + w - 1) k m)]) n
      \<longleftrightarrow> ro \<le> n \<and> n < ro + (k + w) \<and> bit m (n - ro)" for n
  proof (cases "n div 32 = b")
    case True
    then have "ro + k \<le> n" "n mod 32 = n - (ro + k)" "n < ro + k + 32"
      using assms(2) by (auto simp: modulo_nat_def)
    then show ?thesis
      using True assms(3-5)
      by (auto simp: vec_bit_update bit_bv_to_uint bit_bv_range)
  next
    case False
    then have "n < ro + k \<or> ro + k + 32 \<le> n" using assms(2) by (simp add: in_word_iff) arith
    moreover have "vec_bit lv n \<longleftrightarrow> ro \<le> n \<and> n < ro + k \<and> bit m (n - ro)"
      using assms(1) unfolding holds_slice_def by blast
    ultimately show ?thesis
      using False assms(3,5) by (auto simp: vec_bit_update)
  qed
  then show ?thesis by (simp add: holds_slice_def)
qed

text \<open>The first chunk, which starts inside a word.\<close>

lemma holds_slice_head:
  assumes "0 < w" and "ro mod 32 + w \<le> 32" and "ro div 32 < k"
  shows "holds_slice ro w m
     ((replicate k 0)[ro div 32 := push_bit (ro mod 32) (bv_to_uint (bv_range (w - 1) 0 m))])"
proof -
  have "vec_bit ((replicate k 0)[ro div 32 := push_bit (ro mod 32) (bv_to_uint (bv_range (w - 1) 0 m))]) n
      \<longleftrightarrow> ro \<le> n \<and> n < ro + w \<and> bit m (n - ro)" for n
  proof (cases "n div 32 = ro div 32")
    case True
    have "n = ro div 32 * 32 + n mod 32" "ro = ro div 32 * 32 + ro mod 32"
      using div_mult_mod_eq [of n 32] div_mult_mod_eq [of ro 32] unfolding True by simp_all
    then have d: "n - ro = n mod 32 - ro mod 32" "ro \<le> n \<longleftrightarrow> ro mod 32 \<le> n mod 32"
      "n < ro + w \<longleftrightarrow> n mod 32 < ro mod 32 + w"
      by linarith+
    have "n mod 32 < 32" by simp
    with assms(2) show ?thesis
      using True assms(1,3)
      by (auto simp: vec_bit_update bit_push_bit_iff bit_bv_to_uint bit_bv_range d less_diff_conv2)
  next
    case False
    have "ro = 32 * (ro div 32) + ro mod 32" by simp
    with False assms(2) have "\<not> (ro \<le> n \<and> n < ro + w)"
      unfolding in_word_iff by linarith
    then show ?thesis using False assms(3) by (auto simp: vec_bit_update)
  qed
  then show ?thesis by (simp add: holds_slice_def)
qed

lemma dat_middle_holds:
  assumes "holds_slice ro hi m lv" and "32 * b = ro + hi" and "hi + bits \<le> 72"
    and "32 * b + bits \<le> 32 * length lv"
  shows "\<exists>b' hi' bits' lv'. dat_middle m (b, hi, bits, lv) = Inr (b', hi', bits', lv') \<and> bits' < 32
     \<and> hi' + bits' = hi + bits \<and> 32 * b' = ro + hi' \<and> length lv' = length lv
     \<and> 32 * b' + bits' \<le> 32 * length lv \<and> holds_slice ro hi' m lv'"
  using assms
proof (induction bits arbitrary: b hi lv rule: less_induct)
  case (less bits)
  show ?case
  proof (cases "32 \<le> bits")
    case False
    then show ?thesis using less.prems by (simp add: dat_middle.simps)
  next
    case True
    let ?lv = "lv[b := bv_to_uint (bv_range (hi + 32 - 1) hi m)]"
    have b: "b < length lv" using True less.prems(4) by simp
    have step: "dat_middle m (b, hi, bits, lv) = dat_middle m (b + 1, hi + 32, bits - 32, ?lv)"
      using True b less.prems(3)
      by (subst dat_middle.simps) (simp add: mask_range_def put_lv_def)
    have "holds_slice ro (hi + 32) m ?lv"
      by (rule holds_slice_extend [OF less.prems(1,2) b]) simp_all
    from less.IH [OF _ this, of "bits - 32" "b + 1"]
    show ?thesis using True less.prems(2-4) unfolding step by auto
  qed
qed

lemma dat_mask_vector_holds:
  assumes "32 \<le> W" and "W \<le> 72" and "ro + W \<le> R"
  shows "\<exists>lv. dat_mask_vector W R ro m = Inr lv \<and> length lv = SV_PACKED_DATA_NELEMS R
     \<and> holds_slice ro W m lv"
proof -
  let ?h = "32 - ro mod 32" and ?k = "SV_PACKED_DATA_NELEMS R"
  let ?lv = "(replicate ?k 0)[ro div 32 := push_bit (ro mod 32) (bv_to_uint (bv_range (?h - 1) 0 m))]"
  have R: "R \<le> 32 * ?k" by (simp add: SV_PACKED_DATA_NELEMS_def)
  define q r where qr: "q = ro div 32" "r = ro mod 32"
  have "ro = 32 * q + r" "r < 32"
    using div_mult_mod_eq [of ro 32] by (simp_all add: qr mult.commute)
  then have "0 < 32 - r" "r + (32 - r) \<le> 32" "32 - r \<le> W" "32 * (q + 1) = ro + (32 - r)"
    using assms(1) by simp_all
  then have h: "0 < ?h" "ro mod 32 + ?h \<le> 32" "?h \<le> W" "32 * (ro div 32 + 1) = ro + ?h"
    unfolding qr .
  have d: "ro div 32 < ?k" using assms R by simp
  have hd: "holds_slice ro ?h m ?lv" by (rule holds_slice_head [OF h(1,2) d])
  obtain b hi bits lv where mid: "dat_middle m (ro div 32 + 1, ?h, W - ?h, ?lv) = Inr (b, hi, bits, lv)"
    "bits < 32" "hi + bits = W" "32 * b = ro + hi" "length lv = ?k"
    "32 * b + bits \<le> 32 * ?k" "holds_slice ro hi m lv"
    using dat_middle_holds [OF hd h(4), of "W - ?h"] h assms R by auto
  have vec: "dat_mask_vector W R ro m
      = (if bits \<noteq> 0 then andthen (mask_range 72 (hi + bits - 1) hi m) (\<lambda>x. put_lv b x lv) else Inr lv)"
  proof -
    have "mask_range 72 (?h - 1) 0 m = Inr (bv_to_uint (bv_range (?h - 1) 0 m))"
      using assms(2) h(3) by (simp add: mask_range_def del: One_nat_def)
    then show ?thesis
      using assms(1) d mid(1) by (simp add: dat_mask_vector_def put_lv_def Let_def)
  qed
  show ?thesis
  proof (cases "bits = 0")
    case True
    then show ?thesis using vec mid by simp
  next
    case False
    then have b: "b < length lv" using mid by simp
    have "holds_slice ro (hi + bits) m (lv[b := bv_to_uint (bv_range (hi + bits - 1) hi m)])"
      using False mid by (intro holds_slice_extend) simp_all
    moreover have "mask_range 72 (hi + bits - 1) hi m = Inr (bv_to_uint (bv_range (hi + bits - 1) hi m))"
    proof -
      have "hi \<le> hi + bits - 1 \<and> hi + bits - 1 < 72" using False mid(3) assms(2) by linarith
      then show ?thesis by (simp only: mask_range_def if_True simp_thms)
    qed
    ultimately show ?thesis
      using False vec mid(3,5) b by (simp add: put_lv_def)
  qed
qed

lemma dir_mask_vector_holds:
  assumes "0 < W" and "W \<le> 64"
  shows "\<exists>lv. dir_mask_vector W m = Inr lv \<and> length lv = SV_PACKED_DATA_NELEMS W
     \<and> holds_slice 0 W m lv"
proof -
  let ?k = "SV_PACKED_DATA_NELEMS W"
  let ?P = "\<lambda>b lv. length lv = ?k \<and> holds_slice 0 (min (32 * b) W) m lv"
  have W: "W \<le> 32 * ?k" "\<And>b. b < ?k \<Longrightarrow> 32 * b < W"
    using assms(1) by (auto simp: SV_PACKED_DATA_NELEMS_def)
  have "\<exists>lv. dir_mask_vector W m = Inr lv \<and> ?P ?k lv"
    unfolding dir_mask_vector_def
  proof (rule fold_ok_upt [where P = ?P])
    show "?P 0 (replicate ?k 0)" by (simp add: holds_slice_def)
  next
    fix b lv
    assume b: "b < ?k" and P: "?P b lv"
    let ?w = "min ((b + 1) * 32) W - b * 32"
    have w: "0 < ?w" "?w \<le> 32" "b * 32 + ?w = min ((b + 1) * 32) W" "min (32 * b) W = b * 32"
      using W(2) [OF b] by simp_all
    have ext: "holds_slice 0 (b * 32 + ?w) m (lv[b := bv_to_uint (bv_range (b * 32 + ?w - 1) (b * 32) m)])"
      using P b w by (intro holds_slice_extend) simp_all
    have "min ((b + 1) * 32) W - 1 < 64" "b * 32 \<le> min ((b + 1) * 32) W - 1"
      using w(1) assms by simp_all
    then show "\<exists>lv'. (let loIdx = b * 32; hiIdx = min ((b + 1) * 32) W
        in if loIdx < W then andthen (mask_range 64 (hiIdx - 1) loIdx m) (\<lambda>x. put_lv b x lv) else Inr lv)
          = Inr lv' \<and> ?P (Suc b) lv'"
      using ext P b W(2) [OF b] unfolding w(3)
      by (simp add: mask_range_def put_lv_def Let_def mult.commute)
  qed
  then show ?thesis using W(1) by (simp add: min_absorb2)
qed

section \<open>Properties\<close>

definition wf_fi :: "cfg \<Rightarrow> fi_cfg \<Rightarrow> bool" where
  "wf_fi c fc \<longleftrightarrow> HPDCACHE_WORD_WIDTH c \<in> {32, 64} \<and> 0 < DATA_WAYS_PER_RAM_WORD fc
     \<and> 0 < ACCESS_WORDS fc \<and> DATA_WAYS_PER_RAM_WORD fc dvd HPDCACHE_WAYS c
     \<and> ACCESS_WORDS fc dvd HPDCACHE_CL_WORDS c"

lemma dat_word_bits_cases:
  "wf_fi c fc \<Longrightarrow> dat_word_bits c = 39 \<or> dat_word_bits c = 72"
  by (auto simp: wf_fi_def dat_word_bits_def getParBits_def)

lemma way_row_less:
  assumes "wf_fi c fc" and "way < HPDCACHE_WAYS c"
  shows "getDatRow fc way < DATA_ROWS c fc"
  using assms by (simp add: wf_fi_def getDatRow_def DATA_ROWS_def less_mult_imp_div_less
      dvd_div_mult_self)

lemma dat_fault_placed:
  assumes "wf_fi c fc" and "way < HPDCACHE_WAYS c"
  shows "\<exists>lv. injectDatFault c fc st way word m
       = Inr \<lparr>inj_scope = Dat_scope (way div DATA_WAYS_PER_RAM_WORD fc) (word mod ACCESS_WORDS fc),
              inj_index = (st * HPDCACHE_CL_WORDS c + word) div ACCESS_WORDS fc, inj_mask = lv\<rparr>
     \<and> holds_slice ((way mod DATA_WAYS_PER_RAM_WORD fc) * dat_word_bits c) (dat_word_bits c) m lv"
proof -
  let ?D = "DATA_WAYS_PER_RAM_WORD fc" and ?W = "dat_word_bits c"
  have W: "32 \<le> ?W" "?W \<le> 72" using dat_word_bits_cases [OF assms(1)] by auto
  have "(way mod ?D) * ?W + ?W = Suc (way mod ?D) * ?W" by simp
  also have "\<dots> \<le> ?D * ?W"
    using assms(1) by (intro mult_le_mono1) (simp add: wf_fi_def Suc_le_eq)
  finally have le: "(way mod ?D) * ?W + ?W \<le> ?W * ?D" by (simp add: mult.commute)
  have "getDatCol fc word < DATA_COLS fc"
    using assms(1) by (simp add: getDatCol_def DATA_COLS_def wf_fi_def)
  then have sc: "getScope c fc CACHE_DAT way word = Inr (Dat_scope (way div ?D) (word mod ACCESS_WORDS fc))"
    using way_row_less [OF assms] by (simp add: getScope_def) (simp add: getDatRow_def getDatCol_def)
  obtain lv where "dat_mask_vector ?W (?W * ?D) ((way mod ?D) * ?W) m = Inr lv"
    "holds_slice ((way mod ?D) * ?W) ?W m lv"
    using dat_mask_vector_holds [OF W le] by blast
  then show ?thesis using sc by (auto simp: injectDatFault_def Let_def)
qed

text \<open>
  C38: Where an injected error lands. A fault in the data array reaches the RAM row of its way and
  the column of its word, at the row index of its set, and its mask flips exactly the bits of
  that way's slot of the RAM word, with its parity bits and nothing of the other ways; a fault in
  the directory flips the bits of one entry that the mask selects.
\<close>

theorem fault_mask_placement:
  assumes "wf_fi c fc" and "way < HPDCACHE_WAYS c" and "HPDCACHE_TAG_WIDTH c \<le> 53"
  shows "(\<exists>inj. injectDatFault c fc st way word m = Inr inj
       \<and> inj_scope inj = Dat_scope (way div DATA_WAYS_PER_RAM_WORD fc) (word mod ACCESS_WORDS fc)
       \<and> inj_index inj = (st * HPDCACHE_CL_WORDS c + word) div ACCESS_WORDS fc
       \<and> (\<forall>n. vec_bit (inj_mask inj) n \<longleftrightarrow>
            n div dat_word_bits c = way mod DATA_WAYS_PER_RAM_WORD fc \<and> bit m (n mod dat_word_bits c)))
     \<and> (\<exists>inj. injectDirFault c fc st way m = Inr inj
       \<and> inj_scope inj = Dir_scope way \<and> inj_index inj = st
       \<and> (\<forall>n. vec_bit (inj_mask inj) n \<longleftrightarrow> n < dir_word_bits c \<and> bit m n))"
proof
  let ?D = "DATA_WAYS_PER_RAM_WORD fc" and ?W = "dat_word_bits c"
  have W: "0 < ?W" using dat_word_bits_cases [OF assms(1)] by auto
  have slot: "k * ?W \<le> n \<and> n < k * ?W + ?W \<and> bit m (n - k * ?W)
      \<longleftrightarrow> n div ?W = k \<and> bit m (n mod ?W)" for n k
  proof (cases "n div ?W = k")
    case True
    then have "n = k * ?W + n mod ?W" using div_mult_mod_eq [of n ?W] by simp
    moreover have "n mod ?W < ?W" using W by simp
    ultimately have "k * ?W \<le> n" "n < k * ?W + ?W" "n - k * ?W = n mod ?W" by linarith+
    then show ?thesis using True by simp
  next
    case False
    then show ?thesis using W by (auto simp: div_nat_eqI mult.commute)
  qed
  show "\<exists>inj. injectDatFault c fc st way word m = Inr inj
       \<and> inj_scope inj = Dat_scope (way div ?D) (word mod ACCESS_WORDS fc)
       \<and> inj_index inj = (st * HPDCACHE_CL_WORDS c + word) div ACCESS_WORDS fc
       \<and> (\<forall>n. vec_bit (inj_mask inj) n \<longleftrightarrow> n div ?W = way mod ?D \<and> bit m (n mod ?W))"
    using dat_fault_placed [OF assms(1,2), of st word m] by (auto simp: holds_slice_def slot)
  have "0 < dir_word_bits c" "dir_word_bits c \<le> 64"
    using assms(3) by (simp_all add: dir_word_bits_def getParBits_def Let_def)
  from dir_mask_vector_holds [OF this, of m]
  show "\<exists>inj. injectDirFault c fc st way m = Inr inj
       \<and> inj_scope inj = Dir_scope way \<and> inj_index inj = st
       \<and> (\<forall>n. vec_bit (inj_mask inj) n \<longleftrightarrow> n < dir_word_bits c \<and> bit m n)"
    using assms(2)
    by (auto simp: injectDirFault_def getScope_def getDir_def holds_slice_def)
qed

definition ex_fi :: fi_cfg where
  "ex_fi = \<lparr>DATA_WAYS_PER_RAM_WORD = 2, ACCESS_WORDS = 4\<rparr>"

lemma wf_ex_fi: "wf_fi default_cfg ex_fi"
  by (simp add: wf_fi_def default_cfg_def ex_fi_def)

theorem fault_mask_placement_witness:
  "\<exists>inj. injectDatFault default_cfg ex_fi 5 3 6 0xA0 = Inr inj
     \<and> inj_scope inj = Dat_scope 1 2 \<and> inj_index inj = 11
     \<and> vec_bit (inj_mask inj) 77 \<and> vec_bit (inj_mask inj) 79 \<and> \<not> vec_bit (inj_mask inj) 5"
proof -
  have "3 < HPDCACHE_WAYS default_cfg" "HPDCACHE_TAG_WIDTH default_cfg \<le> 53"
    by (simp_all add: default_cfg_def derived_widths HPDCACHE_TEST_DEFS_LOG2_def)
  from fault_mask_placement [OF wf_ex_fi this, of 5 6 "0xA0"]
  show ?thesis
    by (auto simp: default_cfg_def ex_fi_def dat_word_bits_def getParBits_def bit_iff_odd)
qed

text \<open>
  Two faults with the same mask never land in the same place: with a mask that is not empty on a
  word's bits, what is injected determines the set, the way and the word.
\<close>

theorem faults_do_not_collide:
  assumes "wf_fi c fc" and "take_bit (dat_word_bits c) m \<noteq> 0"
    and "way < HPDCACHE_WAYS c" and "word < HPDCACHE_CL_WORDS c"
    and "way' < HPDCACHE_WAYS c" and "word' < HPDCACHE_CL_WORDS c"
    and "injectDatFault c fc st way word m = injectDatFault c fc st' way' word' m"
  shows "st = st' \<and> way = way' \<and> word = word'"
proof -
  let ?D = "DATA_WAYS_PER_RAM_WORD fc" and ?A = "ACCESS_WORDS fc" and ?L = "HPDCACHE_CL_WORDS c"
  let ?W = "dat_word_bits c"
  obtain lv where lv: "injectDatFault c fc st way word m
      = Inr \<lparr>inj_scope = Dat_scope (way div ?D) (word mod ?A), inj_index = (st * ?L + word) div ?A,
             inj_mask = lv\<rparr>"
    "holds_slice ((way mod ?D) * ?W) ?W m lv"
    using dat_fault_placed [OF assms(1,3)] by blast
  obtain lv' where lv': "injectDatFault c fc st' way' word' m
      = Inr \<lparr>inj_scope = Dat_scope (way' div ?D) (word' mod ?A), inj_index = (st' * ?L + word') div ?A,
             inj_mask = lv'\<rparr>"
    "holds_slice ((way' mod ?D) * ?W) ?W m lv'"
    using dat_fault_placed [OF assms(1,5)] by blast
  have eq: "way div ?D = way' div ?D" "word mod ?A = word' mod ?A"
    "(st * ?L + word) div ?A = (st' * ?L + word') div ?A" "lv = lv'"
    using assms(7) lv(1) lv'(1) by simp_all
  obtain k where k: "k < ?W" "bit m k"
    using assms(2) by (auto simp: bit_eq_iff bit_take_bit_iff)
  let ?n = "(way mod ?D) * ?W + k"
  have "vec_bit lv ?n" using lv(2) k unfolding holds_slice_def by simp
  then have "(way' mod ?D) * ?W \<le> ?n \<and> ?n < (way' mod ?D) * ?W + ?W"
    using lv'(2) unfolding eq(4) holds_slice_def by simp
  then have "?n div ?W = way' mod ?D" using k(1) by (intro div_nat_eqI) (simp_all add: mult.commute)
  then have "way mod ?D = way' mod ?D" using k(1) by simp
  then have way: "way = way'" using eq(1) by (metis div_mult_mod_eq)
  have A: "?A dvd st * ?L" "?A dvd st' * ?L" using assms(1) by (simp_all add: wf_fi_def)
  then have "(st * ?L + word) mod ?A = (st' * ?L + word') mod ?A"
    using eq(2) by (metis dvd_imp_mod_0 mod_add_eq add_0 mod_mod_trivial)
  then have "st * ?L + word = st' * ?L + word'" using eq(3) by (metis div_mult_mod_eq)
  then have "(st * ?L + word) div ?L = (st' * ?L + word') div ?L"
    "(st * ?L + word) mod ?L = (st' * ?L + word') mod ?L" by simp_all
  then show ?thesis using way assms(4,6) by simp
qed

theorem faults_do_not_collide_witness:
  "injectDatFault default_cfg ex_fi 5 2 6 0x20 \<noteq> injectDatFault default_cfg ex_fi 5 3 6 0x20"
proof
  assume "injectDatFault default_cfg ex_fi 5 2 6 0x20 = injectDatFault default_cfg ex_fi 5 3 6 0x20"
  from faults_do_not_collide [OF wf_ex_fi _ _ _ _ _ this] show False
    by (simp add: default_cfg_def dat_word_bits_def getParBits_def take_bit_eq_mod)
qed

end
