(* ===== verification/Fault_Scopes.thy ===== *)
theory Fault_Scopes
  imports Fault_Injection
begin

text \<open>
  The constructor of \<open>hpdcache_fault_injection\<close> (\<open>rtl/tb/include/hpdcache_fault_injection.h\<close>): it
  builds the hierarchical name of each RAM of the cache, asks the DPI library for its scope and
  keeps the scopes in the tables that \<open>getScope\<close> reads. \<open>svGetScopeFromName\<close> is an argument, a
  partial function from names to handles. The theorem says that an injected fault reaches the RAM
  whose name has the row and the column of its way and word.
\<close>

section \<open>Names\<close>

definition dir_scope_name :: "nat \<Rightarrow> string" where
  "dir_scope_name w =
     ''i_top.hpdcache_wrapper.i_hpdcache'' @ ''.hpdcache_ctrl_i.hpdcache_memctrl_i''
     @ ''.gen_dir_sram['' @ dec_nat w @ ''].dir_sram.gen_sram_ecc'' @ ''.i_sram.i_sram''"

definition dat_scope_name :: "nat \<Rightarrow> nat \<Rightarrow> string" where
  "dat_scope_name w m =
     ''i_top.hpdcache_wrapper.i_hpdcache'' @ ''.hpdcache_ctrl_i.hpdcache_memctrl_i''
     @ ''.gen_data_sram_row['' @ dec_nat w @ '']'' @ ''.gen_data_sram_col['' @ dec_nat m @ '']''
     @ ''.data_sram.gen_sram_ecc.ram_i.i_sram''"

text \<open>\<open>snprintf\<close> into a buffer of 256 characters cuts the name and ends it with a null.\<close>

definition snprintf_256 :: "string \<Rightarrow> string" where
  "snprintf_256 s = take 255 s"

section \<open>Constructor\<close>

record 'h fault_injection =
  dirScopes :: "'h list"
  datScopes :: "'h list list"

definition get_scope_from_name :: "(string \<Rightarrow> 'h option) \<Rightarrow> string \<Rightarrow> 'h outcome" where
  "get_scope_from_name svGetScopeFromName nm =
     (case svGetScopeFromName (snprintf_256 nm) of None \<Rightarrow> Inl Assertion_failed | Some h \<Rightarrow> Inr h)"

text \<open>A loop that fills an array with the results of a function.\<close>

fun fill :: "(nat \<Rightarrow> 'a outcome) \<Rightarrow> nat list \<Rightarrow> 'a list outcome" where
  "fill f [] = Inr []"
| "fill f (i # is) = andthen (f i) (\<lambda>x. andthen (fill f is) (\<lambda>xs. Inr (x # xs)))"

definition fault_injection_new ::
  "cfg \<Rightarrow> fi_cfg \<Rightarrow> (string \<Rightarrow> 'h option) \<Rightarrow> 'h fault_injection outcome" where
  "fault_injection_new c fc sv =
     andthen (fill (\<lambda>w. get_scope_from_name sv (dir_scope_name w)) [0..<HPDCACHE_WAYS c]) (\<lambda>dirs.
     andthen (fill (\<lambda>w. fill (\<lambda>m. get_scope_from_name sv (dat_scope_name w m)) [0..<ACCESS_WORDS fc])
       [0..<DATA_ROWS c fc]) (\<lambda>dats.
     if HPDCACHE_WORD_WIDTH c = 64 \<or> HPDCACHE_WORD_WIDTH c = 32
     then Inr \<lparr>dirScopes = dirs, datScopes = dats\<rparr> else Inl Assertion_failed))"

text \<open>The handle at the position that \<open>getScope\<close> selects.\<close>

fun scope_handle :: "'h fault_injection \<Rightarrow> scope \<Rightarrow> 'h" where
  "scope_handle fi (Dir_scope w) = dirScopes fi ! w"
| "scope_handle fi (Dat_scope w m) = datScopes fi ! w ! m"

fun scope_name :: "scope \<Rightarrow> string" where
  "scope_name (Dir_scope w) = dir_scope_name w"
| "scope_name (Dat_scope w m) = dat_scope_name w m"

section \<open>Names tell the RAMs apart\<close>

definition dec_value :: "string \<Rightarrow> nat" where
  "dec_value s = foldl (\<lambda>v ch. v * 10 + (of_char ch - 48)) 0 s"

lemma dec_value_dec_nat: "dec_value (dec_nat n) = n"
proof (induction n rule: dec_nat.induct)
  case (1 n)
  show ?case
  proof (cases "n < 10")
    case True
    then show ?thesis by (simp add: dec_value_def dec_nat.simps [of n])
  next
    case False
    have "n mod 10 < 10" by simp
    then have "(48 + n mod 10) mod 256 = 48 + n mod 10" by simp
    with 1 False show ?thesis by (simp add: dec_value_def dec_nat.simps [of n])
  qed
qed

lemma dec_nat_eq_iff [simp]: "dec_nat a = dec_nat b \<longleftrightarrow> a = b"
  using dec_value_dec_nat by metis

lemma dec_nat_digits: "ch \<in> set (dec_nat n) \<Longrightarrow> ch \<noteq> CHR '']''"
proof (induction n rule: dec_nat.induct)
  case (1 n)
  have d: "char_of (48 + d :: nat) \<noteq> CHR '']''" if "d < 10" for d
  proof
    assume "char_of (48 + d :: nat) = CHR '']''"
    then have "of_char (char_of (48 + d :: nat)) = (of_char (CHR '']'') :: nat)" by simp
    with that show False by simp
  qed
  show ?case
    using 1 d [of n] d [of "n mod 10"] by (cases "n < 10") (auto simp: dec_nat.simps [of n])
qed

lemma dec_nat_length: "n < 10 ^ k \<Longrightarrow> 0 < k \<Longrightarrow> length (dec_nat n) \<le> k"
proof (induction k arbitrary: n)
  case 0
  then show ?case by simp
next
  case (Suc k)
  show ?case
  proof (cases "n < 10")
    case True
    then show ?thesis by (simp add: dec_nat.simps [of n])
  next
    case False
    with Suc.prems(1) have "0 < k" by (cases k) auto
    moreover have "n div 10 < 10 ^ k" using Suc.prems(1) by (simp add: less_mult_imp_div_less)
    ultimately have "length (dec_nat (n div 10)) \<le> k" by (intro Suc.IH)
    with False show ?thesis by (simp add: dec_nat.simps [of n])
  qed
qed

lemma dec_nat_bracket:
  assumes "dec_nat a @ CHR '']'' # x = dec_nat b @ CHR '']'' # y"
  shows "a = b \<and> x = y"
proof -
  have "takeWhile (\<lambda>ch. ch \<noteq> CHR '']'') (dec_nat n @ CHR '']'' # z) = dec_nat n" for n z
    using dec_nat_digits by (subst takeWhile_append2) auto
  then have "dec_nat a = dec_nat b" using assms by metis
  with assms show ?thesis by simp
qed

lemma scope_name_inject: "scope_name s = scope_name s' \<Longrightarrow> s = s'"
  by (cases s; cases s')
    (auto simp: dir_scope_name_def dat_scope_name_def dest!: dec_nat_bracket)

text \<open>Positions below \<open>2 ^ 31\<close>, as they are of type \<open>int\<close>.\<close>

fun scope_ok :: "scope \<Rightarrow> bool" where
  "scope_ok (Dir_scope w) = (w < 2 ^ 31)"
| "scope_ok (Dat_scope w m) = (w < 2 ^ 31 \<and> m < 2 ^ 31)"

lemma scope_name_fits: "scope_ok s \<Longrightarrow> snprintf_256 (scope_name s) = scope_name s"
proof -
  have l: "length (dec_nat w) \<le> 10" if "w < 2 ^ 31" for w
    using that by (intro dec_nat_length) simp_all
  assume "scope_ok s"
  then have "length (scope_name s) \<le> 255"
  proof (cases s)
    case (Dir_scope w)
    with \<open>scope_ok s\<close> l [of w] show ?thesis by (simp add: dir_scope_name_def)
  next
    case (Dat_scope w m)
    with \<open>scope_ok s\<close> l [of w] l [of m] show ?thesis by (simp add: dat_scope_name_def)
  qed
  then show ?thesis by (simp add: snprintf_256_def)
qed

section \<open>What the constructor builds\<close>

lemma fill_Inr: "fill f is = Inr xs \<Longrightarrow> length xs = length is \<and> (\<forall>k < length is. f (is ! k) = Inr (xs ! k))"
proof (induction "is" arbitrary: xs)
  case Nil
  then show ?case by simp
next
  case (Cons i "is")
  then show ?case by (auto simp: andthen_Inr_iff less_Suc_eq_0_disj)
qed

lemma constructor_scopes:
  assumes "fault_injection_new c fc sv = Inr fi"
  shows "w < HPDCACHE_WAYS c \<Longrightarrow> sv (snprintf_256 (scope_name (Dir_scope w))) = Some (scope_handle fi (Dir_scope w))"
    and "w < DATA_ROWS c fc \<Longrightarrow> m < ACCESS_WORDS fc \<Longrightarrow>
      sv (snprintf_256 (scope_name (Dat_scope w m))) = Some (scope_handle fi (Dat_scope w m))"
proof -
  have g: "get_scope_from_name sv nm = Inr h \<longleftrightarrow> sv (snprintf_256 nm) = Some h" for nm h
    by (simp add: get_scope_from_name_def split: option.splits)
  obtain dirs dats where f: "fill (\<lambda>w. get_scope_from_name sv (dir_scope_name w)) [0..<HPDCACHE_WAYS c] = Inr dirs"
    "fill (\<lambda>w. fill (\<lambda>m. get_scope_from_name sv (dat_scope_name w m)) [0..<ACCESS_WORDS fc])
       [0..<DATA_ROWS c fc] = Inr dats" "fi = \<lparr>dirScopes = dirs, datScopes = dats\<rparr>"
    using assms by (auto simp: fault_injection_new_def andthen_Inr_iff split: if_splits)
  show "sv (snprintf_256 (scope_name (Dir_scope w))) = Some (scope_handle fi (Dir_scope w))"
    if "w < HPDCACHE_WAYS c"
    using fill_Inr [OF f(1)] that f(3) by (simp add: g)
  show "sv (snprintf_256 (scope_name (Dat_scope w m))) = Some (scope_handle fi (Dat_scope w m))"
    if "w < DATA_ROWS c fc" "m < ACCESS_WORDS fc"
  proof -
    have "fill (\<lambda>m. get_scope_from_name sv (dat_scope_name w m)) [0..<ACCESS_WORDS fc] = Inr (dats ! w)"
      using fill_Inr [OF f(2)] that(1) by simp
    from fill_Inr [OF this] that(2) f(3) show ?thesis by (simp add: g)
  qed
qed

section \<open>Properties\<close>

text \<open>
  C39: When the constructor returns, the scope that \<open>getScope\<close> selects for a fault has the handle the
  simulator gave for the name of that RAM, row and column included; the name is not cut by the
  buffer, and no other RAM has the same name.
\<close>

theorem fault_reaches_named_ram:
  assumes "fault_injection_new c fc sv = Inr fi" and "getScope c fc domain way word = Inr s"
    and "HPDCACHE_WAYS c < 2 ^ 31" and "ACCESS_WORDS fc < 2 ^ 31"
  shows "sv (scope_name s) = Some (scope_handle fi s) \<and> (\<forall>s'. scope_name s' = scope_name s \<longrightarrow> s' = s)"
proof -
  have rows: "DATA_ROWS c fc \<le> HPDCACHE_WAYS c" by (simp add: DATA_ROWS_def)
  have ok: "scope_ok s"
    using assms(2-4) rows by (auto simp: getScope_def DATA_COLS_def split: domain_e.splits if_splits)
  have "sv (snprintf_256 (scope_name s)) = Some (scope_handle fi s)"
    using assms(2) constructor_scopes [OF assms(1)]
    by (auto simp: getScope_def DATA_COLS_def split: domain_e.splits if_splits)
  then show ?thesis using scope_name_fits [OF ok] scope_name_inject by auto
qed

lemma fill_returns: "(\<And>i. i \<in> set is \<Longrightarrow> \<exists>x. f i = Inr x) \<Longrightarrow> \<exists>xs. fill f is = Inr xs"
proof (induction "is")
  case Nil
  then show ?case by simp
next
  case (Cons i "is")
  then obtain x xs where "f i = Inr x" "fill f is = Inr xs" by fastforce
  then show ?case by simp
qed

lemma constructor_returns:
  assumes "\<forall>nm. sv nm \<noteq> None" and "HPDCACHE_WORD_WIDTH c = 64 \<or> HPDCACHE_WORD_WIDTH c = 32"
  shows "\<exists>fi. fault_injection_new c fc sv = Inr fi"
proof -
  have g: "\<exists>h. get_scope_from_name sv nm = Inr h" for nm
    using assms(1) by (auto simp: get_scope_from_name_def split: option.splits)
  obtain dirs where d: "fill (\<lambda>w. get_scope_from_name sv (dir_scope_name w)) [0..<HPDCACHE_WAYS c] = Inr dirs"
    using fill_returns g by meson
  obtain dats where e: "fill (\<lambda>w. fill (\<lambda>m. get_scope_from_name sv (dat_scope_name w m)) [0..<ACCESS_WORDS fc])
      [0..<DATA_ROWS c fc] = Inr dats"
    using fill_returns [of _ "\<lambda>w. fill (\<lambda>m. get_scope_from_name sv (dat_scope_name w m)) [0..<ACCESS_WORDS fc]"]
      fill_returns g by meson
  show ?thesis using assms(2) by (simp only: fault_injection_new_def d e andthen_simps) auto
qed

theorem fault_reaches_named_ram_witness:
  "\<exists>fi. fault_injection_new default_cfg \<lparr>DATA_WAYS_PER_RAM_WORD = 2, ACCESS_WORDS = 4\<rparr> Some = Inr fi
     \<and> scope_handle fi (Dat_scope 1 3) = dat_scope_name 1 3"
proof -
  let ?fc = "\<lparr>DATA_WAYS_PER_RAM_WORD = 2, ACCESS_WORDS = 4\<rparr>"
  obtain fi where fi: "fault_injection_new default_cfg ?fc (Some :: string \<Rightarrow> string option) = Inr fi"
    using constructor_returns [of Some default_cfg ?fc] by (auto simp: default_cfg_def)
  have "getScope default_cfg ?fc CACHE_DAT 3 7 = Inr (Dat_scope 1 3)"
    by (simp add: getScope_def getDatRow_def getDatCol_def DATA_ROWS_def DATA_COLS_def default_cfg_def)
  from fault_reaches_named_ram [OF fi this] fi show ?thesis by (auto simp: default_cfg_def)
qed

end
