(* ===== verification/Driver.thy ===== *)
theory Driver
  imports Transaction
begin

text \<open>
  \<open>rtl/tb/include/hpdcache_test_driver.h\<close>: packing a request into the vector of the core
  interface, unpacking a response, and the thread that drives the interface. Ports are
  written in the order of the code; \<open>wait()\<close> is an event of its own.
\<close>

section \<open>Packing and unpacking\<close>

definition core_get_req_tag :: "cfg \<Rightarrow> 'a req_scheme \<Rightarrow> u64" where
  "core_get_req_tag c t =
     bv_to_uint64 (bv (HPDCACHE_TAG_WIDTH c)
       (bv_range (HPDCACHE_PA_WIDTH c - 1) (HPDCACHE_ADDR_OFFSET_WIDTH c) (req_addr t)))"

definition core_get_req_pma :: "'a req_scheme \<Rightarrow> u32" where
  "core_get_req_pma t =
     (let ret = 0 :: u32;
          ret = (if is_wr_policy_auto t then ret OR push_bit 0 1 else ret);
          ret = (if is_wr_policy_wb t then ret OR push_bit 1 1 else ret);
          ret = (if is_wr_policy_wt t then ret OR push_bit 2 1 else ret);
          ret = (if req_io t then ret OR push_bit 3 1 else ret);
          ret = (if req_uncacheable t then ret OR push_bit 4 1 else ret)
      in ret)"

definition PMA_POS :: "cfg \<Rightarrow> nat" where
  "PMA_POS c = 0"

definition TAG_POS :: "cfg \<Rightarrow> nat" where
  "TAG_POS c = PMA_POS c + HPDCACHE_REQ_PMA_WIDTH"

definition PHYS_INDEXED_POS :: "cfg \<Rightarrow> nat" where
  "PHYS_INDEXED_POS c = TAG_POS c + HPDCACHE_TAG_WIDTH c"

definition NEED_RSP_POS :: "cfg \<Rightarrow> nat" where
  "NEED_RSP_POS c = PHYS_INDEXED_POS c + HPDCACHE_REQ_PHYS_INDEXED_WIDTH"

definition TRANS_ID_POS :: "cfg \<Rightarrow> nat" where
  "TRANS_ID_POS c = NEED_RSP_POS c + HPDCACHE_REQ_NEED_RSP_WIDTH"

definition SRC_ID_POS :: "cfg \<Rightarrow> nat" where
  "SRC_ID_POS c = TRANS_ID_POS c + HPDCACHE_REQ_TRANS_ID_WIDTH c"

definition SIZE_POS :: "cfg \<Rightarrow> nat" where
  "SIZE_POS c = SRC_ID_POS c + HPDCACHE_REQ_SRC_ID_WIDTH c"

definition BE_POS :: "cfg \<Rightarrow> nat" where
  "BE_POS c = SIZE_POS c + HPDCACHE_REQ_SIZE_WIDTH"

definition OP_POS :: "cfg \<Rightarrow> nat" where
  "OP_POS c = BE_POS c + HPDCACHE_REQ_DATA_WIDTH c div 8"

definition WDATA_POS :: "cfg \<Rightarrow> nat" where
  "WDATA_POS c = OP_POS c + HPDCACHE_REQ_OP_WIDTH"

definition ADDR_POS :: "cfg \<Rightarrow> nat" where
  "ADDR_POS c = WDATA_POS c + HPDCACHE_REQ_DATA_WIDTH c"


definition core_req_to_bv :: "cfg \<Rightarrow> 'a req_scheme \<Rightarrow> nat" where
  "core_req_to_bv c t =
     (let ret = 0;
          ret = put_field (PMA_POS c) HPDCACHE_REQ_PMA_WIDTH (unat (core_get_req_pma t)) ret;
          ret = put_field (TAG_POS c) (HPDCACHE_TAG_WIDTH c) (unat (core_get_req_tag c t)) ret;
          ret = put_field (PHYS_INDEXED_POS c) HPDCACHE_REQ_PHYS_INDEXED_WIDTH
                  (if req_phys_indexed t then 1 else 0) ret;
          ret = put_field (NEED_RSP_POS c) HPDCACHE_REQ_NEED_RSP_WIDTH
                  (if req_need_rsp t then 1 else 0) ret;
          ret = put_field (TRANS_ID_POS c) (HPDCACHE_REQ_TRANS_ID_WIDTH c) (req_tid t) ret;
          ret = put_field (SRC_ID_POS c) (HPDCACHE_REQ_SRC_ID_WIDTH c) (req_sid t) ret;
          ret = put_field (SIZE_POS c) HPDCACHE_REQ_SIZE_WIDTH (req_size t) ret;
          ret = put_field (BE_POS c) (HPDCACHE_REQ_DATA_WIDTH c div 8) (req_be t) ret;
          ret = put_field (OP_POS c) HPDCACHE_REQ_OP_WIDTH (req_op t) ret;
          ret = put_field (WDATA_POS c) (HPDCACHE_REQ_DATA_WIDTH c) (req_wdata t) ret;
          ret = put_field (ADDR_POS c) (HPDCACHE_ADDR_OFFSET_WIDTH c)
                  (bv_range (HPDCACHE_ADDR_OFFSET_WIDTH c) 0 (req_addr t)) ret
      in ret)"

definition core_resp_to_struct :: "cfg \<Rightarrow> 'a resp_scheme \<Rightarrow> nat \<Rightarrow> 'a resp_scheme" where
  "core_resp_to_struct c resp v =
     (let ABORTED_POS = 0;
          ERROR_POS = ABORTED_POS + HPDCACHE_RSP_ABORTED_WIDTH;
          TRANS_ID_POS = ERROR_POS + HPDCACHE_RSP_ERROR_WIDTH;
          SRC_ID_POS = TRANS_ID_POS + HPDCACHE_REQ_TRANS_ID_WIDTH c;
          RDATA_POS = SRC_ID_POS + HPDCACHE_REQ_SRC_ID_WIDTH c
      in resp\<lparr>rsp_aborted := 0 < get_field ABORTED_POS HPDCACHE_RSP_ABORTED_WIDTH v,
              rsp_error := 0 < get_field ERROR_POS HPDCACHE_RSP_ERROR_WIDTH v,
              rsp_tid := get_field TRANS_ID_POS (HPDCACHE_REQ_TRANS_ID_WIDTH c) v,
              rsp_sid := get_field SRC_ID_POS (HPDCACHE_REQ_SRC_ID_WIDTH c) v,
              rsp_rdata := get_field RDATA_POS (HPDCACHE_REQ_DATA_WIDTH c) v\<rparr>)"

section \<open>The driving threads\<close>

datatype port_event =
    Inject_Dir_Fault int int nat
  | Inject_Dat_Fault int int int nat
  | Core_Req_Valid bool
  | Core_Req nat
  | Wait
  | Core_Req_Tag u64
  | Core_Req_Pma u32
  | Core_Req_Abort bool
  | Transaction_Ret u64
  | Sb_Core_Req req

text \<open>
  One round of the loop of \<open>drive_request\<close>: the interface was not ready for \<open>stalls\<close> cycles.
\<close>

definition drive_one :: "cfg \<Rightarrow> req \<Rightarrow> nat \<Rightarrow> port_event list" where
  "drive_one c t stalls =
     (if fault_valid (req_fault t) then
        (case fault_domain (req_fault t) of
           CACHE_DIR \<Rightarrow> [Inject_Dir_Fault (fault_set (req_fault t)) (fault_way (req_fault t))
                           (bv_range 63 0 (fault_mask (req_fault t)))]
         | CACHE_DAT \<Rightarrow> [Inject_Dat_Fault (fault_set (req_fault t)) (fault_way (req_fault t))
                           (fault_word (req_fault t)) (bv_range 71 0 (fault_mask (req_fault t)))])
      else [])
     @ [Core_Req_Valid True, Core_Req (core_req_to_bv c t)]
     @ replicate (Suc stalls) Wait
     @ [Core_Req_Valid False,
        Core_Req_Tag (core_get_req_tag c t), Core_Req_Pma (core_get_req_pma t),
        Core_Req_Abort (req_abort t), Transaction_Ret (get_id t), Sb_Core_Req t]"

text \<open>
  The transactions read from the FIFO until the null pointer that ends the sequence, each
  with the cycles the interface stalls it.
\<close>

primrec drive_request :: "cfg \<Rightarrow> (req \<times> nat) list \<Rightarrow> port_event list" where
  "drive_request c [] = []"
| "drive_request c (tn # ts) = drive_one c (fst tn) (snd tn) @ drive_request c ts"

text \<open>\<open>monitor_response\<close>: one response per cycle in which \<open>core_rsp_valid_i\<close> is set.\<close>

primrec monitor_response :: "cfg \<Rightarrow> (bool \<times> nat) list \<Rightarrow> resp list" where
  "monitor_response c [] = []"
| "monitor_response c (vb # vbs) =
     (if fst vb then [core_resp_to_struct c resp_new (snd vb)] else []) @ monitor_response c vbs"

section \<open>Field positions\<close>

lemmas pos_defs =
  PMA_POS_def TAG_POS_def PHYS_INDEXED_POS_def NEED_RSP_POS_def TRANS_ID_POS_def SRC_ID_POS_def
  SIZE_POS_def BE_POS_def OP_POS_def WDATA_POS_def ADDR_POS_def

definition wf_req :: "cfg \<Rightarrow> 'a req_scheme \<Rightarrow> bool" where
  "wf_req c t \<longleftrightarrow> req_addr t < 2 ^ HPDCACHE_PA_WIDTH c \<and> req_wdata t < 2 ^ HPDCACHE_REQ_DATA_WIDTH c
     \<and> req_op t < 2 ^ HPDCACHE_REQ_OP_WIDTH \<and> req_be t < 2 ^ (HPDCACHE_REQ_DATA_WIDTH c div 8)
     \<and> req_size t < 2 ^ HPDCACHE_REQ_SIZE_WIDTH \<and> req_sid t < 2 ^ HPDCACHE_REQ_SRC_ID_WIDTH c
     \<and> req_tid t < 2 ^ HPDCACHE_REQ_TRANS_ID_WIDTH c"

lemma widths_positive:
  assumes "wf_cfg c"
  shows "0 < HPDCACHE_TAG_WIDTH c" "0 < HPDCACHE_REQ_TRANS_ID_WIDTH c"
    "0 < HPDCACHE_REQ_SRC_ID_WIDTH c" "0 < HPDCACHE_REQ_DATA_WIDTH c div 8"
    "0 < HPDCACHE_REQ_DATA_WIDTH c" "0 < HPDCACHE_ADDR_OFFSET_WIDTH c"
  using assms addr_offset_width [OF assms] cl_offset_width_pos [OF assms] req_data_width [OF assms]
  by (simp_all add: wf_cfg_def)

lemma core_get_req_tag_eq:
  assumes "wf_cfg c" and "req_addr t < 2 ^ HPDCACHE_PA_WIDTH c"
  shows "unat (core_get_req_tag c t) = req_addr t div 2 ^ HPDCACHE_ADDR_OFFSET_WIDTH c"
proof -
  let ?o = "HPDCACHE_ADDR_OFFSET_WIDTH c" and ?t = "HPDCACHE_TAG_WIDTH c"
  note ow = addr_offset_width [OF assms(1)]
  have pa: "Suc (HPDCACHE_PA_WIDTH c - Suc 0) - ?o = ?t" using ow by linarith
  have lt: "req_addr t div 2 ^ ?o < 2 ^ ?t"
    using assms(2) ow(2) by (metis add.commute less_mult_imp_div_less power_add)
  have t64: "?t \<le> 64" using assms(1) ow(2) by (simp add: wf_cfg_def)
  then have "(2 :: nat) ^ ?t \<le> 2 ^ 64" by (intro power_increasing) auto
  with lt have "req_addr t div 2 ^ ?o < 2 ^ 64" by linarith
  then show ?thesis
    using lt by (simp add: core_get_req_tag_def bv_range_def pa bv_def bv_to_uint64_def
        drop_bit_eq_div take_bit_nat_eq_self unat_word_of_nat)
qed

lemma core_get_req_pma_less: "unat (core_get_req_pma t) < 2 ^ HPDCACHE_REQ_PMA_WIDTH"
  by (cases "req_wr_policy_hint t"; cases "req_io t"; cases "req_uncacheable t")
    (simp_all add: core_get_req_pma_def is_wr_policy_auto_def is_wr_policy_wb_def
      is_wr_policy_wt_def HPDCACHE_REQ_PMA_WIDTH_def Let_def push_bit_of_1)

text \<open>The request that a bus value stands for, read at the positions of the interface.\<close>

definition decodes_to :: "cfg \<Rightarrow> nat \<Rightarrow> 'a req_scheme \<Rightarrow> bool" where
  "decodes_to c v t \<longleftrightarrow>
     get_field (OP_POS c) HPDCACHE_REQ_OP_WIDTH v = req_op t
     \<and> get_field (WDATA_POS c) (HPDCACHE_REQ_DATA_WIDTH c) v = req_wdata t
     \<and> get_field (BE_POS c) (HPDCACHE_REQ_DATA_WIDTH c div 8) v = req_be t
     \<and> get_field (SIZE_POS c) HPDCACHE_REQ_SIZE_WIDTH v = req_size t
     \<and> get_field (SRC_ID_POS c) (HPDCACHE_REQ_SRC_ID_WIDTH c) v = req_sid t
     \<and> get_field (TRANS_ID_POS c) (HPDCACHE_REQ_TRANS_ID_WIDTH c) v = req_tid t
     \<and> (get_field (NEED_RSP_POS c) HPDCACHE_REQ_NEED_RSP_WIDTH v = 1) = req_need_rsp t
     \<and> (get_field (PHYS_INDEXED_POS c) HPDCACHE_REQ_PHYS_INDEXED_WIDTH v = 1) = req_phys_indexed t
     \<and> get_field (PMA_POS c) HPDCACHE_REQ_PMA_WIDTH v = unat (core_get_req_pma t)
     \<and> get_field (TAG_POS c) (HPDCACHE_TAG_WIDTH c) v * 2 ^ HPDCACHE_ADDR_OFFSET_WIDTH c
         + get_field (ADDR_POS c) (HPDCACHE_ADDR_OFFSET_WIDTH c) v = req_addr t
     \<and> v < 2 ^ HPDCACHE_CORE_REQ_WIDTH c"

lemma core_req_decodes:
  assumes "wf_cfg c" and "wf_req c t"
  shows "decodes_to c (core_req_to_bv c t) t"
proof -
  define v where "v = core_req_to_bv c t"
  let ?o = "HPDCACHE_ADDR_OFFSET_WIDTH c"
  note pos = widths_positive [OF assms(1)]
  note r = assms(2) [unfolded wf_req_def]
  note tag = core_get_req_tag_eq [OF assms(1), of t]
  have tb: "take_bit w x = x" if "x < 2 ^ w" for w and x :: nat
    using that by (rule take_bit_nat_eq_self)
  have taglt: "req_addr t div 2 ^ ?o < 2 ^ HPDCACHE_TAG_WIDTH c"
    using r addr_offset_width(2) [OF assms(1)]
    by (metis add.commute less_mult_imp_div_less power_add)
  have off: "take_bit ?o (bv_range ?o 0 (req_addr t)) = req_addr t mod 2 ^ ?o"
  proof -
    have "take_bit ?o (bv_range ?o 0 (req_addr t)) = take_bit ?o (req_addr t)"
      by (simp add: bv_range_def take_bit_take_bit)
    then show ?thesis by (simp only: take_bit_eq_mod)
  qed
  note f = pos_defs fixed_widths
  have sel: "get_field (OP_POS c) HPDCACHE_REQ_OP_WIDTH v = req_op t"
    "get_field (WDATA_POS c) (HPDCACHE_REQ_DATA_WIDTH c) v = req_wdata t"
    "get_field (BE_POS c) (HPDCACHE_REQ_DATA_WIDTH c div 8) v = req_be t"
    "get_field (SIZE_POS c) HPDCACHE_REQ_SIZE_WIDTH v = req_size t"
    "get_field (SRC_ID_POS c) (HPDCACHE_REQ_SRC_ID_WIDTH c) v = req_sid t"
    "get_field (TRANS_ID_POS c) (HPDCACHE_REQ_TRANS_ID_WIDTH c) v = req_tid t"
    "get_field (NEED_RSP_POS c) HPDCACHE_REQ_NEED_RSP_WIDTH v = (if req_need_rsp t then 1 else 0)"
    "get_field (PHYS_INDEXED_POS c) HPDCACHE_REQ_PHYS_INDEXED_WIDTH v
       = (if req_phys_indexed t then 1 else 0)"
    "get_field (PMA_POS c) HPDCACHE_REQ_PMA_WIDTH v = unat (core_get_req_pma t)"
    "get_field (TAG_POS c) (HPDCACHE_TAG_WIDTH c) v = req_addr t div 2 ^ ?o"
    "get_field (ADDR_POS c) ?o v = req_addr t mod 2 ^ ?o"
    using pos r tag taglt off core_get_req_pma_less [of t]
    by (simp_all add: v_def core_req_to_bv_def Let_def get_put tb f)
  have "v < 2 ^ HPDCACHE_CORE_REQ_WIDTH c"
    unfolding v_def core_req_to_bv_def Let_def
    by (intro put_field_less) (use pos in \<open>simp_all add: f HPDCACHE_CORE_REQ_WIDTH_def\<close>)
  with sel have "decodes_to c v t"
    unfolding decodes_to_def
    using div_mult_mod_eq [of "req_addr t" "2 ^ ?o"] by (simp only: if_True if_False) simp
  then show ?thesis unfolding v_def .
qed

section \<open>Properties\<close>

text \<open>
  the request vector carries every field of the request at the position the interface
  structure gives it: reading each range back returns the field, the two parts of the
  address (offset and tag) rebuild it, and nothing lies above the width of the vector.
\<close>

theorem core_req_roundtrip:
  assumes "wf_cfg c" and "wf_req c t"
  defines "v \<equiv> core_req_to_bv c t"
  shows "get_field (OP_POS c) HPDCACHE_REQ_OP_WIDTH v = req_op t
     \<and> get_field (WDATA_POS c) (HPDCACHE_REQ_DATA_WIDTH c) v = req_wdata t
     \<and> get_field (BE_POS c) (HPDCACHE_REQ_DATA_WIDTH c div 8) v = req_be t
     \<and> get_field (SIZE_POS c) HPDCACHE_REQ_SIZE_WIDTH v = req_size t
     \<and> get_field (SRC_ID_POS c) (HPDCACHE_REQ_SRC_ID_WIDTH c) v = req_sid t
     \<and> get_field (TRANS_ID_POS c) (HPDCACHE_REQ_TRANS_ID_WIDTH c) v = req_tid t
     \<and> (get_field (NEED_RSP_POS c) HPDCACHE_REQ_NEED_RSP_WIDTH v = 1) = req_need_rsp t
     \<and> (get_field (PHYS_INDEXED_POS c) HPDCACHE_REQ_PHYS_INDEXED_WIDTH v = 1) = req_phys_indexed t
     \<and> get_field (PMA_POS c) HPDCACHE_REQ_PMA_WIDTH v = unat (core_get_req_pma t)
     \<and> get_field (TAG_POS c) (HPDCACHE_TAG_WIDTH c) v * 2 ^ HPDCACHE_ADDR_OFFSET_WIDTH c
         + get_field (ADDR_POS c) (HPDCACHE_ADDR_OFFSET_WIDTH c) v = req_addr t
     \<and> v < 2 ^ HPDCACHE_CORE_REQ_WIDTH c"
  using core_req_decodes [OF assms(1,2)] unfolding decodes_to_def v_def .

theorem core_req_roundtrip_witness:
  "get_field (OP_POS default_cfg) HPDCACHE_REQ_OP_WIDTH
     (core_req_to_bv default_cfg (req_new\<lparr>req_addr := 0x12345, req_op := 7, req_tid := 9\<rparr>)) = 7"
  using core_req_roundtrip [OF wf_default_cfg,
      of "req_new\<lparr>req_addr := 0x12345, req_op := 7, req_tid := 9\<rparr>"]
  by (simp add: wf_req_def req_new_def default_cfg_def fixed_widths)

text \<open>
  unpacking a response vector that was packed field by field (the layout of
  \<open>hpdcache_rsp_t\<close>, most significant field first: data, source, transaction, error,
  aborted) returns the fields.
\<close>

theorem core_resp_roundtrip:
  assumes "wf_cfg c" and "rdata < 2 ^ HPDCACHE_REQ_DATA_WIDTH c"
    and "sid < 2 ^ HPDCACHE_REQ_SRC_ID_WIDTH c" and "tid < 2 ^ HPDCACHE_REQ_TRANS_ID_WIDTH c"
  shows "core_resp_to_struct c r
      ((((rdata * 2 ^ HPDCACHE_REQ_SRC_ID_WIDTH c + sid) * 2 ^ HPDCACHE_REQ_TRANS_ID_WIDTH c + tid)
          * 2 + of_bool err) * 2 + of_bool ab)
     = r\<lparr>rsp_aborted := ab, rsp_error := err, rsp_tid := tid, rsp_sid := sid, rsp_rdata := rdata\<rparr>"
proof -
  let ?d = "HPDCACHE_REQ_DATA_WIDTH c" and ?s = "HPDCACHE_REQ_SRC_ID_WIDTH c"
    and ?i = "HPDCACHE_REQ_TRANS_ID_WIDTH c"
  note pos = widths_positive [OF assms(1)]
  define a where "a = rdata * 2 ^ ?s + sid"
  define b where "b = a * 2 ^ ?i + tid"
  let ?v = "(b * 2 + of_bool err) * 2 + of_bool ab"
  have gf: "get_field p w v = v div 2 ^ p mod 2 ^ w" if "0 < w" for p w v
    using that by (simp add: get_field_def bv_range_def take_bit_eq_mod drop_bit_eq_div)
  have d2: "?v div 2 = b * 2 + of_bool err" "?v div 4 = b" by (cases ab; cases err; simp)+
  have m2: "?v mod 2 = of_bool ab" "(b * 2 + of_bool err) mod 2 = of_bool err"
    by (simp_all only: mod_mult_self3) simp_all
  have p2: "(2 :: nat) ^ 2 = 4" by simp
  have bi: "b div 2 ^ ?i = a" "b mod 2 ^ ?i = tid" using assms(4) by (simp_all add: b_def)
  have as: "a div 2 ^ ?s = rdata" "a mod 2 ^ ?s = sid" using assms(3) by (simp_all add: a_def)
  have dd: "?v div 2 ^ (2 + ?i) = a" "?v div 2 ^ (2 + ?i + ?s) = rdata"
  proof -
    have p: "(2 :: nat) ^ (2 + ?i) = 4 * 2 ^ ?i" "(2 :: nat) ^ (2 + ?i + ?s) = 4 * 2 ^ ?i * 2 ^ ?s"
      by (simp_all add: power_add)
    show "?v div 2 ^ (2 + ?i) = a" "?v div 2 ^ (2 + ?i + ?s) = rdata"
      by (simp_all only: p div_mult2_eq d2 bi as)
  qed
  have f: "(0 < get_field 0 1 ?v) = ab" "(0 < get_field 1 1 ?v) = err" "get_field 2 ?i ?v = tid"
    "get_field (2 + ?i) ?s ?v = sid" "get_field (2 + ?i + ?s) ?d ?v = rdata"
    using pos assms(2)
    by (simp_all only: gf zero_less_one power_0 power_one_right div_by_1 m2 d2 dd bi as mod_less)
      (simp_all only: gf p2 d2 bi zero_less_of_bool_iff)
  show ?thesis
    unfolding a_def [symmetric] b_def [symmetric] core_resp_to_struct_def Let_def
      HPDCACHE_RSP_ABORTED_WIDTH_def HPDCACHE_RSP_ERROR_WIDTH_def
    using f by (simp only: add_0 one_add_one)
qed

theorem core_resp_roundtrip_witness:
  "core_resp_to_struct default_cfg resp_new ((((77 * 8 + 3) * 64 + 9) * 2 + 1) * 2 + 0)
     = resp_new\<lparr>rsp_aborted := False, rsp_error := True, rsp_tid := 9, rsp_sid := 3, rsp_rdata := 77\<rparr>"
  using core_resp_roundtrip [OF wf_default_cfg, of 77 3 9 resp_new True False]
  by (simp add: default_cfg_def HPDCACHE_REQ_DATA_WIDTH_def)

lemma drive_request_order:
  "[t. Sb_Core_Req t \<leftarrow> drive_request c ts] = map fst ts
     \<and> [i. Transaction_Ret i \<leftarrow> drive_request c ts] = map (get_id \<circ> fst) ts
     \<and> [v. Core_Req v \<leftarrow> drive_request c ts] = map (core_req_to_bv c \<circ> fst) ts"
proof (induction ts)
  case Nil
  then show ?case by simp
next
  case (Cons tn ts)
  have w: "[t. Sb_Core_Req t \<leftarrow> replicate n Wait] = []" "[i. Transaction_Ret i \<leftarrow> replicate n Wait] = []"
    "[v. Core_Req v \<leftarrow> replicate n Wait] = []" for n
    by (induction n) simp_all
  from Cons show ?case
    by (cases "fault_domain (req_fault (fst tn))") (simp_all add: drive_one_def w)
qed

text \<open>
  the driver consumes the transactions in order and, whatever the interface's stalls, for
  each one packs it once on the request port, acknowledges it once and hands it once to the
  scoreboard.
\<close>

theorem driver_forwards_in_order:
  "[t. Sb_Core_Req t \<leftarrow> drive_request c ts] = map fst ts
     \<and> [i. Transaction_Ret i \<leftarrow> drive_request c ts] = map (get_id \<circ> fst) ts
     \<and> [v. Core_Req v \<leftarrow> drive_request c ts] = map (core_req_to_bv c \<circ> fst) ts"
  by (rule drive_request_order)

end
