(* ===== verification/Transaction_Pool.thy ===== *)
theory Transaction_Pool
  imports Transaction
begin

text \<open>
  \<open>rtl/tb/sc_verif_lib/include/transaction_pool.h\<close> and the acquire and release members of
  \<open>rtl/tb/sc_verif_lib/include/sequence.h\<close>. Transactions are shared objects, so the pool
  keeps references (indices) into a store of all objects it has ever made; the members that
  write an object through a pointer update the store. The testbench instantiates the
  template with the request class.
\<close>

section \<open>The pool\<close>

record pool =
  heap :: "req list"
  free_refs :: "nat list"
  trans_bundle_sz :: int
  nb_trans :: u64
  nb_allocated :: u64
  nb_release :: u64

definition pool_new :: "int \<Rightarrow> pool" where
  "pool_new sz = \<lparr>heap = [], free_refs = [], trans_bundle_sz = sz, nb_trans = 0,
     nb_allocated = 0, nb_release = 0\<rparr>"

definition make_one :: "pool \<Rightarrow> pool" where
  "make_one p = p\<lparr>heap := heap p @ [req_new], free_refs := free_refs p @ [length (heap p)],
     nb_allocated := nb_allocated p + 1\<rparr>"

definition refill :: "pool \<Rightarrow> pool" where
  "refill p =
     (if free_refs p = [] then foldl (\<lambda>p i. make_one p) p [0..<nat (trans_bundle_sz p)] else p)"

text \<open>Taking the front of an empty \<open>std::list\<close> is undefined.\<close>

definition pool_acquire :: "pool \<Rightarrow> (nat \<times> pool) outcome" where
  "pool_acquire p =
     (let p = refill p
      in case free_refs p of
           [] \<Rightarrow> Inl Undefined_behaviour
         | ret # rest \<Rightarrow>
             Inr (ret, p\<lparr>free_refs := rest,
                         heap := (heap p)[ret := set_id (nb_trans p) (heap p ! ret)],
                         nb_trans := nb_trans p + 1\<rparr>))"

definition pool_release :: "nat \<Rightarrow> pool \<Rightarrow> pool" where
  "pool_release t p = p\<lparr>nb_release := nb_release p + 1, free_refs := free_refs p @ [t]\<rparr>"

section \<open>Acquiring and releasing through a sequence\<close>

definition acquire_transaction :: "pool \<Rightarrow> (nat \<times> pool) outcome" where
  "acquire_transaction p =
     andthen (pool_acquire p) (\<lambda>(ret, p). Inr (ret, p\<lparr>heap := (heap p)[ret := req_new]\<rparr>))"

definition acquire_transaction_init :: "req \<Rightarrow> pool \<Rightarrow> (nat \<times> pool) outcome" where
  "acquire_transaction_init init p =
     andthen (pool_acquire p)
       (\<lambda>(ret, p).
          let i = get_id (heap p ! ret)
          in Inr (ret, p\<lparr>heap := (heap p)[ret := set_id i init]\<rparr>))"

definition release_transaction :: "nat \<Rightarrow> pool \<Rightarrow> pool" where
  "release_transaction t p = pool_release t p"

section \<open>The contract of a pool of shared objects\<close>

text \<open>
  \<open>inv owned p\<close>: the client holds the references \<open>owned\<close>. Acquiring hands out a reference
  the client does not hold, releasing takes back one it holds.
\<close>

fun acquire_many :: "('p \<Rightarrow> (nat \<times> 'p) outcome) \<Rightarrow> nat \<Rightarrow> 'p \<Rightarrow> (nat list \<times> 'p) outcome" where
  "acquire_many acq 0 p = Inr ([], p)"
| "acquire_many acq (Suc n) p =
     andthen (acq p) (\<lambda>(r, p). andthen (acquire_many acq n p) (\<lambda>(rs, p). Inr (r # rs, p)))"

locale object_pool =
  fixes inv :: "nat set \<Rightarrow> 'p \<Rightarrow> bool"
    and acquire :: "'p \<Rightarrow> (nat \<times> 'p) outcome"
    and release :: "nat \<Rightarrow> 'p \<Rightarrow> 'p"
  assumes acquire_ok: "inv owned p \<Longrightarrow>
      \<exists>r p'. acquire p = Inr (r, p') \<and> r \<notin> owned \<and> inv (insert r owned) p'"
    and release_ok: "inv owned p \<Longrightarrow> r \<in> owned \<Longrightarrow> inv (owned - {r}) (release r p)"
begin

text \<open>Acquiring \<open>n\<close> objects in a row gives \<open>n\<close> different ones.\<close>

lemma acquire_many_fresh:
  "inv owned p \<Longrightarrow> \<exists>rs p'. acquire_many acquire n p = Inr (rs, p') \<and> length rs = n \<and> distinct rs
     \<and> set rs \<inter> owned = {} \<and> inv (set rs \<union> owned) p'"
proof (induction n arbitrary: p owned)
  case 0
  then show ?case by simp
next
  case (Suc n)
  obtain r p1 where r: "acquire p = Inr (r, p1)" "r \<notin> owned" "inv (insert r owned) p1"
    using acquire_ok [OF Suc.prems] by blast
  obtain rs p2 where rs: "acquire_many acquire n p1 = Inr (rs, p2)" "length rs = n" "distinct rs"
    "set rs \<inter> insert r owned = {}" "inv (set rs \<union> insert r owned) p2"
    using Suc.IH [OF r(3)] by blast
  have "set (r # rs) \<union> owned = set rs \<union> insert r owned" by auto
  then show ?case using r rs by auto
qed

lemma release_then_acquire:
  assumes "inv owned p" and "r \<in> owned"
  shows "\<exists>r' p'. acquire (release r p) = Inr (r', p') \<and> r' \<notin> owned - {r}"
  using acquire_ok [OF release_ok [OF assms]] by blast

end

section \<open>The pool meets the contract\<close>

definition wf_pool :: "nat set \<Rightarrow> pool \<Rightarrow> bool" where
  "wf_pool owned p \<longleftrightarrow> 0 < trans_bundle_sz p \<and> distinct (free_refs p)
     \<and> set (free_refs p) \<inter> owned = {} \<and> set (free_refs p) \<union> owned = {..<length (heap p)}
     \<and> nb_allocated p = word_of_nat (length (heap p))"

lemma wf_pool_new: "0 < sz \<Longrightarrow> wf_pool {} (pool_new sz)"
  by (simp add: wf_pool_def pool_new_def)

lemma make_one_fields [simp]:
  "length (heap (make_one p)) = Suc (length (heap p))"
  "free_refs (make_one p) = free_refs p @ [length (heap p)]"
  "trans_bundle_sz (make_one p) = trans_bundle_sz p" "nb_trans (make_one p) = nb_trans p"
  by (simp_all add: make_one_def)

lemma wf_pool_make_one:
  assumes "wf_pool owned p"
  shows "wf_pool owned (make_one p)"
proof -
  have "set (free_refs p) \<union> owned = {..<length (heap p)}"
    using assms by (simp add: wf_pool_def)
  then have "length (heap p) \<notin> set (free_refs p)" "length (heap p) \<notin> owned"
    by auto
  then show ?thesis
    using assms by (auto simp: wf_pool_def make_one_def lessThan_Suc)
qed

lemma wf_pool_make_many:
  "wf_pool owned p \<Longrightarrow> wf_pool owned (foldl (\<lambda>p i. make_one p) p xs)
     \<and> length (free_refs (foldl (\<lambda>p i. make_one p) p xs)) = length (free_refs p) + length xs
     \<and> nb_trans (foldl (\<lambda>p i. make_one p) p xs) = nb_trans p"
  by (induction xs arbitrary: p) (simp_all add: wf_pool_make_one)

lemma wf_pool_refill:
  assumes "wf_pool owned p"
  shows "wf_pool owned (refill p)" and "free_refs (refill p) \<noteq> []"
    and "nb_trans (refill p) = nb_trans p"
proof -
  let ?xs = "[0..<nat (trans_bundle_sz p)]"
  have "0 < length ?xs" using assms by (simp add: wf_pool_def)
  with wf_pool_make_many [OF assms, of ?xs]
  show "wf_pool owned (refill p)" and "free_refs (refill p) \<noteq> []"
    and "nb_trans (refill p) = nb_trans p"
    using assms by (auto simp: refill_def simp flip: length_greater_0_conv simp del: length_upt)
qed

lemma pool_acquire_ok:
  assumes "wf_pool owned p"
  shows "\<exists>r p'. pool_acquire p = Inr (r, p') \<and> r \<notin> owned \<and> wf_pool (insert r owned) p'
     \<and> r < length (heap p') \<and> trans_id (heap p' ! r) = nb_trans p \<and> nb_trans p' = nb_trans p + 1"
proof -
  note rf = wf_pool_refill [OF assms]
  obtain r rest where fr: "free_refs (refill p) = r # rest"
    using rf(2) by (cases "free_refs (refill p)") auto
  have r: "r < length (heap (refill p))" "r \<notin> owned" "r \<notin> set rest" "distinct rest"
    using rf(1) fr by (auto simp: wf_pool_def)
  have un: "set rest \<union> insert r owned = {..<length (heap (refill p))}"
    using rf(1) fr by (auto simp: wf_pool_def)
  have disj: "set rest \<inter> insert r owned = {}"
    using rf(1) fr r by (auto simp: wf_pool_def)
  show ?thesis
    using rf(1,3) fr r un disj
    by (auto simp: pool_acquire_def Let_def wf_pool_def set_id_def)
qed

lemma wf_pool_heap: "wf_pool owned (p\<lparr>heap := (heap p)[r := x]\<rparr>) = wf_pool owned p"
  by (simp add: wf_pool_def)

lemma acquire_transaction_ok:
  assumes "wf_pool owned p"
  shows "\<exists>r p'. acquire_transaction p = Inr (r, p') \<and> r \<notin> owned \<and> wf_pool (insert r owned) p'"
proof -
  obtain r p' where "pool_acquire p = Inr (r, p')" "r \<notin> owned" "wf_pool (insert r owned) p'"
    using pool_acquire_ok [OF assms] by blast
  then show ?thesis by (simp add: acquire_transaction_def wf_pool_heap)
qed

lemma acquire_transaction_new:
  assumes "wf_pool owned p"
  shows "\<exists>r p'. acquire_transaction p = Inr (r, p') \<and> r \<notin> owned \<and> wf_pool (insert r owned) p'
     \<and> r < length (heap p') \<and> heap p' ! r = req_new"
proof -
  obtain r p' where "pool_acquire p = Inr (r, p')" "r \<notin> owned" "wf_pool (insert r owned) p'"
    "r < length (heap p')"
    using pool_acquire_ok [OF assms] by blast
  then show ?thesis by (simp add: acquire_transaction_def wf_pool_heap)
qed

lemma release_transaction_ok:
  assumes "wf_pool owned p" and "r \<in> owned"
  shows "wf_pool (owned - {r}) (release_transaction r p)"
proof -
  have "r \<notin> set (free_refs p)" using assms by (auto simp: wf_pool_def)
  moreover have "insert r (set (free_refs p)) \<union> (owned - {r}) = {..<length (heap p)}"
    using assms by (auto simp: wf_pool_def)
  ultimately show ?thesis
    using assms by (auto simp: wf_pool_def release_transaction_def pool_release_def)
qed

interpretation tp: object_pool wf_pool acquire_transaction release_transaction
  by unfold_locales (fact acquire_transaction_ok, fact release_transaction_ok)

section \<open>Properties\<close>

text \<open>
  C32: the pool never hands out a transaction the client still holds: from any state in which
  the free list and the references held make up all objects, acquiring succeeds with an
  object that is not held, and releasing any held object keeps the pool consistent.
\<close>

theorem pool_never_aliases:
  assumes "wf_pool owned p"
  shows "\<exists>r p'. acquire_transaction p = Inr (r, p') \<and> r \<notin> owned \<and> wf_pool (insert r owned) p'
     \<and> (\<forall>h \<in> insert r owned. \<exists>r' p''.
          acquire_transaction (release_transaction h p') = Inr (r', p'')
          \<and> r' \<notin> insert r owned - {h})"
  using tp.acquire_ok [OF assms] tp.release_then_acquire by blast

theorem pool_never_aliases_witness:
  "\<exists>r p'. acquire_transaction (pool_new 10) = Inr (r, p') \<and> wf_pool {r} p'"
  using pool_never_aliases [OF wf_pool_new [of 10]] by auto

text \<open>
  transaction identifiers: copying an initial value into an acquired transaction keeps the
  pool's running number as its identifier, while the default variant overwrites the
  transaction, number included, so its identifier is always 0.
\<close>

theorem acquired_identifiers:
  assumes "wf_pool owned p"
  shows "(\<exists>r p'. acquire_transaction_init init p = Inr (r, p')
            \<and> heap p' ! r = init\<lparr>trans_id := nb_trans p\<rparr> \<and> nb_trans p' = nb_trans p + 1)
     \<and> (\<exists>r p'. acquire_transaction p = Inr (r, p')
            \<and> heap p' ! r = req_new \<and> get_id (heap p' ! r) = 0)"
proof -
  obtain r p' where "pool_acquire p = Inr (r, p')" "r < length (heap p')"
    "trans_id (heap p' ! r) = nb_trans p" "nb_trans p' = nb_trans p + 1"
    using pool_acquire_ok [OF assms] by blast
  then show ?thesis
    by (simp add: acquire_transaction_def acquire_transaction_init_def get_id_def set_id_def
        req_new_def)
qed

theorem acquired_identifiers_witness:
  "\<exists>r p'. acquire_transaction (pool_new 10) = Inr (r, p') \<and> get_id (heap p' ! r) = 0"
  using acquired_identifiers [OF wf_pool_new [of 10], of req_new] by auto

end
