(* ===== verification/Sequence_Base.thy ===== *)
theory Sequence_Base
  imports Transaction_Pool
begin

text \<open>
  \<open>rtl/tb/include/hpdcache_test_sequence.h\<close>: the base class of the test sequences. Its
  memory segments, the allocation of transaction identifiers, and sending a transaction.
  \<open>rand()\<close> is an argument. The state is the part of the object the operations use: the
  pool, the list \<open>ids\<close>, the limit on transactions and the contents written so far to
  \<open>transaction_fifo_o\<close>.
\<close>

section \<open>Memory segments\<close>

datatype wr_policy_e = WR_POLICY_AUTO | WR_POLICY_WB | WR_POLICY_WT | WR_POLICY_RANDOM

record memory_segment =
  seg_base :: nat
  seg_length :: nat
  seg_uncached :: bool
  seg_amo_supported :: bool
  seg_wr_policy_hint :: wr_policy_e

definition memory_segment_new :: memory_segment where
  "memory_segment_new = \<lparr>seg_base = 0, seg_length = 0, seg_uncached = False,
     seg_amo_supported = False, seg_wr_policy_hint = WR_POLICY_AUTO\<rparr>"

definition get_base :: "memory_segment \<Rightarrow> u64" where
  "get_base s = bv_to_uint64 (seg_base s)"

definition get_length :: "memory_segment \<Rightarrow> u64" where
  "get_length s = bv_to_uint64 (seg_length s)"

definition get_end :: "memory_segment \<Rightarrow> u64" where
  "get_end s = bv_to_uint64 (seg_base s) + (bv_to_uint64 (seg_length s) - 1)"

definition set_base :: "cfg \<Rightarrow> u64 \<Rightarrow> memory_segment \<Rightarrow> memory_segment" where
  "set_base c base s = s\<lparr>seg_base := bv (HPDCACHE_PA_WIDTH c) (unat base)\<rparr>"

definition set_length :: "cfg \<Rightarrow> u64 \<Rightarrow> memory_segment \<Rightarrow> memory_segment" where
  "set_length c len s = s\<lparr>seg_length := bv (HPDCACHE_PA_WIDTH c) (unat len)\<rparr>"

definition set_uncached :: "bool \<Rightarrow> memory_segment \<Rightarrow> memory_segment" where
  "set_uncached b s = s\<lparr>seg_uncached := b\<rparr>"

definition set_amo_supported :: "bool \<Rightarrow> memory_segment \<Rightarrow> memory_segment" where
  "set_amo_supported b s = s\<lparr>seg_amo_supported := b\<rparr>"

definition set_wr_policy_hint :: "wr_policy_e \<Rightarrow> memory_segment \<Rightarrow> memory_segment" where
  "set_wr_policy_hint h s = s\<lparr>seg_wr_policy_hint := h\<rparr>"

section \<open>The sequence\<close>

record seq_state =
  transaction_pool :: pool
  ids :: "nat list"
  seq_name :: string
  max_transactions :: nat
  transaction_fifo :: "req list"

definition seq_new :: "string \<Rightarrow> seq_state" where
  "seq_new n = \<lparr>transaction_pool = pool_new 10, ids = [], seq_name = n, max_transactions = 100,
     transaction_fifo = []\<rparr>"

definition HPDCACHE_REQ_MAX_TRANS_ID :: "cfg \<Rightarrow> nat" where
  "HPDCACHE_REQ_MAX_TRANS_ID c = push_bit (HPDCACHE_REQ_TRANS_ID_WIDTH c) 1"

definition is_available_id :: "cfg \<Rightarrow> seq_state \<Rightarrow> bool" where
  "is_available_id c s \<longleftrightarrow> length (ids s) < HPDCACHE_REQ_MAX_TRANS_ID c"

text \<open>The loop \<open>for (;;)\<close> of \<open>allocate_id\<close>; \<open>None\<close> means that it never ends.\<close>

partial_function (option) probe_id :: "nat \<Rightarrow> nat list \<Rightarrow> nat \<Rightarrow> nat option" where
  "probe_id m used i = (if i \<notin> set used then Some i else probe_id m used ((i + 1) mod m))"

declare probe_id.simps [code]

definition allocate_id :: "cfg \<Rightarrow> nat \<Rightarrow> seq_state \<Rightarrow> (nat \<times> seq_state) outcome option" where
  "allocate_id c rand s =
     (if \<not> is_available_id c s then Some (Inl Assertion_failed)
      else map_option (\<lambda>i. Inr (i, s\<lparr>ids := ids s @ [i]\<rparr>))
             (probe_id (HPDCACHE_REQ_MAX_TRANS_ID c) (ids s) (rand mod HPDCACHE_REQ_MAX_TRANS_ID c)))"

text \<open>An identifier that is not in use is only reported: the second component says so.\<close>

definition deallocate_id :: "nat \<Rightarrow> seq_state \<Rightarrow> seq_state \<times> bool" where
  "deallocate_id i s = (if i \<in> set (ids s) then (s\<lparr>ids := remove1 i (ids s)\<rparr>, False) else (s, True))"

definition set_max_transactions :: "nat \<Rightarrow> seq_state \<Rightarrow> seq_state" where
  "set_max_transactions n s = s\<lparr>max_transactions := n\<rparr>"

text \<open>
  The transaction is written to the driver's FIFO; the driver reads it before it
  acknowledges, and the acknowledgement precedes the release, so the FIFO's content is the
  object as it is when it is sent. The delay only passes clock cycles.
\<close>

definition send_transaction :: "nat \<Rightarrow> seq_state \<Rightarrow> seq_state" where
  "send_transaction t s =
     s\<lparr>transaction_fifo := transaction_fifo s @ [heap (transaction_pool s) ! t],
       transaction_pool := release_transaction t (transaction_pool s)\<rparr>"

section \<open>Searching for an identifier\<close>

lemma probe_finds:
  assumes "j < m" and "(i + k) mod m = j" and "j \<notin> set used" and "i < m"
  shows "\<exists>r. probe_id m used i = Some r \<and> r < m \<and> r \<notin> set used"
  using assms(2,4)
proof (induction k arbitrary: i)
  case 0
  then show ?case using assms(1,3) by (subst probe_id.simps) auto
next
  case (Suc k)
  show ?case
  proof (cases "i \<in> set used")
    case False
    then show ?thesis using Suc.prems by (subst probe_id.simps) auto
  next
    case True
    have "((i + 1) mod m + k) mod m = j" "(i + 1) mod m < m"
      using Suc.prems(1) assms(1) by (simp_all add: mod_add_left_eq)
    from Suc.IH [OF this] show ?thesis using True by (subst probe_id.simps) simp
  qed
qed

lemma probe_total:
  assumes "set used \<subset> {..<m}" and "i < m"
  shows "\<exists>r. probe_id m used i = Some r \<and> r < m \<and> r \<notin> set used"
proof -
  obtain j where j: "j < m" "j \<notin> set used" using assms(1) by blast
  have "(i + (m - i + j)) mod m = j" using j(1) assms(2) by simp
  then show ?thesis using probe_finds j assms(2) by blast
qed

definition wf_ids :: "cfg \<Rightarrow> seq_state \<Rightarrow> bool" where
  "wf_ids c s \<longleftrightarrow> distinct (ids s) \<and> set (ids s) \<subseteq> {..<HPDCACHE_REQ_MAX_TRANS_ID c}"

lemma wf_ids_card:
  assumes "wf_ids c s"
  shows "length (ids s) = card (set (ids s))"
  using assms by (simp add: wf_ids_def distinct_card)

lemma MAX_TRANS_ID: "HPDCACHE_REQ_MAX_TRANS_ID c = 2 ^ HPDCACHE_REQ_TRANS_ID_WIDTH c"
  by (simp add: HPDCACHE_REQ_MAX_TRANS_ID_def push_bit_of_1)

lemma allocate_id_spec:
  assumes "wf_ids c s"
  shows "if length (ids s) < 2 ^ HPDCACHE_REQ_TRANS_ID_WIDTH c
     then \<exists>i s'. allocate_id c rand s = Some (Inr (i, s')) \<and> i \<notin> set (ids s)
            \<and> i < 2 ^ HPDCACHE_REQ_TRANS_ID_WIDTH c \<and> wf_ids c s'
            \<and> ids s' = ids s @ [i] \<and> deallocate_id i s' = (s, False)
     else allocate_id c rand s = Some (Inl Assertion_failed)"
proof (cases "length (ids s) < 2 ^ HPDCACHE_REQ_TRANS_ID_WIDTH c")
  case True
  let ?m = "HPDCACHE_REQ_MAX_TRANS_ID c"
  have "card (set (ids s)) < ?m"
    using True wf_ids_card [OF assms] by (simp add: MAX_TRANS_ID)
  then have "set (ids s) \<subset> {..<?m}"
    using assms by (auto simp: wf_ids_def)
  moreover have "rand mod ?m < ?m" by (simp add: MAX_TRANS_ID)
  ultimately obtain i where i: "probe_id ?m (ids s) (rand mod ?m) = Some i" "i < ?m" "i \<notin> set (ids s)"
    using probe_total by blast
  then show ?thesis
    using True assms
    by (auto simp: allocate_id_def is_available_id_def wf_ids_def deallocate_id_def MAX_TRANS_ID
        remove1_append)
next
  case False
  then show ?thesis by (simp add: allocate_id_def is_available_id_def MAX_TRANS_ID)
qed

section \<open>Properties\<close>

text \<open>
  C33: allocating an identifier. The loop ends whenever an identifier is left, whatever \<open>rand()\<close>
  returned, with one that was not in use and fits the field; when all are in use the
  assertion fails. Deallocating it gives back the state before.
\<close>

theorem allocate_id_fresh:
  assumes "wf_ids c s"
  shows "if length (ids s) < 2 ^ HPDCACHE_REQ_TRANS_ID_WIDTH c
     then \<exists>i s'. allocate_id c rand s = Some (Inr (i, s')) \<and> i \<notin> set (ids s)
            \<and> i < 2 ^ HPDCACHE_REQ_TRANS_ID_WIDTH c \<and> wf_ids c s'
            \<and> ids s' = ids s @ [i] \<and> deallocate_id i s' = (s, False)
     else allocate_id c rand s = Some (Inl Assertion_failed)"
  using assms by (rule allocate_id_spec)

theorem allocate_id_fresh_witness:
  "\<exists>i s'. allocate_id default_cfg 5 (seq_new ''s''\<lparr>ids := [5, 6]\<rparr>) = Some (Inr (i, s'))
     \<and> i \<notin> {5, 6} \<and> i < 64"
  using allocate_id_fresh [of default_cfg "seq_new ''s''\<lparr>ids := [5, 6]\<rparr>" 5]
  by (auto simp: wf_ids_def MAX_TRANS_ID default_cfg_def)

text \<open>
  the end of a segment. For a segment of positive length inside the physical address
  space, \<open>get_end\<close> is the address of its last byte and no arithmetic wraps.
\<close>

theorem segment_bounds:
  assumes "0 < len" and "HPDCACHE_PA_WIDTH c < 64" and "base + len < 2 ^ HPDCACHE_PA_WIDTH c"
  shows "unat (get_end (set_length c (word_of_nat len) (set_base c (word_of_nat base) s)))
       = base + len - 1
     \<and> unat (get_base (set_length c (word_of_nat len) (set_base c (word_of_nat base) s))) = base"
proof -
  obtain k where k: "len = Suc k" using assms(1) by (cases len) auto
  have lt: "(2 :: nat) ^ HPDCACHE_PA_WIDTH c \<le> 2 ^ 63"
    using assms(2) by (intro power_increasing) auto
  have b: "base < 2 ^ HPDCACHE_PA_WIDTH c" "len < 2 ^ HPDCACHE_PA_WIDTH c"
    using assms by simp_all
  have u: "unat (word_of_nat base :: u64) = base" "unat (word_of_nat len :: u64) = len"
    "unat (word_of_nat (base + k) :: u64) = base + k"
    by (rule unat_word_of_nat; use b lt assms k in simp)+
  have "(word_of_nat base + (word_of_nat len - 1) :: u64) = word_of_nat (base + k)"
    by (simp add: k)
  then have "get_end (set_length c (word_of_nat len) (set_base c (word_of_nat base) s))
      = word_of_nat (base + k)"
    using b u by (simp add: get_end_def set_length_def set_base_def bv_to_uint64_def)
  then show ?thesis
    using b u by (simp add: k get_base_def set_length_def set_base_def bv_to_uint64_def)
qed

theorem segment_bounds_witness:
  "unat (get_end (set_length default_cfg 64 (set_base default_cfg 4096 memory_segment_new))) = 4159"
  using segment_bounds [of 64 default_cfg 4096 memory_segment_new] by (simp add: default_cfg_def)

end
