(* ===== verification/Trace.thy ===== *)
theory Trace
  imports Transaction
begin

text \<open>
  \<open>rtl/tb/include/hpdcache_test_trace_manager.h\<close>: the reader that turns a compressed binary
  trace into requests, and the writer of the debug format. The decompressor is the library
  miniz, which the sources only call: \<open>mz_inflate\<close> is the argument \<open>inflate\<close>, from the state
  of the stream, the input and the room for output to a status, the number of input bytes
  consumed, the output and the new state. A run that does not return is \<open>None\<close>.
\<close>

section \<open>Runs that may not end\<close>

type_synonym 'a run = "'a outcome option"

definition returns :: "'a \<Rightarrow> 'a run" where
  "returns a = Some (Inr a)"

definition faults :: "fault \<Rightarrow> 'a run" where
  "faults f = Some (Inl f)"

definition continue :: "'a run \<Rightarrow> ('a \<Rightarrow> 'b run) \<Rightarrow> 'b run" where
  "continue r f = (case r of None \<Rightarrow> None | Some (Inl e) \<Rightarrow> Some (Inl e) | Some (Inr a) \<Rightarrow> f a)"

lemma continue_simps [simp]:
  "continue None f = None" "continue (faults e) f = faults e" "continue (returns a) f = f a"
  by (simp_all add: continue_def faults_def returns_def)

lemma continue_continue: "continue (continue r f) h = continue r (\<lambda>a. continue (f a) h)"
  by (simp add: continue_def split: option.split sum.split)

lemma continue_cong: "r = r' \<Longrightarrow> (\<And>a. f a = h a) \<Longrightarrow> continue r f = continue r' h"
  by (simp add: continue_def split: option.split sum.split)

lemma returns_inject [simp]: "returns a = returns b \<longleftrightarrow> a = b"
  "returns a \<noteq> faults e" "returns a \<noteq> None" "faults e \<noteq> None"
  by (auto simp: returns_def faults_def)

lemma continue_returns_iff:
  "continue r f = returns b \<longleftrightarrow> (\<exists>a. r = returns a \<and> f a = returns b)"
  by (cases r) (auto simp: continue_def returns_def split: sum.splits)

section \<open>The reader's buffer\<close>

datatype mz_status = MZ_OK | MZ_STREAM_END | MZ_STREAM_ERROR | MZ_DATA_ERROR | MZ_BUF_ERROR

record 'z inflate_result =
  ir_status :: mz_status
  ir_consumed :: nat
  ir_output :: "u8 list"
  ir_stream :: 'z

type_synonym 'z inflate = "'z \<Rightarrow> u8 list \<Rightarrow> nat \<Rightarrow> 'z inflate_result"

text \<open>
  The pointer \<open>stream\<close>: null, an open stream, or the memory of a stream that has been freed
  (the code does not reset the pointer).
\<close>

datatype 'z stream_ptr = Null | Stream 'z | Freed

record 'z trace_reader =
  bool_finish :: bool
  stream :: "'z stream_ptr"
  trace_descriptor :: "u8 list"
  buf :: "nat \<Rightarrow> u8"
  end_buffer :: nat
  read_buffer :: nat

definition MAX_SIZE_BUFFER :: nat where "MAX_SIZE_BUFFER = 5000000"

definition BUF_SIZE :: nat where "BUF_SIZE = MAX_SIZE_BUFFER * 20"

definition init_buf :: "'z trace_reader \<Rightarrow> 'z trace_reader" where
  "init_buf r = r\<lparr>end_buffer := MAX_SIZE_BUFFER, read_buffer := MAX_SIZE_BUFFER\<rparr>"

text \<open>
  Opening the trace: \<open>None\<close> is a file that cannot be opened, else the content of the file,
  of which \<open>read\<close> takes the next bytes. The content of \<open>buf\<close> is not initialised.
\<close>

definition trace_reader_new :: "u8 list option \<Rightarrow> (nat \<Rightarrow> u8) \<Rightarrow> 'z trace_reader outcome" where
  "trace_reader_new file junk =
     (case file of
        None \<Rightarrow> Inl Process_exit
      | Some bs \<Rightarrow> Inr (init_buf (init_buf \<lparr>bool_finish = False, stream = Null,
                          trace_descriptor = bs, buf = junk, end_buffer = 0, read_buffer = 0\<rparr>)))"

text \<open>\<open>memcpy\<close> to \<open>buf[end_buffer]\<close>.\<close>

definition append_output :: "u8 list \<Rightarrow> 'z trace_reader \<Rightarrow> 'z trace_reader outcome" where
  "append_output out r =
     (if out = [] then Inr r
      else if BUF_SIZE < end_buffer r + length out then Inl Undefined_behaviour
      else Inr (r\<lparr>buf := (\<lambda>i. if end_buffer r \<le> i \<and> i < end_buffer r + length out
                              then out ! (i - end_buffer r) else buf r i),
                  end_buffer := end_buffer r + length out\<rparr>))"

text \<open>The \<open>do \<dots> while (stream->avail_in > 0)\<close> loop; it returns the last status.\<close>

partial_function (option) inflate_loop ::
  "'z inflate \<Rightarrow> 'z \<Rightarrow> u8 list \<Rightarrow> 'z trace_reader \<Rightarrow> (mz_status \<times> 'z \<times> 'z trace_reader) run" where
  "inflate_loop inflate z inp r =
     (let res = inflate z inp MAX_SIZE_BUFFER
      in if ir_status res = MZ_STREAM_ERROR then faults Process_exit
         else case append_output (ir_output res) r of
                Inl f \<Rightarrow> faults f
              | Inr r \<Rightarrow>
                  (let inp = drop (ir_consumed res) inp
                   in if inp \<noteq> [] then inflate_loop inflate (ir_stream res) inp r
                      else returns (ir_status res, ir_stream res, r)))"

declare inflate_loop.simps [code]

text \<open>\<open>z0\<close> is the state that \<open>mz_inflateInit\<close> sets up; allocations are taken to succeed.\<close>

definition decompress_data_from_trace ::
  "'z inflate \<Rightarrow> 'z \<Rightarrow> 'z trace_reader \<Rightarrow> 'z trace_reader run" where
  "decompress_data_from_trace inflate z0 r =
     (case (case stream r of Null \<Rightarrow> Some z0 | Stream z \<Rightarrow> Some z | Freed \<Rightarrow> None) of
        None \<Rightarrow> faults Undefined_behaviour
      | Some z \<Rightarrow>
          (let inp = take MAX_SIZE_BUFFER (trace_descriptor r);
               r = r\<lparr>trace_descriptor := drop MAX_SIZE_BUFFER (trace_descriptor r)\<rparr>
           in continue (inflate_loop inflate z inp r)
                (\<lambda>(ret, z, r). let fin = (ret = MZ_STREAM_END)
                   in returns (r\<lparr>bool_finish := fin, stream := (if fin then Freed else Stream z)\<rparr>))))"

definition next_byte :: "'z inflate \<Rightarrow> 'z \<Rightarrow> 'z trace_reader \<Rightarrow> (u8 \<times> 'z trace_reader) run" where
  "next_byte inflate z0 r =
     continue
       (if read_buffer r = end_buffer r then
          decompress_data_from_trace inflate z0 (r\<lparr>end_buffer := 0, read_buffer := 0\<rparr>)
        else returns r)
       (\<lambda>r. if BUF_SIZE \<le> read_buffer r then faults Undefined_behaviour
            else returns (buf r (read_buffer r), r\<lparr>read_buffer := read_buffer r + 1\<rparr>))"

primrec get_content_of_trace ::
  "'z inflate \<Rightarrow> 'z \<Rightarrow> nat \<Rightarrow> 'z trace_reader \<Rightarrow> (u8 list \<times> 'z trace_reader) run" where
  "get_content_of_trace inflate z0 0 r = returns ([], r)"
| "get_content_of_trace inflate z0 (Suc n) r =
     continue (next_byte inflate z0 r)
       (\<lambda>(b, r). continue (get_content_of_trace inflate z0 n r) (\<lambda>(bs, r). returns (b # bs, r)))"

definition is_finish :: "'z trace_reader \<Rightarrow> bool" where
  "is_finish r \<longleftrightarrow> end_buffer r \<le> read_buffer r \<and> bool_finish r"

section \<open>Decoding\<close>

text \<open>\<open>display_binary\<close>: the eight digits it prints.\<close>

definition display_binary :: "u32 \<Rightarrow> string" where
  "display_binary v =
     map (\<lambda>i. if drop_bit 7 (push_bit (8 - i) v) AND 1 \<noteq> 0 then CHR ''1'' else CHR ''0'')
         (rev [1..<9])"

definition get_bit :: "u8 \<Rightarrow> nat \<Rightarrow> bool" where
  "get_bit to_read pos =
     (let a = push_bit (8 - pos) to_read; b = signed_drop_bit 7 a in b AND 1 \<noteq> 0)"

definition read_address :: "'z inflate \<Rightarrow> 'z \<Rightarrow> 'z trace_reader \<Rightarrow> (u64 \<times> 'z trace_reader) run" where
  "read_address inflate z0 r =
     continue (get_content_of_trace inflate z0 8 r) (\<lambda>(bs, r). returns (word_of_bytes bs, r))"

text \<open>
  \<open>*((unsigned*)&result)\<close> reads the \<open>char\<close> and the three bytes that follow it in memory:
  these are the argument \<open>junk\<close>.
\<close>

definition char_as_unsigned :: "u32 \<Rightarrow> u8 \<Rightarrow> u32" where
  "char_as_unsigned junk b = push_bit 8 junk OR ucast b"

definition read_type_transaction ::
  "'z inflate \<Rightarrow> 'z \<Rightarrow> u32 \<Rightarrow> 'z trace_reader \<Rightarrow> (u32 \<times> 'z trace_reader) run" where
  "read_type_transaction inflate z0 junk r =
     continue (get_content_of_trace inflate z0 1 r)
       (\<lambda>(bs, r). returns (char_as_unsigned junk (hd bs), r))"

text \<open>\<open>char\<close> is signed: the shifts to the right copy the sign.\<close>

definition size_nibbles :: "u8 \<Rightarrow> u8 \<times> u8" where
  "size_nibbles b = (signed_drop_bit 4 b, signed_drop_bit 4 (push_bit 4 b))"

definition read_size ::
  "'z inflate \<Rightarrow> 'z \<Rightarrow> u32 \<Rightarrow> 'z trace_reader \<Rightarrow> ((u8 \<times> u32) \<times> 'z trace_reader) run" where
  "read_size inflate z0 junk r =
     continue (get_content_of_trace inflate z0 1 r)
       (\<lambda>(bs, r). let (v, s) = size_nibbles (hd bs) in returns ((v, char_as_unsigned junk s), r))"

definition read_boolean_and_type ::
  "'z inflate \<Rightarrow> 'z \<Rightarrow> req \<Rightarrow> 'z trace_reader \<Rightarrow> (req \<times> 'z trace_reader) run" where
  "read_boolean_and_type inflate z0 t r =
     continue (get_content_of_trace inflate z0 1 r)
       (\<lambda>(bs, r). let tmp = hd bs in returns
          (t\<lparr>req_op := bv HPDCACHE_REQ_OP_WIDTH (unat (drop_bit 2 tmp)), req_need_rsp := get_bit tmp 2,
             req_uncacheable := get_bit tmp 1, req_phys_indexed := True, req_io := get_bit tmp 1,
             req_abort := False\<rparr>, r))"

definition value_bytes :: "u8 \<Rightarrow> nat" where
  "value_bytes s = (if s = 0 then 1 else if s = 1 then 2 else if s = 2 then 4
     else if s = 3 then 8 else if s = 4 then 8 else 0)"

text \<open>The cases of the \<open>switch\<close> differ in the number of bytes; other sizes change nothing.\<close>

definition read_value ::
  "cfg \<Rightarrow> 'z inflate \<Rightarrow> 'z \<Rightarrow> req \<Rightarrow> u8 \<Rightarrow> 'z trace_reader \<Rightarrow> (req \<times> 'z trace_reader) run" where
  "read_value c inflate z0 t s r =
     (if s \<in> {0, 1, 2, 3, 4} then
        continue (get_content_of_trace inflate z0 (value_bytes s) r)
          (\<lambda>(bs, r). returns
             (t\<lparr>req_wdata := bv (HPDCACHE_REQ_DATA_WIDTH c) (unat (word_of_bytes bs))\<rparr>, r))
      else returns (t, r))"

definition read_delay :: "'z inflate \<Rightarrow> 'z \<Rightarrow> 'z trace_reader \<Rightarrow> (u8 \<times> 'z trace_reader) run" where
  "read_delay inflate z0 r =
     continue (get_content_of_trace inflate z0 1 r) (\<lambda>(bs, r). returns (hd bs, r))"

definition read_transaction ::
  "cfg \<Rightarrow> 'z inflate \<Rightarrow> 'z \<Rightarrow> u32 \<Rightarrow> req \<Rightarrow> 'z trace_reader \<Rightarrow> ((nat \<times> req) \<times> 'z trace_reader) run" where
  "read_transaction c inflate z0 junk t r =
     continue (read_delay inflate z0 r) (\<lambda>(delay, r).
     continue (read_address inflate z0 r) (\<lambda>(a, r).
     continue (read_size inflate z0 junk r) (\<lambda>((v, s), r).
     continue (read_boolean_and_type inflate z0
                 (t\<lparr>req_addr := bv (HPDCACHE_PA_WIDTH c) (unat a),
                    req_size := bv HPDCACHE_REQ_SIZE_WIDTH (unat s)\<rparr>) r) (\<lambda>(t, r).
     continue (if is_store t then read_value c inflate z0 t v r else returns (t, r)) (\<lambda>(t, r).
     returns ((unat delay, t), r))))))"

text \<open>
  \<open>get_address\<close>, which the class does not use: the size is multiplied by four in 8 bits, and
  the width of the data bus in bits is added as if it were in bytes.
\<close>

definition get_address :: "cfg \<Rightarrow> bool \<Rightarrow> u8 \<Rightarrow> u64 \<Rightarrow> u64 outcome" where
  "get_address c big_endian sz addr =
     (let sz = push_bit 2 sz
      in if unat sz > HPDCACHE_REQ_DATA_WIDTH c then Inl Process_exit
         else if \<not> big_endian then Inr (addr + of_nat (HPDCACHE_REQ_DATA_WIDTH c) - ucast sz)
         else Inr addr)"

section \<open>The debug writer\<close>

definition le_bytes :: "nat \<Rightarrow> u64 \<Rightarrow> u8 list" where
  "le_bytes n w = map (byte_of w) [0..<n]"

definition construct_bool_in_one_byte :: "bool \<Rightarrow> u32 \<Rightarrow> u32" where
  "construct_bool_in_one_byte to_add result = push_bit 1 result OR (if to_add then 1 else 0)"

definition write_boolean_byte :: "req \<Rightarrow> u8" where
  "write_boolean_byte t = ucast (foldl (\<lambda>v b. construct_bool_in_one_byte b v) 0
     [req_need_rsp t, req_phys_indexed t, req_uncacheable t, req_io t, req_abort t])"

text \<open>
  The other fields: the address is eight bytes; of the operation and of the size, which are \<open>unsigned\<close>,
  the first byte goes to the file, and of the delay, an \<open>int\<close>, all four.
\<close>

definition write_address :: "req \<Rightarrow> u8 list" where
  "write_address t = le_bytes 8 (bv_to_uint64 (req_addr t))"

definition write_type_transaction :: "req \<Rightarrow> u8 list" where
  "write_type_transaction t = le_bytes 1 (ucast (bv_to_uint (req_op t)))"

definition write_size :: "req \<Rightarrow> u8 list" where
  "write_size t = le_bytes 1 (ucast (bv_to_uint (req_size t)))"

definition write_delay :: "u32 \<Rightarrow> u8 list" where
  "write_delay delay = le_bytes 4 (ucast delay)"

text \<open>What \<open>write_in_trace\<close> adds to the file.\<close>

definition write_in_trace :: "u32 \<Rightarrow> req \<Rightarrow> u8 list" where
  "write_in_trace delay t =
     write_delay delay @ write_address t @ write_type_transaction t @ write_size t
     @ [write_boolean_byte t]"

text \<open>
  The writer is a singleton; its state is the file, \<open>None\<close> before \<open>open_trace\<close>. Writing without a file
  dereferences an uninitialised pointer.
\<close>

type_synonym trace_writer = "u8 list option"

definition open_trace :: "trace_writer \<Rightarrow> trace_writer" where
  "open_trace w = Some []"

definition instance_trace_writter :: "trace_writer option \<Rightarrow> trace_writer option" where
  "instance_trace_writter is_instance =
     (case is_instance of Some w \<Rightarrow> Some w | None \<Rightarrow> Some None)"

definition put_in_trace :: "u32 \<Rightarrow> req \<Rightarrow> trace_writer \<Rightarrow> trace_writer outcome" where
  "put_in_trace delay t w =
     (case w of None \<Rightarrow> Inl Undefined_behaviour | Some bs \<Rightarrow> Inr (Some (bs @ write_in_trace delay t)))"

lemma trace_writer_singleton:
  "instance_trace_writter (instance_trace_writter w) = instance_trace_writter w"
  by (simp add: instance_trace_writter_def split: option.splits)

end
