(* ===== verification/Mem_Model.thy ===== *)
theory Mem_Model
  imports Prelude
begin

unbundle bit_operations_syntax

text \<open>
  \<open>rtl/tb/sc_verif_lib/modules/mem_model/include/mem_model.h\<close>: the sparse main memory behind
  the cache, a \<open>std::map\<close> from 64-bit word addresses to words that is filled on demand. The
  values that successive calls of the C library's \<open>rand()\<close> return are the function \<open>rand_m\<close>;
  \<open>rand_pos_m\<close> counts the calls made so far.
\<close>

section \<open>State and operations\<close>

datatype mem_model_init_mode_e = MEM_MODEL_INIT_VALUE | MEM_MODEL_INIT_RANDOM

record mem_model =
  mem_name_m :: string
  mem_array_m :: "u64 \<rightharpoonup> u64"
  init_mode_m :: mem_model_init_mode_e
  init_val_m :: u64
  rand_m :: "nat \<Rightarrow> u64"
  rand_pos_m :: nat

text \<open>The constructor takes \<open>init_mode\<close> and does not use it.\<close>

definition mem_model_new ::
  "string \<Rightarrow> mem_model_init_mode_e \<Rightarrow> u64 \<Rightarrow> (nat \<Rightarrow> u64) \<Rightarrow> nat \<Rightarrow> mem_model" where
  "mem_model_new name init_mode init_val rnd pos =
     \<lparr>mem_name_m = name, mem_array_m = Map.empty, init_mode_m = MEM_MODEL_INIT_RANDOM,
      init_val_m = init_val, rand_m = rnd, rand_pos_m = pos\<rparr>"

text \<open>The \<open>switch\<close> on the initialisation mode that both accesses run on a fresh address.\<close>

definition fresh_value :: "mem_model \<Rightarrow> u64 \<times> mem_model" where
  "fresh_value m =
     (case init_mode_m m of
        MEM_MODEL_INIT_RANDOM \<Rightarrow>
          (push_bit 32 (rand_m m (rand_pos_m m)) OR rand_m m (Suc (rand_pos_m m)),
           m\<lparr>rand_pos_m := rand_pos_m m + 2\<rparr>)
      | MEM_MODEL_INIT_VALUE \<Rightarrow> (init_val_m m, m))"

definition readMemory :: "mem_model \<Rightarrow> u64 \<Rightarrow> u64 \<times> mem_model" where
  "readMemory m word_addr =
     (case mem_array_m m word_addr of
        Some v \<Rightarrow> (v, m)
      | None \<Rightarrow>
          (let (value, m') = fresh_value m
           in (value, m'\<lparr>mem_array_m := (mem_array_m m')(word_addr \<mapsto> value)\<rparr>)))"

definition writeMemory :: "mem_model \<Rightarrow> u64 \<Rightarrow> u64 \<Rightarrow> u64 \<Rightarrow> mem_model" where
  "writeMemory m word_addr data msk =
     (case mem_array_m m word_addr of
        Some v \<Rightarrow> m\<lparr>mem_array_m := (mem_array_m m)(word_addr \<mapsto> merge_mask v data msk)\<rparr>
      | None \<Rightarrow>
          (let (value, m') = fresh_value m
           in m'\<lparr>mem_array_m := (mem_array_m m')(word_addr \<mapsto> merge_mask value data msk)\<rparr>))"

definition beToMask :: "u8 \<Rightarrow> u64" where
  "beToMask be =
     foldl (\<lambda>m j. if drop_bit j be AND 1 \<noteq> 0 then m OR push_bit (j * 8) 0xff else m)
       0 [0..<8]"

section \<open>The byte-enable mask\<close>

lemma and_one_neq_zero [simp]: "drop_bit j be AND 1 \<noteq> 0 \<longleftrightarrow> bit (be :: u8) j"
  by (simp add: bit_iff_and_drop_bit_eq_1 and_one_eq)

lemma bit_byte_lane:
  assumes "j < 8"
  shows "bit (push_bit (j * 8) (0xff :: u64)) n \<longleftrightarrow> n < 64 \<and> n div 8 = j"
proof -
  have ff: "(0xff :: u64) = mask 8" by (simp add: mask_eq_exp_minus_1)
  show ?thesis
    unfolding ff using assms by (auto simp: bit_push_bit_iff bit_mask_iff)
qed

lemma bit_mask_loop:
  assumes "\<forall>j \<in> set js. j < 8"
  shows "bit (foldl (\<lambda>m j. if drop_bit j be AND 1 \<noteq> 0 then m OR push_bit (j * 8) 0xff else m)
            (m :: u64) js) n
     \<longleftrightarrow> bit m n \<or> n < 64 \<and> n div 8 \<in> set js \<and> bit (be :: u8) (n div 8)"
  using assms
proof (induction js arbitrary: m)
  case Nil
  then show ?case by simp
next
  case (Cons j js)
  from Cons.prems have j: "j < 8" and js: "\<forall>j \<in> set js. j < 8" by simp_all
  show ?case
    unfolding foldl_Cons and_one_neq_zero
    by (subst Cons.IH [OF js, unfolded and_one_neq_zero])
      (use j in \<open>auto simp: bit_or_iff bit_byte_lane\<close>)
qed

text \<open>Bit \<open>n\<close> of the mask is the enable of the byte that holds bit \<open>n\<close>.\<close>

lemma bit_beToMask: "bit (beToMask be) n \<longleftrightarrow> n < 64 \<and> bit be (n div 8)"
proof -
  have "bit (beToMask be) n \<longleftrightarrow> n < 64 \<and> n div 8 < 8 \<and> bit be (n div 8)"
    unfolding beToMask_def by (subst bit_mask_loop) auto
  then show ?thesis by (auto simp: less_mult_imp_div_less)
qed

lemma byte_of_merge_be:
  "i < 8 \<Longrightarrow> byte_of (merge_mask old data (beToMask be)) i
     = (if bit be i then byte_of data i else byte_of old i)"
  by (rule bit_word_eqI) (auto simp: bit_beToMask)

lemma beToMask_0 [simp]: "beToMask 0 = 0"
  by (rule bit_word_eqI) (simp add: bit_beToMask)

lemma merge_mask_0 [simp]: "merge_mask old data 0 = old"
  by (rule bit_word_eqI) simp

section \<open>Memory as an interface\<close>

text \<open>
  What a client of a word memory relies on: \<open>peek\<close> is the content that is fixed so far, a
  read fixes the content of its word and returns it, a write merges the enabled bits.
\<close>

locale word_memory =
  fixes rd :: "'s \<Rightarrow> u64 \<Rightarrow> u64 \<times> 's"
    and wr :: "'s \<Rightarrow> u64 \<Rightarrow> u64 \<Rightarrow> u64 \<Rightarrow> 's"
    and peek :: "'s \<Rightarrow> u64 \<Rightarrow> u64 option"
  assumes rd_known: "peek s a = Some v \<Longrightarrow> rd s a = (v, s)"
    and rd_fixes: "rd s a = (v, s') \<Longrightarrow> peek s' = (peek s)(a \<mapsto> v)"
    and wr_known: "peek s a = Some v \<Longrightarrow> peek (wr s a d m) = (peek s)(a \<mapsto> merge_mask v d m)"
    and wr_fresh: "peek s a = None \<Longrightarrow> \<exists>v. peek (wr s a d m) = (peek s)(a \<mapsto> merge_mask v d m)"
begin

lemma rd_again: "rd s a = (v, s') \<Longrightarrow> rd s' a = (v, s')"
  by (rule rd_known) (simp add: rd_fixes)

lemma wr_peek: "\<exists>v. peek (wr s a d m) = (peek s)(a \<mapsto> merge_mask v d m)"
  by (cases "peek s a") (blast dest: wr_fresh wr_known)+

lemma wr_frame: "b \<noteq> a \<Longrightarrow> peek (wr s a d m) b = peek s b"
  using wr_peek [of s a d m] by auto

lemma rd_frame: "b \<noteq> a \<Longrightarrow> rd s a = (v, s') \<Longrightarrow> peek s' b = peek s b"
  by (simp add: rd_fixes)

lemma rd_after_wr:
  assumes "rd (wr s a d m) a = (v, s')"
  shows "bit m n \<Longrightarrow> bit v n = bit d n"
    and "peek s a = Some old \<Longrightarrow> v = merge_mask old d m"
proof -
  obtain u where u: "peek (wr s a d m) = (peek s)(a \<mapsto> merge_mask u d m)"
    using wr_peek by blast
  then have v: "v = merge_mask u d m"
    using assms rd_known by (metis fst_conv fun_upd_same)
  show "bit m n \<Longrightarrow> bit v n = bit d n" by (simp add: v)
  show "peek s a = Some old \<Longrightarrow> v = merge_mask old d m"
    using u wr_known [of s a old d m] v by (metis fun_upd_same option.inject)
qed

end

lemma fresh_value_frame:
  "fresh_value m = (v, m') \<Longrightarrow> mem_array_m m' = mem_array_m m"
  by (auto simp: fresh_value_def split: mem_model_init_mode_e.splits)

interpretation mm: word_memory readMemory writeMemory mem_array_m
proof unfold_locales
  fix m :: mem_model and a v
  assume "mem_array_m m a = Some v"
  then show "readMemory m a = (v, m)" by (simp add: readMemory_def)
next
  fix m m' :: mem_model and a v
  assume "readMemory m a = (v, m')"
  then show "mem_array_m m' = (mem_array_m m)(a \<mapsto> v)"
    by (cases "fresh_value m")
      (auto simp: readMemory_def fresh_value_frame split: option.splits)
next
  fix m :: mem_model and a v d b
  assume "mem_array_m m a = Some v"
  then show "mem_array_m (writeMemory m a d b) = (mem_array_m m)(a \<mapsto> merge_mask v d b)"
    by (simp add: writeMemory_def)
next
  fix m :: mem_model and a d b
  assume "mem_array_m m a = None"
  then show "\<exists>v. mem_array_m (writeMemory m a d b) = (mem_array_m m)(a \<mapsto> merge_mask v d b)"
    by (cases "fresh_value m") (auto simp: writeMemory_def fresh_value_frame)
qed

section \<open>Properties\<close>

lemma fst_readMemory_known: "mem_array_m m a = Some v \<Longrightarrow> fst (readMemory m a) = v"
  by (simp add: readMemory_def)

text \<open>
  reading after a byte-enabled write returns, byte by byte, the written data where the
  enable bit is set and the previous content elsewhere, for the written word (whether it
  was ever accessed before or not) and for every other word whose content is fixed.
\<close>

theorem memory_write_then_read:
  assumes "i < 8" and "b = a \<or> mem_array_m m b \<noteq> None"
  shows "byte_of (fst (readMemory (writeMemory m a d (beToMask be)) b)) i
     = (if b = a \<and> bit be i then byte_of d i else byte_of (fst (readMemory m b)) i)"
proof (cases "b = a")
  case False
  then have "mem_array_m (writeMemory m a d (beToMask be)) b = mem_array_m m b"
    by (rule mm.wr_frame)
  then show ?thesis
    using False assms(2) by (auto simp: fst_readMemory_known)
next
  case True
  have "fst (readMemory (writeMemory m a d (beToMask be)) a)
      = merge_mask (fst (readMemory m a)) d (beToMask be)"
    by (cases "fresh_value m")
      (simp add: readMemory_def writeMemory_def fresh_value_frame split: option.split)
  then show ?thesis using True assms(1) by (simp add: byte_of_merge_be)
qed

theorem memory_write_then_read_witness:
  "byte_of (fst (readMemory (writeMemory
       (mem_model_new ''mem'' MEM_MODEL_INIT_RANDOM 0 (\<lambda>_. 0) 0) 4 0x1234 (beToMask 1)) 4)) 0
     = 0x34"
  by (subst memory_write_then_read) (simp_all add: bit_0 byte_of_def)

text \<open>The mode the constructor is given is ignored: every fresh word reads as random.\<close>

lemma init_mode_ignored:
  "fst (readMemory (mem_model_new name MEM_MODEL_INIT_VALUE v rnd p) a)
     = push_bit 32 (rnd p) OR rnd (Suc p)"
  by (simp add: readMemory_def mem_model_new_def fresh_value_def)

end
