(* ===== verification/Amo.thy ===== *)
theory Amo
  imports Transaction
begin

text \<open>
  The two functions that compute the result of an atomic memory operation:
  \<open>hpdcache_test_amo::compute_amo\<close> (\<open>rtl/tb/include/hpdcache_test_amo.h\<close>), used by the
  scoreboard on request codes, and \<open>compute_amo\<close> of
  \<open>rtl/tb/include/hpdcache_test_mem_resp_model_base.h\<close>, used by the memory model on the codes
  of the memory interface. \<open>uncached_atomic\<close> is how the cache under test
  (\<open>rtl/src/hpdcache_uncached.sv\<close>) turns a request into a memory request. \<open>amo_spec\<close> is the
  abstract meaning of an operation on words of any width.
\<close>

section \<open>The code\<close>

definition sgt_64 :: "u64 \<Rightarrow> u64 \<Rightarrow> nat \<Rightarrow> bool" where
  "sgt_64 ld_data st_data bytes =
     (if bytes = 4 then sint (ucast st_data :: u32) < sint (ucast ld_data :: u32)
      else sint st_data < sint ld_data)"

definition compute_amo :: "nat \<Rightarrow> u64 \<Rightarrow> u64 \<Rightarrow> nat \<Rightarrow> u64 outcome" where
  "compute_amo atop ld_data st_data bytes =
     (let umax = st_data < ld_data;
          smax = sgt_64 ld_data st_data bytes
      in if atop = op_code HPDCACHE_REQ_AMO_SWAP then Inr st_data
         else if atop = op_code HPDCACHE_REQ_AMO_ADD then Inr (ld_data + st_data)
         else if atop = op_code HPDCACHE_REQ_AMO_AND then Inr (ld_data AND st_data)
         else if atop = op_code HPDCACHE_REQ_AMO_OR then Inr (ld_data OR st_data)
         else if atop = op_code HPDCACHE_REQ_AMO_XOR then Inr (ld_data XOR st_data)
         else if atop = op_code HPDCACHE_REQ_AMO_MAX then Inr (if smax then ld_data else st_data)
         else if atop = op_code HPDCACHE_REQ_AMO_MAXU then Inr (if umax then ld_data else st_data)
         else if atop = op_code HPDCACHE_REQ_AMO_MIN then Inr (if smax then st_data else ld_data)
         else if atop = op_code HPDCACHE_REQ_AMO_MINU then Inr (if umax then st_data else ld_data)
         else Inl Assertion_failed)"

definition mem_compute_amo :: "u32 \<Rightarrow> u64 \<Rightarrow> u64 \<Rightarrow> nat \<Rightarrow> u64 outcome" where
  "mem_compute_amo atop ld_data st_data bytes =
     (let umax = st_data < ld_data;
          smax = sgt_64 ld_data st_data bytes
      in if atop = mem_atomic_code HPDCACHE_MEM_ATOMIC_ADD then Inr (ld_data + st_data)
         else if atop = mem_atomic_code HPDCACHE_MEM_ATOMIC_CLR then Inr (ld_data AND NOT st_data)
         else if atop = mem_atomic_code HPDCACHE_MEM_ATOMIC_SET then Inr (ld_data OR st_data)
         else if atop = mem_atomic_code HPDCACHE_MEM_ATOMIC_EOR then Inr (ld_data XOR st_data)
         else if atop = mem_atomic_code HPDCACHE_MEM_ATOMIC_SMAX then Inr (if smax then ld_data else st_data)
         else if atop = mem_atomic_code HPDCACHE_MEM_ATOMIC_UMAX then Inr (if umax then ld_data else st_data)
         else if atop = mem_atomic_code HPDCACHE_MEM_ATOMIC_SMIN then Inr (if smax then st_data else ld_data)
         else if atop = mem_atomic_code HPDCACHE_MEM_ATOMIC_UMIN then Inr (if umax then st_data else ld_data)
         else if atop = mem_atomic_code HPDCACHE_MEM_ATOMIC_SWAP then Inr st_data
         else Inl Assertion_failed)"

text \<open>The memory operation and the data the cache sends for a request operation.\<close>

fun uncached_atomic :: "hpdcache_req_op_e \<Rightarrow> u64 \<Rightarrow> (hpdcache_mem_atomic_e \<times> u64) option" where
  "uncached_atomic HPDCACHE_REQ_AMO_SC data = Some (HPDCACHE_MEM_ATOMIC_STEX, data)"
| "uncached_atomic HPDCACHE_REQ_AMO_SWAP data = Some (HPDCACHE_MEM_ATOMIC_SWAP, data)"
| "uncached_atomic HPDCACHE_REQ_AMO_ADD data = Some (HPDCACHE_MEM_ATOMIC_ADD, data)"
| "uncached_atomic HPDCACHE_REQ_AMO_AND data = Some (HPDCACHE_MEM_ATOMIC_CLR, NOT data)"
| "uncached_atomic HPDCACHE_REQ_AMO_OR data = Some (HPDCACHE_MEM_ATOMIC_SET, data)"
| "uncached_atomic HPDCACHE_REQ_AMO_XOR data = Some (HPDCACHE_MEM_ATOMIC_EOR, data)"
| "uncached_atomic HPDCACHE_REQ_AMO_MAX data = Some (HPDCACHE_MEM_ATOMIC_SMAX, data)"
| "uncached_atomic HPDCACHE_REQ_AMO_MAXU data = Some (HPDCACHE_MEM_ATOMIC_UMAX, data)"
| "uncached_atomic HPDCACHE_REQ_AMO_MIN data = Some (HPDCACHE_MEM_ATOMIC_SMIN, data)"
| "uncached_atomic HPDCACHE_REQ_AMO_MINU data = Some (HPDCACHE_MEM_ATOMIC_UMIN, data)"
| "uncached_atomic _ data = None"

section \<open>The abstract operation\<close>

definition amo_ops :: "hpdcache_req_op_e list" where
  "amo_ops = [HPDCACHE_REQ_AMO_SWAP, HPDCACHE_REQ_AMO_ADD, HPDCACHE_REQ_AMO_AND,
     HPDCACHE_REQ_AMO_OR, HPDCACHE_REQ_AMO_XOR, HPDCACHE_REQ_AMO_MAX, HPDCACHE_REQ_AMO_MAXU,
     HPDCACHE_REQ_AMO_MIN, HPDCACHE_REQ_AMO_MINU]"

text \<open>An atomic operation on words of one width, read as numbers where it compares.\<close>

fun amo_spec :: "hpdcache_req_op_e \<Rightarrow> 'w :: len word \<Rightarrow> 'w word \<Rightarrow> 'w word" where
  "amo_spec HPDCACHE_REQ_AMO_SWAP a b = b"
| "amo_spec HPDCACHE_REQ_AMO_ADD a b = word_of_int (uint a + uint b)"
| "amo_spec HPDCACHE_REQ_AMO_AND a b = a AND b"
| "amo_spec HPDCACHE_REQ_AMO_OR a b = a OR b"
| "amo_spec HPDCACHE_REQ_AMO_XOR a b = a XOR b"
| "amo_spec HPDCACHE_REQ_AMO_MAX a b = word_of_int (max (sint a) (sint b))"
| "amo_spec HPDCACHE_REQ_AMO_MAXU a b = word_of_nat (max (unat a) (unat b))"
| "amo_spec HPDCACHE_REQ_AMO_MIN a b = word_of_int (min (sint a) (sint b))"
| "amo_spec HPDCACHE_REQ_AMO_MINU a b = word_of_nat (min (unat a) (unat b))"
| "amo_spec _ a b = a"

lemma is_amo_iff: "is_amo t \<longleftrightarrow> (\<exists>op \<in> set amo_ops. req_op t = op_code op)"
  by (auto simp: is_amo_def amo_ops_def Let_def)

section \<open>Helper lemmas\<close>

lemma word_of_sint_max:
  "word_of_int (max (sint a) (sint b)) = (if sint b < sint a then a else b)"
  "word_of_int (min (sint a) (sint b)) = (if sint b < sint a then b else a)"
  by (simp_all add: max_def min_def)

lemma word_of_unat_max:
  "word_of_nat (max (unat a) (unat b)) = (if b < a then a else b)"
  "word_of_nat (min (unat a) (unat b)) = (if b < a then b else a)"
  by (auto simp: max_def min_def word_less_nat_alt)

lemmas amo_spec_words = word_of_sint_max word_of_unat_max

lemma compute_amo_total_iff:
  "(\<exists>r. compute_amo op a b n = Inr r) \<longleftrightarrow> op \<in> op_code ` set amo_ops"
  by (simp add: compute_amo_def amo_ops_def Let_def)

lemma ucast_less_zero_extended:
  fixes a b :: u32
  shows "(ucast a :: u64) < ucast b \<longleftrightarrow> a < b"
proof -
  have "take_bit 64 (unat x) = unat x" for x :: u32
    using unsigned_less [where 'a = nat, of x] by (simp add: take_bit_nat_eq_self)
  then show ?thesis by (simp add: word_less_nat_alt unsigned_ucast_eq)
qed

lemma ucast_ucast_u32 [simp]: "(ucast (ucast (a :: u32) :: u64) :: u32) = a"
  by (rule bit_word_eqI) (simp add: bit_ucast_iff)

lemma ucast_bitwise_u32 [simp]:
  fixes a b :: u64
  shows "(ucast (a AND b) :: u32) = ucast a AND ucast b"
    and "(ucast (a OR b) :: u32) = ucast a OR ucast b"
    and "(ucast (a XOR b) :: u32) = ucast a XOR ucast b"
    and "(ucast (NOT a) :: u32) = NOT (ucast a)"
  by (rule bit_word_eqI; simp add: bit_ucast_iff bit_and_iff bit_or_iff bit_xor_iff bit_not_iff)+

lemma take_bit_add_upper:
  fixes x y :: int
  shows "take_bit 32 (x + y) = take_bit 32 (take_bit 64 x + take_bit 64 y)"
proof -
  have "take_bit 32 (take_bit 64 x + take_bit 64 y)
      = take_bit 32 (take_bit 32 (take_bit 64 x) + take_bit 32 (take_bit 64 y))"
    by (simp only: take_bit_add)
  also have "\<dots> = take_bit 32 (take_bit 32 x + take_bit 32 y)"
    by (simp add: take_bit_take_bit)
  finally show ?thesis by (simp only: take_bit_add)
qed

lemma ucast_add_u32: "(ucast (a + b :: u64) :: u32) = ucast a + ucast b"
  by transfer (simp add: take_bit_add_upper [symmetric])

lemma compute_amo_64:
  assumes "op \<in> set amo_ops"
  shows "compute_amo (op_code op) a b 8 = Inr (amo_spec op a b)"
  by (insert assms, cases op)
    (simp_all add: amo_ops_def compute_amo_def sgt_64_def amo_spec_words Let_def)

lemma compute_amo_32:
  assumes "op \<in> set amo_ops"
  shows "\<exists>r. compute_amo (op_code op) (ucast (x :: u32)) (ucast y) 4 = Inr r
     \<and> ucast r = amo_spec op x y"
  by (insert assms, cases op)
    (simp_all add: amo_ops_def compute_amo_def sgt_64_def amo_spec_words Let_def
      ucast_less_zero_extended ucast_add_u32)

lemma mem_compute_amo_eq:
  assumes "op \<in> set amo_ops" and "uncached_atomic op st_data = Some (aop, data)"
  shows "mem_compute_amo (mem_atomic_code aop) ld_data data bytes
     = compute_amo (op_code op) ld_data st_data bytes"
  by (insert assms, cases op)
    (auto simp: amo_ops_def mem_compute_amo_def compute_amo_def Let_def)

text \<open>On 32-bit lanes, as the memory model extracts them from the data of the cache.\<close>

lemma ucast_drop_not: "(ucast (drop_bit off (NOT w :: u64)) :: u32) = NOT (ucast (drop_bit off w))"
  if "off \<le> 32"
proof (rule bit_word_eqI)
  fix n
  assume "n < LENGTH(32)"
  then show "bit (ucast (drop_bit off (NOT w)) :: u32) n = bit (NOT (ucast (drop_bit off w)) :: u32) n"
    using that by (simp add: bit_ucast_iff bit_drop_bit_eq bit_not_iff)
qed

lemma mem_compute_amo_32:
  assumes "op \<in> set amo_ops" and "uncached_atomic op st = Some (aop, data)" and "off \<le> 32"
  shows "\<exists>r. mem_compute_amo (mem_atomic_code aop) (ucast (x :: u32))
           (ucast (ucast (drop_bit off data) :: u32)) 4 = Inr r
     \<and> ucast r = amo_spec op x (ucast (drop_bit off st))"
proof -
  let ?y = "ucast (drop_bit off st) :: u32"
  have "mem_compute_amo (mem_atomic_code aop) (ucast x) (ucast (ucast (drop_bit off data) :: u32)) 4
      = (if op = HPDCACHE_REQ_AMO_AND then Inr (ucast x AND NOT (ucast (NOT ?y)))
         else compute_amo (op_code op) (ucast x) (ucast ?y) 4)"
    by (insert assms, cases op)
      (auto simp: amo_ops_def mem_compute_amo_def compute_amo_def Let_def ucast_drop_not)
  then show ?thesis using compute_amo_32 [OF assms(1), of x ?y] by auto
qed

section \<open>Properties\<close>

text \<open>
  C28: the scoreboard's function computes the architectural result on double words, and on
  words when the two operands are zero-extended (as its caller prepares them): the low 32
  bits of the result are then the 32-bit operation.
\<close>

theorem compute_amo_correct:
  assumes "op \<in> set amo_ops"
  shows "compute_amo (op_code op) a b 8 = Inr (amo_spec op a b)
     \<and> (\<exists>r. compute_amo (op_code op) (ucast (x :: u32)) (ucast y) 4 = Inr r
          \<and> ucast r = amo_spec op x y)"
  using compute_amo_64 [OF assms] compute_amo_32 [OF assms] by blast

theorem compute_amo_correct_witness:
  "compute_amo (op_code HPDCACHE_REQ_AMO_MAX) (- 1) 1 8 = Inr 1"
  using compute_amo_correct [of HPDCACHE_REQ_AMO_MAX "- 1" 1 0 0]
  by (simp add: amo_ops_def amo_spec_words)

text \<open>
  C29: the memory model and the scoreboard agree: for every atomic operation, what the memory
  model computes on the operation and data the cache sends is what the scoreboard computes
  on the request, at both sizes; in particular clearing with inverted data is AND.
\<close>

theorem memory_model_agrees_with_scoreboard:
  assumes "op \<in> set amo_ops" and "uncached_atomic op st_data = Some (aop, data)"
  shows "mem_compute_amo (mem_atomic_code aop) ld_data data bytes
     = compute_amo (op_code op) ld_data st_data bytes"
  using assms by (rule mem_compute_amo_eq)

theorem memory_model_agrees_with_scoreboard_witness:
  "mem_compute_amo (mem_atomic_code HPDCACHE_MEM_ATOMIC_CLR) 12 (NOT 10) 8
     = compute_amo (op_code HPDCACHE_REQ_AMO_AND) 12 10 8"
  by (rule memory_model_agrees_with_scoreboard) (simp_all add: amo_ops_def)

end
