(* ===== verification/Mem_Resp.thy ===== *)
theory Mem_Resp
  imports Mem_Model Amo
begin

text \<open>
  The memory that answers the cache under test:
  \<open>rtl/tb/include/hpdcache_test_mem_resp_model_base.h\<close> (state, error segments, regions) and
  \<open>rtl/tb/include/hpdcache_test_mem_resp_model.h\<close> (the operations and the processes).

  A process only waits to delay: random delays, the retry of a non-blocking FIFO write and
  the handshakes change no data, so an operation is a function from the values sampled on
  the ports to the new state, and a FIFO is the list of the elements accepted and not yet
  taken out. The outputs to the scoreboard are lists that grow.
\<close>

section \<open>State\<close>

record segment =
  sg_base_addr :: u64
  sg_end_addr :: u64
  sg_error :: bool

record excl_reservation_buf =
  ex_valid :: bool
  ex_base_addr :: u64
  ex_end_addr :: u64

record mem_write_req_data_flit =
  wd_data :: nat
  wd_be :: nat
  wd_last :: bool

record mem_resp =
  memory_m :: mem_model
  errorsegs :: "segment list"
  excl_buf_m :: "excl_reservation_buf list"
  read_resp_fifo :: "mem_read_resp list"
  write_req_fifo :: "mem_req list"
  write_req_data_fifo :: "mem_write_req_data_flit list"
  write_resp_fifo :: "mem_write_resp list"
  sb_mem_read_req :: "mem_req list"
  sb_mem_read_resp :: "mem_read_resp list"
  sb_mem_write_req :: "mem_write_req list"
  sb_mem_write_resp :: "mem_write_resp list"

text \<open>
  The array of exclusive reservations is not initialised by the constructor: its content is
  an argument, as is the stream of random numbers.
\<close>

definition mem_resp_new ::
  "cfg \<Rightarrow> string \<Rightarrow> (nat \<Rightarrow> u64) \<Rightarrow> nat \<Rightarrow> excl_reservation_buf list \<Rightarrow> mem_resp" where
  "mem_resp_new c nm rnd pos excl =
     \<lparr>memory_m = mem_model_new (''_'' @ nm) MEM_MODEL_INIT_RANDOM 0 rnd pos,
      errorsegs = [], excl_buf_m = take (2 ^ HPDCACHE_MEM_ID_WIDTH c) excl,
      read_resp_fifo = [], write_req_fifo = [], write_req_data_fifo = [], write_resp_fifo = [],
      sb_mem_read_req = [], sb_mem_read_resp = [], sb_mem_write_req = [], sb_mem_write_resp = []\<rparr>"

definition MEM_NOC_DATA_WORDS :: "cfg \<Rightarrow> nat" where
  "MEM_NOC_DATA_WORDS c = HPDCACHE_MEM_DATA_WIDTH c div 64"

definition add_error_segment :: "segment \<Rightarrow> mem_resp \<Rightarrow> mem_resp" where
  "add_error_segment sg s = s\<lparr>errorsegs := errorsegs s @ [sg]\<rparr>"

definition within_region :: "u64 \<Rightarrow> u64 \<Rightarrow> u64 \<Rightarrow> u64 \<Rightarrow> bool" where
  "within_region base0 end0 base1 end1 =
     (if end0 \<le> base1 then False else if base0 \<ge> end1 then False else True)"

primrec error_region_loop :: "segment list \<Rightarrow> u64 \<Rightarrow> u64 \<Rightarrow> bool" where
  "error_region_loop [] base end_addr = False"
| "error_region_loop (sg # sgs) base end_addr =
     (if within_region (sg_base_addr sg) (sg_end_addr sg) base end_addr then sg_error sg
      else error_region_loop sgs base end_addr)"

definition within_error_region :: "mem_resp \<Rightarrow> u64 \<Rightarrow> u64 \<Rightarrow> bool" where
  "within_error_region s base end_addr = error_region_loop (errorsegs s) base end_addr"

section \<open>Requests sampled on the ports\<close>

record mem_req_ports =
  port_addr :: nat
  port_len :: nat
  port_size :: nat
  port_id :: nat
  port_command :: nat
  port_atomic :: nat
  port_cacheable :: bool

text \<open>Every port is read with \<open>to_uint\<close>, a 32-bit value, the address included.\<close>

definition mem_req_of_ports :: "mem_req_ports \<Rightarrow> mem_req" where
  "mem_req_of_ports p =
     \<lparr>mr_addr = ucast (bv_to_uint (port_addr p)), mr_len = bv_to_uint (port_len p),
      mr_size = bv_to_uint (port_size p), mr_id = bv_to_uint (port_id p),
      mr_command = bv_to_uint (port_command p), mr_atomic = bv_to_uint (port_atomic p),
      mr_cacheable = port_cacheable p\<rparr>"

definition push_read_resp :: "mem_read_resp \<Rightarrow> mem_resp \<Rightarrow> mem_resp" where
  "push_read_resp r s = s\<lparr>read_resp_fifo := read_resp_fifo s @ [r]\<rparr>"

definition push_write_resp :: "mem_write_resp \<Rightarrow> mem_resp \<Rightarrow> mem_resp" where
  "push_write_resp r s = s\<lparr>write_resp_fifo := write_resp_fifo s @ [r]\<rparr>"

section \<open>Read operation\<close>

text \<open>The words of one response flit: state of the memory and the data of the response.\<close>

definition read_words :: "cfg \<Rightarrow> u64 \<Rightarrow> nat \<Rightarrow> mem_model \<times> nat \<Rightarrow> mem_model \<times> nat" where
  "read_words c addr words md =
     foldl (\<lambda>(m, data) w.
         let word_addr = drop_bit 3 addr + word_of_nat w;
             (ld_data, m') = readMemory m word_addr;
             r = unat word_addr mod MEM_NOC_DATA_WORDS c
         in (m', put_field (r * 64) 64 (unat ld_data) data))
       md [0..<words]"

definition words_of_size :: "u32 \<Rightarrow> nat" where
  "words_of_size sz = (let words = push_bit (unat sz) 1 div 8 in if words = 0 then 1 else words)"

definition read_flit ::
  "cfg \<Rightarrow> mem_req \<Rightarrow> nat \<Rightarrow> mem_resp \<times> u64 \<times> nat \<Rightarrow> nat \<Rightarrow> mem_resp \<times> u64 \<times> nat" where
  "read_flit c req words st i =
     (let (s, addr, data) = st;
          (m, data) = read_words c addr words (memory_m s, data);
          resp = \<lparr>rr_error = 0, rr_id = mr_id req, rr_data = data, rr_last = (i = unat (mr_len req))\<rparr>
      in (push_read_resp resp (s\<lparr>memory_m := m\<rparr>),
          push_bit 3 (drop_bit 3 addr + word_of_nat words), data))"

definition error_flit :: "mem_req \<Rightarrow> mem_resp \<Rightarrow> nat \<Rightarrow> mem_resp" where
  "error_flit req s i =
     push_read_resp \<lparr>rr_error = 1, rr_id = mr_id req, rr_data = 0, rr_last = (i = unat (mr_len req))\<rparr> s"

definition error_flits :: "mem_req \<Rightarrow> mem_resp \<Rightarrow> mem_resp" where
  "error_flits req s = foldl (error_flit req) s [0..<Suc (unat (mr_len req))]"

definition read_flits :: "cfg \<Rightarrow> mem_req \<Rightarrow> mem_resp \<Rightarrow> mem_resp" where
  "read_flits c req s =
     fst (foldl (read_flit c req (words_of_size (mr_size req))) (s, mr_addr req, 0)
            [0..<Suc (unat (mr_len req))])"

definition reserve_exclusive :: "mem_req \<Rightarrow> mem_resp \<Rightarrow> mem_resp outcome" where
  "reserve_exclusive req s =
     (if \<not> mr_is_ldex req then Inr s
      else if \<not> unat (mr_id req) < length (excl_buf_m s) then Inl Undefined_behaviour
      else Inr (s\<lparr>excl_buf_m := (excl_buf_m s)[unat (mr_id req) :=
             \<lparr>ex_valid = True, ex_base_addr = mr_addr req,
              ex_end_addr = mr_addr req + push_bit (unat (mr_size req)) 1\<rparr>]\<rparr>))"

definition sample_read_req :: "mem_req \<Rightarrow> mem_resp \<Rightarrow> mem_resp" where
  "sample_read_req req s = s\<lparr>sb_mem_read_req := sb_mem_read_req s @ [req]\<rparr>"

definition readOperation :: "cfg \<Rightarrow> mem_req_ports \<Rightarrow> mem_resp \<Rightarrow> mem_resp outcome" where
  "readOperation c p s =
     (let req = mem_req_of_ports p;
          s = sample_read_req req s;
          addr = mr_addr req;
          end_addr = addr + push_bit (unat (mr_size req)) 1
      in if within_error_region s addr end_addr then Inr (error_flits req s)
         else andthen (reserve_exclusive req s)
                (\<lambda>s. if MEM_NOC_DATA_WORDS c = 0 then Inl Undefined_behaviour
                      else Inr (read_flits c req s)))"

section \<open>Write operation\<close>

text \<open>In \<open>writeOperation\<close> an exclusive load counts as an AMO; only \<open>STEX\<close> does not.\<close>

definition write_is_amo :: "'a mem_req_scheme \<Rightarrow> bool" where
  "write_is_amo req \<longleftrightarrow> mr_command req = mem_command_code HPDCACHE_MEM_ATOMIC
     \<and> mr_atomic req \<noteq> mem_atomic_code HPDCACHE_MEM_ATOMIC_STEX"

definition low_32 :: "u64 \<Rightarrow> u64" where
  "low_32 w = ucast (ucast w :: u32)"

text \<open>
  The old data and the result of an AMO on the word \<open>ld_word\<close>, both shifted back to the
  byte lanes of the address.
\<close>

definition amo_word :: "'a mem_req_scheme \<Rightarrow> u64 \<Rightarrow> u64 \<Rightarrow> (u64 \<times> u64) outcome" where
  "amo_word req ld_word st_word =
     (let bytes = (push_bit (unat (mr_size req)) 1 :: nat);
          offset = unat (mr_addr req) mod 8 * 8;
          ld_data = (if bytes = 4 then low_32 (drop_bit offset ld_word) else ld_word);
          st_data = (if bytes = 4 then low_32 (drop_bit offset st_word) else st_word)
      in andthen (mem_compute_amo (mr_atomic req) ld_data st_data bytes)
           (\<lambda>amo_result.
              if offset \<noteq> 0 then Inr (push_bit offset ld_data, push_bit offset amo_result)
              else Inr (ld_data, amo_result)))"

text \<open>One round of the loop that writes the words of a request.\<close>

definition write_word ::
  "cfg \<Rightarrow> mem_write_req \<Rightarrow> u64 \<Rightarrow> nat \<Rightarrow> mem_model \<Rightarrow> mem_model outcome" where
  "write_word c req amo_result w m =
     (let word_addr = drop_bit 3 (mr_addr req);
          i = unat word_addr mod MEM_NOC_DATA_WORDS c + w
      in if \<not> i < HPDCACHE_MEM_DATA_WIDTH c div 8 div 8 then Inl Range_error
         else
           (let be = (word_of_nat (get_field (i * 8) 8 (mw_be req)) :: u8)
            in if be = 0 then Inr m
               else if \<not> i < MEM_NOC_DATA_WORDS c \<and> \<not> write_is_amo req then Inl Range_error
               else
                 (let st_data = (if write_is_amo req then amo_result
                                 else bv_to_uint64 (get_field (i * 64) 64 (mw_data req)))
                  in Inr (writeMemory m (word_addr + word_of_nat w) st_data (beToMask be)))))"

definition write_acknowledge :: "'a mem_req_scheme \<Rightarrow> bool \<Rightarrow> mem_resp \<Rightarrow> mem_resp" where
  "write_acknowledge req excl_ok s =
     push_write_resp \<lparr>wr_is_atomic = (mr_is_stex req \<and> excl_ok), wr_error = 0, wr_id = mr_id req\<rparr> s"

definition write_error :: "'a mem_req_scheme \<Rightarrow> mem_resp \<Rightarrow> mem_resp" where
  "write_error req s =
     (let s = (if write_is_amo req then
                 push_read_resp \<lparr>rr_error = 0, rr_id = mr_id req, rr_data = 0, rr_last = True\<rparr> s
               else s)
      in push_write_resp \<lparr>wr_is_atomic = False, wr_error = 1, wr_id = mr_id req\<rparr> s)"

text \<open>A store-exclusive consumes the reservation of its identifier.\<close>

definition take_exclusive :: "'a mem_req_scheme \<Rightarrow> u64 \<Rightarrow> mem_resp \<Rightarrow> (bool \<times> mem_resp) outcome" where
  "take_exclusive req end_addr s =
     (if \<not> mr_is_stex req then Inr (False, s)
      else if \<not> unat (mr_id req) < length (excl_buf_m s) then Inl Undefined_behaviour
      else
        (let e = excl_buf_m s ! unat (mr_id req)
         in if ex_valid e then
              Inr (within_region (mr_addr req) end_addr (ex_base_addr e) (ex_end_addr e),
                   s\<lparr>excl_buf_m := (excl_buf_m s)[unat (mr_id req) := e\<lparr>ex_valid := False\<rparr>]\<rparr>)
            else Inr (False, s)))"

definition write_words :: "cfg \<Rightarrow> mem_write_req \<Rightarrow> u64 \<Rightarrow> mem_model \<Rightarrow> mem_model outcome" where
  "write_words c req amo_result m =
     fold_ok (write_word c req amo_result) [0..<words_of_size (mr_size req)] m"

definition write_atomic :: "cfg \<Rightarrow> mem_write_req \<Rightarrow> mem_resp \<Rightarrow> mem_resp outcome" where
  "write_atomic c req s =
     (let word_addr = drop_bit 3 (mr_addr req);
          word = unat word_addr mod MEM_NOC_DATA_WORDS c;
          (ld_word, m) = readMemory (memory_m s) word_addr;
          st_word = bv_to_uint64 (get_field (word * 64) 64 (mw_data req))
      in andthen (amo_word req ld_word st_word)
           (\<lambda>(ld_data, amo_result).
              andthen (write_words c req amo_result m)
                (\<lambda>m. Inr (push_read_resp
                   \<lparr>rr_error = 0, rr_id = mr_id req,
                    rr_data = put_field (word * 64) 64 (unat ld_data) 0, rr_last = True\<rparr>
                   (s\<lparr>memory_m := m\<rparr>)))))"

definition writeOperation :: "cfg \<Rightarrow> mem_write_req \<Rightarrow> mem_resp \<Rightarrow> mem_resp outcome" where
  "writeOperation c req s =
     (let end_addr = mr_addr req + word_of_nat (push_bit (unat (mr_size req)) 1)
      in if within_error_region s (mr_addr req) end_addr then Inr (write_error req s)
         else andthen (take_exclusive req end_addr s)
           (\<lambda>(excl_ok, s).
              if MEM_NOC_DATA_WORDS c = 0 then Inl Undefined_behaviour
              else andthen
                (if write_is_amo req then write_atomic c req s
                 else if mr_is_stex req \<and> \<not> excl_ok then Inr s
                 else andthen (write_words c req 0 (memory_m s)) (\<lambda>m. Inr (s\<lparr>memory_m := m\<rparr>)))
                (\<lambda>s. Inr (write_acknowledge req excl_ok s))))"

section \<open>The processes\<close>

definition read_process :: "cfg \<Rightarrow> bool \<Rightarrow> mem_req_ports \<Rightarrow> mem_resp \<Rightarrow> mem_resp outcome" where
  "read_process c valid p s = (if valid then readOperation c p s else Inr s)"

definition read_response_process :: "mem_resp \<Rightarrow> (mem_read_resp \<times> mem_resp) option" where
  "read_response_process s =
     (case read_resp_fifo s of
        [] \<Rightarrow> None
      | r # rs \<Rightarrow> Some (r, s\<lparr>read_resp_fifo := rs, sb_mem_read_resp := sb_mem_read_resp s @ [r]\<rparr>))"

definition write_response_process :: "mem_resp \<Rightarrow> (mem_write_resp \<times> mem_resp) option" where
  "write_response_process s =
     (case write_resp_fifo s of
        [] \<Rightarrow> None
      | r # rs \<Rightarrow> Some (r, s\<lparr>write_resp_fifo := rs, sb_mem_write_resp := sb_mem_write_resp s @ [r]\<rparr>))"

definition write_address_process :: "bool \<Rightarrow> mem_req_ports \<Rightarrow> mem_resp \<Rightarrow> mem_resp" where
  "write_address_process valid p s =
     (if valid then s\<lparr>write_req_fifo := write_req_fifo s @ [mem_req_of_ports p]\<rparr> else s)"

definition write_data_process :: "bool \<Rightarrow> mem_write_req_data_flit \<Rightarrow> mem_resp \<Rightarrow> mem_resp" where
  "write_data_process valid d s =
     (if valid then s\<lparr>write_req_data_fifo := write_req_data_fifo s @ [d]\<rparr> else s)"

definition write_process :: "cfg \<Rightarrow> mem_resp \<Rightarrow> mem_resp outcome" where
  "write_process c s =
     (case (write_req_fifo s, write_req_data_fifo s) of
        (meta # metas, d # ds) \<Rightarrow>
          (let req = mem_req.extend meta \<lparr>mw_data = wd_data d, mw_be = wd_be d, mw_last = wd_last d\<rparr>
           in writeOperation c req
                (s\<lparr>write_req_fifo := metas, write_req_data_fifo := ds,
                   sb_mem_write_req := sb_mem_write_req s @ [req]\<rparr>))
      | _ \<Rightarrow> Inr s)"

section \<open>Reading\<close>

lemma unat_word_index:
  assumes "unat a + n < 2 ^ 64"
  shows "unat ((a :: u64) + word_of_nat n) = unat a + n"
proof -
  have "unat (word_of_nat n :: u64) = n" using assms by (intro unat_word_of_nat) simp
  then show ?thesis using assms by (simp add: unat_word_ariths)
qed

lemma slots_distinct:
  assumes "w < v" and "v < words" and "words \<le> (N :: nat)"
  shows "(b + w) mod N \<noteq> (b + v) mod N"
proof
  assume "(b + w) mod N = (b + v) mod N"
  then have "N dvd (b + v) - (b + w)" by (metis mod_eq_dvd_iff_nat add_le_cancel_left assms(1) less_imp_le)
  then have "N dvd v - w" by simp
  then show False using assms by (auto dest: dvd_imp_le)
qed

lemma get_put_slot:
  assumes "r \<noteq> r'"
  shows "get_field (r * 64) 64 (put_field (r' * 64) 64 x v) = get_field (r * 64) 64 v"
  using assms by (cases "r < r'") (auto intro: get_put_above get_put_below)

definition word_in_slot :: "cfg \<Rightarrow> mem_model \<Rightarrow> nat \<Rightarrow> u64 \<Rightarrow> bool" where
  "word_in_slot c m data a \<longleftrightarrow>
     mem_array_m m a
       = Some (bv_to_uint64 (get_field (unat a mod MEM_NOC_DATA_WORDS c * 64) 64 data))"

lemma take_bit_unat_u64: "take_bit 64 (unat (v :: u64)) = unat v"
  using unat_u64_less [of v] by (simp add: take_bit_nat_eq_self)

text \<open>One flit: its words are fixed in the memory and lie in their slots of the data.\<close>

lemma read_words_spec:
  assumes "words \<le> MEM_NOC_DATA_WORDS c" and "unat (drop_bit 3 addr) + words < 2 ^ 64"
    and "read_words c addr words (m, d) = (m', d')"
  shows "mem_array_m m \<subseteq>\<^sub>m mem_array_m m'
     \<and> (\<forall>w < words. word_in_slot c m' d' (drop_bit 3 addr + word_of_nat w))"
  using assms
proof (induction words arbitrary: m' d')
  case 0
  then show ?case by (simp add: read_words_def)
next
  case (Suc n)
  let ?b = "drop_bit 3 addr" and ?N = "MEM_NOC_DATA_WORDS c"
  obtain m1 d1 where r1: "read_words c addr n (m, d) = (m1, d1)" by fastforce
  obtain v m2 where r2: "readMemory m1 (?b + word_of_nat n) = (v, m2)" by fastforce
  let ?a = "?b + word_of_nat n"
  have m': "m' = m2" "d' = put_field (unat ?a mod ?N * 64) 64 (unat v) d1"
    using Suc.prems(3) r1 r2 by (simp_all add: read_words_def Let_def)
  have IH: "mem_array_m m \<subseteq>\<^sub>m mem_array_m m1"
    "\<And>w. w < n \<Longrightarrow> word_in_slot c m1 d1 (?b + word_of_nat w)"
    using Suc.IH [OF _ _ r1] Suc.prems(1,2) by auto
  note pk = mm.rd_fixes [OF r2]
  have le: "mem_array_m m1 \<subseteq>\<^sub>m mem_array_m m2"
  proof (cases "mem_array_m m1 ?a")
    case (Some x)
    then show ?thesis using mm.rd_known [OF Some] r2 by simp
  next
    case None
    then show ?thesis by (auto simp: pk map_le_def)
  qed
  have new: "word_in_slot c m' d' ?a"
    by (simp add: word_in_slot_def m' pk get_put_same bv_to_uint64_def take_bit_unat_u64)
  have "word_in_slot c m' d' (?b + word_of_nat w)" if w: "w < n" for w
  proof -
    have u: "unat (?b + word_of_nat w) = unat ?b + w" "unat ?a = unat ?b + n"
      using Suc.prems(2) w by (auto intro!: unat_word_index)
    have "unat (?b + word_of_nat w) mod ?N \<noteq> unat ?a mod ?N"
      unfolding u using Suc.prems(1) w by (intro slots_distinct) auto
    then show ?thesis
      using IH(2) [OF w] le
      by (auto simp: word_in_slot_def m' get_put_slot map_le_def dom_def)
  qed
  then show ?case using new IH(1) le by (auto simp: m' less_Suc_eq intro: map_le_trans)
qed

lemma drop_push_word:
  assumes "unat x < 2 ^ 61"
  shows "drop_bit 3 (push_bit 3 (x :: u64)) = x"
proof (rule bit_word_eqI)
  fix n
  assume "n < LENGTH(64)"
  have "\<not> bit x n" if "61 \<le> n"
    using bit_nat_lt_imp_less [OF assms, of n] that by (auto simp: bit_unsigned_iff)
  then show "bit (drop_bit 3 (push_bit 3 x)) n = bit x n"
    using \<open>n < LENGTH(64)\<close> by (cases "61 \<le> n") (auto simp: bit_drop_bit_eq bit_push_bit_iff)
qed

text \<open>All flits of a request.\<close>

definition flits_ok ::
  "cfg \<Rightarrow> mem_req \<Rightarrow> mem_model \<Rightarrow> u64 \<Rightarrow> nat \<Rightarrow> mem_read_resp list \<Rightarrow> bool" where
  "flits_ok c req m base words rs \<longleftrightarrow>
     (\<forall>i < length rs. rr_id (rs ! i) = mr_id req \<and> rr_error (rs ! i) = 0
        \<and> rr_last (rs ! i) = (i = unat (mr_len req))
        \<and> (\<forall>w < words. word_in_slot c m (rr_data (rs ! i)) (base + word_of_nat (i * words + w))))"

lemma word_in_slot_mono:
  "word_in_slot c m d a \<Longrightarrow> mem_array_m m \<subseteq>\<^sub>m mem_array_m m' \<Longrightarrow> word_in_slot c m' d a"
  by (auto simp: word_in_slot_def map_le_def dom_def)

lemma read_flits_spec:
  assumes "words \<le> MEM_NOC_DATA_WORDS c" and "unat (drop_bit 3 addr) + n * words < 2 ^ 61"
    and "foldl (read_flit c req words) (s, addr, d) [0..<n] = (s', addr', d')"
  shows "mem_array_m (memory_m s) \<subseteq>\<^sub>m mem_array_m (memory_m s')
     \<and> drop_bit 3 addr' = drop_bit 3 addr + word_of_nat (n * words)
     \<and> (\<exists>rs. s' = s\<lparr>read_resp_fifo := read_resp_fifo s @ rs, memory_m := memory_m s'\<rparr>
          \<and> length rs = n
          \<and> flits_ok c req (memory_m s') (drop_bit 3 addr) words rs)"
  using assms(2,3)
proof (induction n arbitrary: s' addr' d')
  case 0
  then show ?case by (auto simp: flits_ok_def)
next
  case (Suc n)
  let ?b = "drop_bit 3 addr"
  obtain s1 addr1 d1 where f: "foldl (read_flit c req words) (s, addr, d) [0..<n] = (s1, addr1, d1)"
    by (metis prod.collapse)
  have lt: "unat ?b + n * words < 2 ^ 61" using Suc.prems(1) by simp
  from Suc.IH [OF lt f] obtain rs where IH: "mem_array_m (memory_m s) \<subseteq>\<^sub>m mem_array_m (memory_m s1)"
    "drop_bit 3 addr1 = ?b + word_of_nat (n * words)"
    "s1 = s\<lparr>read_resp_fifo := read_resp_fifo s @ rs, memory_m := memory_m s1\<rparr>"
    "length rs = n" "flits_ok c req (memory_m s1) ?b words rs" by blast
  obtain m2 d2 where rw: "read_words c addr1 words (memory_m s1, d1) = (m2, d2)" by fastforce
  let ?r = "\<lparr>rr_error = 0, rr_id = mr_id req, rr_data = d2, rr_last = (n = unat (mr_len req))\<rparr>"
  have "read_flit c req words (s1, addr1, d1) n = (s', addr', d')"
    using Suc.prems(2) f by simp
  then have s': "s' = push_read_resp ?r (s1\<lparr>memory_m := m2\<rparr>)"
    "addr' = push_bit 3 (drop_bit 3 addr1 + word_of_nat words)"
    by (auto simp: read_flit_def rw)
  have b1: "unat (drop_bit 3 addr1) = unat ?b + n * words"
    unfolding IH(2) by (rule unat_word_index) (use lt in simp)
  have "unat (drop_bit 3 addr1) + words < 2 ^ 64" using b1 Suc.prems(1) by simp
  note rws = read_words_spec [OF assms(1) this rw]
  have "unat (drop_bit 3 addr1 + word_of_nat words) < 2 ^ 61"
    using unat_word_index [of "drop_bit 3 addr1" words] b1 Suc.prems(1) by simp
  then have addr': "drop_bit 3 addr' = ?b + word_of_nat (Suc n * words)"
    unfolding s'(2) by (subst drop_push_word) (simp_all add: IH(2) algebra_simps)
  have ok: "flits_ok c req m2 ?b words (rs @ [?r])"
    unfolding flits_ok_def
  proof (intro allI impI)
    fix i
    assume "i < length (rs @ [?r])"
    then consider "i < n" | "i = n" using IH(4) by fastforce
    then show "rr_id ((rs @ [?r]) ! i) = mr_id req \<and> rr_error ((rs @ [?r]) ! i) = 0
        \<and> rr_last ((rs @ [?r]) ! i) = (i = unat (mr_len req))
        \<and> (\<forall>w < words. word_in_slot c m2 (rr_data ((rs @ [?r]) ! i)) (?b + word_of_nat (i * words + w)))"
    proof cases
      case 1
      then show ?thesis
        using IH(4,5) rws by (auto simp: flits_ok_def nth_append intro: word_in_slot_mono)
    next
      case 2
      then show ?thesis
        using IH(4) rws by (auto simp: nth_append IH(2) algebra_simps)
    qed
  qed
  have m2: "memory_m s' = m2" using s' by (simp add: push_read_resp_def)
  have "s' = s\<lparr>read_resp_fifo := read_resp_fifo s @ (rs @ [?r]), memory_m := m2\<rparr>"
    unfolding s'(1) push_read_resp_def by (subst (1 2) IH(3)) simp
  moreover have "mem_array_m (memory_m s) \<subseteq>\<^sub>m mem_array_m (memory_m s')"
    unfolding m2 using IH(1) rws by (blast intro: map_le_trans)
  ultimately show ?case
    using ok addr' IH(4) unfolding m2 by (metis length_append_singleton)
qed

section \<open>Writing\<close>

text \<open>
  The enabled bytes of the request's words, as the merge they do on each memory word: word
  \<open>w\<close> of the request is in lane \<open>base mod N + w\<close> of data and byte enables.
\<close>

definition lane_be :: "'a mem_write_req_scheme \<Rightarrow> nat \<Rightarrow> u8" where
  "lane_be req i = word_of_nat (get_field (i * 8) 8 (mw_be req))"

definition lane_data :: "'a mem_write_req_scheme \<Rightarrow> nat \<Rightarrow> u64" where
  "lane_data req i = bv_to_uint64 (get_field (i * 64) 64 (mw_data req))"

definition merged :: "(u64 \<rightharpoonup> u64) \<Rightarrow> (u64 \<rightharpoonup> u64) \<Rightarrow> u64 \<Rightarrow> nat \<Rightarrow> (nat \<Rightarrow> u64) \<Rightarrow> (nat \<Rightarrow> u8) \<Rightarrow> bool" where
  "merged mem mem' base words data be \<longleftrightarrow>
     (\<forall>w < words. \<forall>old. mem (base + word_of_nat w) = Some old \<longrightarrow>
        mem' (base + word_of_nat w) = Some (merge_mask old (data w) (beToMask (be w))))
     \<and> (\<forall>w < words. \<forall>i < 8. bit (be w) i \<longrightarrow>
          (\<exists>new. mem' (base + word_of_nat w) = Some new \<and> byte_of new i = byte_of (data w) i))
     \<and> (\<forall>a. (\<forall>w < words. a \<noteq> base + word_of_nat w) \<longrightarrow> mem' a = mem a)"

lemma word_index_inj:
  assumes "unat (base :: u64) + words \<le> 2 ^ 64" and "w < words" and "v < words" and "w \<noteq> v"
  shows "base + word_of_nat w \<noteq> base + word_of_nat v"
proof -
  have "unat (base + word_of_nat w) = unat base + w" "unat (base + word_of_nat v) = unat base + v"
    using assms by (auto intro!: unat_word_index)
  then show ?thesis using assms(4) by (metis add_left_cancel)
qed

lemma write_word_ok:
  assumes "i < MEM_NOC_DATA_WORDS c" and "i = unat (drop_bit 3 (mr_addr req)) mod MEM_NOC_DATA_WORDS c + w"
    and "HPDCACHE_MEM_DATA_WIDTH c mod 64 = 0"
  shows "write_word c req res w m = Inr
     (if lane_be req i = 0 then m
      else writeMemory m (drop_bit 3 (mr_addr req) + word_of_nat w)
             (if write_is_amo req then res else lane_data req i) (beToMask (lane_be req i)))"
proof -
  have "HPDCACHE_MEM_DATA_WIDTH c div 8 div 8 = MEM_NOC_DATA_WORDS c"
    by (simp add: MEM_NOC_DATA_WORDS_def flip: div_mult2_eq)
  then show ?thesis
    using assms(1,2) by (auto simp: write_word_def lane_be_def lane_data_def Let_def)
qed

lemma write_words_spec:
  fixes req :: mem_write_req and c :: cfg
  defines "base \<equiv> drop_bit 3 (mr_addr req)"
  defines "l0 \<equiv> unat base mod MEM_NOC_DATA_WORDS c"
  assumes "l0 + words \<le> MEM_NOC_DATA_WORDS c" and "HPDCACHE_MEM_DATA_WIDTH c mod 64 = 0"
    and "unat base + words \<le> 2 ^ 64"
  shows "\<exists>m'. fold_ok (write_word c req res) [0..<words] m = Inr m'
     \<and> merged (mem_array_m m) (mem_array_m m') base words
          (\<lambda>w. if write_is_amo req then res else lane_data req (l0 + w)) (\<lambda>w. lane_be req (l0 + w))"
  using assms(3,5)
proof (induction words)
  case 0
  then show ?case by (simp add: merged_def)
next
  case (Suc n)
  let ?data = "\<lambda>w. if write_is_amo req then res else lane_data req (l0 + w)"
    and ?be = "\<lambda>w. lane_be req (l0 + w)" and ?a = "base + word_of_nat n"
  obtain m1 where m1: "fold_ok (write_word c req res) [0..<n] m = Inr m1"
    "merged (mem_array_m m) (mem_array_m m1) base n ?data ?be"
    using Suc by auto
  define m2 where "m2 = (if ?be n = 0 then m1 else writeMemory m1 ?a (?data n) (beToMask (?be n)))"
  have step: "write_word c req res n m1 = Inr m2"
    using write_word_ok [of "l0 + n" c req n res m1] Suc.prems(1) assms(4)
    by (simp add: base_def l0_def m2_def)
  have inj: "base + word_of_nat w \<noteq> ?a" if "w < n" for w
    using word_index_inj [of base "Suc n" w n] Suc.prems(2) that by simp
  have old: "mem_array_m m1 ?a = mem_array_m m ?a"
    using m1(2) inj by (metis merged_def)
  have frame: "mem_array_m m2 b = mem_array_m m1 b" if "b \<noteq> ?a" for b
    using that by (auto simp: mm.wr_frame m2_def)
  have at: "mem_array_m m1 ?a = Some v \<Longrightarrow>
      mem_array_m m2 ?a = Some (merge_mask v (?data n) (beToMask (?be n)))" for v
    by (auto simp: mm.wr_known m2_def)
  have en: "\<exists>new. mem_array_m m2 ?a = Some new \<and> byte_of new i = byte_of (?data n) i"
    if i: "i < 8" and b: "bit (?be n) i" for i
  proof -
    have "?be n \<noteq> 0" using b by auto
    then obtain v where "mem_array_m m2 ?a = Some (merge_mask v (?data n) (beToMask (?be n)))"
      using mm.wr_peek [of m1 ?a "?data n" "beToMask (?be n)"] by (auto simp: m2_def)
    then show ?thesis using i b by (simp add: byte_of_merge_be)
  qed
  have "merged (mem_array_m m) (mem_array_m m2) base (Suc n) ?data ?be"
    unfolding merged_def
  proof (intro conjI allI impI)
    fix w v
    assume "w < Suc n" "mem_array_m m (base + word_of_nat w) = Some v"
    then show "mem_array_m m2 (base + word_of_nat w) = Some (merge_mask v (?data w) (beToMask (?be w)))"
      using m1(2) inj frame at old by (cases "w = n") (simp_all add: merged_def)
  next
    fix w i
    assume wi: "w < Suc n" "i < (8 :: nat)" "bit (?be w) i"
    show "\<exists>new. mem_array_m m2 (base + word_of_nat w) = Some new
        \<and> byte_of new i = byte_of (?data w) i"
    proof (cases "w = n")
      case True
      show ?thesis unfolding True by (rule en) (use wi True in simp_all)
    next
      case False
      then have "w < n" using wi(1) by simp
      then show ?thesis
        unfolding frame [OF inj [OF \<open>w < n\<close>]] using m1(2) wi unfolding merged_def by blast
    qed
  next
    fix a
    assume "\<forall>w < Suc n. a \<noteq> base + word_of_nat w"
    then show "mem_array_m m2 a = mem_array_m m a"
      using m1(2) frame [of a] by (auto simp: merged_def)
  qed
  then show ?case using m1(1) step by (auto simp: fold_ok_append)
qed

section \<open>Ports\<close>

lemma unat_bv_to_uint: "n < 2 ^ 32 \<Longrightarrow> unat (bv_to_uint n) = n"
  by (simp add: bv_to_uint_def unsigned_of_nat take_bit_nat_eq_self)

lemma unat_ucast_u32: "unat (ucast (x :: u32) :: u64) = unat x"
  using unsigned_less [where 'a = nat, of x] by (simp add: unsigned_ucast_eq take_bit_nat_eq_self)

text \<open>The port widths: 8 bits of length, 3 of size, the configured identifier width.\<close>

definition wf_ports :: "cfg \<Rightarrow> mem_req_ports \<Rightarrow> bool" where
  "wf_ports c p \<longleftrightarrow> port_len p < 2 ^ 8 \<and> port_size p < 2 ^ 3
     \<and> port_id p < 2 ^ HPDCACHE_MEM_ID_WIDTH c \<and> HPDCACHE_MEM_ID_WIDTH c \<le> 16"

definition wf_mem_resp :: "cfg \<Rightarrow> mem_resp \<Rightarrow> bool" where
  "wf_mem_resp c s \<longleftrightarrow> 0 < HPDCACHE_MEM_DATA_WIDTH c \<and> HPDCACHE_MEM_DATA_WIDTH c mod 64 = 0
     \<and> length (excl_buf_m s) = 2 ^ HPDCACHE_MEM_ID_WIDTH c"

lemma unat_mr_addr: "unat (mr_addr (mem_req_of_ports p)) = port_addr p mod 2 ^ 32"
  by (simp add: mem_req_of_ports_def unat_ucast_u32 bv_to_uint_def unsigned_of_nat take_bit_eq_mod)

lemma wf_ports_fields:
  assumes "wf_ports c p"
  shows "unat (mr_len (mem_req_of_ports p)) = port_len p"
    and "unat (mr_size (mem_req_of_ports p)) = port_size p"
    and "unat (mr_id (mem_req_of_ports p)) < 2 ^ HPDCACHE_MEM_ID_WIDTH c"
    and "unat (mr_addr (mem_req_of_ports p)) = port_addr p mod 2 ^ 32"
proof -
  have "(2 :: nat) ^ HPDCACHE_MEM_ID_WIDTH c \<le> 2 ^ 16"
    using assms by (intro power_increasing) (auto simp: wf_ports_def)
  then show "unat (mr_len (mem_req_of_ports p)) = port_len p"
    and "unat (mr_size (mem_req_of_ports p)) = port_size p"
    and "unat (mr_id (mem_req_of_ports p)) < 2 ^ HPDCACHE_MEM_ID_WIDTH c"
    using assms by (auto simp: mem_req_of_ports_def unat_bv_to_uint wf_ports_def)
  show "unat (mr_addr (mem_req_of_ports p)) = port_addr p mod 2 ^ 32"
    by (rule unat_mr_addr)
qed

lemma words_of_size_le:
  assumes "unat sz < 8"
  shows "0 < words_of_size sz" and "words_of_size sz \<le> 16"
proof -
  have "(2 :: nat) ^ unat sz \<le> 2 ^ 7" using assms by (intro power_increasing) auto
  then show "0 < words_of_size sz" and "words_of_size sz \<le> 16"
    by (auto simp: words_of_size_def Let_def push_bit_of_1)
qed

lemma MEM_NOC_DATA_WORDS_pos: "wf_mem_resp c s \<Longrightarrow> 0 < MEM_NOC_DATA_WORDS c"
  by (auto simp: wf_mem_resp_def MEM_NOC_DATA_WORDS_def div_greater_zero_iff elim!: dvdE)

lemma reserve_exclusive_ok:
  assumes "unat (mr_id req) < length (excl_buf_m s)"
  shows "\<exists>s'. reserve_exclusive req s = Inr s' \<and> memory_m s' = memory_m s
     \<and> read_resp_fifo s' = read_resp_fifo s"
  using assms by (cases "mr_is_ldex req") (auto simp: reserve_exclusive_def)

section \<open>Properties\<close>

text \<open>
  C20: a read outside the error segments. The operation returns for every request the ports can
  carry whose flit is not wider than the interface; it answers with length + 1 flits, all
  with the request's identifier and no error, exactly the last one marked; each word a flit
  covers lies in its lane of the data and is the content of the memory, in which nothing
  that was fixed before has changed.
\<close>

theorem read_returns_memory:
  fixes p :: mem_req_ports
  defines "req \<equiv> mem_req_of_ports p"
  assumes "wf_ports c p" and "wf_mem_resp c s"
    and "words_of_size (mr_size req) \<le> MEM_NOC_DATA_WORDS c"
    and "\<not> within_error_region s (mr_addr req) (mr_addr req + push_bit (unat (mr_size req)) 1)"
  shows "\<exists>s' rs. readOperation c p s = Inr s'
     \<and> read_resp_fifo s' = read_resp_fifo s @ rs \<and> length rs = Suc (port_len p)
     \<and> flits_ok c req (memory_m s') (drop_bit 3 (mr_addr req)) (words_of_size (mr_size req)) rs
     \<and> mem_array_m (memory_m s) \<subseteq>\<^sub>m mem_array_m (memory_m s')"
proof -
  let ?words = "words_of_size (mr_size req)" and ?n = "Suc (unat (mr_len req))"
  note pf = wf_ports_fields [OF assms(2), folded req_def]
  have err: "\<not> within_error_region (sample_read_req req s) (mr_addr req)
      (mr_addr req + push_bit (unat (mr_size req)) 1)"
    using assms(5) by (simp add: within_error_region_def sample_read_req_def)
  have "unat (mr_id req) < length (excl_buf_m (sample_read_req req s))"
    using assms(3) pf(3) by (simp add: wf_mem_resp_def sample_read_req_def)
  from reserve_exclusive_ok [OF this]
  obtain s2 where s2: "reserve_exclusive req (sample_read_req req s) = Inr s2"
    "memory_m s2 = memory_m s" "read_resp_fifo s2 = read_resp_fifo s"
    by (auto simp: sample_read_req_def)
  obtain s' a' d' where f: "foldl (read_flit c req ?words) (s2, mr_addr req, 0) [0..<?n] = (s', a', d')"
    by (metis prod.collapse)
  have run: "readOperation c p s = Inr s'"
    using err s2(1) f MEM_NOC_DATA_WORDS_pos [OF assms(3)]
    by (simp only: readOperation_def Let_def read_flits_def req_def [symmetric]) simp
  have "?n * ?words \<le> 256 * 16"
    using words_of_size_le [of "mr_size req"] pf(1,2) assms(2)
    by (intro mult_le_mono) (auto simp: wf_ports_def)
  moreover have "unat (drop_bit 3 (mr_addr req)) < 2 ^ 32"
    using pf(4) by (simp add: unat_drop_bit_u64 le_less_trans [OF div_le_dividend])
  ultimately have "unat (drop_bit 3 (mr_addr req)) + ?n * ?words < 2 ^ 61" by simp
  from read_flits_spec [OF assms(4) this f] obtain rs where rs:
    "mem_array_m (memory_m s2) \<subseteq>\<^sub>m mem_array_m (memory_m s')"
    "s' = s2\<lparr>read_resp_fifo := read_resp_fifo s2 @ rs, memory_m := memory_m s'\<rparr>"
    "length rs = ?n" "flits_ok c req (memory_m s') (drop_bit 3 (mr_addr req)) ?words rs"
    by blast
  have "read_resp_fifo s' = read_resp_fifo s2 @ rs" by (subst rs(2)) simp
  then show ?thesis using run rs s2 pf(1) by auto
qed

text \<open>A memory with one known word, for the examples.\<close>

definition ex_mem :: "(u64 \<rightharpoonup> u64) \<Rightarrow> mem_resp" where
  "ex_mem content =
     (mem_resp_new default_cfg ''m'' (\<lambda>_. 0) 0 (replicate 16 \<lparr>ex_valid = False, ex_base_addr = 0, ex_end_addr = 0\<rparr>))
       \<lparr>memory_m := (mem_model_new ''m'' MEM_MODEL_INIT_RANDOM 0 (\<lambda>_. 0) 0)\<lparr>mem_array_m := content\<rparr>\<rparr>"

lemma ex_mem_fields:
  "wf_mem_resp default_cfg (ex_mem content)" "errorsegs (ex_mem content) = []"
  "mem_array_m (memory_m (ex_mem content)) = content" "length (excl_buf_m (ex_mem content)) = 16"
  "MEM_NOC_DATA_WORDS default_cfg = 8"
  by (simp_all add: ex_mem_def mem_resp_new_def wf_mem_resp_def default_cfg_def MEM_NOC_DATA_WORDS_def)

theorem read_returns_memory_witness:
  "\<exists>s' rs. readOperation default_cfg \<lparr>port_addr = 64, port_len = 0, port_size = 3, port_id = 1,
       port_command = 0, port_atomic = 0, port_cacheable = True\<rparr> (ex_mem [8 \<mapsto> 77]) = Inr s'
     \<and> length rs = 1 \<and> read_resp_fifo s' = rs"
proof -
  let ?p = "\<lparr>port_addr = 64, port_len = 0, port_size = 3, port_id = 1,
       port_command = 0, port_atomic = 0, port_cacheable = True\<rparr>"
  have "wf_ports default_cfg ?p" by (simp add: wf_ports_def default_cfg_def)
  from read_returns_memory [OF this ex_mem_fields(1) [of "[8 \<mapsto> 77]"]] show ?thesis
    by (simp add: ex_mem_fields within_error_region_def mem_req_of_ports_def bv_to_uint_def
        words_of_size_def) (auto simp: ex_mem_def mem_resp_new_def)
qed

text \<open>
  C21: an ordinary write outside the error segments. For a request that fits the data bus the
  operation returns; in every memory word the request covers, exactly the bytes whose
  enable bit is set take the request's data, every other word is unchanged, and one
  error-free acknowledgement with the request's identifier is sent.
\<close>

theorem write_merges_enabled_bytes:
  fixes req :: mem_write_req and c :: cfg
  defines "base \<equiv> drop_bit 3 (mr_addr req)"
  defines "l0 \<equiv> unat base mod MEM_NOC_DATA_WORDS c"
  assumes "wf_mem_resp c s" and "mr_command req = mem_command_code HPDCACHE_MEM_WRITE"
    and "unat (mr_size req) < 8" and "l0 + words_of_size (mr_size req) \<le> MEM_NOC_DATA_WORDS c"
    and "\<not> within_error_region s (mr_addr req)
           (mr_addr req + word_of_nat (push_bit (unat (mr_size req)) 1))"
  shows "\<exists>m'. writeOperation c req s = Inr (s\<lparr>memory_m := m',
         write_resp_fifo := write_resp_fifo s @ [\<lparr>wr_is_atomic = False, wr_error = 0, wr_id = mr_id req\<rparr>]\<rparr>)
     \<and> merged (mem_array_m (memory_m s)) (mem_array_m m') base (words_of_size (mr_size req))
          (\<lambda>w. lane_data req (l0 + w)) (\<lambda>w. lane_be req (l0 + w))"
proof -
  have kind: "\<not> write_is_amo req" "\<not> mr_is_stex req"
    using assms(4) by (simp_all add: write_is_amo_def mr_is_stex_def)
  have "unat base < 2 ^ 61"
    using unat_u64_less [of "mr_addr req"] by (simp add: base_def unat_drop_bit_u64)
  then have "unat base + words_of_size (mr_size req) \<le> 2 ^ 64"
    using words_of_size_le(2) [OF assms(5)] by simp
  from write_words_spec [of req c, folded base_def l0_def, OF assms(6) _ this]
  obtain m' where m': "write_words c req 0 (memory_m s) = Inr m'"
    "merged (mem_array_m (memory_m s)) (mem_array_m m') base (words_of_size (mr_size req))
          (\<lambda>w. lane_data req (l0 + w)) (\<lambda>w. lane_be req (l0 + w))"
    using assms(3) kind by (auto simp: wf_mem_resp_def write_words_def)
  have "writeOperation c req s = Inr (write_acknowledge req False (s\<lparr>memory_m := m'\<rparr>))"
    using assms(7) kind m'(1) MEM_NOC_DATA_WORDS_pos [OF assms(3)]
    by (simp add: writeOperation_def Let_def take_exclusive_def)
  then show ?thesis
    using m'(2) kind by (auto simp: write_acknowledge_def push_write_resp_def)
qed

theorem write_merges_enabled_bytes_witness:
  "\<exists>m'. writeOperation default_cfg
       (mem_req.extend (mem_req_new\<lparr>mr_addr := 64, mr_size := 3, mr_command := 1, mr_id := 2\<rparr>)
          \<lparr>mw_data = 5, mw_be = 1, mw_last = True\<rparr>) (ex_mem [8 \<mapsto> 77])
     = Inr ((ex_mem [8 \<mapsto> 77])\<lparr>memory_m := m',
         write_resp_fifo := [\<lparr>wr_is_atomic = False, wr_error = 0, wr_id = 2\<rparr>]\<rparr>)"
proof -
  let ?r = "mem_req.extend (mem_req_new\<lparr>mr_addr := 64, mr_size := 3, mr_command := 1, mr_id := 2\<rparr>)
          \<lparr>mw_data = 5, mw_be = 1, mw_last = True\<rparr>"
  from write_merges_enabled_bytes [OF ex_mem_fields(1) [of "[8 \<mapsto> 77]"], of ?r] show ?thesis
    by (simp add: ex_mem_fields within_error_region_def mem_req_new_def mem_req.defs words_of_size_def)
      (auto simp: ex_mem_def mem_resp_new_def)
qed

lemma within_region_iff:
  "within_region b0 e0 b1 e1 \<longleftrightarrow> b1 < e0 \<and> b0 < e1"
  by (auto simp: within_region_def not_le)

lemma write_atomic_one_word:
  fixes req :: mem_write_req and c :: cfg
  defines "base \<equiv> drop_bit 3 (mr_addr req)"
  defines "l0 \<equiv> unat base mod MEM_NOC_DATA_WORDS c"
  assumes "wf_mem_resp c s" and "write_is_amo req" and "words_of_size (mr_size req) = 1"
    and "mem_array_m (memory_m s) base = Some old"
    and "amo_word req old (lane_data req l0) = Inr (ld, res)"
  shows "\<exists>m'. write_atomic c req s = Inr (push_read_resp
         \<lparr>rr_error = 0, rr_id = mr_id req, rr_data = put_field (l0 * 64) 64 (unat ld) 0, rr_last = True\<rparr>
         (s\<lparr>memory_m := m'\<rparr>))
     \<and> mem_array_m m' = (mem_array_m (memory_m s))(base \<mapsto> merge_mask old res (beToMask (lane_be req l0)))"
proof -
  have N: "l0 < MEM_NOC_DATA_WORDS c" using MEM_NOC_DATA_WORDS_pos [OF assms(3)] by (simp add: l0_def)
  have rd: "readMemory (memory_m s) base = (old, memory_m s)"
    by (rule mm.rd_known [OF assms(6)])
  define m' where "m' = (if lane_be req l0 = 0 then memory_m s
      else writeMemory (memory_m s) base res (beToMask (lane_be req l0)))"
  have "write_word c req res 0 (memory_m s) = Inr m'"
    using write_word_ok [of l0 c req 0 res "memory_m s"] N assms(3,4)
    by (simp add: m'_def l0_def base_def wf_mem_resp_def)
  then have ww: "write_words c req res (memory_m s) = Inr m'"
    using assms(5) by (simp add: write_words_def)
  have "mem_array_m m' = (mem_array_m (memory_m s))(base \<mapsto> merge_mask old res (beToMask (lane_be req l0)))"
    using assms(6) by (simp add: m'_def mm.wr_known fun_upd_idem)
  moreover have "write_atomic c req s = Inr (push_read_resp
         \<lparr>rr_error = 0, rr_id = mr_id req, rr_data = put_field (l0 * 64) 64 (unat ld) 0, rr_last = True\<rparr>
         (s\<lparr>memory_m := m'\<rparr>))"
    using rd ww assms(7) by (simp add: write_atomic_def Let_def base_def l0_def lane_data_def)
  ultimately show ?thesis by blast
qed

lemma writeOperation_amo:
  assumes "wf_mem_resp c s" and "write_is_amo req"
    and "\<not> within_error_region s (mr_addr req)
           (mr_addr req + word_of_nat (push_bit (unat (mr_size req)) 1))"
    and "write_atomic c req s = Inr s'"
  shows "writeOperation c req s = Inr (write_acknowledge req False s')"
proof -
  have "\<not> mr_is_stex req" using assms(2) by (simp add: write_is_amo_def mr_is_stex_def)
  then show ?thesis
    using assms MEM_NOC_DATA_WORDS_pos [OF assms(1)]
    by (simp add: writeOperation_def Let_def take_exclusive_def)
qed

lemma beToMask_full: "beToMask 0xff = - 1"
proof (rule bit_word_eqI)
  fix n
  assume "n < LENGTH(64)"
  then have "bit (mask 8 :: u8) (n div 8)" by (simp add: bit_mask_iff less_mult_imp_div_less)
  then show "bit (beToMask 0xff) n = bit (- 1 :: u64) n"
    using \<open>n < LENGTH(64)\<close> by (simp add: bit_beToMask mask_eq_exp_minus_1)
qed

lemma merge_mask_full: "merge_mask old data (- 1) = data"
  by (rule bit_word_eqI) simp

text \<open>
  C22: a 64-bit atomic operation of the cache, as it reaches the memory (AND as CLR with
  inverted data): the memory word becomes the result of the architectural operation on the
  old content and the request's operand, the read response carries the old content in the
  word's lane with the request's identifier, and one acknowledgement follows.
\<close>

theorem atomic_double_word:
  fixes req :: mem_write_req and c :: cfg
  defines "base \<equiv> drop_bit 3 (mr_addr req)"
  defines "l0 \<equiv> unat base mod MEM_NOC_DATA_WORDS c"
  assumes "wf_mem_resp c s" and "op \<in> set amo_ops" and "uncached_atomic op st = Some (aop, data)"
    and "mr_command req = mem_command_code HPDCACHE_MEM_ATOMIC" and "mr_atomic req = mem_atomic_code aop"
    and "mr_size req = 3" and "unat (mr_addr req) mod 8 = 0"
    and "lane_data req l0 = data" and "lane_be req l0 = 0xff"
    and "\<not> within_error_region s (mr_addr req) (mr_addr req + 8)"
    and "mem_array_m (memory_m s) base = Some old"
  shows "\<exists>m'. writeOperation c req s = Inr (s\<lparr>memory_m := m',
         read_resp_fifo := read_resp_fifo s @ [\<lparr>rr_error = 0, rr_id = mr_id req,
            rr_data = put_field (l0 * 64) 64 (unat old) 0, rr_last = True\<rparr>],
         write_resp_fifo := write_resp_fifo s @ [\<lparr>wr_is_atomic = False, wr_error = 0, wr_id = mr_id req\<rparr>]\<rparr>)
     \<and> mem_array_m m' = (mem_array_m (memory_m s))(base \<mapsto> amo_spec op old st)"
proof -
  have "aop \<noteq> HPDCACHE_MEM_ATOMIC_STEX"
    using assms(4,5) by (cases op) (auto simp: amo_ops_def)
  then have kind: "write_is_amo req" "\<not> mr_is_stex req"
    using assms(6,7) by (cases aop; simp add: write_is_amo_def mr_is_stex_def)+
  have "amo_word req old (lane_data req l0) = Inr (old, amo_spec op old st)"
    using assms mem_compute_amo_eq [OF assms(4,5)] compute_amo_64 [OF assms(4)]
    by (simp add: amo_word_def Let_def)
  from write_atomic_one_word [OF assms(3) kind(1) _ _ this [unfolded l0_def base_def]]
  obtain m' where m': "write_atomic c req s = Inr (push_read_resp
         \<lparr>rr_error = 0, rr_id = mr_id req, rr_data = put_field (l0 * 64) 64 (unat old) 0, rr_last = True\<rparr>
         (s\<lparr>memory_m := m'\<rparr>))"
    "mem_array_m m' = (mem_array_m (memory_m s))(base \<mapsto> amo_spec op old st)"
    using assms by (auto simp: words_of_size_def beToMask_full merge_mask_full)
  have "writeOperation c req s = Inr (write_acknowledge req False (push_read_resp
         \<lparr>rr_error = 0, rr_id = mr_id req, rr_data = put_field (l0 * 64) 64 (unat old) 0, rr_last = True\<rparr>
         (s\<lparr>memory_m := m'\<rparr>)))"
    by (rule writeOperation_amo [OF assms(3) kind(1) _ m'(1)]) (use assms in simp)
  then show ?thesis
    using m'(2) kind by (auto simp: write_acknowledge_def push_write_resp_def push_read_resp_def)
qed

theorem atomic_double_word_witness:
  "\<exists>m'. mem_array_m m' = [8 \<mapsto> 82]
     \<and> (\<exists>s'. writeOperation default_cfg
       (mem_req.extend (mem_req_new\<lparr>mr_addr := 64, mr_size := 3, mr_command := 2\<rparr>)
          \<lparr>mw_data = 5, mw_be = 255, mw_last = True\<rparr>) (ex_mem [8 \<mapsto> 77]) = Inr s' \<and> memory_m s' = m')"
proof -
  let ?r = "mem_req.extend (mem_req_new\<lparr>mr_addr := 64, mr_size := 3, mr_command := 2\<rparr>)
          \<lparr>mw_data = 5, mw_be = 255, mw_last = True\<rparr>"
  have g: "get_field 0 64 5 = 5" "get_field 0 8 255 = 255"
    by (simp_all add: get_field_def bv_range_def take_bit_nat_eq_self)
  have "\<exists>m'. writeOperation default_cfg ?r (ex_mem [8 \<mapsto> 77]) = Inr ((ex_mem [8 \<mapsto> 77])\<lparr>memory_m := m',
         read_resp_fifo := read_resp_fifo (ex_mem [8 \<mapsto> 77]) @ [\<lparr>rr_error = 0, rr_id = mr_id ?r,
            rr_data = put_field (unat (drop_bit 3 (mr_addr ?r)) mod MEM_NOC_DATA_WORDS default_cfg * 64) 64
              (unat (77 :: u64)) 0, rr_last = True\<rparr>],
         write_resp_fifo := write_resp_fifo (ex_mem [8 \<mapsto> 77])
            @ [\<lparr>wr_is_atomic = False, wr_error = 0, wr_id = mr_id ?r\<rparr>]\<rparr>)
     \<and> mem_array_m m' = (mem_array_m (memory_m (ex_mem [8 \<mapsto> 77])))
          (drop_bit 3 (mr_addr ?r) \<mapsto> amo_spec HPDCACHE_REQ_AMO_ADD 77 5)"
    by (rule atomic_double_word [OF ex_mem_fields(1), of HPDCACHE_REQ_AMO_ADD 5 HPDCACHE_MEM_ATOMIC_ADD 5])
      (simp_all add: amo_ops_def mem_req.defs mem_req_new_def ex_mem_fields lane_data_def lane_be_def g
        bv_to_uint64_def within_error_region_def)
  then show ?thesis
    by (auto simp: ex_mem_fields mem_req.defs mem_req_new_def)
qed

text \<open>The lane of a 32-bit operation: the four enabled bytes at the address's offset.\<close>

lemma bit_half_be:
  assumes "h = 0 \<or> h = (4 :: nat)"
  shows "bit (push_bit h (0x0f :: u8)) k \<longleftrightarrow> h \<le> k \<and> k < h + 4"
proof -
  have f: "(0x0f :: u8) = mask 4" by (simp add: mask_eq_exp_minus_1)
  show ?thesis unfolding f using assms by (auto simp: bit_push_bit_iff bit_mask_iff)
qed

lemma merged_half:
  assumes "off = 0 \<or> off = (32 :: nat)"
  shows "(ucast (drop_bit off (merge_mask old (push_bit off r) (beToMask (push_bit (off div 8) 0x0f)))) :: u32)
       = ucast r"
    and "n < off \<or> off + 32 \<le> n \<Longrightarrow>
       bit (merge_mask old (push_bit off r) (beToMask (push_bit (off div 8) 0x0f))) n = bit old n"
proof -
  define B where "B = push_bit (off div 8) (0x0f :: u8)"
  have be: "bit B (n div 8) \<longleftrightarrow> off \<le> n \<and> n < off + 32" for n
    unfolding B_def using assms
    by (subst bit_half_be) (auto simp: div_less_iff_less_mult less_eq_div_iff_mult_less_eq)
  show "(ucast (drop_bit off (merge_mask old (push_bit off r) (beToMask (push_bit (off div 8) 0x0f)))) :: u32)
       = ucast r"
    unfolding B_def [symmetric]
    by (rule bit_word_eqI)
      (use assms in \<open>auto simp: bit_ucast_iff bit_drop_bit_eq bit_beToMask be bit_push_bit_iff\<close>)
  show "n < off \<or> off + 32 \<le> n \<Longrightarrow>
       bit (merge_mask old (push_bit off r) (beToMask (push_bit (off div 8) 0x0f))) n = bit old n"
    unfolding B_def [symmetric] by (auto simp: bit_beToMask be)
qed

text \<open>
  a 32-bit atomic operation on either half of a memory word: the half at the address
  becomes the result of the 32-bit operation on its old content and the request's operand,
  the other half is untouched, and the read response carries the old half in place.
\<close>

theorem atomic_word:
  fixes req :: mem_write_req and c :: cfg
  defines "base \<equiv> drop_bit 3 (mr_addr req)"
  defines "l0 \<equiv> unat base mod MEM_NOC_DATA_WORDS c"
  defines "off \<equiv> unat (mr_addr req) mod 8 * 8"
  assumes "wf_mem_resp c s" and "op \<in> set amo_ops" and "uncached_atomic op st = Some (aop, data)"
    and "mr_command req = mem_command_code HPDCACHE_MEM_ATOMIC" and "mr_atomic req = mem_atomic_code aop"
    and "mr_size req = 2" and "unat (mr_addr req) mod 4 = 0"
    and "lane_data req l0 = data" and "lane_be req l0 = push_bit (off div 8) 0x0f"
    and "\<not> within_error_region s (mr_addr req) (mr_addr req + 4)"
    and "mem_array_m (memory_m s) base = Some old"
  shows "\<exists>s' new. writeOperation c req s = Inr s'
     \<and> mem_array_m (memory_m s') = (mem_array_m (memory_m s))(base \<mapsto> new)
     \<and> (ucast (drop_bit off new) :: u32)
          = amo_spec op (ucast (drop_bit off old)) (ucast (drop_bit off st))
     \<and> (\<forall>n. n < off \<or> off + 32 \<le> n \<longrightarrow> bit new n = bit old n)
     \<and> read_resp_fifo s' = read_resp_fifo s @ [\<lparr>rr_error = 0, rr_id = mr_id req,
          rr_data = put_field (l0 * 64) 64 (unat (push_bit off (low_32 (drop_bit off old)))) 0,
          rr_last = True\<rparr>]"
proof -
  have "aop \<noteq> HPDCACHE_MEM_ATOMIC_STEX"
    using assms(5,6) by (cases op) (auto simp: amo_ops_def)
  then have kind: "write_is_amo req"
    using assms(7,8) by (cases aop; simp add: write_is_amo_def)
  have "unat (mr_addr req) mod 8 = 0 \<or> unat (mr_addr req) mod 8 = 4"
    using assms(10) by presburger
  then have off: "off = 0 \<or> off = 32" unfolding off_def by auto
  then have "off \<le> 32" by auto
  from mem_compute_amo_32 [OF assms(5,6) this, of "ucast (drop_bit off old)"]
  obtain r where r: "mem_compute_amo (mem_atomic_code aop) (low_32 (drop_bit off old))
      (low_32 (drop_bit off data)) 4 = Inr r"
    "ucast r = amo_spec op (ucast (drop_bit off old) :: u32) (ucast (drop_bit off st))"
    by (auto simp: low_32_def)
  have "amo_word req old (lane_data req l0)
      = Inr (push_bit off (low_32 (drop_bit off old)), push_bit off r)"
    unfolding amo_word_def Let_def off_def [symmetric] assms(8,9,11)
    using r(1) by (cases "off = 0") simp_all
  note aw = this
  have one: "words_of_size (mr_size req) = 1" using assms(9) by (simp add: words_of_size_def)
  from write_atomic_one_word [OF assms(4) kind one assms(14) [unfolded base_def]
      aw [unfolded l0_def base_def], folded base_def, folded l0_def, unfolded assms(12)]
  obtain m' where m': "write_atomic c req s = Inr (push_read_resp
         \<lparr>rr_error = 0, rr_id = mr_id req,
          rr_data = put_field (l0 * 64) 64 (unat (push_bit off (low_32 (drop_bit off old)))) 0,
          rr_last = True\<rparr> (s\<lparr>memory_m := m'\<rparr>))"
    "mem_array_m m' = (mem_array_m (memory_m s))
       (base \<mapsto> merge_mask old (push_bit off r) (beToMask (push_bit (off div 8) 0x0f)))"
    by blast
  have run: "writeOperation c req s = Inr (write_acknowledge req False (push_read_resp
         \<lparr>rr_error = 0, rr_id = mr_id req,
          rr_data = put_field (l0 * 64) 64 (unat (push_bit off (low_32 (drop_bit off old)))) 0,
          rr_last = True\<rparr> (s\<lparr>memory_m := m'\<rparr>)))"
    by (rule writeOperation_amo [OF assms(4) kind _ m'(1)]) (use assms(9,13) in simp)
  define new where "new = merge_mask old (push_bit off r) (beToMask (push_bit (off div 8) 0x0f))"
  have "(ucast (drop_bit off new) :: u32)
      = amo_spec op (ucast (drop_bit off old)) (ucast (drop_bit off st))"
    unfolding new_def merged_half(1) [OF off] by (rule r(2))
  moreover have "\<forall>n. n < off \<or> off + 32 \<le> n \<longrightarrow> bit new n = bit old n"
    using merged_half(2) [OF off] unfolding new_def by blast
  ultimately show ?thesis
    using run m'(2) [folded new_def]
    by (intro exI conjI) (assumption | simp add: write_acknowledge_def push_write_resp_def push_read_resp_def)+
qed

theorem atomic_word_witness:
  "\<exists>s' new. writeOperation default_cfg
       (mem_req.extend (mem_req_new\<lparr>mr_addr := 64, mr_size := 2, mr_command := 2\<rparr>)
          \<lparr>mw_data = 5, mw_be = 15, mw_last = True\<rparr>) (ex_mem [8 \<mapsto> 77]) = Inr s'
     \<and> mem_array_m (memory_m s') = [8 \<mapsto> new] \<and> (ucast new :: u32) = 82"
proof -
  let ?r = "mem_req.extend (mem_req_new\<lparr>mr_addr := 64, mr_size := 2, mr_command := 2\<rparr>)
          \<lparr>mw_data = 5, mw_be = 15, mw_last = True\<rparr>"
  have g: "get_field 0 64 5 = 5" "get_field 0 8 15 = 15"
    by (simp_all add: get_field_def bv_range_def take_bit_nat_eq_self)
  have p: "mr_addr ?r = 64" "mr_size ?r = 2" "mr_command ?r = 2" "mr_atomic ?r = 0"
    "mw_data ?r = 5" "mw_be ?r = 15"
    by (simp_all add: mem_req.defs mem_req_new_def)
  have "\<exists>s' new. writeOperation default_cfg ?r (ex_mem [8 \<mapsto> 77]) = Inr s'
     \<and> mem_array_m (memory_m s') = (mem_array_m (memory_m (ex_mem [8 \<mapsto> 77])))
          (drop_bit 3 (mr_addr ?r) \<mapsto> new)
     \<and> (ucast (drop_bit (unat (mr_addr ?r) mod 8 * 8) new) :: u32)
          = amo_spec HPDCACHE_REQ_AMO_ADD (ucast (drop_bit (unat (mr_addr ?r) mod 8 * 8) (77 :: u64)))
              (ucast (drop_bit (unat (mr_addr ?r) mod 8 * 8) (5 :: u64)))"
    using atomic_word [OF ex_mem_fields(1), of HPDCACHE_REQ_AMO_ADD 5 HPDCACHE_MEM_ATOMIC_ADD 5 ?r
        "[8 \<mapsto> 77]" 77]
    unfolding p by (simp add: p amo_ops_def ex_mem_fields lane_data_def lane_be_def g
        bv_to_uint64_def within_error_region_def) blast
  then show ?thesis by (auto simp: p ex_mem_fields)
qed

text \<open>
  C23: store-exclusive. It succeeds exactly if the reservation of its identifier is valid and
  overlaps the bytes it accesses; the acknowledgement says so. Whatever the outcome, the
  reservation is consumed and those of the other identifiers are kept; on failure the
  memory is untouched, on success the enabled bytes are written.
\<close>

theorem store_exclusive:
  fixes req :: mem_write_req and c :: cfg
  defines "base \<equiv> drop_bit 3 (mr_addr req)"
  defines "l0 \<equiv> unat base mod MEM_NOC_DATA_WORDS c"
  defines "end_addr \<equiv> mr_addr req + word_of_nat (push_bit (unat (mr_size req)) 1)"
  assumes "wf_mem_resp c s" and "mr_is_stex req" and "unat (mr_id req) < length (excl_buf_m s)"
    and "unat (mr_size req) < 8" and "l0 + words_of_size (mr_size req) \<le> MEM_NOC_DATA_WORDS c"
    and "\<not> within_error_region s (mr_addr req) end_addr"
  defines "e \<equiv> excl_buf_m s ! unat (mr_id req)"
  defines "ok \<equiv> ex_valid e \<and> ex_base_addr e < end_addr \<and> mr_addr req < ex_end_addr e"
  shows "\<exists>m'. writeOperation c req s = Inr (s\<lparr>
         excl_buf_m := (excl_buf_m s)[unat (mr_id req) := e\<lparr>ex_valid := False\<rparr>], memory_m := m',
         write_resp_fifo := write_resp_fifo s @ [\<lparr>wr_is_atomic = ok, wr_error = 0, wr_id = mr_id req\<rparr>]\<rparr>)
     \<and> (if ok then merged (mem_array_m (memory_m s)) (mem_array_m m') base
                   (words_of_size (mr_size req)) (\<lambda>w. lane_data req (l0 + w)) (\<lambda>w. lane_be req (l0 + w))
        else m' = memory_m s)"
proof -
  let ?s = "s\<lparr>excl_buf_m := (excl_buf_m s)[unat (mr_id req) := e\<lparr>ex_valid := False\<rparr>]\<rparr>"
  have kind: "\<not> write_is_amo req"
    using assms(5) by (simp add: write_is_amo_def mr_is_stex_def)
  have take: "take_exclusive req end_addr s = Inr (ok, ?s)"
  proof (cases "ex_valid e")
    case True
    then show ?thesis
      using assms(5,6) by (simp add: take_exclusive_def Let_def within_region_iff ok_def e_def)
  next
    case False
    then have "e\<lparr>ex_valid := False\<rparr> = e" by simp
    then have "(excl_buf_m s)[unat (mr_id req) := e\<lparr>ex_valid := False\<rparr>] = excl_buf_m s"
      by (simp add: e_def)
    with False show ?thesis
      using assms(5,6) by (simp add: take_exclusive_def Let_def ok_def e_def)
  qed
  have "unat base < 2 ^ 61"
    using unat_u64_less [of "mr_addr req"] by (simp add: base_def unat_drop_bit_u64)
  then have "unat base + words_of_size (mr_size req) \<le> 2 ^ 64"
    using words_of_size_le(2) [OF assms(7)] by simp
  from write_words_spec [of req c, folded base_def l0_def, OF assms(8) _ this]
  obtain m1 where m1: "write_words c req 0 (memory_m s) = Inr m1"
    "merged (mem_array_m (memory_m s)) (mem_array_m m1) base (words_of_size (mr_size req))
          (\<lambda>w. lane_data req (l0 + w)) (\<lambda>w. lane_be req (l0 + w))"
    using assms(4) kind by (auto simp: wf_mem_resp_def write_words_def)
  define m' where "m' = (if ok then m1 else memory_m s)"
  have "writeOperation c req s = Inr (write_acknowledge req ok (?s\<lparr>memory_m := m'\<rparr>))"
    unfolding writeOperation_def Let_def end_addr_def [symmetric]
    using assms(5,9) kind take m1(1) MEM_NOC_DATA_WORDS_pos [OF assms(4)] by (simp add: m'_def)
  then show ?thesis
    using m1(2) assms(5)
    by (intro exI [of _ m']) (simp add: write_acknowledge_def push_write_resp_def m'_def)
qed

theorem store_exclusive_witness:
  "\<exists>s'. writeOperation default_cfg
       (mem_req.extend (mem_req_new\<lparr>mr_addr := 64, mr_size := 3, mr_command := 2, mr_atomic := 0xd\<rparr>)
          \<lparr>mw_data = 5, mw_be = 255, mw_last = True\<rparr>) (ex_mem [8 \<mapsto> 77]) = Inr s'
     \<and> memory_m s' = memory_m (ex_mem [8 \<mapsto> 77])
     \<and> write_resp_fifo s' = [\<lparr>wr_is_atomic = False, wr_error = 0, wr_id = 0\<rparr>]"
proof -
  let ?r = "mem_req.extend (mem_req_new\<lparr>mr_addr := 64, mr_size := 3, mr_command := 2, mr_atomic := 0xd\<rparr>)
          \<lparr>mw_data = 5, mw_be = 255, mw_last = True\<rparr>"
  have e: "excl_buf_m (ex_mem [8 \<mapsto> 77]) ! 0 = \<lparr>ex_valid = False, ex_base_addr = 0, ex_end_addr = 0\<rparr>"
    "write_resp_fifo (ex_mem [8 \<mapsto> 77]) = []"
    by (simp_all add: ex_mem_def mem_resp_new_def default_cfg_def)
  from store_exclusive [OF ex_mem_fields(1) [of "[8 \<mapsto> 77]"], of ?r] show ?thesis
    by (simp add: ex_mem_fields e within_error_region_def mem_req_new_def mem_req.defs words_of_size_def
        mr_is_stex_def)
qed

text \<open>
  a write into an error segment touches neither memory nor reservations and is
  acknowledged with the error flag; an atomic operation there also answers on the read
  channel, but that answer carries no error.
\<close>

theorem write_in_error_segment:
  assumes "within_error_region s (mr_addr req)
       (mr_addr req + word_of_nat (push_bit (unat (mr_size req)) 1))"
  shows "writeOperation c req s = Inr (s\<lparr>
       read_resp_fifo := read_resp_fifo s
         @ (if mr_command req = mem_command_code HPDCACHE_MEM_ATOMIC
                \<and> mr_atomic req \<noteq> mem_atomic_code HPDCACHE_MEM_ATOMIC_STEX
            then [\<lparr>rr_error = 0, rr_id = mr_id req, rr_data = 0, rr_last = True\<rparr>] else []),
       write_resp_fifo := write_resp_fifo s
         @ [\<lparr>wr_is_atomic = False, wr_error = 1, wr_id = mr_id req\<rparr>]\<rparr>)"
  using assms
  by (simp add: writeOperation_def Let_def write_error_def write_is_amo_def push_read_resp_def
      push_write_resp_def)

theorem write_in_error_segment_witness:
  "writeOperation default_cfg
     (mem_req.extend (mem_req_new\<lparr>mr_addr := 64, mr_size := 3, mr_command := 2\<rparr>)
        \<lparr>mw_data = 5, mw_be = 255, mw_last = True\<rparr>)
     (add_error_segment \<lparr>sg_base_addr = 0, sg_end_addr = 4096, sg_error = True\<rparr> (ex_mem Map.empty))
   = Inr ((add_error_segment \<lparr>sg_base_addr = 0, sg_end_addr = 4096, sg_error = True\<rparr> (ex_mem Map.empty))\<lparr>
       read_resp_fifo := [\<lparr>rr_error = 0, rr_id = 0, rr_data = 0, rr_last = True\<rparr>],
       write_resp_fifo := [\<lparr>wr_is_atomic = False, wr_error = 1, wr_id = 0\<rparr>]\<rparr>)"
  by (subst write_in_error_segment)
    (simp_all add: within_error_region_def add_error_segment_def within_region_def ex_mem_def
      mem_resp_new_def mem_req.defs mem_req_new_def)

text \<open>
  the memory sees 32 bits of address only: a request is served at its address modulo 4 GiB,
  so two addresses that differ above bit 31 are the same location.
\<close>

theorem memory_address_truncated:
  "unat (mr_addr (mem_req_of_ports p)) = port_addr p mod 2 ^ 32
     \<and> readOperation c (p\<lparr>port_addr := port_addr p + k * 2 ^ 32\<rparr>) s = readOperation c p s"
proof -
  have "mr_addr (mem_req_of_ports (p\<lparr>port_addr := port_addr p + k * 2 ^ 32\<rparr>)) = mr_addr (mem_req_of_ports p)"
    by (rule word_unat_eq_iff [THEN iffD2]) (simp add: unat_mr_addr)
  then have "mem_req_of_ports (p\<lparr>port_addr := port_addr p + k * 2 ^ 32\<rparr>) = mem_req_of_ports p"
    by (simp add: mem_req_of_ports_def)
  then show ?thesis using unat_mr_addr by (simp add: readOperation_def)
qed

end
