(* ===== verification/Sequences.thy ===== *)
theory Sequences
  imports Driver Sequence_Base Trace Mem_Resp
begin

text \<open>
  \<open>rtl/tb/sequence_lib/\<close>: the test sequences, which make up the requests that the driver sends.
  A randomised value of the SCV library is an argument, the draws of a transaction are the
  record \<open>choice\<close>, and the distributions say which draws are possible. While a sequence waits
  for an identifier the scoreboard gives identifiers back: \<open>ch_acks\<close> is the list of those it
  gives back, which may depend on those in use; when none becomes free the run is \<open>None\<close>.
  Clock cycles (\<open>wait\<close>, the delays between two transactions and those of the memory) are not
  modelled.
\<close>

section \<open>Distributions\<close>

type_synonym 'a bag = "('a \<times> nat) list"

definition drawn :: "'a bag \<Rightarrow> 'a \<Rightarrow> bool" where
  "drawn bag x \<longleftrightarrow> list_ex (\<lambda>(y, w). y = x \<and> 0 < w) bag"

definition drawn_between :: "(nat \<times> nat) bag \<Rightarrow> nat \<Rightarrow> bool" where
  "drawn_between bag x \<longleftrightarrow> list_ex (\<lambda>((lo, hi), w). lo \<le> x \<and> x \<le> hi \<and> 0 < w) bag"

record build_options =
  TEST_FAULT_INJ :: bool
  TEST_FAULT_INJ_DIR :: bool
  TEST_DOUBLE_FAULT_INJ :: bool

text \<open>What the constructor of a sequence sets up.\<close>

record seq_params =
  su_segs :: "memory_segment list"
  seg_distribution :: "nat bag"
  delay_distribution :: "(nat \<times> nat) bag"
  amo_sc_do_distribution :: "bool bag"
  wr_policy_distribution :: "hpdcache_wr_policy_hint_e bag"
  op_distribution :: "hpdcache_req_op_e bag"
  op_amo_distribution :: "hpdcache_req_op_e bag"
  need_rsp_distribution :: "bool bag"
  size_range :: "nat \<times> nat"
  fault_inj_distribution :: "bool bag"
  fault_inj_domain_distribution :: "domain_e bag"
  fault_inj_double_distribution :: "bool bag"
  fault_inj_way_distribution :: "(nat \<times> nat) bag"

text \<open>The draws for one transaction; \<open>ch_rand\<close> is what \<open>rand()\<close> returns in \<open>allocate_id\<close>.\<close>

record choice =
  ch_acks :: "nat list \<Rightarrow> nat list"
  ch_rand :: nat
  ch_seg :: nat
  ch_addr :: u64
  ch_op :: hpdcache_req_op_e
  ch_op_amo :: hpdcache_req_op_e
  ch_wdata :: nat
  ch_wr_policy :: hpdcache_wr_policy_hint_e
  ch_size :: nat
  ch_need_rsp :: bool
  ch_fault :: bool
  ch_fault_way :: nat
  ch_fault_domain :: domain_e
  ch_fault_double :: bool

definition possible :: "seq_params \<Rightarrow> choice \<Rightarrow> bool" where
  "possible su ch \<longleftrightarrow> drawn (seg_distribution su) (ch_seg ch) \<and> drawn (op_distribution su) (ch_op ch)
     \<and> drawn (op_amo_distribution su) (ch_op_amo ch) \<and> drawn (wr_policy_distribution su) (ch_wr_policy ch)
     \<and> fst (size_range su) \<le> ch_size ch \<and> ch_size ch \<le> snd (size_range su)
     \<and> drawn (need_rsp_distribution su) (ch_need_rsp ch)
     \<and> drawn (fault_inj_distribution su) (ch_fault ch)
     \<and> drawn_between (fault_inj_way_distribution su) (ch_fault_way ch)
     \<and> drawn (fault_inj_domain_distribution su) (ch_fault_domain ch)
     \<and> drawn (fault_inj_double_distribution su) (ch_fault_double ch)"

definition REQ_DATA_BYTES :: "cfg \<Rightarrow> nat" where
  "REQ_DATA_BYTES c = HPDCACHE_REQ_DATA_WIDTH c div 8"

definition LOG2_REQ_DATA_BYTES :: "cfg \<Rightarrow> nat" where
  "LOG2_REQ_DATA_BYTES c = HPDCACHE_TEST_DEFS_LOG2 (REQ_DATA_BYTES c)"

definition make_segment :: "cfg \<Rightarrow> u64 \<Rightarrow> u64 \<Rightarrow> bool \<Rightarrow> memory_segment \<Rightarrow> memory_segment" where
  "make_segment c base len unc s = set_uncached unc (set_length c len (set_base c base s))"

section \<open>The constructors of the random sequences\<close>

definition random_segments :: "cfg \<Rightarrow> bool \<Rightarrow> memory_segment list" where
  "random_segments c amo_support =
     [set_wr_policy_hint WR_POLICY_RANDOM (set_amo_supported amo_support
        (make_segment c 0x00000000 0x00004000 False memory_segment_new)),
      set_wr_policy_hint WR_POLICY_WB (set_amo_supported amo_support
        (make_segment c 0x40004000 0x00004000 False memory_segment_new)),
      set_wr_policy_hint WR_POLICY_WT (set_amo_supported amo_support
        (make_segment c 0x80008000 0x00004000 False memory_segment_new)),
      set_wr_policy_hint WR_POLICY_AUTO (set_amo_supported amo_support
        (make_segment c 0xC000C000 0x00004000 True memory_segment_new))]"

definition random_op_distribution :: "hpdcache_req_op_e bag" where
  "random_op_distribution =
     [(HPDCACHE_REQ_LOAD, 400), (HPDCACHE_REQ_STORE, 350), (HPDCACHE_REQ_CMO_FENCE, 10),
      (HPDCACHE_REQ_CMO_PREFETCH, 10), (HPDCACHE_REQ_CMO_FLUSH_NLINE, 10),
      (HPDCACHE_REQ_CMO_FLUSH_ALL, 1), (HPDCACHE_REQ_CMO_FLUSH_INVAL_NLINE, 10),
      (HPDCACHE_REQ_CMO_FLUSH_INVAL_ALL, 1)]"

text \<open>The two sequences differ in the weights of loads and stores.\<close>

definition amo_op_weights :: "hpdcache_req_op_e bag" where
  "amo_op_weights =
     [(HPDCACHE_REQ_CMO_FENCE, 10), (HPDCACHE_REQ_CMO_PREFETCH, 10),
      (HPDCACHE_REQ_CMO_FLUSH_NLINE, 10), (HPDCACHE_REQ_CMO_FLUSH_ALL, 1),
      (HPDCACHE_REQ_CMO_FLUSH_INVAL_NLINE, 10), (HPDCACHE_REQ_CMO_FLUSH_INVAL_ALL, 1),
      (HPDCACHE_REQ_AMO_LR, 4), (HPDCACHE_REQ_AMO_SC, 4), (HPDCACHE_REQ_AMO_SWAP, 4),
      (HPDCACHE_REQ_AMO_ADD, 4), (HPDCACHE_REQ_AMO_AND, 4), (HPDCACHE_REQ_AMO_OR, 4),
      (HPDCACHE_REQ_AMO_XOR, 4), (HPDCACHE_REQ_AMO_MAX, 4), (HPDCACHE_REQ_AMO_MAXU, 4),
      (HPDCACHE_REQ_AMO_MIN, 4), (HPDCACHE_REQ_AMO_MINU, 4)]"

definition random_op_amo_distribution :: "hpdcache_req_op_e bag" where
  "random_op_amo_distribution = (HPDCACHE_REQ_LOAD, 800) # (HPDCACHE_REQ_STORE, 600) # amo_op_weights"

definition unique_set_op_amo_distribution :: "hpdcache_req_op_e bag" where
  "unique_set_op_amo_distribution = (HPDCACHE_REQ_LOAD, 400) # (HPDCACHE_REQ_STORE, 350) # amo_op_weights"

definition random_params :: "cfg \<Rightarrow> build_options \<Rightarrow> seq_params" where
  "random_params c b =
     \<lparr>su_segs = random_segments c True,
      seg_distribution = [(0, 33), (1, 33), (2, 33), (3, 1)],
      delay_distribution = [((0, 0), 80), ((1, 4), 18), ((5, 20), 2)],
      amo_sc_do_distribution = [(False, 25), (True, 75)],
      wr_policy_distribution = [(HPDCACHE_WR_POLICY_AUTO, 80), (HPDCACHE_WR_POLICY_WB, 10),
        (HPDCACHE_WR_POLICY_WT, 10)],
      op_distribution = random_op_distribution,
      op_amo_distribution = random_op_amo_distribution,
      need_rsp_distribution = [(False, 5), (True, 95)],
      size_range = (0, LOG2_REQ_DATA_BYTES c),
      fault_inj_distribution = (False, 99) # (if TEST_FAULT_INJ b then [(True, 1)] else []),
      fault_inj_domain_distribution =
        (if TEST_FAULT_INJ_DIR b then [(CACHE_DIR, 20)] else []) @ [(CACHE_DAT, 80)],
      fault_inj_double_distribution =
        (False, 95) # (if TEST_DOUBLE_FAULT_INJ b then [(True, 5)] else []),
      fault_inj_way_distribution = [((0, HPDCACHE_WAYS c - 1), 100)]\<rparr>"

text \<open>
  The segments of the sequence on one set, as coded: the two settings meant for segment 2 are
  applied to segment 3, which sets them again.
\<close>

definition unique_set_segments :: "cfg \<Rightarrow> memory_segment list" where
  "unique_set_segments c =
     [set_wr_policy_hint WR_POLICY_RANDOM (set_amo_supported True
        (make_segment c 0x00000000 0x00004000 False memory_segment_new)),
      set_wr_policy_hint WR_POLICY_WB (set_amo_supported True
        (make_segment c 0x40004000 0x00004000 False memory_segment_new)),
      make_segment c 0x80008000 0x00004000 False memory_segment_new,
      set_wr_policy_hint WR_POLICY_AUTO (set_amo_supported True
        (make_segment c 0xC000C000 0x00004000 False
          (set_wr_policy_hint WR_POLICY_WT (set_amo_supported True memory_segment_new))))]"

text \<open>This sequence draws no fault.\<close>

definition unique_set_params :: "cfg \<Rightarrow> seq_params" where
  "unique_set_params c =
     \<lparr>su_segs = unique_set_segments c,
      seg_distribution = [(0, 100 div 4), (1, 100 div 4), (2, 100 div 4), (3, 100 div 4)],
      delay_distribution = [((0, 0), 80), ((1, 4), 18), ((5, 20), 2)],
      amo_sc_do_distribution = [(False, 25), (True, 75)],
      wr_policy_distribution = [(HPDCACHE_WR_POLICY_AUTO, 80), (HPDCACHE_WR_POLICY_WB, 10),
        (HPDCACHE_WR_POLICY_WT, 10)],
      op_distribution = random_op_distribution,
      op_amo_distribution = unique_set_op_amo_distribution,
      need_rsp_distribution = [(False, 5), (True, 95)],
      size_range = (0, LOG2_REQ_DATA_BYTES c),
      fault_inj_distribution = [(False, 1)], fault_inj_domain_distribution = [(CACHE_DAT, 1)],
      fault_inj_double_distribution = [(False, 1)], fault_inj_way_distribution = [((0, 0), 1)]\<rparr>"

section \<open>Requests\<close>

definition create_random_size :: "bool \<Rightarrow> nat \<Rightarrow> nat" where
  "create_random_size amo ret = (if amo then if ret \<ge> 3 then 3 else 2 else ret)"

definition select_random_wr_policy ::
  "wr_policy_e \<Rightarrow> hpdcache_wr_policy_hint_e \<Rightarrow> hpdcache_wr_policy_hint_e" where
  "select_random_wr_policy hint rnd =
     (if hint = WR_POLICY_RANDOM then rnd
      else if hint = WR_POLICY_WB then HPDCACHE_WR_POLICY_WB
      else if hint = WR_POLICY_WT then HPDCACHE_WR_POLICY_WT
      else HPDCACHE_WR_POLICY_AUTO)"

text \<open>\<open>((base + (addr % length)) / bytes) * bytes\<close>\<close>

definition segment_address :: "memory_segment \<Rightarrow> u64 \<Rightarrow> u64 \<Rightarrow> u64 outcome" where
  "segment_address seg addr bytes =
     (if get_length seg = 0 then Inl Undefined_behaviour
      else Inr (((get_base seg + (addr mod get_length seg)) div bytes) * bytes))"

text \<open>\<open>((1UL << bytes) - 1) << offset\<close>, assigned to the byte enables.\<close>

definition request_be :: "cfg \<Rightarrow> nat \<Rightarrow> nat \<Rightarrow> nat outcome" where
  "request_be c bytes offset =
     (if 64 \<le> bytes \<or> 64 \<le> offset then Inl Undefined_behaviour
      else Inr (bv (REQ_DATA_BYTES c) (unat (push_bit offset (push_bit bytes (1 :: u64) - 1)))))"

definition req_is_amo :: "req \<Rightarrow> bool" where
  "req_is_amo t \<longleftrightarrow> is_amo t \<or> is_amo_sc t \<or> is_amo_lr t"

text \<open>The fields that give the bytes of an access of \<open>2 ^ sz\<close> bytes at an address.\<close>

definition set_access :: "cfg \<Rightarrow> u64 \<Rightarrow> nat \<Rightarrow> bool \<Rightarrow> bool \<Rightarrow> req \<Rightarrow> req outcome" where
  "set_access c address sz unc need t =
     andthen (request_be c (push_bit sz 1) (unat address mod REQ_DATA_BYTES c)) (\<lambda>be.
       Inr (t\<lparr>req_addr := bv (HPDCACHE_PA_WIDTH c) (unat address), req_be := be,
              req_size := bv HPDCACHE_REQ_SIZE_WIDTH sz, req_uncacheable := unc, req_need_rsp := need\<rparr>))"

text \<open>The part of \<open>create_random_transaction\<close> that selects operation, data and policy.\<close>

definition random_head :: "cfg \<Rightarrow> memory_segment \<Rightarrow> choice \<Rightarrow> nat \<Rightarrow> req \<Rightarrow> req" where
  "random_head c seg ch tid t =
     t\<lparr>req_op := op_code (if seg_amo_supported seg then ch_op_amo ch else ch_op ch),
       req_wdata := bv (HPDCACHE_REQ_DATA_WIDTH c) (ch_wdata ch), req_sid := 0,
       req_tid := bv (HPDCACHE_REQ_TRANS_ID_WIDTH c) tid, req_abort := False,
       req_phys_indexed := False,
       req_wr_policy_hint := select_random_wr_policy (seg_wr_policy_hint seg) (ch_wr_policy ch)\<rparr>"

definition set_cmo :: "cfg \<Rightarrow> u64 \<Rightarrow> bool \<Rightarrow> req \<Rightarrow> req" where
  "set_cmo c address need t =
     t\<lparr>req_addr := bv (HPDCACHE_PA_WIDTH c) (unat address), req_be := 0, req_size := 0,
       req_uncacheable := False, req_need_rsp := need\<rparr>"

definition random_fault :: "cfg \<Rightarrow> choice \<Rightarrow> req \<Rightarrow> req" where
  "random_fault c ch t =
     (if ch_fault ch then
        t\<lparr>req_fault := (req_fault t)\<lparr>fault_valid := True, fault_set := uint (get_cache_set c t),
            fault_way := int (ch_fault_way ch), fault_word := uint (get_cache_word c t),
            fault_domain := ch_fault_domain ch,
            fault_mask := (if ch_fault_double ch then 0xA0 else 0x20)\<rparr>\<rparr>
      else t)"

definition random_request :: "cfg \<Rightarrow> seq_params \<Rightarrow> choice \<Rightarrow> nat \<Rightarrow> req \<Rightarrow> req outcome" where
  "random_request c su ch tid t =
     (if \<not> ch_seg ch < length (su_segs su) then Inl Undefined_behaviour
      else
        (let seg = su_segs su ! ch_seg ch;
             t = random_head c seg ch tid t;
             sz = create_random_size (req_is_amo t) (ch_size ch)
         in andthen (segment_address seg (ch_addr ch) (word_of_nat (push_bit sz 1))) (\<lambda>address.
            andthen
              (if is_cmo t then Inr (set_cmo c address (ch_need_rsp ch) t)
               else set_access c address sz (seg_uncached seg) (req_is_amo t \<or> ch_need_rsp ch) t)
              (\<lambda>t. Inr (random_fault c ch t)))))"

text \<open>\<open>create_random_addr\<close> of the sequence on one set: the set's bits of the address are replaced.\<close>

definition create_random_addr :: "cfg \<Rightarrow> nat \<Rightarrow> memory_segment \<Rightarrow> u64 \<Rightarrow> u64 \<Rightarrow> u64 outcome" where
  "create_random_addr c st seg addr bytes =
     (let set_mask = push_bit (HPDCACHE_CL_OFFSET_WIDTH c) (push_bit (HPDCACHE_SET_WIDTH c) 1 - 1)
      in andthen (segment_address seg addr bytes) (\<lambda>address.
           Inr ((address AND NOT set_mask) OR push_bit (HPDCACHE_CL_OFFSET_WIDTH c) (word_of_nat st))))"

definition unique_set_request ::
  "cfg \<Rightarrow> seq_params \<Rightarrow> nat \<Rightarrow> choice \<Rightarrow> nat \<Rightarrow> req \<Rightarrow> req outcome" where
  "unique_set_request c su st ch tid t =
     (if \<not> ch_seg ch < length (su_segs su) then Inl Undefined_behaviour
      else
        (let seg = su_segs su ! ch_seg ch;
             t = random_head c seg ch tid t;
             sz = create_random_size (req_is_amo t) (ch_size ch);
             need = req_is_amo t \<or> ch_need_rsp ch
         in andthen (create_random_addr c st seg (ch_addr ch) (word_of_nat (push_bit sz 1))) (\<lambda>address.
              if is_cmo t then Inr (set_cmo c address need t)
              else set_access c address sz (seg_uncached seg) need t)))"

text \<open>\<open>create_sc_transaction (prev_lr.req_addr, prev_lr.req_uncacheable)\<close>, the same in both.\<close>

definition sc_request :: "cfg \<Rightarrow> req \<Rightarrow> choice \<Rightarrow> nat \<Rightarrow> req \<Rightarrow> req outcome" where
  "sc_request c prev_lr ch tid t =
     (let sz = create_random_size True (ch_size ch);
          bytes = word_of_nat (push_bit sz 1);
          address = (bv_to_uint64 (req_addr prev_lr) div bytes) * bytes
      in set_access c address sz (req_uncacheable prev_lr) True
           (t\<lparr>req_op := op_code HPDCACHE_REQ_AMO_SC,
              req_wdata := bv (HPDCACHE_REQ_DATA_WIDTH c) (ch_wdata ch), req_sid := 0,
              req_tid := bv (HPDCACHE_REQ_TRANS_ID_WIDTH c) tid\<rparr>))"

text \<open>The sequences of loads and of stores: one segment, sizes from 0 to 3, always a response.\<close>

definition read_segment :: "cfg \<Rightarrow> memory_segment" where
  "read_segment c = make_segment c 0x00000000 0x00080000 False memory_segment_new"

definition write_segment :: "cfg \<Rightarrow> memory_segment" where
  "write_segment c = make_segment c 0x00000000 0x00004000 False memory_segment_new"

definition fixed_size_range :: "bool \<Rightarrow> nat \<times> nat" where
  "fixed_size_range amo = (if \<not> amo then (0, 3) else (2, 3))"

definition read_request :: "cfg \<Rightarrow> choice \<Rightarrow> nat \<Rightarrow> req \<Rightarrow> req outcome" where
  "read_request c ch tid t =
     (let t = t\<lparr>req_op := op_code HPDCACHE_REQ_LOAD, req_wdata := 0, req_sid := 0,
                req_tid := bv (HPDCACHE_REQ_TRANS_ID_WIDTH c) tid, req_abort := False,
                req_phys_indexed := False\<rparr>;
          sz = ch_size ch
      in andthen (segment_address (read_segment c) (ch_addr ch) (word_of_nat (push_bit sz 1)))
           (\<lambda>address. set_access c address sz (seg_uncached (read_segment c)) True t))"

definition write_request :: "cfg \<Rightarrow> choice \<Rightarrow> nat \<Rightarrow> req \<Rightarrow> req outcome" where
  "write_request c ch tid t =
     (let t = t\<lparr>req_op := op_code HPDCACHE_REQ_STORE,
                req_wdata := bv (HPDCACHE_REQ_DATA_WIDTH c) (ch_wdata ch), req_sid := 0,
                req_tid := bv (HPDCACHE_REQ_TRANS_ID_WIDTH c) tid, req_abort := False,
                req_phys_indexed := False\<rparr>;
          sz = ch_size ch
      in andthen (segment_address (write_segment c) (ch_addr ch) (word_of_nat (push_bit sz 1)))
           (\<lambda>address. set_access c address sz (seg_uncached (write_segment c)) True t))"

section \<open>Sending\<close>

primrec run_fold :: "('i \<Rightarrow> 's \<Rightarrow> 's run) \<Rightarrow> 'i list \<Rightarrow> 's \<Rightarrow> 's run" where
  "run_fold f [] s = returns s"
| "run_fold f (i # is) s = continue (f i s) (run_fold f is)"

definition write_object :: "nat \<Rightarrow> req \<Rightarrow> seq_state \<Rightarrow> seq_state" where
  "write_object t r s =
     s\<lparr>transaction_pool := (transaction_pool s)\<lparr>heap := (heap (transaction_pool s))[t := r]\<rparr>\<rparr>"

text \<open>The identifiers given back while the sequence waits for one.\<close>

definition acknowledge :: "(nat list \<Rightarrow> nat list) \<Rightarrow> seq_state \<Rightarrow> seq_state" where
  "acknowledge acks s = foldl (\<lambda>s i. fst (deallocate_id i s)) s (acks (ids s))"

text \<open>
  Waiting for an identifier, acquiring an object, allocating the identifier and building the
  request in the object with \<open>build\<close>.
\<close>

definition create_transaction ::
  "cfg \<Rightarrow> (nat \<Rightarrow> req \<Rightarrow> req outcome) \<Rightarrow> choice \<Rightarrow> seq_state \<Rightarrow> (nat \<times> seq_state) run" where
  "create_transaction c build ch s =
     (let s = acknowledge (ch_acks ch) s
      in if \<not> is_available_id c s then None
         else case acquire_transaction (transaction_pool s) of
                Inl f \<Rightarrow> faults f
              | Inr (t, p) \<Rightarrow>
                  continue (allocate_id c (ch_rand ch) (s\<lparr>transaction_pool := p\<rparr>)) (\<lambda>(i, s).
                    case build i (heap (transaction_pool s) ! t) of
                      Inl f \<Rightarrow> faults f
                    | Inr r \<Rightarrow> returns (t, write_object t r s)))"

definition send_new ::
  "cfg \<Rightarrow> (nat \<Rightarrow> req \<Rightarrow> req outcome) \<Rightarrow> choice \<Rightarrow> seq_state \<Rightarrow> (req \<times> seq_state) run" where
  "send_new c build ch s =
     continue (create_transaction c build ch s) (\<lambda>(t, s).
       returns (heap (transaction_pool s) ! t, send_transaction t s))"

text \<open>
  One round of the loop of the random sequences: after a load-reserved the sequence may send
  \<open>k\<close> transactions and then a store-conditional.
\<close>

record round =
  rd_main :: choice
  rd_sc_do :: bool
  rd_between :: "nat \<Rightarrow> choice"
  rd_sc :: choice

definition random_round ::
  "cfg \<Rightarrow> (choice \<Rightarrow> nat \<Rightarrow> req \<Rightarrow> req outcome) \<Rightarrow> nat \<Rightarrow> round \<Rightarrow> seq_state \<Rightarrow> seq_state run" where
  "random_round c mk k rd s =
     continue (send_new c (mk (rd_main rd)) (rd_main rd) s) (\<lambda>(prev_lr, s).
       if is_amo_lr prev_lr \<and> rd_sc_do rd then
         continue
           (run_fold (\<lambda>i s. continue (send_new c (mk (rd_between rd i)) (rd_between rd i) s)
              (\<lambda>(r, s). returns s)) [0..<k] s)
           (\<lambda>s. continue (send_new c (sc_request c prev_lr (rd_sc rd)) (rd_sc rd) s)
                 (\<lambda>(r, s). returns s))
       else returns s)"

definition random_run ::
  "cfg \<Rightarrow> build_options \<Rightarrow> nat \<Rightarrow> (nat \<Rightarrow> round) \<Rightarrow> seq_state \<Rightarrow> seq_state run" where
  "random_run c b k rds s =
     run_fold (\<lambda>n. random_round c (random_request c (random_params c b)) k (rds n))
       [0..<max_transactions s] s"

text \<open>\<open>r\<close> is what \<open>rand()\<close> returns when the set is chosen.\<close>

definition unique_set_run ::
  "cfg \<Rightarrow> nat \<Rightarrow> nat \<Rightarrow> (nat \<Rightarrow> round) \<Rightarrow> seq_state \<Rightarrow> seq_state run" where
  "unique_set_run c r k rds s =
     (let st = r mod HPDCACHE_SETS c
      in run_fold (\<lambda>n. random_round c (unique_set_request c (unique_set_params c) st) k (rds n))
           [0..<max_transactions s] s)"

definition read_run :: "cfg \<Rightarrow> (nat \<Rightarrow> choice) \<Rightarrow> seq_state \<Rightarrow> seq_state run" where
  "read_run c chs s =
     run_fold (\<lambda>n s. continue (send_new c (read_request c (chs n)) (chs n) s) (\<lambda>(r, s). returns s))
       [0..<max_transactions s] s"

definition write_run :: "cfg \<Rightarrow> (nat \<Rightarrow> choice) \<Rightarrow> seq_state \<Rightarrow> seq_state run" where
  "write_run c chs s =
     run_fold (\<lambda>n s. continue (send_new c (write_request c (chs n)) (chs n) s) (\<lambda>(r, s). returns s))
       [0..<max_transactions s] s"

text \<open>The error segments that the random sequence gives to the memory model.\<close>

definition random_error_segments :: "segment list" where
  "random_error_segments =
     [\<lparr>sg_base_addr = 0x00000000, sg_end_addr = 0x00000200, sg_error = True\<rparr>,
      \<lparr>sg_base_addr = 0x40004000, sg_end_addr = 0x40004200, sg_error = True\<rparr>,
      \<lparr>sg_base_addr = 0xC000C000, sg_end_addr = 0xC000C200, sg_error = True\<rparr>]"

definition random_prepare :: "mem_resp \<Rightarrow> mem_resp" where
  "random_prepare m = foldl (\<lambda>m sg. add_error_segment sg m) m random_error_segments"

section \<open>The sequence from a trace\<close>

text \<open>
  \<open>rest\<close> counts down the transactions that are still allowed; \<open>junk\<close> is the memory behind the
  size byte of each transaction.
\<close>

primrec from_trace_loop ::
  "cfg \<Rightarrow> 'z inflate \<Rightarrow> 'z \<Rightarrow> (nat \<Rightarrow> nat list \<Rightarrow> nat list) \<Rightarrow> (nat \<Rightarrow> nat) \<Rightarrow> (nat \<Rightarrow> u32)
     \<Rightarrow> nat \<Rightarrow> 'z trace_reader \<Rightarrow> seq_state \<Rightarrow> ('z trace_reader \<times> seq_state) run" where
  "from_trace_loop c inflate z0 acks rnd junk 0 r s = returns (r, s)"
| "from_trace_loop c inflate z0 acks rnd junk (Suc rest) r s =
     (if is_finish r then returns (r, s)
      else
        (let s = acknowledge (acks rest) s
         in if \<not> is_available_id c s then None
            else case acquire_transaction (transaction_pool s) of
                   Inl f \<Rightarrow> faults f
                 | Inr (t, p) \<Rightarrow>
                     continue (allocate_id c (rnd rest) (s\<lparr>transaction_pool := p\<rparr>)) (\<lambda>(i, s).
                     continue (read_transaction c inflate z0 (junk rest)
                         ((heap (transaction_pool s) ! t)
                            \<lparr>req_tid := bv (HPDCACHE_REQ_TRANS_ID_WIDTH c) i\<rparr>) r)
                       (\<lambda>((delay, q), r). from_trace_loop c inflate z0 acks rnd junk rest r
                          (send_transaction t (write_object t q s))))))"

definition from_trace_run ::
  "cfg \<Rightarrow> 'z inflate \<Rightarrow> 'z \<Rightarrow> (nat \<Rightarrow> nat list \<Rightarrow> nat list) \<Rightarrow> (nat \<Rightarrow> nat) \<Rightarrow> (nat \<Rightarrow> u32)
     \<Rightarrow> 'z trace_reader \<Rightarrow> seq_state \<Rightarrow> ('z trace_reader \<times> seq_state) run" where
  "from_trace_run c inflate z0 acks rnd junk r s =
     from_trace_loop c inflate z0 acks rnd junk (max_transactions s) r s"

end
