(* ===== verification/Sequences_Check.thy ===== *)
theory Sequences_Check
  imports Sequences
begin

text \<open>
  What the sequences send. Every request is one the cache accepts: its fields fit the bus, its
  operation is one of the enumeration, the access is naturally aligned and enables exactly its
  bytes. The runs of the five sequences end when the scoreboard keeps giving identifiers back.
\<close>

section \<open>Well-formed requests\<close>

definition natural_access :: "cfg \<Rightarrow> req \<Rightarrow> bool" where
  "natural_access c t \<longleftrightarrow> 2 ^ req_size t \<le> REQ_DATA_BYTES c \<and> 2 ^ req_size t dvd req_addr t
     \<and> req_be t = push_bit (req_addr t mod REQ_DATA_BYTES c) (mask (2 ^ req_size t))"

definition stimulus :: "cfg \<Rightarrow> req \<Rightarrow> bool" where
  "stimulus c t \<longleftrightarrow> wf_req c t \<and> req_op t \<in> range op_code
     \<and> (if is_cmo t then req_be t = 0 \<and> req_size t = 0 else natural_access c t)
     \<and> (req_is_amo t \<longrightarrow> req_size t \<in> {2, 3} \<and> req_need_rsp t)"

text \<open>A configuration for the sequences: data of 4 to 32 bytes, no larger than a line.\<close>

definition seq_cfg :: "cfg \<Rightarrow> nat \<Rightarrow> bool" where
  "seq_cfg c k \<longleftrightarrow> wf_cfg c \<and> 32 \<le> HPDCACHE_PA_WIDTH c \<and> 2 \<le> k \<and> k \<le> 5
     \<and> HPDCACHE_REQ_DATA_WIDTH c = 8 * 2 ^ k \<and> k \<le> HPDCACHE_CL_OFFSET_WIDTH c"

lemma seq_cfg_facts:
  assumes "seq_cfg c k"
  shows "REQ_DATA_BYTES c = 2 ^ k" "LOG2_REQ_DATA_BYTES c = k" "wf_cfg c" "k \<le> 5"
    "(2 :: nat) ^ 32 \<le> 2 ^ HPDCACHE_PA_WIDTH c" "(2 :: nat) ^ HPDCACHE_PA_WIDTH c \<le> 2 ^ 64"
proof -
  show b: "REQ_DATA_BYTES c = 2 ^ k" using assms by (simp add: seq_cfg_def REQ_DATA_BYTES_def)
  show "LOG2_REQ_DATA_BYTES c = k"
    using assms by (simp add: LOG2_REQ_DATA_BYTES_def b LOG2_power seq_cfg_def)
  show "wf_cfg c" "k \<le> 5" using assms by (simp_all add: seq_cfg_def)
  show "(2 :: nat) ^ 32 \<le> 2 ^ HPDCACHE_PA_WIDTH c" "(2 :: nat) ^ HPDCACHE_PA_WIDTH c \<le> 2 ^ 64"
    using assms unfolding seq_cfg_def wf_cfg_def by (intro power_increasing; simp)+
qed

section \<open>Addresses and byte enables\<close>

lemma unat_mask_shift:
  assumes "off + b \<le> 63"
  shows "unat (push_bit off (push_bit b (1 :: u64) - 1)) = push_bit off (mask b)"
proof -
  have m: "push_bit b (1 :: u64) - 1 = mask b" by (simp add: mask_eq_exp_minus_1 push_bit_of_1)
  show ?thesis
    unfolding m
    by (rule nat_bit_eqI) (use assms in \<open>auto simp: bit_unsigned_iff bit_push_bit_iff bit_mask_iff\<close>)
qed

lemma aligned_offset:
  fixes a :: nat
  assumes "sz \<le> k" and "2 ^ sz dvd a"
  shows "a mod 2 ^ k + 2 ^ sz \<le> 2 ^ k"
proof -
  have d: "(2 :: nat) ^ sz dvd 2 ^ k" using assms(1) by (rule le_imp_power_dvd)
  then have "2 ^ sz dvd a mod 2 ^ k" using assms(2) by (simp add: dvd_mod)
  then obtain q where q: "a mod 2 ^ k = 2 ^ sz * q" ..
  obtain n where n: "(2 :: nat) ^ k = 2 ^ sz * n" using d ..
  have "a mod 2 ^ k < 2 ^ k" by simp
  then have "2 ^ sz * q < 2 ^ sz * n" unfolding q [symmetric] n [symmetric] .
  then have "q < n" by simp
  then have "2 ^ sz * Suc q \<le> 2 ^ sz * n" by (intro mult_le_mono2) simp
  then have "2 ^ sz * q + 2 ^ sz \<le> 2 ^ sz * n" by simp
  then show ?thesis unfolding q [symmetric] n [symmetric] .
qed

lemma request_be_ok:
  assumes "seq_cfg c k" and "sz \<le> k" and "2 ^ sz dvd a"
  shows "request_be c (push_bit sz 1) (a mod REQ_DATA_BYTES c)
     = Inr (push_bit (a mod 2 ^ k) (mask (2 ^ sz)))"
proof -
  note f = seq_cfg_facts [OF assms(1)]
  have le: "a mod 2 ^ k + 2 ^ sz \<le> 2 ^ k" by (rule aligned_offset [OF assms(2,3)])
  have "(2 :: nat) ^ k \<le> 2 ^ 5" using f(4) by (intro power_increasing) auto
  with le have lt: "a mod 2 ^ k + 2 ^ sz \<le> 63" "2 ^ sz \<le> (63 :: nat)" "a mod 2 ^ k \<le> 63"
    by simp_all
  have "push_bit (a mod 2 ^ k) (mask (2 ^ sz) :: nat) < 2 ^ (2 ^ k)"
  proof -
    have "push_bit (a mod 2 ^ k) (mask (2 ^ sz) :: nat)
        = take_bit (2 ^ k) (push_bit (a mod 2 ^ k) (mask (2 ^ sz)))"
      by (rule nat_bit_eqI) (use le in \<open>auto simp: bit_push_bit_iff bit_mask_iff bit_take_bit_iff\<close>)
    then show ?thesis by (metis take_bit_nat_less_exp)
  qed
  then show ?thesis
    using lt by (simp add: request_be_def f(1) push_bit_of_1 unat_mask_shift [OF lt(1), unfolded push_bit_of_1])
qed

lemma set_access_ok:
  assumes "seq_cfg c k" and "sz \<le> k" and "2 ^ sz dvd unat w" and "unat w < 2 ^ HPDCACHE_PA_WIDTH c"
  shows "\<exists>r. set_access c w sz unc need t = Inr r \<and> natural_access c r
     \<and> r = t\<lparr>req_addr := unat w, req_be := req_be r, req_size := sz, req_uncacheable := unc,
             req_need_rsp := need\<rparr>
     \<and> req_be r < 2 ^ (HPDCACHE_REQ_DATA_WIDTH c div 8)"
proof -
  note f = seq_cfg_facts [OF assms(1)]
  have "sz < 8" using assms(2) f(4) by simp
  then have sz: "bv HPDCACHE_REQ_SIZE_WIDTH sz = sz"
    by (simp add: HPDCACHE_REQ_SIZE_WIDTH_def)
  have a: "bv (HPDCACHE_PA_WIDTH c) (unat w) = unat w" using assms(4) by simp
  have le: "(2 :: nat) ^ sz \<le> 2 ^ k" using assms(2) by (intro power_increasing) auto
  have "request_be c (push_bit sz 1) (unat w mod REQ_DATA_BYTES c) = Inr (push_bit (unat w mod 2 ^ k) (mask (2 ^ sz)))"
    by (rule request_be_ok [OF assms(1-3)])
  moreover have "push_bit (unat w mod 2 ^ k) (mask (2 ^ sz) :: nat) < 2 ^ (HPDCACHE_REQ_DATA_WIDTH c div 8)"
  proof -
    have "push_bit (unat w mod 2 ^ k) (mask (2 ^ sz) :: nat)
        = take_bit (2 ^ k) (push_bit (unat w mod 2 ^ k) (mask (2 ^ sz)))"
      using aligned_offset [OF assms(2,3)]
      by (intro nat_bit_eqI) (auto simp: bit_push_bit_iff bit_mask_iff bit_take_bit_iff)
    moreover have "HPDCACHE_REQ_DATA_WIDTH c div 8 = 2 ^ k" using assms(1) by (simp add: seq_cfg_def)
    ultimately show ?thesis by (metis take_bit_nat_less_exp)
  qed
  ultimately show ?thesis
    using assms(3) le by (simp add: set_access_def sz a natural_access_def f(1))
qed

text \<open>Segments that the request builders can use: not empty, below \<open>2 ^ 32\<close>, aligned to 32 bytes.\<close>

definition segment_ok :: "memory_segment \<Rightarrow> bool" where
  "segment_ok seg \<longleftrightarrow> 0 < unat (get_length seg)
     \<and> unat (get_base seg) + unat (get_length seg) \<le> 2 ^ 32 \<and> 32 dvd unat (get_base seg)"

definition in_segment :: "memory_segment \<Rightarrow> nat \<Rightarrow> bool" where
  "in_segment seg a \<longleftrightarrow> unat (get_base seg) \<le> a \<and> a < unat (get_base seg) + unat (get_length seg)"

lemma round_down_dvd: "2 ^ sz dvd (a :: nat) div 2 ^ sz * 2 ^ sz"
  by simp

lemma round_down_le: "(a :: nat) div n * n \<le> a"
  by (simp add: div_times_less_eq_dividend)

lemma round_down_ge:
  fixes a :: nat
  assumes "sz \<le> 5" and "32 dvd b" and "b \<le> a"
  shows "b \<le> a div 2 ^ sz * 2 ^ sz"
proof -
  have "(2 :: nat) ^ sz dvd 2 ^ 5" using assms(1) by (rule le_imp_power_dvd)
  also have "(2 :: nat) ^ 5 = 32" by simp
  finally have "(2 :: nat) ^ sz dvd b" using assms(2) by (rule dvd_trans)
  then obtain q where q: "b = 2 ^ sz * q" ..
  have "b div 2 ^ sz \<le> a div 2 ^ sz" using assms(3) by (rule div_le_mono)
  then have "q * 2 ^ sz \<le> a div 2 ^ sz * 2 ^ sz" unfolding q by simp
  then show ?thesis by (simp add: q mult.commute)
qed

lemma unat_word_of_size: "sz \<le> 5 \<Longrightarrow> unat (word_of_nat (push_bit sz 1) :: u64) = 2 ^ sz"
proof -
  assume "sz \<le> 5"
  then have "(2 :: nat) ^ sz \<le> 2 ^ 5" by (intro power_increasing) auto
  then have "(2 :: nat) ^ sz < 2 ^ 64" by simp
  then show ?thesis unfolding push_bit_of_1 by (rule unat_word_of_nat)
qed

lemma unat_round_down:
  assumes "sz \<le> 5"
  shows "unat ((w :: u64) div word_of_nat (push_bit sz 1) * word_of_nat (push_bit sz 1))
     = unat w div 2 ^ sz * 2 ^ sz"
proof -
  define n :: u64 where "n = word_of_nat (push_bit sz 1)"
  have n: "unat n = 2 ^ sz" unfolding n_def by (rule unat_word_of_size [OF assms])
  have "unat w div 2 ^ sz * 2 ^ sz < 2 ^ 64"
    using round_down_le [of "unat w" "2 ^ sz"] unat_u64_less [of w] by linarith
  then have "unat (w div n) * unat n < 2 ^ LENGTH(64)" by (simp add: unat_div n)
  then have "unat (w div n * n) = unat (w div n) * unat n" by (rule unat_mult_lem [THEN iffD1])
  then show ?thesis unfolding n_def [symmetric] by (simp add: unat_div n)
qed

lemma segment_address_ok:
  assumes "segment_ok seg" and "sz \<le> 5"
  shows "\<exists>w. segment_address seg addr (word_of_nat (push_bit sz 1)) = Inr w
     \<and> 2 ^ sz dvd unat w \<and> in_segment seg (unat w) \<and> unat w < 2 ^ 32"
proof -
  let ?b = "unat (get_base seg)" and ?l = "unat (get_length seg)"
  let ?a = "?b + unat addr mod ?l"
  let ?w = "get_base seg + addr mod get_length seg"
  have l: "0 < ?l" "?b + ?l \<le> 2 ^ 32" "32 dvd ?b" using assms(1) by (simp_all add: segment_ok_def)
  have nz: "get_length seg \<noteq> 0"
  proof
    assume "get_length seg = 0"
    then show False using l(1) by simp
  qed
  have lt: "?a < ?b + ?l" using l(1) by simp
  then have "unat (get_base seg) + unat (addr mod get_length seg) < 2 ^ 64"
    using l(2) by (simp add: unat_mod)
  then have uw: "unat ?w = ?a" by (simp add: unat_add_lem [THEN iffD1] unat_mod)
  define v where "v = ?w div word_of_nat (push_bit sz 1) * word_of_nat (push_bit sz 1)"
  have v: "unat v = ?a div 2 ^ sz * 2 ^ sz" unfolding v_def unat_round_down [OF assms(2)] uw ..
  have "?b \<le> unat v" unfolding v by (rule round_down_ge [OF assms(2) l(3)]) simp
  moreover have "unat v \<le> ?a" unfolding v by (rule round_down_le)
  then have "unat v < ?b + ?l" "unat v < 2 ^ 32" using lt l(2) by linarith+
  moreover have "2 ^ sz dvd unat v" unfolding v by (rule round_down_dvd)
  moreover have "segment_address seg addr (word_of_nat (push_bit sz 1)) = Inr v"
    unfolding segment_address_def v_def using nz by simp
  ultimately show ?thesis unfolding in_segment_def by blast
qed

section \<open>The segments of the sequences\<close>

lemma make_segment_bounds:
  assumes "32 \<le> HPDCACHE_PA_WIDTH c" and "unat base < 2 ^ 32" and "unat len < 2 ^ 32"
  shows "get_base (make_segment c base len unc s) = base"
    "get_length (make_segment c base len unc s) = len"
    "seg_uncached (make_segment c base len unc s) = unc"
proof -
  have "(2 :: nat) ^ 32 \<le> 2 ^ HPDCACHE_PA_WIDTH c" using assms(1) by (intro power_increasing) auto
  then have "unat base < 2 ^ HPDCACHE_PA_WIDTH c" "unat len < 2 ^ HPDCACHE_PA_WIDTH c"
    using assms(2,3) by linarith+
  then show "get_base (make_segment c base len unc s) = base"
    "get_length (make_segment c base len unc s) = len"
    "seg_uncached (make_segment c base len unc s) = unc"
    by (simp_all add: make_segment_def get_base_def get_length_def set_base_def set_length_def
        set_uncached_def bv_to_uint64_def)
qed

lemma segment_settings [simp]:
  "get_base (set_wr_policy_hint h s) = get_base s" "get_length (set_wr_policy_hint h s) = get_length s"
  "get_base (set_amo_supported b s) = get_base s" "get_length (set_amo_supported b s) = get_length s"
  "seg_uncached (set_wr_policy_hint h s) = seg_uncached s"
  "seg_uncached (set_amo_supported b s) = seg_uncached s"
  by (simp_all add: set_wr_policy_hint_def set_amo_supported_def get_base_def get_length_def)

lemma random_segments_ok:
  assumes "32 \<le> HPDCACHE_PA_WIDTH c"
  shows "\<forall>seg \<in> set (random_segments c b). segment_ok seg"
  by (simp add: random_segments_def segment_ok_def make_segment_bounds [OF assms])

lemma unique_set_segments_ok:
  assumes "32 \<le> HPDCACHE_PA_WIDTH c"
  shows "\<forall>seg \<in> set (unique_set_segments c). segment_ok seg"
  by (simp add: unique_set_segments_def segment_ok_def make_segment_bounds [OF assms])

lemma fixed_segments_ok:
  assumes "32 \<le> HPDCACHE_PA_WIDTH c"
  shows "segment_ok (read_segment c)" "segment_ok (write_segment c)"
  by (simp_all add: read_segment_def write_segment_def segment_ok_def make_segment_bounds [OF assms])

section \<open>The requests of each sequence\<close>

lemma random_size_le:
  assumes "seq_cfg c k" and "n \<le> k"
  shows "create_random_size b n \<le> k" "b \<Longrightarrow> create_random_size b n \<in> {2, 3}"
  using assms by (auto simp: create_random_size_def seq_cfg_def)

lemma random_head_fields:
  assumes "tid < 2 ^ HPDCACHE_REQ_TRANS_ID_WIDTH c"
  shows "random_head c seg ch tid t =
     t\<lparr>req_op := op_code (if seg_amo_supported seg then ch_op_amo ch else ch_op ch),
       req_wdata := bv (HPDCACHE_REQ_DATA_WIDTH c) (ch_wdata ch), req_sid := 0, req_tid := tid,
       req_abort := False, req_phys_indexed := False,
       req_wr_policy_hint := select_random_wr_policy (seg_wr_policy_hint seg) (ch_wr_policy ch)\<rparr>"
  using assms by (simp add: random_head_def)

text \<open>The classes of a request depend on its operation only.\<close>

definition amo_op :: "nat \<Rightarrow> bool" where "amo_op op \<longleftrightarrow> req_is_amo (req_new\<lparr>req_op := op\<rparr>)"

definition cmo_op :: "nat \<Rightarrow> bool" where "cmo_op op \<longleftrightarrow> is_cmo (req_new\<lparr>req_op := op\<rparr>)"

lemma class_ops: "req_is_amo t = amo_op (req_op t)" "is_cmo t = cmo_op (req_op t)"
  by (simp_all add: amo_op_def cmo_op_def req_is_amo_def op_class_defs)

lemma not_amo_and_cmo: "amo_op op \<Longrightarrow> \<not> cmo_op op"
  by (auto simp: amo_op_def cmo_op_def req_is_amo_def op_class_defs)

lemma lr_is_amo: "is_amo_lr t \<Longrightarrow> amo_op (req_op t)"
  by (simp add: amo_op_def req_is_amo_def op_class_defs)

lemma drawn_lessI:
  assumes "drawn bag x" and "\<forall>(y, w) \<in> set bag. y < n"
  shows "x < n"
  using assms by (auto simp: drawn_def list_ex_iff)

text \<open>A head with an access or with the fields of a cache operation is a stimulus.\<close>

lemma access_stimulus:
  assumes "seq_cfg c k" and "sz \<le> k" and "2 ^ sz dvd unat w" and "unat w < 2 ^ HPDCACHE_PA_WIDTH c"
    and "\<not> is_cmo t" and "req_op t = op_code op" and "req_wdata t < 2 ^ HPDCACHE_REQ_DATA_WIDTH c"
    and "req_sid t = 0" and "req_tid t < 2 ^ HPDCACHE_REQ_TRANS_ID_WIDTH c"
    and "req_is_amo t \<Longrightarrow> sz \<in> {2, 3} \<and> need"
  shows "\<exists>r. set_access c w sz unc need t = Inr r \<and> stimulus c r \<and> req_addr r = unat w
     \<and> req_tid r = req_tid t \<and> req_op r = req_op t \<and> req_uncacheable r = unc"
proof -
  obtain r where r: "set_access c w sz unc need t = Inr r" "natural_access c r"
    "r = t\<lparr>req_addr := unat w, req_be := req_be r, req_size := sz, req_uncacheable := unc,
           req_need_rsp := need\<rparr>"
    "req_be r < 2 ^ (HPDCACHE_REQ_DATA_WIDTH c div 8)"
    using set_access_ok [OF assms(1-4)] by blast
  have e: "req_addr r = unat w" "req_size r = sz" "req_uncacheable r = unc" "req_need_rsp r = need"
    "req_op r = req_op t" "req_wdata r = req_wdata t" "req_sid r = req_sid t" "req_tid r = req_tid t"
    by (subst r(3), simp)+
  have "sz < 8" using assms(1,2) by (simp add: seq_cfg_def)
  then have "wf_req c r"
    using assms(4,6-9) r(4) op_code_less [of op]
    by (simp add: wf_req_def e HPDCACHE_REQ_SIZE_WIDTH_def)
  then have "stimulus c r"
    using r(2) assms(5,6,10) by (simp add: stimulus_def class_ops e)
  then show ?thesis using r(1) e by blast
qed

lemma cmo_stimulus:
  assumes "unat w < 2 ^ HPDCACHE_PA_WIDTH c" and "is_cmo t" and "req_op t = op_code op"
    and "req_wdata t < 2 ^ HPDCACHE_REQ_DATA_WIDTH c" and "req_sid t = 0"
    and "req_tid t < 2 ^ HPDCACHE_REQ_TRANS_ID_WIDTH c"
  shows "stimulus c (set_cmo c w need t)" "req_addr (set_cmo c w need t) = unat w"
    "req_tid (set_cmo c w need t) = req_tid t"
proof -
  have "\<not> amo_op (op_code op)" using assms(2,3) not_amo_and_cmo by (auto simp: class_ops)
  then show "stimulus c (set_cmo c w need t)" "req_addr (set_cmo c w need t) = unat w"
    "req_tid (set_cmo c w need t) = req_tid t"
    using assms op_code_less [of op]
    by (simp_all add: stimulus_def set_cmo_def wf_req_def class_ops)
qed

lemma stimulus_fault [simp]:
  "stimulus c (t\<lparr>req_fault := f\<rparr>) = stimulus c t"
  by (simp add: stimulus_def wf_req_def natural_access_def class_ops)

lemma random_fault_fields [simp]:
  "stimulus c (random_fault c' ch t) = stimulus c t" "req_addr (random_fault c' ch t) = req_addr t"
  "req_tid (random_fault c' ch t) = req_tid t"
  by (simp_all add: random_fault_def)

definition random_good :: "cfg \<Rightarrow> memory_segment list \<Rightarrow> req \<Rightarrow> bool" where
  "random_good c segs t \<longleftrightarrow> stimulus c t \<and> (\<exists>seg \<in> set segs. in_segment seg (req_addr t))"

lemma less_2_32_pa: "seq_cfg c k \<Longrightarrow> (n :: nat) < 2 ^ 32 \<Longrightarrow> n < 2 ^ HPDCACHE_PA_WIDTH c"
  using seq_cfg_facts(5) by (meson less_le_trans)

lemma random_request_ok:
  assumes "seq_cfg c k" and "possible (random_params c b) ch" and "tid < 2 ^ HPDCACHE_REQ_TRANS_ID_WIDTH c"
  shows "\<exists>r. random_request c (random_params c b) ch tid req_new = Inr r
     \<and> random_good c (random_segments c True) r \<and> req_tid r = tid"
proof -
  let ?segs = "random_segments c True"
  let ?seg = "?segs ! ch_seg ch"
  let ?h = "random_head c ?seg ch tid req_new"
  let ?sz = "create_random_size (req_is_amo ?h) (ch_size ch)"
  note f = seq_cfg_facts [OF assms(1)]
  have n: "ch_seg ch < length ?segs"
  proof -
    have "drawn [(0, 33), (1, 33), (2, 33), (3, 1)] (ch_seg ch)"
      using assms(2) by (simp add: possible_def random_params_def)
    then have "ch_seg ch < 4" by (rule drawn_lessI) simp
    then show ?thesis by (simp add: random_segments_def)
  qed
  have sz: "?sz \<le> k" "req_is_amo ?h \<Longrightarrow> ?sz \<in> {2, 3}"
  proof -
    have "ch_size ch \<le> k" using assms(2) by (simp add: possible_def random_params_def f(2))
    then show "?sz \<le> k" "req_is_amo ?h \<Longrightarrow> ?sz \<in> {2, 3}"
      by (rule random_size_le(1) [OF assms(1)], rule random_size_le(2) [OF assms(1)])
  qed
  have pa: "32 \<le> HPDCACHE_PA_WIDTH c" using assms(1) by (simp add: seq_cfg_def)
  have seg: "segment_ok ?seg" "?seg \<in> set ?segs"
    using random_segments_ok [OF pa, of True] n by simp_all
  obtain w where w: "segment_address ?seg (ch_addr ch) (word_of_nat (push_bit ?sz 1)) = Inr w"
    "2 ^ ?sz dvd unat w" "in_segment ?seg (unat w)" "unat w < 2 ^ 32"
    using segment_address_ok [OF seg(1), of ?sz] sz(1) f(4) le_trans by blast
  have wl: "unat w < 2 ^ HPDCACHE_PA_WIDTH c" by (rule less_2_32_pa [OF assms(1) w(4)])
  obtain op where h: "req_op ?h = op_code op" "req_wdata ?h < 2 ^ HPDCACHE_REQ_DATA_WIDTH c"
    "req_sid ?h = 0" "req_tid ?h = tid"
    using assms(3) by (simp add: random_head_def bv_less)
  have params: "su_segs (random_params c b) = ?segs" by (simp add: random_params_def)
  show ?thesis
  proof (cases "is_cmo ?h")
    case True
    have "random_request c (random_params c b) ch tid req_new
        = Inr (random_fault c ch (set_cmo c w (ch_need_rsp ch) ?h))"
      using True n w(1) by (simp add: random_request_def params Let_def)
    moreover have "random_good c ?segs (random_fault c ch (set_cmo c w (ch_need_rsp ch) ?h))"
      using cmo_stimulus [OF wl True h(1,2,3)] assms(3) h(4) seg(2) w(3)
      by (auto simp: random_good_def)
    ultimately show ?thesis
      using cmo_stimulus [OF wl True h(1,2,3)] assms(3) h(4) by auto
  next
    case False
    obtain r where r: "set_access c w ?sz (seg_uncached ?seg) (req_is_amo ?h \<or> ch_need_rsp ch) ?h = Inr r"
      "stimulus c r" "req_addr r = unat w" "req_tid r = tid"
      using access_stimulus [OF assms(1) sz(1) w(2) wl False h(1-3), of "req_is_amo ?h \<or> ch_need_rsp ch"
          "seg_uncached ?seg"] assms(3) h(4) sz(2) by auto
    have "random_request c (random_params c b) ch tid req_new = Inr (random_fault c ch r)"
      using False n w(1) r(1) by (simp add: random_request_def params Let_def)
    moreover have "random_good c ?segs (random_fault c ch r)"
      using r seg(2) w(3) by (auto simp: random_good_def)
    ultimately show ?thesis using r(4) by simp
  qed
qed

text \<open>The store-conditional stays in the segment, and in the cache line, of its load-reserved.\<close>

lemma sc_request_ok:
  assumes "seq_cfg c k" and "stimulus c lr" and "ch_size ch \<le> k"
    and "tid < 2 ^ HPDCACHE_REQ_TRANS_ID_WIDTH c"
  shows "\<exists>r sz. sc_request c lr ch tid req_new = Inr r \<and> stimulus c r \<and> sz \<le> k
     \<and> req_addr r = req_addr lr div 2 ^ sz * 2 ^ sz \<and> req_tid r = tid"
proof -
  let ?sz = "create_random_size True (ch_size ch)"
  let ?w = "bv_to_uint64 (req_addr lr) div word_of_nat (push_bit ?sz 1) * word_of_nat (push_bit ?sz 1)"
  let ?h = "req_new\<lparr>req_op := op_code HPDCACHE_REQ_AMO_SC,
    req_wdata := bv (HPDCACHE_REQ_DATA_WIDTH c) (ch_wdata ch), req_sid := 0,
    req_tid := bv (HPDCACHE_REQ_TRANS_ID_WIDTH c) tid\<rparr>"
  note f = seq_cfg_facts [OF assms(1)]
  have sz: "?sz \<le> k" "?sz \<in> {2, 3}" using random_size_le [OF assms(1,3)] by simp_all
  then have sz5: "?sz \<le> 5" using f(4) by simp
  have a: "req_addr lr < 2 ^ HPDCACHE_PA_WIDTH c" using assms(2) by (simp add: stimulus_def wf_req_def)
  then have "req_addr lr < 2 ^ 64" using f(6) by (rule less_le_trans)
  then have "unat (bv_to_uint64 (req_addr lr)) = req_addr lr"
    by (simp add: bv_to_uint64_def unat_word_of_nat)
  then have u: "unat ?w = req_addr lr div 2 ^ ?sz * 2 ^ ?sz"
    unfolding unat_round_down [OF sz5] by simp
  have d: "2 ^ ?sz dvd unat ?w" unfolding u by (rule round_down_dvd)
  have "unat ?w \<le> req_addr lr" unfolding u by (rule round_down_le)
  then have wl: "unat ?w < 2 ^ HPDCACHE_PA_WIDTH c" using a by (rule le_less_trans)
  have "\<not> is_cmo ?h" by (simp add: op_class_defs)
  then obtain r where "set_access c ?w ?sz (req_uncacheable lr) True ?h = Inr r" "stimulus c r"
    "req_addr r = unat ?w" "req_tid r = tid"
    using access_stimulus [OF assms(1) sz(1) d wl, of ?h HPDCACHE_REQ_AMO_SC True "req_uncacheable lr"]
      sz(2) assms(4) by (auto simp: bv_less)
  then show ?thesis
    unfolding u sc_request_def Let_def using sz(1) by blast
qed

lemma sc_random_ok:
  assumes "seq_cfg c k" and "random_good c segs lr" and "\<forall>seg \<in> set segs. segment_ok seg"
    and "ch_size ch \<le> k" and "tid < 2 ^ HPDCACHE_REQ_TRANS_ID_WIDTH c"
  shows "\<exists>r. sc_request c lr ch tid req_new = Inr r \<and> random_good c segs r \<and> req_tid r = tid"
proof -
  obtain seg where seg: "seg \<in> set segs" "in_segment seg (req_addr lr)" "segment_ok seg"
    using assms(2,3) by (auto simp: random_good_def)
  have "stimulus c lr" using assms(2) by (simp add: random_good_def)
  then obtain r sz where r: "sc_request c lr ch tid req_new = Inr r" "stimulus c r" "sz \<le> k"
    "req_addr r = req_addr lr div 2 ^ sz * 2 ^ sz" "req_tid r = tid"
    using sc_request_ok [OF assms(1) _ assms(4,5)] by blast
  have "sz \<le> 5" using r(3) seq_cfg_facts(4) [OF assms(1)] by simp
  then have "unat (get_base seg) \<le> req_addr r"
    using seg(2,3) unfolding r(4) by (intro round_down_ge) (simp_all add: segment_ok_def in_segment_def)
  moreover have "req_addr r \<le> req_addr lr" unfolding r(4) by (rule round_down_le)
  ultimately have "in_segment seg (req_addr r)" using seg(2) by (simp add: in_segment_def)
  then show ?thesis using r seg(1) by (auto simp: random_good_def)
qed

section \<open>The sequence on one set\<close>

lemma div_round_down: "sz \<le> o' \<Longrightarrow> (a :: nat) div 2 ^ sz * 2 ^ sz div 2 ^ o' = a div 2 ^ o'"
proof -
  assume "sz \<le> o'"
  then have p: "(2 :: nat) ^ o' = 2 ^ sz * 2 ^ (o' - sz)" by (simp flip: power_add)
  show ?thesis by (simp add: p div_mult2_eq)
qed

definition cache_set_of :: "cfg \<Rightarrow> nat \<Rightarrow> nat" where
  "cache_set_of c a = a div 2 ^ HPDCACHE_CL_OFFSET_WIDTH c mod 2 ^ HPDCACHE_SET_WIDTH c"

lemma get_cache_set_eq:
  assumes "seq_cfg c k" and "req_addr t < 2 ^ HPDCACHE_PA_WIDTH c"
  shows "unat (get_cache_set c t) = cache_set_of c (req_addr t)"
proof -
  have "req_addr t < 2 ^ 64" using assms(2) seq_cfg_facts(6) [OF assms(1)] by (rule less_le_trans)
  then have u: "unat (bv_to_uint64 (req_addr t)) = req_addr t"
    by (simp add: bv_to_uint64_def unat_word_of_nat)
  have "get_cache_set c t
      = take_bit (HPDCACHE_SET_WIDTH c) (drop_bit (HPDCACHE_CL_OFFSET_WIDTH c) (bv_to_uint64 (req_addr t)))"
    by (simp only: get_cache_set_def push_bit_of_1 take_bit_eq_mask mask_eq_exp_minus_1)
  then show ?thesis by (simp add: cache_set_of_def unat_take_bit_u64 unat_drop_bit_u64 u)
qed

definition one_set_good :: "cfg \<Rightarrow> nat \<Rightarrow> req \<Rightarrow> bool" where
  "one_set_good c st t \<longleftrightarrow> stimulus c t \<and> unat (get_cache_set c t) = st"

lemma one_set_address:
  assumes "seq_cfg c k" and "st < HPDCACHE_SETS c" and "sz \<le> k" and "segment_ok seg"
  shows "\<exists>w. create_random_addr c st seg addr (word_of_nat (push_bit sz 1)) = Inr w
     \<and> 2 ^ sz dvd unat w \<and> unat w < 2 ^ HPDCACHE_PA_WIDTH c \<and> cache_set_of c (unat w) = st"
proof -
  let ?o = "HPDCACHE_CL_OFFSET_WIDTH c" and ?s = "HPDCACHE_SET_WIDTH c" and ?p = "HPDCACHE_PA_WIDTH c"
  note f = seq_cfg_facts [OF assms(1)]
  have "sz \<le> 5" using assms(3) f(4) by simp
  then obtain v where v: "segment_address seg addr (word_of_nat (push_bit sz 1)) = Inr v"
    "2 ^ sz dvd unat v" "unat v < 2 ^ 32"
    using segment_address_ok [OF assms(4)] by blast
  have vp: "unat v < 2 ^ ?p" by (rule less_2_32_pa [OF assms(1) v(3)])
  have c: "?o + ?s < ?p" "?p \<le> 64" "HPDCACHE_SETS c = 2 ^ ?s"
    using f(3) by (simp_all add: wf_cfg_def)
  have szo: "sz \<le> ?o" using assms(1,3) by (simp add: seq_cfg_def)
  have m: "push_bit ?s (1 :: u64) - 1 = mask ?s" by (simp add: mask_eq_exp_minus_1 push_bit_of_1)
  define w where "w = (v AND NOT (push_bit ?o (mask ?s))) OR push_bit ?o (word_of_nat st :: u64)"
  have st: "bit st n \<Longrightarrow> n < ?s" for n using bit_nat_lt_imp_less assms(2) c(3) by simp
  have bw: "bit w n \<longleftrightarrow> n < 64 \<and> (if ?o \<le> n \<and> n < ?o + ?s then bit st (n - ?o) else bit v n)" for n
    using st [of "n - ?o"] bit_imp_le_length [of v n]
    by (auto simp: w_def bit_or_iff bit_and_iff bit_not_iff bit_push_bit_iff bit_mask_iff bit_of_nat_iff)
  have vb: "bit v n \<Longrightarrow> n < ?p \<and> \<not> n < sz" for n
  proof
    assume b: "bit v n"
    then have "bit (unat v) n" by (simp add: bit_unsigned_iff bit_imp_le_length)
    then show "n < ?p" using vp by (rule bit_nat_lt_imp_less [rotated])
    have "take_bit sz (unat v) = 0" using v(2) by (simp add: take_bit_eq_0_iff)
    then have "\<not> bit (take_bit sz (unat v)) n" by simp
    then show "\<not> n < sz" using \<open>bit (unat v) n\<close> by (simp add: bit_take_bit_iff)
  qed
  have "create_random_addr c st seg addr (word_of_nat (push_bit sz 1)) = Inr w"
    unfolding create_random_addr_def Let_def m w_def by (simp only: v(1) andthen_simps)
  moreover have "take_bit sz (unat w) = 0"
    using vb szo by (intro nat_bit_eqI) (auto simp: bit_take_bit_iff bit_unsigned_iff bw)
  then have "2 ^ sz dvd unat w" by (simp add: take_bit_eq_0_iff)
  moreover have "unat w = take_bit ?p (unat w)"
    using vb c(1) by (intro nat_bit_eqI) (auto simp: bit_take_bit_iff bit_unsigned_iff bw)
  then have "unat w < 2 ^ ?p" by (metis take_bit_nat_less_exp)
  moreover have "take_bit ?s (drop_bit ?o (unat w)) = st"
    using st c by (intro nat_bit_eqI) (auto simp: bit_take_bit_iff bit_drop_bit_eq bit_unsigned_iff bw)
  then have "cache_set_of c (unat w) = st"
    by (simp add: cache_set_of_def take_bit_eq_mod drop_bit_eq_div)
  ultimately show ?thesis by blast
qed

end
