(* ===== verification/Sequences_Run.thy ===== *)
theory Sequences_Run
  imports Sequences_Check
begin

text \<open>
  The runs of the sequences. What a sequence needs of the code that makes up its requests is
  the interface \<open>request_source\<close>, and \<open>lrsc_source\<close> for the two that pair a load-reserved with a
  store-conditional; the loops are verified once for every source, and the four sequences with
  random requests are instances.
\<close>

section \<open>More requests\<close>

lemma unique_set_request_ok:
  assumes "seq_cfg c k" and "possible (unique_set_params c) ch" and "st < HPDCACHE_SETS c"
    and "tid < 2 ^ HPDCACHE_REQ_TRANS_ID_WIDTH c"
  shows "\<exists>r. unique_set_request c (unique_set_params c) st ch tid req_new = Inr r
     \<and> one_set_good c st r \<and> req_tid r = tid"
proof -
  let ?segs = "unique_set_segments c"
  let ?seg = "?segs ! ch_seg ch"
  let ?h = "random_head c ?seg ch tid req_new"
  let ?sz = "create_random_size (req_is_amo ?h) (ch_size ch)"
  let ?need = "req_is_amo ?h \<or> ch_need_rsp ch"
  note f = seq_cfg_facts [OF assms(1)]
  have n: "ch_seg ch < length ?segs"
  proof -
    have "drawn [(0, 25), (1, 25), (2, 25), (3, 25)] (ch_seg ch)"
      using assms(2) by (simp add: possible_def unique_set_params_def)
    then have "ch_seg ch < 4" by (rule drawn_lessI) simp
    then show ?thesis by (simp add: unique_set_segments_def)
  qed
  have sz: "?sz \<le> k" "req_is_amo ?h \<Longrightarrow> ?sz \<in> {2, 3}"
  proof -
    have "ch_size ch \<le> k" using assms(2) by (simp add: possible_def unique_set_params_def f(2))
    then show "?sz \<le> k" "req_is_amo ?h \<Longrightarrow> ?sz \<in> {2, 3}"
      by (rule random_size_le(1) [OF assms(1)], rule random_size_le(2) [OF assms(1)])
  qed
  have pa: "32 \<le> HPDCACHE_PA_WIDTH c" using assms(1) by (simp add: seq_cfg_def)
  have seg: "segment_ok ?seg" using unique_set_segments_ok [OF pa] n by simp
  obtain w where w: "create_random_addr c st ?seg (ch_addr ch) (word_of_nat (push_bit ?sz 1)) = Inr w"
    "2 ^ ?sz dvd unat w" "unat w < 2 ^ HPDCACHE_PA_WIDTH c" "cache_set_of c (unat w) = st"
    using one_set_address [OF assms(1,3) sz(1) seg] by blast
  obtain op where h: "req_op ?h = op_code op" "req_wdata ?h < 2 ^ HPDCACHE_REQ_DATA_WIDTH c"
    "req_sid ?h = 0" "req_tid ?h = tid"
    using assms(4) by (simp add: random_head_def bv_less)
  have params: "su_segs (unique_set_params c) = ?segs" by (simp add: unique_set_params_def)
  have set: "one_set_good c st r" if "stimulus c r" "req_addr r = unat w" for r
    using that w(3,4) by (simp add: one_set_good_def get_cache_set_eq [OF assms(1)])
  show ?thesis
  proof (cases "is_cmo ?h")
    case True
    have "unique_set_request c (unique_set_params c) st ch tid req_new = Inr (set_cmo c w ?need ?h)"
      using True n w(1) by (simp add: unique_set_request_def params Let_def)
    then show ?thesis
      using cmo_stimulus [OF w(3) True h(1,2,3)] assms(4) h(4) set by auto
  next
    case False
    obtain r where r: "set_access c w ?sz (seg_uncached ?seg) ?need ?h = Inr r"
      "stimulus c r" "req_addr r = unat w" "req_tid r = tid"
      using access_stimulus [OF assms(1) sz(1) w(2,3) False h(1-3), of ?need "seg_uncached ?seg"]
        assms(4) h(4) sz(2) by auto
    have "unique_set_request c (unique_set_params c) st ch tid req_new = Inr r"
      using False n w(1) r(1) by (simp add: unique_set_request_def params Let_def)
    then show ?thesis using r set by auto
  qed
qed

lemma sc_one_set_ok:
  assumes "seq_cfg c k" and "one_set_good c st lr" and "ch_size ch \<le> k"
    and "tid < 2 ^ HPDCACHE_REQ_TRANS_ID_WIDTH c"
  shows "\<exists>r. sc_request c lr ch tid req_new = Inr r \<and> one_set_good c st r \<and> req_tid r = tid"
proof -
  have lr: "stimulus c lr" "unat (get_cache_set c lr) = st" using assms(2) by (simp_all add: one_set_good_def)
  obtain r sz where r: "sc_request c lr ch tid req_new = Inr r" "stimulus c r" "sz \<le> k"
    "req_addr r = req_addr lr div 2 ^ sz * 2 ^ sz" "req_tid r = tid"
    using sc_request_ok [OF assms(1) lr(1) assms(3,4)] by blast
  have "sz \<le> HPDCACHE_CL_OFFSET_WIDTH c" using r(3) assms(1) by (simp add: seq_cfg_def)
  then have "cache_set_of c (req_addr r) = cache_set_of c (req_addr lr)"
    unfolding r(4) cache_set_of_def by (simp add: div_round_down)
  moreover have "req_addr r < 2 ^ HPDCACHE_PA_WIDTH c" "req_addr lr < 2 ^ HPDCACHE_PA_WIDTH c"
    using r(2) lr(1) by (simp_all add: stimulus_def wf_req_def)
  ultimately have "unat (get_cache_set c r) = st"
    using lr(2) by (simp add: get_cache_set_eq [OF assms(1)])
  then show ?thesis using r by (auto simp: one_set_good_def)
qed

lemma fixed_request_ok:
  assumes "seq_cfg c k" and "3 \<le> k" and "ch_size ch \<le> 3" and "tid < 2 ^ HPDCACHE_REQ_TRANS_ID_WIDTH c"
  shows "\<exists>r. read_request c ch tid req_new = Inr r \<and> stimulus c r \<and> is_load r
       \<and> in_segment (read_segment c) (req_addr r) \<and> req_tid r = tid"
    and "\<exists>r. write_request c ch tid req_new = Inr r \<and> stimulus c r \<and> is_store r
       \<and> in_segment (write_segment c) (req_addr r) \<and> req_tid r = tid"
proof -
  have pa: "32 \<le> HPDCACHE_PA_WIDTH c" using assms(1) by (simp add: seq_cfg_def)
  have k: "ch_size ch \<le> k" "ch_size ch \<le> 5" using assms(2,3) by simp_all
  show "\<exists>r. read_request c ch tid req_new = Inr r \<and> stimulus c r \<and> is_load r
       \<and> in_segment (read_segment c) (req_addr r) \<and> req_tid r = tid"
  proof -
    let ?h = "req_new\<lparr>req_op := op_code HPDCACHE_REQ_LOAD, req_wdata := 0, req_sid := 0,
        req_tid := bv (HPDCACHE_REQ_TRANS_ID_WIDTH c) tid, req_abort := False, req_phys_indexed := False\<rparr>"
    obtain w where w: "segment_address (read_segment c) (ch_addr ch) (word_of_nat (push_bit (ch_size ch) 1)) = Inr w"
      "2 ^ ch_size ch dvd unat w" "in_segment (read_segment c) (unat w)" "unat w < 2 ^ 32"
      using segment_address_ok [OF fixed_segments_ok(1) [OF pa] k(2)] by blast
    have wl: "unat w < 2 ^ HPDCACHE_PA_WIDTH c" by (rule less_2_32_pa [OF assms(1) w(4)])
    have "\<not> is_cmo ?h" "\<not> req_is_amo ?h" by (simp_all add: req_is_amo_def op_class_defs)
    then obtain r where "set_access c w (ch_size ch) (seg_uncached (read_segment c)) True ?h = Inr r"
      "stimulus c r" "req_addr r = unat w" "req_tid r = tid" "req_op r = op_code HPDCACHE_REQ_LOAD"
      using access_stimulus [OF assms(1) k(1) w(2) wl, of ?h HPDCACHE_REQ_LOAD True] assms(4) by auto
    then show ?thesis
      using w(1,3) unfolding read_request_def Let_def by (auto simp: is_load_def)
  qed
  show "\<exists>r. write_request c ch tid req_new = Inr r \<and> stimulus c r \<and> is_store r
       \<and> in_segment (write_segment c) (req_addr r) \<and> req_tid r = tid"
  proof -
    let ?h = "req_new\<lparr>req_op := op_code HPDCACHE_REQ_STORE,
        req_wdata := bv (HPDCACHE_REQ_DATA_WIDTH c) (ch_wdata ch), req_sid := 0,
        req_tid := bv (HPDCACHE_REQ_TRANS_ID_WIDTH c) tid, req_abort := False, req_phys_indexed := False\<rparr>"
    obtain w where w: "segment_address (write_segment c) (ch_addr ch) (word_of_nat (push_bit (ch_size ch) 1)) = Inr w"
      "2 ^ ch_size ch dvd unat w" "in_segment (write_segment c) (unat w)" "unat w < 2 ^ 32"
      using segment_address_ok [OF fixed_segments_ok(2) [OF pa] k(2)] by blast
    have wl: "unat w < 2 ^ HPDCACHE_PA_WIDTH c" by (rule less_2_32_pa [OF assms(1) w(4)])
    have "\<not> is_cmo ?h" "\<not> req_is_amo ?h" by (simp_all add: req_is_amo_def op_class_defs)
    then obtain r where "set_access c w (ch_size ch) (seg_uncached (write_segment c)) True ?h = Inr r"
      "stimulus c r" "req_addr r = unat w" "req_tid r = tid" "req_op r = op_code HPDCACHE_REQ_STORE"
      using access_stimulus [OF assms(1) k(1) w(2) wl, of ?h HPDCACHE_REQ_STORE True] assms(4)
      by (auto simp: bv_less)
    then show ?thesis
      using w(1,3) unfolding write_request_def Let_def by (auto simp: is_store_def)
  qed
qed

lemma set_access_keeps: "set_access c a sz unc need t = Inr r \<Longrightarrow> req_op r = req_op t \<and> req_need_rsp r = need"
  by (auto simp: set_access_def andthen_Inr_iff)

lemma random_request_head:
  assumes "random_request c su ch tid t = Inr r"
  shows "req_op r = op_code (if seg_amo_supported (su_segs su ! ch_seg ch) then ch_op_amo ch else ch_op ch)"
    and "\<not> req_is_amo r \<Longrightarrow> req_need_rsp r = ch_need_rsp ch"
proof -
  define seg where "seg = su_segs su ! ch_seg ch"
  define h where "h = random_head c seg ch tid t"
  define sz where "sz = create_random_size (req_is_amo h) (ch_size ch)"
  obtain a r1 where r: "r = random_fault c ch r1"
    "(if is_cmo h then Inr (set_cmo c a (ch_need_rsp ch) h)
      else set_access c a sz (seg_uncached seg) (req_is_amo h \<or> ch_need_rsp ch) h) = Inr r1"
  proof -
    have "ch_seg ch < length (su_segs su)" using assms by (simp add: random_request_def split: if_splits)
    then obtain a where "andthen (if is_cmo h then Inr (set_cmo c a (ch_need_rsp ch) h)
        else set_access c a sz (seg_uncached seg) (req_is_amo h \<or> ch_need_rsp ch) h)
        (\<lambda>t. Inr (random_fault c ch t)) = Inr r"
      using assms unfolding random_request_def Let_def seg_def [symmetric] h_def [symmetric] sz_def [symmetric]
      by (auto simp only: andthen_Inr_iff if_True if_False not_True_eq_False)
    then show thesis using that unfolding andthen_Inr_iff by blast
  qed
  have k: "req_op r1 = req_op h \<and> (req_need_rsp r1 = ch_need_rsp ch \<or> req_is_amo h \<and> \<not> is_cmo h)"
  proof (cases "is_cmo h")
    case True
    then show ?thesis using r(2) by (auto simp: set_cmo_def)
  next
    case False
    then show ?thesis using r(2) set_access_keeps by fastforce
  qed
  have f: "req_op r = req_op r1" "req_need_rsp r = req_need_rsp r1" by (simp_all add: r(1) random_fault_def)
  have "req_op h = op_code (if seg_amo_supported seg then ch_op_amo ch else ch_op ch)"
    by (simp add: h_def random_head_def)
  then show "req_op r = op_code (if seg_amo_supported (su_segs su ! ch_seg ch) then ch_op_amo ch else ch_op ch)"
    using k f by (simp only: seg_def)
  assume "\<not> req_is_amo r"
  moreover have "req_is_amo r = req_is_amo h"
    using k f by (simp add: req_is_amo_def is_amo_def is_amo_lr_def is_amo_sc_def)
  ultimately show "req_need_rsp r = ch_need_rsp ch" using k f by blast
qed

section \<open>Sending one transaction\<close>

definition seq_inv :: "cfg \<Rightarrow> seq_state \<Rightarrow> bool" where
  "seq_inv c s \<longleftrightarrow> wf_pool {} (transaction_pool s) \<and> wf_ids c s"

text \<open>While the sequence waits, at least one identifier comes back.\<close>

definition responsive :: "cfg \<Rightarrow> (nat list \<Rightarrow> nat list) \<Rightarrow> bool" where
  "responsive c acks \<longleftrightarrow> (\<forall>s. wf_ids c s \<longrightarrow> is_available_id c (acknowledge acks s))"

lemma deallocate_keeps:
  assumes "wf_ids c s"
  shows "wf_ids c (fst (deallocate_id i s))"
    "transaction_pool (fst (deallocate_id i s)) = transaction_pool s"
    "transaction_fifo (fst (deallocate_id i s)) = transaction_fifo s"
  using assms set_remove1_subset [of i "ids s"] by (auto simp: deallocate_id_def wf_ids_def)

lemma acknowledge_keeps:
  assumes "wf_ids c s"
  shows "wf_ids c (acknowledge acks s) \<and> transaction_pool (acknowledge acks s) = transaction_pool s
     \<and> transaction_fifo (acknowledge acks s) = transaction_fifo s"
  unfolding acknowledge_def
  by (rule foldl_inv) (use assms deallocate_keeps in auto)

text \<open>What it means that a transaction has been sent.\<close>

definition sends :: "cfg \<Rightarrow> (req \<Rightarrow> bool) \<Rightarrow> nat \<Rightarrow> nat \<Rightarrow> seq_state \<Rightarrow> seq_state \<Rightarrow> bool" where
  "sends c P lo hi s s' \<longleftrightarrow> seq_inv c s'
     \<and> (\<exists>ts. transaction_fifo s' = transaction_fifo s @ ts \<and> lo \<le> length ts \<and> length ts \<le> hi
          \<and> (\<forall>t \<in> set ts. P t))"

lemma sends_trans:
  assumes "sends c P l h s s'" and "sends c P l' h' s' s''"
  shows "sends c P (l + l') (h + h') s s''"
proof -
  obtain ts where ts: "transaction_fifo s' = transaction_fifo s @ ts" "l \<le> length ts" "length ts \<le> h"
    "\<forall>t \<in> set ts. P t" using assms(1) by (auto simp: sends_def)
  obtain us where us: "transaction_fifo s'' = transaction_fifo s' @ us" "l' \<le> length us"
    "length us \<le> h'" "\<forall>t \<in> set us. P t" using assms(2) by (auto simp: sends_def)
  have "seq_inv c s''" using assms(2) by (simp add: sends_def)
  then show ?thesis
    unfolding sends_def using ts us by (intro conjI exI [of _ "ts @ us"]) auto
qed

lemma sends_weaken: "sends c P l h s s' \<Longrightarrow> l' \<le> l \<Longrightarrow> h \<le> h' \<Longrightarrow> sends c P l' h' s s'"
  unfolding sends_def by (meson le_trans)

lemma send_new_ok:
  assumes "seq_inv c s" and "responsive c (ch_acks ch)"
    and "\<And>i. i < 2 ^ HPDCACHE_REQ_TRANS_ID_WIDTH c \<Longrightarrow> \<exists>r. build i req_new = Inr r \<and> P r \<and> req_tid r = i"
  shows "\<exists>r s'. send_new c build ch s = returns (r, s') \<and> P r \<and> sends c P 1 1 s s'
     \<and> req_tid r \<in> set (ids s')"
proof -
  let ?s = "acknowledge (ch_acks ch) s"
  have wf: "wf_ids c s" "wf_pool {} (transaction_pool s)" using assms(1) by (simp_all add: seq_inv_def)
  note ak = acknowledge_keeps [OF wf(1), of "ch_acks ch"]
  have av: "is_available_id c ?s" using assms(2) wf(1) by (simp add: responsive_def)
  obtain t p where t: "acquire_transaction (transaction_pool s) = Inr (t, p)" "wf_pool {t} p"
    "t < length (heap p)" "heap p ! t = req_new"
    using acquire_transaction_new [OF wf(2)] by auto
  have wfp: "wf_ids c (?s\<lparr>transaction_pool := p\<rparr>)" using ak by (simp add: wf_ids_def)
  have "length (ids ?s) < 2 ^ HPDCACHE_REQ_TRANS_ID_WIDTH c"
    using av by (simp add: is_available_id_def MAX_TRANS_ID)
  then obtain i s2 where i: "allocate_id c (ch_rand ch) (?s\<lparr>transaction_pool := p\<rparr>) = Some (Inr (i, s2))"
    "i < 2 ^ HPDCACHE_REQ_TRANS_ID_WIDTH c" "wf_ids c s2" "ids s2 = ids ?s @ [i]"
    using allocate_id_spec [OF wfp, of "ch_rand ch"] by auto
  have s2: "transaction_pool s2 = p" "transaction_fifo s2 = transaction_fifo s"
    using i(1) ak by (auto simp: allocate_id_def split: if_splits)
  obtain r where r: "build i req_new = Inr r" "P r" "req_tid r = i" using assms(3) [OF i(2)] by blast
  let ?s3 = "send_transaction t (write_object t r s2)"
  have c: "create_transaction c build ch s = returns (t, write_object t r s2)"
    using av ak t i(1) r(1) s2(1)
    by (simp add: create_transaction_def Let_def returns_def continue_def)
  have obj: "heap (transaction_pool (write_object t r s2)) ! t = r"
    using t(3) s2(1) by (simp add: write_object_def)
  have "send_new c build ch s = returns (r, ?s3)"
    unfolding send_new_def c using obj by simp
  moreover have "wf_pool {t} (transaction_pool (write_object t r s2))"
    using t(2) s2(1) by (simp add: write_object_def wf_pool_heap)
  then have "wf_pool {} (transaction_pool ?s3)"
    using release_transaction_ok [of "{t}" _ t] by (simp add: send_transaction_def)
  moreover have "wf_ids c ?s3" "ids ?s3 = ids s2"
    using i(3) by (simp_all add: send_transaction_def write_object_def wf_ids_def)
  moreover have "transaction_fifo ?s3 = transaction_fifo s @ [r]"
    using obj s2(2) by (simp add: send_transaction_def) (simp add: write_object_def)
  ultimately show ?thesis
    using r(2,3) i(4) by (auto simp: sends_def seq_inv_def)
qed

lemma sends_refl: "seq_inv c s \<Longrightarrow> sends c P 0 0 s s"
  by (simp add: sends_def)

lemma sends_inv: "sends c P l h s s' \<Longrightarrow> seq_inv c s'"
  by (simp add: sends_def)

text \<open>A loop each of whose rounds sends between \<open>l\<close> and \<open>h\<close> transactions.\<close>

lemma run_fold_sends:
  assumes "seq_inv c s" and "\<And>i s. i \<in> set is \<Longrightarrow> seq_inv c s \<Longrightarrow> \<exists>s'. f i s = returns s' \<and> sends c P l h s s'"
  shows "\<exists>s'. run_fold f is s = returns s' \<and> sends c P (length is * l) (length is * h) s s'"
  using assms
proof (induction "is" arbitrary: s)
  case Nil
  then show ?case by (simp add: sends_refl)
next
  case (Cons i "is")
  obtain s1 where s1: "f i s = returns s1" "sends c P l h s s1"
    using Cons.prems by fastforce
  obtain s2 where s2: "run_fold f is s1 = returns s2"
    "sends c P (length is * l) (length is * h) s1 s2"
    using Cons.IH [OF sends_inv [OF s1(2)]] Cons.prems(2) by fastforce
  show ?case using s1(1) s2(1) sends_trans [OF s1(2) s2(2)] by simp
qed

section \<open>Sources of requests\<close>

text \<open>Draws that are possible, while the scoreboard gives identifiers back.\<close>

definition plays :: "cfg \<Rightarrow> (choice \<Rightarrow> bool) \<Rightarrow> choice \<Rightarrow> bool" where
  "plays c ok ch \<longleftrightarrow> ok ch \<and> responsive c (ch_acks ch)"

definition plays_round :: "cfg \<Rightarrow> (choice \<Rightarrow> bool) \<Rightarrow> round \<Rightarrow> bool" where
  "plays_round c ok rd \<longleftrightarrow> plays c ok (rd_main rd) \<and> (\<forall>i. plays c ok (rd_between rd i)) \<and> plays c ok (rd_sc rd)"

text \<open>
  The interface of the loops to the code that makes up the requests: for every draw that is
  possible the builder succeeds on a new object with a good request that carries the
  identifier it was given.
\<close>

locale request_source =
  fixes c :: cfg
    and mk :: "choice \<Rightarrow> nat \<Rightarrow> req \<Rightarrow> req outcome"
    and ok :: "choice \<Rightarrow> bool"
    and good :: "req \<Rightarrow> bool"
  assumes mk_ok: "ok ch \<Longrightarrow> i < 2 ^ HPDCACHE_REQ_TRANS_ID_WIDTH c \<Longrightarrow>
      \<exists>r. mk ch i req_new = Inr r \<and> good r \<and> req_tid r = i"
begin

lemma one_ok:
  assumes "seq_inv c s" and "plays c ok ch"
  shows "\<exists>r s'. send_new c (mk ch) ch s = returns (r, s') \<and> good r \<and> sends c good 1 1 s s'"
proof -
  have "\<exists>r s'. send_new c (mk ch) ch s = returns (r, s') \<and> good r \<and> sends c good 1 1 s s'
     \<and> req_tid r \<in> set (ids s')"
    by (rule send_new_ok [OF assms(1)]) (use assms(2) mk_ok in \<open>auto simp: plays_def\<close>)
  then show ?thesis by blast
qed

lemma plain_ok:
  assumes "seq_inv c s" and "\<And>n. plays c ok (chs n)"
  shows "\<exists>s'. run_fold (\<lambda>n s. continue (send_new c (mk (chs n)) (chs n) s) (\<lambda>(r, s). returns s)) [0..<m] s
       = returns s' \<and> sends c good m m s s'"
proof -
  have "\<exists>s'. run_fold (\<lambda>n s. continue (send_new c (mk (chs n)) (chs n) s) (\<lambda>(r, s). returns s)) [0..<m] s
       = returns s' \<and> sends c good (length [0..<m] * 1) (length [0..<m] * 1) s s'"
  proof (rule run_fold_sends [OF assms(1)])
    fix n s
    assume "seq_inv c s"
    then show "\<exists>s'. continue (send_new c (mk (chs n)) (chs n) s) (\<lambda>(r, s). returns s) = returns s'
        \<and> sends c good 1 1 s s'"
      using one_ok [OF _ assms(2) [of n]] by fastforce
  qed
  then show ?thesis by simp
qed

end

locale lrsc_source = request_source +
  assumes sc_ok: "ok ch \<Longrightarrow> good lr \<Longrightarrow> i < 2 ^ HPDCACHE_REQ_TRANS_ID_WIDTH c \<Longrightarrow>
      \<exists>r. sc_request c lr ch i req_new = Inr r \<and> good r \<and> req_tid r = i"
begin

lemma round_ok:
  assumes "seq_inv c s" and "plays_round c ok rd"
  shows "\<exists>s'. random_round c mk k rd s = returns s' \<and> sends c good 1 (k + 2) s s'"
proof -
  have p: "plays c ok (rd_main rd)" "\<And>i. plays c ok (rd_between rd i)" "plays c ok (rd_sc rd)"
    using assms(2) by (simp_all add: plays_round_def)
  obtain lr s1 where s1: "send_new c (mk (rd_main rd)) (rd_main rd) s = returns (lr, s1)" "good lr"
    "sends c good 1 1 s s1"
    using one_ok [OF assms(1) p(1)] by blast
  show ?thesis
  proof (cases "is_amo_lr lr \<and> rd_sc_do rd")
    case False
    then have "random_round c mk k rd s = returns s1" using s1(1) by (auto simp: random_round_def)
    then show ?thesis using sends_weaken [OF s1(3)] by fastforce
  next
    case True
    obtain s2 where s2: "run_fold (\<lambda>i s. continue (send_new c (mk (rd_between rd i)) (rd_between rd i) s)
          (\<lambda>(r, s). returns s)) [0..<k] s1 = returns s2" "sends c good k k s1 s2"
      using plain_ok [OF sends_inv [OF s1(3)], of "rd_between rd" k] p(2) by blast
    have "\<exists>r s'. send_new c (sc_request c lr (rd_sc rd)) (rd_sc rd) s2 = returns (r, s') \<and> good r
       \<and> sends c good 1 1 s2 s' \<and> req_tid r \<in> set (ids s')"
      by (rule send_new_ok [OF sends_inv [OF s2(2)]])
        (use p(3) sc_ok s1(2) in \<open>auto simp: plays_def\<close>)
    then obtain r s3 where s3: "send_new c (sc_request c lr (rd_sc rd)) (rd_sc rd) s2 = returns (r, s3)"
      "sends c good 1 1 s2 s3" by blast
    have "random_round c mk k rd s = returns s3"
      using True s1(1) s2(1) s3(1) by (simp add: random_round_def)
    moreover have "sends c good (1 + k + 1) (1 + k + 1) s s3"
      by (rule sends_trans [OF sends_trans [OF s1(3) s2(2)] s3(2)])
    then have "sends c good 1 (k + 2) s s3" by (rule sends_weaken) simp_all
    ultimately show ?thesis by blast
  qed
qed

lemma rounds_ok:
  assumes "seq_inv c s" and "\<And>n. plays_round c ok (rds n)"
  shows "\<exists>s'. run_fold (\<lambda>n. random_round c mk k (rds n)) [0..<m] s = returns s'
     \<and> sends c good m (m * (k + 2)) s s'"
proof -
  have "\<exists>s'. run_fold (\<lambda>n. random_round c mk k (rds n)) [0..<m] s = returns s'
     \<and> sends c good (length [0..<m] * 1) (length [0..<m] * (k + 2)) s s'"
    by (rule run_fold_sends [OF assms(1)]) (rule round_ok [OF _ assms(2)])
  then show ?thesis by simp
qed

end

section \<open>The sequences as sources\<close>

definition random_ok :: "cfg \<Rightarrow> build_options \<Rightarrow> choice \<Rightarrow> bool" where
  "random_ok c b ch \<longleftrightarrow> (\<exists>k. seq_cfg c k) \<and> possible (random_params c b) ch"

definition one_set_ok :: "cfg \<Rightarrow> nat \<Rightarrow> choice \<Rightarrow> bool" where
  "one_set_ok c st ch \<longleftrightarrow> (\<exists>k. seq_cfg c k) \<and> st < HPDCACHE_SETS c \<and> possible (unique_set_params c) ch"

definition fixed_ok :: "cfg \<Rightarrow> choice \<Rightarrow> bool" where
  "fixed_ok c ch \<longleftrightarrow> (\<exists>k. seq_cfg c k \<and> 3 \<le> k) \<and> ch_size ch \<le> snd (fixed_size_range False)"

lemma possible_size:
  "seq_cfg c k \<Longrightarrow> possible (random_params c b) ch \<Longrightarrow> ch_size ch \<le> k"
  "seq_cfg c k \<Longrightarrow> possible (unique_set_params c) ch \<Longrightarrow> ch_size ch \<le> k"
  by (simp_all add: possible_def random_params_def unique_set_params_def seq_cfg_facts(2))

interpretation rnd: lrsc_source c "random_request c (random_params c b)" "random_ok c b"
  "random_good c (random_segments c True)" for c b
proof
  fix ch and i :: nat
  assume "random_ok c b ch" and "i < 2 ^ HPDCACHE_REQ_TRANS_ID_WIDTH c"
  then show "\<exists>r. random_request c (random_params c b) ch i req_new = Inr r
      \<and> random_good c (random_segments c True) r \<and> req_tid r = i"
    using random_request_ok by (auto simp: random_ok_def)
next
  fix ch lr and i :: nat
  assume a: "random_ok c b ch" "random_good c (random_segments c True) lr"
    "i < 2 ^ HPDCACHE_REQ_TRANS_ID_WIDTH c"
  then obtain k where k: "seq_cfg c k" "possible (random_params c b) ch" by (auto simp: random_ok_def)
  have "32 \<le> HPDCACHE_PA_WIDTH c" using k(1) by (simp add: seq_cfg_def)
  then show "\<exists>r. sc_request c lr ch i req_new = Inr r \<and> random_good c (random_segments c True) r
      \<and> req_tid r = i"
    using sc_random_ok [OF k(1) a(2) random_segments_ok possible_size(1) [OF k] a(3)] by blast
qed

interpretation uset: lrsc_source c "unique_set_request c (unique_set_params c) st" "one_set_ok c st"
  "one_set_good c st" for c st
proof
  fix ch and i :: nat
  assume "one_set_ok c st ch" and "i < 2 ^ HPDCACHE_REQ_TRANS_ID_WIDTH c"
  then show "\<exists>r. unique_set_request c (unique_set_params c) st ch i req_new = Inr r
      \<and> one_set_good c st r \<and> req_tid r = i"
    using unique_set_request_ok by (auto simp: one_set_ok_def)
next
  fix ch lr and i :: nat
  assume a: "one_set_ok c st ch" "one_set_good c st lr" "i < 2 ^ HPDCACHE_REQ_TRANS_ID_WIDTH c"
  then obtain k where k: "seq_cfg c k" "possible (unique_set_params c) ch" by (auto simp: one_set_ok_def)
  show "\<exists>r. sc_request c lr ch i req_new = Inr r \<and> one_set_good c st r \<and> req_tid r = i"
    by (rule sc_one_set_ok [OF k(1) a(2) possible_size(2) [OF k] a(3)])
qed

definition load_good :: "cfg \<Rightarrow> req \<Rightarrow> bool" where
  "load_good c r \<longleftrightarrow> stimulus c r \<and> is_load r \<and> in_segment (read_segment c) (req_addr r)"

definition store_good :: "cfg \<Rightarrow> req \<Rightarrow> bool" where
  "store_good c r \<longleftrightarrow> stimulus c r \<and> is_store r \<and> in_segment (write_segment c) (req_addr r)"

interpretation rseq: request_source c "read_request c" "fixed_ok c" "load_good c" for c
  by unfold_locales (auto simp: fixed_ok_def load_good_def fixed_size_range_def dest: fixed_request_ok(1))

interpretation wseq: request_source c "write_request c" "fixed_ok c" "store_good c" for c
  by unfold_locales (auto simp: fixed_ok_def store_good_def fixed_size_range_def dest: fixed_request_ok(2))

section \<open>A source to try the properties on\<close>

definition ex_choice :: choice where
  "ex_choice = \<lparr>ch_acks = take 1, ch_rand = 7, ch_seg = 0, ch_addr = 0x1234, ch_op = HPDCACHE_REQ_LOAD,
     ch_op_amo = HPDCACHE_REQ_AMO_LR, ch_wdata = 5, ch_wr_policy = HPDCACHE_WR_POLICY_AUTO, ch_size = 3,
     ch_need_rsp = True, ch_fault = False, ch_fault_way = 0, ch_fault_domain = CACHE_DAT,
     ch_fault_double = False\<rparr>"

definition ex_round :: round where
  "ex_round = \<lparr>rd_main = ex_choice, rd_sc_do = True, rd_between = (\<lambda>i. ex_choice), rd_sc = ex_choice\<rparr>"

definition ex_build :: build_options where
  "ex_build = \<lparr>TEST_FAULT_INJ = False, TEST_FAULT_INJ_DIR = False, TEST_DOUBLE_FAULT_INJ = False\<rparr>"

lemma seq_cfg_default: "seq_cfg default_cfg 3"
  by (simp add: seq_cfg_def wf_default_cfg)
    (simp add: default_cfg_def derived_widths HPDCACHE_TEST_DEFS_LOG2_def)

lemma ex_responsive: "responsive c (take 1)"
proof -
  have "is_available_id c (acknowledge (take 1) s)" if wf: "wf_ids c s" for s
  proof (cases "ids s")
    case Nil
    then show ?thesis by (simp add: acknowledge_def is_available_id_def MAX_TRANS_ID)
  next
    case (Cons i "is")
    have "length (ids s) \<le> 2 ^ HPDCACHE_REQ_TRANS_ID_WIDTH c"
      using wf card_mono [of "{..<2 ^ HPDCACHE_REQ_TRANS_ID_WIDTH c}" "set (ids s)"]
      by (simp add: wf_ids_def MAX_TRANS_ID distinct_card)
    then show ?thesis
      using Cons by (simp add: acknowledge_def deallocate_id_def is_available_id_def MAX_TRANS_ID)
  qed
  then show ?thesis by (simp add: responsive_def)
qed

lemma ex_plays:
  "plays_round default_cfg (random_ok default_cfg ex_build) ex_round"
  "plays_round default_cfg (one_set_ok default_cfg 5) ex_round"
  "plays default_cfg (fixed_ok default_cfg) ex_choice"
proof -
  have a: "ch_acks ex_choice = take 1" by (simp add: ex_choice_def)
  have lg: "LOG2_REQ_DATA_BYTES default_cfg = 3" by (rule seq_cfg_facts(2) [OF seq_cfg_default])
  have "possible (random_params default_cfg ex_build) ex_choice"
    "possible (unique_set_params default_cfg) ex_choice"
    by (simp_all add: possible_def random_params_def unique_set_params_def lg ex_choice_def ex_build_def
        drawn_def drawn_between_def random_op_distribution_def random_op_amo_distribution_def
        unique_set_op_amo_distribution_def amo_op_weights_def)
  moreover have "5 < HPDCACHE_SETS default_cfg" by (simp add: default_cfg_def)
  ultimately show "plays_round default_cfg (random_ok default_cfg ex_build) ex_round"
    "plays_round default_cfg (one_set_ok default_cfg 5) ex_round"
    using seq_cfg_default ex_responsive
    by (auto simp: plays_round_def plays_def random_ok_def one_set_ok_def ex_round_def a)
  show "plays default_cfg (fixed_ok default_cfg) ex_choice"
    using seq_cfg_default ex_responsive
    by (auto simp: plays_def fixed_ok_def a fixed_size_range_def ex_choice_def)
qed

lemma seq_inv_new: "seq_inv c (seq_new n\<lparr>max_transactions := m\<rparr>)"
  by (simp add: seq_inv_def seq_new_def wf_ids_def wf_pool_new)

section \<open>Properties\<close>

text \<open>
  C15: The random sequence comes to its end. With possible draws, and as long as an identifier comes
  back whenever the sequence waits for one, its run returns, with its objects back in the pool
  and the identifiers consistent, after sending at least as many transactions as asked for and
  no more than a load-reserved with its pair adds; every one of them is a request of the cache:
  its fields fit the bus, its access is naturally aligned inside one of the segments and enables
  exactly its bytes.
\<close>

theorem random_sequence_completes:
  assumes "seq_inv c s" and "\<forall>n. plays_round c (random_ok c b) (rds n)"
  shows "\<exists>s' ts. random_run c b k rds s = returns s' \<and> seq_inv c s'
     \<and> transaction_fifo s' = transaction_fifo s @ ts
     \<and> max_transactions s \<le> length ts \<and> length ts \<le> max_transactions s * (k + 2)
     \<and> (\<forall>t \<in> set ts. stimulus c t \<and> (\<exists>seg \<in> set (random_segments c True). in_segment seg (req_addr t)))"
  using rnd.rounds_ok [OF assms(1), of b rds k "max_transactions s"] assms(2)
  by (auto simp: random_run_def sends_def random_good_def)

theorem random_sequence_completes_witness:
  "\<exists>s' ts. random_run default_cfg ex_build 2 (\<lambda>n. ex_round) (seq_new ''random''\<lparr>max_transactions := 4\<rparr>)
       = returns s'
     \<and> transaction_fifo s' = transaction_fifo (seq_new ''random''\<lparr>max_transactions := 4\<rparr>) @ ts
     \<and> 4 \<le> length ts \<and> length ts \<le> 16"
  using random_sequence_completes [OF seq_inv_new [of default_cfg 4 "''random''"], of ex_build
      "\<lambda>n. ex_round" 2] ex_plays(1) by fastforce

text \<open>
  C16: The sequence on one set: its run also comes to its end, and every transaction it sends,
  store-conditionals included, falls in the set of the cache that it drew.
\<close>

theorem unique_set_sequence_completes:
  assumes "seq_inv c s" and "\<forall>n. plays_round c (one_set_ok c (r mod HPDCACHE_SETS c)) (rds n)"
  shows "\<exists>s' ts. unique_set_run c r k rds s = returns s' \<and> seq_inv c s'
     \<and> transaction_fifo s' = transaction_fifo s @ ts
     \<and> max_transactions s \<le> length ts \<and> length ts \<le> max_transactions s * (k + 2)
     \<and> (\<forall>t \<in> set ts. stimulus c t \<and> unat (get_cache_set c t) = r mod HPDCACHE_SETS c)"
  using uset.rounds_ok [OF assms(1), of "r mod HPDCACHE_SETS c" rds k "max_transactions s"] assms(2)
  by (auto simp: unique_set_run_def sends_def one_set_good_def)

theorem unique_set_sequence_completes_witness:
  "\<exists>s' ts. unique_set_run default_cfg 69 1 (\<lambda>n. ex_round) (seq_new ''u''\<lparr>max_transactions := 3\<rparr>)
       = returns s' \<and> 3 \<le> length ts
     \<and> transaction_fifo s' = transaction_fifo (seq_new ''u''\<lparr>max_transactions := 3\<rparr>) @ ts
     \<and> (\<forall>t \<in> set ts. unat (get_cache_set default_cfg t) = 5)"
proof -
  have "69 mod HPDCACHE_SETS default_cfg = 5" by (simp add: default_cfg_def)
  then show ?thesis
    using unique_set_sequence_completes [OF seq_inv_new [of default_cfg 3 "''u''"], of 69
        "\<lambda>n. ex_round" 1] ex_plays(2) by fastforce
qed

text \<open>
  The read and the write sequence send exactly the number of transactions asked for, all of
  them well-formed loads, or stores, of their segment; with a data bus of 8 bytes or more.
\<close>

theorem read_write_sequences_complete:
  assumes "seq_inv c s" and "\<forall>n. plays c (fixed_ok c) (chs n)"
  shows "(\<exists>s' ts. read_run c chs s = returns s' \<and> transaction_fifo s' = transaction_fifo s @ ts
       \<and> length ts = max_transactions s
       \<and> (\<forall>t \<in> set ts. stimulus c t \<and> is_load t \<and> in_segment (read_segment c) (req_addr t)))
     \<and> (\<exists>s' ts. write_run c chs s = returns s' \<and> transaction_fifo s' = transaction_fifo s @ ts
       \<and> length ts = max_transactions s
       \<and> (\<forall>t \<in> set ts. stimulus c t \<and> is_store t \<and> in_segment (write_segment c) (req_addr t)))"
  using rseq.plain_ok [OF assms(1), of chs "max_transactions s"]
    wseq.plain_ok [OF assms(1), of chs "max_transactions s"] assms(2)
  by (auto simp: read_run_def write_run_def sends_def load_good_def store_good_def)

theorem read_write_sequences_complete_witness:
  "\<exists>s' ts. read_run default_cfg (\<lambda>n. ex_choice) (seq_new ''read''\<lparr>max_transactions := 9\<rparr>) = returns s'
     \<and> transaction_fifo s' = transaction_fifo (seq_new ''read''\<lparr>max_transactions := 9\<rparr>) @ ts
     \<and> length ts = 9 \<and> (\<forall>t \<in> set ts. is_load t)"
  using read_write_sequences_complete [OF seq_inv_new [of default_cfg 9 "''read''"], of "\<lambda>n. ex_choice"]
    ex_plays(3) by fastforce

text \<open>
  The segment that the sequence on one set leaves at its defaults: a request to its third
  segment never carries an atomic operation nor the write-through hint, although the settings
  written for that segment ask for both.
\<close>

theorem unique_set_third_segment:
  assumes "possible (unique_set_params c) ch" and "ch_seg ch = 2"
    and "unique_set_request c (unique_set_params c) st ch tid t = Inr r"
  shows "\<not> req_is_amo r \<and> req_wr_policy_hint r = HPDCACHE_WR_POLICY_AUTO"
proof -
  let ?seg = "make_segment c 0x80008000 0x00004000 False memory_segment_new"
  let ?h = "random_head c ?seg ch tid t"
  have seg: "su_segs (unique_set_params c) ! 2 = ?seg" "length (su_segs (unique_set_params c)) = 4"
    by (simp_all add: unique_set_params_def unique_set_segments_def)
  have "\<not> seg_amo_supported ?seg" "seg_wr_policy_hint ?seg = WR_POLICY_AUTO"
    by (simp_all add: make_segment_def set_base_def set_length_def set_uncached_def memory_segment_new_def)
  then have h: "req_op ?h = op_code (ch_op ch)" "req_wr_policy_hint ?h = HPDCACHE_WR_POLICY_AUTO"
    by (simp_all add: random_head_def select_random_wr_policy_def)
  have "drawn random_op_distribution (ch_op ch)"
    using assms(1) by (simp add: possible_def unique_set_params_def)
  then have "\<not> amo_op (op_code (ch_op ch))"
    by (auto simp: drawn_def random_op_distribution_def amo_op_def req_is_amo_def op_class_defs)
  moreover have "req_op r = req_op ?h \<and> req_wr_policy_hint r = req_wr_policy_hint ?h"
    using assms(2,3)
    by (auto simp: unique_set_request_def Let_def seg set_cmo_def set_access_def andthen_Inr_iff
        split: if_splits)
  ultimately show ?thesis using h by (simp add: class_ops)
qed

theorem unique_set_third_segment_witness:
  "\<exists>r. unique_set_request default_cfg (unique_set_params default_cfg) 5 (ex_choice\<lparr>ch_seg := 2\<rparr>) 1 req_new = Inr r
     \<and> \<not> is_amo_lr r"
proof -
  have lg: "LOG2_REQ_DATA_BYTES default_cfg = 3" by (rule seq_cfg_facts(2) [OF seq_cfg_default])
  have p: "possible (unique_set_params default_cfg) (ex_choice\<lparr>ch_seg := 2\<rparr>)"
    by (simp add: possible_def unique_set_params_def lg ex_choice_def drawn_def drawn_between_def
        random_op_distribution_def unique_set_op_amo_distribution_def amo_op_weights_def)
  have "5 < HPDCACHE_SETS default_cfg" "1 < (2 :: nat) ^ HPDCACHE_REQ_TRANS_ID_WIDTH default_cfg"
    by (simp_all add: default_cfg_def)
  then obtain r where r: "unique_set_request default_cfg (unique_set_params default_cfg) 5
      (ex_choice\<lparr>ch_seg := 2\<rparr>) 1 req_new = Inr r"
    using unique_set_request_ok [OF seq_cfg_default p] by blast
  have "\<not> req_is_amo r" using unique_set_third_segment [OF p _ r] by simp
  then show ?thesis using r by (simp add: req_is_amo_def)
qed

section \<open>The sequence from a trace\<close>

lemma read_transaction_fields:
  assumes "read_transaction c inflate z0 junk t r = returns ((delay, q), r')"
  shows "req_be q = req_be t \<and> req_tid q = req_tid t"
  using assms
  by (auto simp: read_transaction_def read_boolean_and_type_def read_value_def
      continue_returns_iff split: if_splits prod.splits)

lemma send_object_ok:
  assumes "wf_pool {t} p" and "t < length (heap p)" and "wf_ids c s" and "transaction_pool s = p"
  shows "seq_inv c (send_transaction t (write_object t q s))
     \<and> transaction_fifo (send_transaction t (write_object t q s)) = transaction_fifo s @ [q]"
proof -
  have "wf_pool {t} (transaction_pool (write_object t q s))"
    using assms(1,4) by (simp add: write_object_def wf_pool_heap)
  then have "wf_pool {} (transaction_pool (send_transaction t (write_object t q s)))"
    using release_transaction_ok [of "{t}" _ t] by (simp add: send_transaction_def)
  then show ?thesis
    using assms(2,3,4) by (simp add: seq_inv_def wf_ids_def send_transaction_def write_object_def)
qed

text \<open>One round of the loop that does not stop or wait: the request is built in a new object.\<close>

lemma from_trace_step:
  assumes "seq_inv c s" and "\<not> is_finish r" and "is_available_id c (acknowledge (acks n) s)"
  shows "\<exists>i next. from_trace_loop c inflate z0 acks rnd junk (Suc n) r s
       = continue (read_transaction c inflate z0 (junk n) (req_new\<lparr>req_tid := i\<rparr>) r)
           (\<lambda>((delay, q), r). from_trace_loop c inflate z0 acks rnd junk n r (next q))
     \<and> (\<forall>q. seq_inv c (next q) \<and> transaction_fifo (next q) = transaction_fifo s @ [q])"
proof -
  have wf: "wf_ids c s" "wf_pool {} (transaction_pool s)"
    using assms(1) by (simp_all add: seq_inv_def)
  let ?s = "acknowledge (acks n) s"
  note ak = acknowledge_keeps [OF wf(1), of "acks n"]
  obtain t p where t: "acquire_transaction (transaction_pool s) = Inr (t, p)" "wf_pool {t} p"
    "t < length (heap p)" "heap p ! t = req_new"
    using acquire_transaction_new [OF wf(2)] by auto
  have wfp: "wf_ids c (?s\<lparr>transaction_pool := p\<rparr>)" using ak by (simp add: wf_ids_def)
  have "length (ids ?s) < 2 ^ HPDCACHE_REQ_TRANS_ID_WIDTH c"
    using assms(3) by (simp add: is_available_id_def MAX_TRANS_ID)
  then obtain i s2 where i: "allocate_id c (rnd n) (?s\<lparr>transaction_pool := p\<rparr>) = Some (Inr (i, s2))"
    "wf_ids c s2"
    using allocate_id_spec [OF wfp, of "rnd n"] by auto
  have s2: "transaction_pool s2 = p" "transaction_fifo s2 = transaction_fifo s"
    using i(1) ak by (auto simp: allocate_id_def split: if_splits)
  let ?i = "bv (HPDCACHE_REQ_TRANS_ID_WIDTH c) i"
  let ?next = "\<lambda>q. send_transaction t (write_object t q s2)"
  have "from_trace_loop c inflate z0 acks rnd junk (Suc n) r s
       = continue (read_transaction c inflate z0 (junk n) (req_new\<lparr>req_tid := ?i\<rparr>) r)
           (\<lambda>((delay, q), r). from_trace_loop c inflate z0 acks rnd junk n r (?next q))"
    using assms(2,3) ak t(1,4) i(1) s2(1) by (simp add: Let_def returns_def continue_def)
  moreover have "seq_inv c (?next q) \<and> transaction_fifo (?next q) = transaction_fifo s @ [q]" for q
    using send_object_ok [OF t(2,3) i(2) s2(1)] s2(2) by simp
  ultimately show ?thesis by (intro exI [of _ ?i] exI [of _ ?next]) blast
qed

lemma from_trace_loop_sends:
  assumes "seq_inv c s" and "from_trace_loop c inflate z0 acks rnd junk n r s = returns (r', s')"
  shows "sends c (\<lambda>t. req_be t = 0) 0 n s s'"
  using assms
proof (induction n arbitrary: r s)
  case 0
  then show ?case by (simp add: sends_refl)
next
  case (Suc n)
  show ?case
  proof (cases "is_finish r")
    case True
    then have "s' = s" using Suc.prems(2) by simp
    then show ?thesis using sends_refl [OF Suc.prems(1)] sends_weaken by blast
  next
    case False
    have "is_available_id c (acknowledge (acks n) s)"
      using Suc.prems(2) False by (auto simp: Let_def returns_def split: if_splits)
    then obtain i nx where step: "from_trace_loop c inflate z0 acks rnd junk (Suc n) r s
        = continue (read_transaction c inflate z0 (junk n) (req_new\<lparr>req_tid := i\<rparr>) r)
            (\<lambda>((delay, q), r). from_trace_loop c inflate z0 acks rnd junk n r (nx q))"
      and nx: "\<And>q. seq_inv c (nx q) \<and> transaction_fifo (nx q) = transaction_fifo s @ [q]"
      using from_trace_step [OF Suc.prems(1) False] by meson
    obtain d q r1 where q: "read_transaction c inflate z0 (junk n) (req_new\<lparr>req_tid := i\<rparr>) r
          = returns ((d, q), r1)"
      and rec: "from_trace_loop c inflate z0 acks rnd junk n r1 (nx q) = returns (r', s')"
      using Suc.prems(2) unfolding step by (auto simp: continue_returns_iff split: prod.splits)
    have be: "req_be q = 0" using read_transaction_fields [OF q] by (simp add: req_new_def)
    have "sends c (\<lambda>t. req_be t = 0) 1 1 s (nx q)" using nx [of q] be by (simp add: sends_def)
    moreover have "sends c (\<lambda>t. req_be t = 0) 0 n (nx q) s'"
      by (rule Suc.IH [OF _ rec]) (use nx in blast)
    ultimately have "sends c (\<lambda>t. req_be t = 0) (1 + 0) (1 + n) s s'" by (rule sends_trans)
    then show ?thesis by (rule sends_weaken) simp_all
  qed
qed

end
