(* ===== verification/Qemu_Plugin.thy ===== *)
theory Qemu_Plugin
  imports Trace
begin

text \<open>
  \<open>rtl/tb/qemu_plugin/qemu_plugin.c\<close>: the plugin that records the memory accesses of a program
  run by QEMU. The compressor \<open>mz_deflate\<close> is the argument \<open>deflate\<close> and \<open>z0\<close> the state that
  \<open>mz_deflateInit\<close> sets up; what QEMU tells about an access is a record. The file is the list of
  the bytes written, and writing to it is taken to succeed.
\<close>

section \<open>State\<close>

datatype mode_write = WRITE_BINARY | WRITE_ASCII | NO_WRITE

datatype flush = MZ_NO_FLUSH | MZ_FINISH

record 'z deflate_result =
  dr_status :: mz_status
  dr_consumed :: nat
  dr_output :: "u8 list"
  dr_stream :: 'z

type_synonym 'z deflate = "'z \<Rightarrow> flush \<Rightarrow> u8 list \<Rightarrow> nat \<Rightarrow> 'z deflate_result"

datatype mem_value = U8 u8 | U16 u16 | U32 u32 | U64 u64 | U128

record 'z plugin =
  mode :: mode_write
  is_64_bits :: bool
  buffer_compress :: "u8 list"
  need_to_compress :: bool
  write_data :: bool
  out_file :: "u8 list option"
  zstream :: "'z option"
  current_instruction :: nat

text \<open>
  \<open>buffer_compress\<close> holds the first \<open>buffer_begin\<close> bytes of the array, so \<open>buffer_begin\<close> is its
  length. \<open>out_file\<close> is \<open>None\<close> before \<open>open_file\<close>: the descriptor is then 0. The counter of
  instructions is an \<open>int\<close>; as a natural number it agrees below \<open>2 ^ 31\<close>.
\<close>

abbreviation buffer_begin :: "'z plugin \<Rightarrow> nat" where
  "buffer_begin p \<equiv> length (buffer_compress p)"

definition SIZE_BUFFER :: nat where "SIZE_BUFFER = 5000"

definition plugin_new :: "'z plugin" where
  "plugin_new = \<lparr>mode = WRITE_BINARY, is_64_bits = False, buffer_compress = [],
     need_to_compress = True, write_data = True, out_file = None, zstream = None,
     current_instruction = 0\<rparr>"

definition put_file :: "u8 list \<Rightarrow> 'z plugin \<Rightarrow> 'z plugin" where
  "put_file bs p = p\<lparr>out_file := map_option (\<lambda>f. f @ bs) (out_file p)\<rparr>"

section \<open>Compression\<close>

text \<open>
  The inner \<open>do \<dots> while (stream->avail_out <= 0)\<close>, with room for \<open>cap\<close> bytes in each round; \<open>cap\<close>
  is both \<open>buffer_size\<close> and \<open>buffer_begin\<close>.
\<close>

partial_function (option) deflate_chunk ::
  "'z deflate \<Rightarrow> flush \<Rightarrow> nat \<Rightarrow> u8 list \<Rightarrow> 'z \<Rightarrow> 'z plugin \<Rightarrow> ('z \<times> 'z plugin) run" where
  "deflate_chunk deflate fl cap inp z p =
     (let res = deflate z fl inp cap
      in if dr_status res = MZ_STREAM_ERROR then faults Process_exit
         else
           (let p = put_file (dr_output res) p
            in if cap - length (dr_output res) = 0
               then deflate_chunk deflate fl cap (drop (dr_consumed res) inp) (dr_stream res) p
               else returns (dr_stream res, p)))"

text \<open>
  The outer loop \<open>while (offset < buffer_begin - 1)\<close>: \<open>offset\<close> is unsigned, so \<open>buffer_begin - 1\<close>
  is converted to a 64-bit unsigned number and is the largest one when \<open>buffer_begin\<close> is 0.
\<close>

definition loop_bound :: "nat \<Rightarrow> nat" where
  "loop_bound n = (if n = 0 then 2 ^ 64 - 1 else n - 1)"

partial_function (option) compress_loop ::
  "'z deflate \<Rightarrow> flush \<Rightarrow> u8 list \<Rightarrow> nat \<Rightarrow> 'z \<Rightarrow> 'z plugin \<Rightarrow> ('z \<times> 'z plugin) run" where
  "compress_loop deflate fl data offset z p =
     (let n = length data
      in if offset < loop_bound n then
           (let chunk_size = (if n - offset \<ge> n then n else n - offset)
            in case deflate_chunk deflate fl n (take chunk_size (drop offset data)) z p of
                 None \<Rightarrow> None
               | Some (Inl e) \<Rightarrow> faults e
               | Some (Inr (z, p)) \<Rightarrow> compress_loop deflate fl data (offset + chunk_size) z p)
         else returns (z, p))"

definition compress_data_to_file ::
  "'z deflate \<Rightarrow> 'z \<Rightarrow> flush \<Rightarrow> 'z plugin \<Rightarrow> 'z plugin run" where
  "compress_data_to_file deflate z0 last_call p =
     (let z = (case zstream p of None \<Rightarrow> z0 | Some z \<Rightarrow> z)
      in continue (compress_loop deflate last_call (buffer_compress p) 0 z p)
           (\<lambda>(z, p). returns (p\<lparr>zstream := Some z\<rparr>)))"

definition put_byte :: "'z deflate \<Rightarrow> 'z \<Rightarrow> u8 \<Rightarrow> 'z plugin \<Rightarrow> 'z plugin run" where
  "put_byte deflate z0 b p =
     (let p = p\<lparr>buffer_compress := buffer_compress p @ [b]\<rparr>
      in if buffer_begin p = SIZE_BUFFER then
           continue (compress_data_to_file deflate z0 MZ_NO_FLUSH p)
             (\<lambda>p. returns (p\<lparr>buffer_compress := []\<rparr>))
         else returns p)"

primrec put_each_byte :: "'z deflate \<Rightarrow> 'z \<Rightarrow> u8 list \<Rightarrow> 'z plugin \<Rightarrow> 'z plugin run" where
  "put_each_byte deflate z0 [] p = returns p"
| "put_each_byte deflate z0 (b # bs) p = continue (put_byte deflate z0 b p) (put_each_byte deflate z0 bs)"

definition write_buffer :: "'z deflate \<Rightarrow> 'z \<Rightarrow> u8 list \<Rightarrow> 'z plugin \<Rightarrow> 'z plugin run" where
  "write_buffer deflate z0 data p =
     (if need_to_compress p then put_each_byte deflate z0 data p else returns (put_file data p))"

section \<open>One access\<close>

definition set_mode :: "string \<Rightarrow> 'z plugin \<Rightarrow> 'z plugin outcome" where
  "set_mode arg p =
     (if arg = ''0'' then Inr (p\<lparr>mode := WRITE_BINARY\<rparr>)
      else if arg = ''1'' then Inr (p\<lparr>mode := WRITE_ASCII\<rparr>)
      else if arg = ''2'' then Inr (p\<lparr>mode := NO_WRITE\<rparr>)
      else Inl Process_exit)"

definition address_bytes :: "bool \<Rightarrow> u64 \<Rightarrow> u8 list" where
  "address_bytes is64 a = (if is64 then le_bytes 8 a else le_bytes 4 a)"

definition type_bytes :: "bool \<Rightarrow> u8 list" where
  "type_bytes st = [if st then 1 else 0]"

definition get_size_value :: "mem_value \<Rightarrow> u8" where
  "get_size_value v = (case v of U8 _ \<Rightarrow> 0 | U16 _ \<Rightarrow> 1 | U32 _ \<Rightarrow> 2 | U64 _ \<Rightarrow> 3 | U128 \<Rightarrow> 4)"

definition size_byte :: "u8 \<Rightarrow> mem_value \<Rightarrow> u8" where
  "size_byte sz v = sz OR push_bit 4 (get_size_value v)"

definition stored_value_bytes :: "mem_value \<Rightarrow> u8 list" where
  "stored_value_bytes v = (case v of U8 x \<Rightarrow> le_bytes 1 (ucast x) | U16 x \<Rightarrow> le_bytes 2 (ucast x)
     | U32 x \<Rightarrow> le_bytes 4 (ucast x) | U64 x \<Rightarrow> le_bytes 8 x | U128 \<Rightarrow> [])"

definition boolean_byte :: "bool \<Rightarrow> u8 \<Rightarrow> u8" where
  "boolean_byte st cacheable =
     (let v = 2; v = (if st then (v OR push_bit 2 1) - 2 else v) in v OR cacheable)"

text \<open>\<open>write_in_file\<close> writes the fields one after the other.\<close>

definition write_in_file ::
  "'z deflate \<Rightarrow> 'z \<Rightarrow> bool \<Rightarrow> u64 \<Rightarrow> u8 \<Rightarrow> u8 \<Rightarrow> mem_value \<Rightarrow> u8 \<Rightarrow> 'z plugin \<Rightarrow> 'z plugin run" where
  "write_in_file deflate z0 st a sz delay v cacheable p =
     continue (write_buffer deflate z0 [delay] p) (\<lambda>p.
     continue (write_buffer deflate z0 (address_bytes (is_64_bits p) a) p) (\<lambda>p.
     continue (write_buffer deflate z0 [size_byte sz v] p) (\<lambda>p.
     continue (write_buffer deflate z0 [boolean_byte st cacheable] p) (\<lambda>p.
     if st then write_buffer deflate z0 (stored_value_bytes v) p else returns p))))"

definition is_device_address :: "u64 \<Rightarrow> bool" where
  "is_device_address a \<longleftrightarrow>
     (0x10000000 \<le> a \<and> a < 0x10000100) \<or> (0x10001000 \<le> a \<and> a < 0x10009000)
     \<or> (0x00100000 \<le> a \<and> a < 0x00102000) \<or> (0x10100000 \<le> a \<and> a < 0x10100018)
     \<or> (0x02000000 \<le> a \<and> a < 0x02010000) \<or> (0x0c000000 \<le> a \<and> a < 0x0c600000)
     \<or> (0x20000000 \<le> a \<and> a < 0x24000000) \<or> (0x30000000 \<le> a \<and> a < 0x40000000)
     \<or> (0x04000000 \<le> a \<and> a < 0x06000000)"

text \<open>
  What the callback receives: the shift of the size, the physical address if QEMU knows one,
  whether it is a store, and the value; \<open>mi_u64\<close> is the value read as \<open>u64\<close> in the union.
\<close>

record mem_info =
  mi_size_shift :: nat
  mi_hwaddr :: "u64 option"
  mi_is_store :: bool
  mi_value :: mem_value
  mi_u64 :: u64

definition string_bytes :: "string \<Rightarrow> u8 list" where
  "string_bytes cs = map of_char cs"

definition pad_right :: "nat \<Rightarrow> string \<Rightarrow> string" where
  "pad_right n cs = cs @ replicate (n - length cs) CHR '' ''"

definition ascii_record :: "nat \<Rightarrow> mem_info \<Rightarrow> u32 \<Rightarrow> u64 \<Rightarrow> string" where
  "ascii_record instrs i vcpu vaddr =
     take 74 (dec_nat instrs @ '' [MEM] '' @ pad_right 5 (if mi_is_store i then ''store'' else ''load'')
       @ '' vcpu='' @ dec_nat (unat vcpu) @ '' addr=0x'' @ hex (unat vaddr)
       @ '' size='' @ dec_nat (mi_size_shift i) @ '' value='' @ dec_nat (unat (mi_u64 i)) @ [CHR 0x0A])"

definition mem_cb ::
  "'z deflate \<Rightarrow> 'z \<Rightarrow> u32 \<Rightarrow> mem_info \<Rightarrow> u64 \<Rightarrow> 'z plugin \<Rightarrow> 'z plugin run" where
  "mem_cb deflate z0 vcpu i vaddr p =
     (let vaddr = (case mi_hwaddr i of Some a \<Rightarrow> a | None \<Rightarrow> vaddr);
          uncacheable = (if mi_hwaddr i \<noteq> None \<and> is_device_address vaddr then 1 else 0)
      in if \<not> write_data p then returns p
         else continue
           (case mode p of
              WRITE_BINARY \<Rightarrow>
                write_in_file deflate z0 (mi_is_store i) vaddr (word_of_nat (mi_size_shift i))
                  (word_of_nat (current_instruction p)) (mi_value i) uncacheable p
            | WRITE_ASCII \<Rightarrow>
                write_buffer deflate z0 (string_bytes (ascii_record (current_instruction p) i vcpu vaddr)) p
            | NO_WRITE \<Rightarrow> returns p)
           (\<lambda>p. returns (p\<lparr>current_instruction := 0\<rparr>)))"

definition counter_inst :: "'z plugin \<Rightarrow> 'z plugin" where
  "counter_inst p = p\<lparr>current_instruction := current_instruction p + 1\<rparr>"

section \<open>Installation and exit\<close>

definition plugin_exit :: "'z deflate \<Rightarrow> 'z \<Rightarrow> 'z plugin \<Rightarrow> 'z plugin run" where
  "plugin_exit deflate z0 p =
     (if need_to_compress p then compress_data_to_file deflate z0 MZ_FINISH p else returns p)"

text \<open>\<open>g_strsplit (opt, "=", 2)\<close>: the part before the first sign, and the rest if there is one.\<close>

fun split_option :: "string \<Rightarrow> string \<times> string option" where
  "split_option [] = ([], None)"
| "split_option (ch # cs) =
     (if ch = CHR ''='' then ([], Some cs)
      else case split_option cs of (k, v) \<Rightarrow> (ch # k, v))"

text \<open>\<open>Inr None\<close> is the return value -1; using the null pointer of a missing part is undefined.\<close>

fun install_options :: "string list \<Rightarrow> 'z plugin \<Rightarrow> 'z plugin option outcome" where
  "install_options [] p = Inr (Some p)"
| "install_options (opt # opts) p =
     (case split_option opt of (k, v) \<Rightarrow>
        if k = ''mode'' then
          (case v of None \<Rightarrow> Inl Undefined_behaviour
           | Some a \<Rightarrow> andthen (set_mode a p) (install_options opts))
        else if k = ''ofile'' then
          (case v of None \<Rightarrow> Inl Undefined_behaviour
           | Some f \<Rightarrow> install_options opts (p\<lparr>out_file := Some []\<rparr>))
        else if k = ''compress'' then
          (case v of None \<Rightarrow> Inl Undefined_behaviour
           | Some a \<Rightarrow> install_options opts (p\<lparr>need_to_compress := (a = ''true'')\<rparr>))
        else Inr None)"

definition qemu_plugin_install :: "string \<Rightarrow> string list \<Rightarrow> 'z plugin \<Rightarrow> 'z plugin option outcome" where
  "qemu_plugin_install target_name argv p =
     (if length argv \<noteq> 3 then Inr None
      else andthen (install_options argv p)
        (\<lambda>r. Inr (map_option (\<lambda>p. p\<lparr>is_64_bits := (target_name = ''riscv64''),
                                    buffer_compress := []\<rparr>) r)))"

section \<open>A recorded program\<close>

text \<open>
  \<open>tb_trans_cb\<close> registers both callbacks on each of the \<open>n\<close> instructions of a translated block. When
  QEMU executes an instruction it calls what is registered for its execution, and for each memory
  access it makes what is registered for its accesses; \<open>exec_first\<close> says which of them comes first.
  A block that is executed is the list of its instructions, each the list of its accesses.
\<close>

datatype plugin_callback = Mem_cb nat | Exec_cb nat

definition tb_trans_cb :: "nat \<Rightarrow> plugin_callback list" where
  "tb_trans_cb n = concat (map (\<lambda>i. [Mem_cb i, Exec_cb i]) [0..<n])"

record mem_access =
  ma_vcpu :: u32
  ma_info :: mem_info
  ma_vaddr :: u64

datatype event = Executed | Accessed mem_access

definition insn_events :: "bool \<Rightarrow> plugin_callback list \<Rightarrow> nat \<Rightarrow> mem_access list \<Rightarrow> event list" where
  "insn_events exec_first cbs i accs =
     (let exec = (if Exec_cb i \<in> set cbs then [Executed] else []);
          mem = (if Mem_cb i \<in> set cbs then map Accessed accs else [])
      in if exec_first then exec @ mem else mem @ exec)"

definition block_events :: "bool \<Rightarrow> mem_access list list \<Rightarrow> event list" where
  "block_events exec_first insns =
     concat (map (\<lambda>i. insn_events exec_first (tb_trans_cb (length insns)) i (insns ! i)) [0..<length insns])"

primrec plugin_event :: "'z deflate \<Rightarrow> 'z \<Rightarrow> event \<Rightarrow> 'z plugin \<Rightarrow> 'z plugin run" where
  "plugin_event deflate z0 Executed p = returns (counter_inst p)"
| "plugin_event deflate z0 (Accessed a) p = mem_cb deflate z0 (ma_vcpu a) (ma_info a) (ma_vaddr a) p"

primrec plugin_events :: "'z deflate \<Rightarrow> 'z \<Rightarrow> event list \<Rightarrow> 'z plugin \<Rightarrow> 'z plugin run" where
  "plugin_events deflate z0 [] p = returns p"
| "plugin_events deflate z0 (e # es) p = continue (plugin_event deflate z0 e p) (plugin_events deflate z0 es)"

definition record_program ::
  "'z deflate \<Rightarrow> 'z \<Rightarrow> bool \<Rightarrow> mem_access list list list \<Rightarrow> 'z plugin \<Rightarrow> 'z plugin run" where
  "record_program deflate z0 exec_first blocks p =
     continue (plugin_events deflate z0 (concat (map (block_events exec_first) blocks)) p)
       (plugin_exit deflate z0)"

end
