(* ===== verification/Trace_Codec.thy ===== *)
theory Trace_Codec
  imports Qemu_Plugin
begin

text \<open>
  The two ends of a trace: what \<open>rtl/tb/qemu_plugin/qemu_plugin.c\<close> writes and what
  \<open>rtl/tb/include/hpdcache_test_trace_manager.h\<close> reads. \<open>supplies\<close> says which bytes the reader
  gets from a state, across refills of its buffer.
\<close>

section \<open>The reader as a source of bytes\<close>

primrec supplies :: "'z inflate \<Rightarrow> 'z \<Rightarrow> 'z trace_reader \<Rightarrow> u8 list \<Rightarrow> 'z trace_reader \<Rightarrow> bool" where
  "supplies inflate z0 r [] r' \<longleftrightarrow> r' = r"
| "supplies inflate z0 r (b # bs) r' \<longleftrightarrow>
     (\<exists>r1. next_byte inflate z0 r = returns (b, r1) \<and> supplies inflate z0 r1 bs r')"

lemma supplies_append:
  "supplies inflate z0 r (xs @ ys) r' \<longleftrightarrow>
     (\<exists>m. supplies inflate z0 r xs m \<and> supplies inflate z0 m ys r')"
  by (induction xs arbitrary: r) auto

lemma get_content_supplied:
  "supplies inflate z0 r bs r' \<Longrightarrow> get_content_of_trace inflate z0 (length bs) r = returns (bs, r')"
  by (induction bs arbitrary: r) auto

text \<open>Bytes that are already in the buffer.\<close>

lemma supplies_buffered:
  assumes "read_buffer r + n \<le> end_buffer r" and "end_buffer r \<le> BUF_SIZE"
  shows "supplies inflate z0 r (map (buf r) [read_buffer r..<read_buffer r + n])
           (r\<lparr>read_buffer := read_buffer r + n\<rparr>)"
  using assms
proof (induction n arbitrary: r)
  case 0
  then show ?case by simp
next
  case (Suc n)
  let ?r = "r\<lparr>read_buffer := read_buffer r + 1\<rparr>"
  have "next_byte inflate z0 r = returns (buf r (read_buffer r), ?r)"
    using Suc.prems by (simp add: next_byte_def)
  moreover have "supplies inflate z0 ?r (map (buf r) [Suc (read_buffer r)..<read_buffer r + Suc n])
      (r\<lparr>read_buffer := read_buffer r + Suc n\<rparr>)"
    using Suc.IH [of ?r] Suc.prems by simp
  moreover have "[read_buffer r..<read_buffer r + Suc n]
      = read_buffer r # [Suc (read_buffer r)..<read_buffer r + Suc n]"
    by (simp add: upt_conv_Cons)
  ultimately show ?case by simp
qed

text \<open>What a reader needs of a source.\<close>

locale byte_source =
  fixes get :: "nat \<Rightarrow> 's \<Rightarrow> (u8 list \<times> 's) run"
    and gives :: "'s \<Rightarrow> u8 list \<Rightarrow> 's \<Rightarrow> bool"
  assumes get_given: "gives s bs s' \<Longrightarrow> get (length bs) s = returns (bs, s')"
    and gives_append: "gives s (xs @ ys) s' \<longleftrightarrow> (\<exists>m. gives s xs m \<and> gives m ys s')"
begin

lemma get_prefix:
  assumes "gives s (xs @ ys) s'" and "n = length xs"
  shows "\<exists>m. get n s = returns (xs, m) \<and> gives m ys s'"
  using assms get_given by (auto simp: gives_append)

lemma get_twice:
  assumes "gives s (xs @ ys @ zs) s'" and "m = length xs" and "n = length ys"
  shows "\<exists>t. continue (get m s) (\<lambda>(a, s). continue (get n s) (\<lambda>(b, s). f a b s)) = f xs ys t
     \<and> gives t zs s'"
proof -
  obtain u where u: "get m s = returns (xs, u)" "gives u (ys @ zs) s'"
    using get_prefix [OF assms(1,2)] by blast
  obtain t where "get n u = returns (ys, t)" "gives t zs s'"
    using get_prefix [OF u(2) assms(3)] by blast
  then show ?thesis using u(1) by auto
qed

end

interpretation src: byte_source "get_content_of_trace inflate z0" "supplies inflate z0"
  for inflate :: "'z inflate" and z0 :: 'z
  by unfold_locales (simp_all add: get_content_supplied supplies_append)

section \<open>Fields\<close>

lemma length_le_bytes [simp]: "length (le_bytes n w) = n"
  by (simp add: le_bytes_def)

lemma word_of_le_bytes:
  assumes "n \<le> 8"
  shows "word_of_bytes (le_bytes n w) = take_bit (8 * n) w"
proof (rule bit_word_eqI)
  fix k
  assume "k < LENGTH(64)"
  have "k < 8 * n \<Longrightarrow> k div 8 < n" by linarith
  then show "bit (word_of_bytes (le_bytes n w)) k = bit (take_bit (8 * n) w) k"
    using assms \<open>k < LENGTH(64)\<close>
    by (auto simp: bit_word_of_bytes le_bytes_def bit_take_bit_iff)
qed

lemma unat_ucast_64:
  fixes x :: "'a :: len word"
  assumes "LENGTH('a) \<le> 64"
  shows "unat (ucast x :: u64) = unat x"
proof -
  have "unat x < 2 ^ LENGTH('a)" by (rule unsigned_less)
  also have "(2 :: nat) ^ LENGTH('a) \<le> 2 ^ 64" using assms by (rule power_increasing) simp
  finally show ?thesis by (simp add: unsigned_ucast_eq take_bit_nat_eq_self)
qed

lemma take_bit_64: "take_bit 64 (y :: u64) = y"
  by (rule bit_word_eqI) (simp add: bit_take_bit_iff)

lemma stored_bytes_value:
  "unat (word_of_bytes (stored_value_bytes (U8 a))) = unat a"
  "unat (word_of_bytes (stored_value_bytes (U16 b))) = unat b"
  "unat (word_of_bytes (stored_value_bytes (U32 x))) = unat x"
  "unat (word_of_bytes (stored_value_bytes (U64 y))) = unat y"
proof -
  have t: "take_bit LENGTH('a) (ucast w :: u64) = ucast w" if "LENGTH('a) \<le> 64" for w :: "'a :: len word"
    by (rule bit_word_eqI) (auto simp: bit_take_bit_iff bit_ucast_iff dest: bit_imp_le_length)
  show "unat (word_of_bytes (stored_value_bytes (U8 a))) = unat a"
    using t [of a] by (simp add: stored_value_bytes_def word_of_le_bytes unat_ucast_64)
  show "unat (word_of_bytes (stored_value_bytes (U16 b))) = unat b"
    using t [of b] by (simp add: stored_value_bytes_def word_of_le_bytes unat_ucast_64)
  show "unat (word_of_bytes (stored_value_bytes (U32 x))) = unat x"
    using t [of x] by (simp add: stored_value_bytes_def word_of_le_bytes unat_ucast_64)
  show "unat (word_of_bytes (stored_value_bytes (U64 y))) = unat y"
    by (simp add: stored_value_bytes_def word_of_le_bytes take_bit_64)
qed

lemma bit_signed_drop_u8:
  "bit (signed_drop_bit k (b :: u8)) n \<longleftrightarrow> n < 8 \<and> bit b (if 8 - k \<le> n then 7 else k + n)" if "k < 8"
  using that by (auto simp: bit_signed_drop_bit_iff dest: bit_imp_le_length)

lemma get_bit_iff: "0 < pos \<Longrightarrow> pos \<le> 8 \<Longrightarrow> get_bit b pos \<longleftrightarrow> bit b (pos - 1)"
proof -
  assume p: "0 < pos" "pos \<le> 8"
  have "get_bit b pos \<longleftrightarrow> bit (signed_drop_bit 7 (push_bit (8 - pos) b)) 0"
    by (simp add: get_bit_def and_one_eq bit_0 odd_iff_mod_2_eq_one)
  also have "\<dots> \<longleftrightarrow> bit (push_bit (8 - pos) b) 7"
    by (subst bit_signed_drop_u8) auto
  also have "\<dots> \<longleftrightarrow> bit b (pos - 1)"
    using p by (auto simp: bit_push_bit_iff)
  finally show ?thesis .
qed

lemma small_u8_bits: "x < 8 \<Longrightarrow> bit (x :: u8) n \<Longrightarrow> n < 3"
proof -
  assume "x < 8" "bit x n"
  then have "unat x < 2 ^ 3" "bit (unat x) n"
    by (simp_all add: word_less_nat_alt bit_unsigned_iff bit_imp_possible_bit)
  then show ?thesis by (rule bit_nat_lt_imp_less)
qed

lemma size_value_less: "get_size_value v < 8"
  by (simp add: get_size_value_def split: mem_value.split)

lemma size_nibbles_byte:
  assumes "sz < 8"
  shows "size_nibbles (size_byte sz v) = (get_size_value v, sz)"
proof -
  define g where "g = get_size_value v"
  have g: "3 \<le> n \<Longrightarrow> \<not> bit g n" and s: "3 \<le> n \<Longrightarrow> \<not> bit sz n" for n
    using small_u8_bits [OF size_value_less, of v n] small_u8_bits [OF assms, of n]
    by (auto simp: g_def)
  have b: "bit (size_byte sz v) n \<longleftrightarrow> bit sz n \<or> 4 \<le> n \<and> n < 8 \<and> bit g (n - 4)" for n
    by (auto simp: size_byte_def bit_or_iff bit_push_bit_iff simp flip: g_def)
  have "signed_drop_bit 4 (size_byte sz v) = g"
    by (rule bit_word_eqI) (simp add: bit_signed_drop_u8 b g s)
  moreover have "signed_drop_bit 4 (push_bit 4 (size_byte sz v)) = sz"
    by (rule bit_word_eqI) (simp add: bit_signed_drop_u8 bit_push_bit_iff b g s)
  ultimately show ?thesis by (simp add: size_nibbles_def g_def)
qed

lemma bv_char_as_unsigned:
  "bv HPDCACHE_REQ_SIZE_WIDTH (unat (char_as_unsigned junk b)) = take_bit 3 (unat b)"
  by (rule nat_bit_eqI)
    (auto simp: bv_def HPDCACHE_REQ_SIZE_WIDTH_def bit_take_bit_iff char_as_unsigned_def
      bit_unsigned_iff bit_or_iff bit_push_bit_iff bit_ucast_iff)

lemma take_bit_3_small: "(s :: u8) < 8 \<Longrightarrow> take_bit 3 (unat s) = unat s"
  by (simp add: take_bit_nat_eq_self word_less_nat_alt)

lemma boolean_byte_fields:
  assumes "k = 0 \<or> k = 1"
  shows "drop_bit 2 (boolean_byte st k) = (if st then 1 else 0)"
    and "get_bit (boolean_byte st k) 2 \<longleftrightarrow> \<not> st" and "get_bit (boolean_byte st k) 1 \<longleftrightarrow> k = 1"
proof -
  have b: "boolean_byte st k = (if st then 4 else 2) OR k" by (simp add: boolean_byte_def)
  show "drop_bit 2 (boolean_byte st k) = (if st then 1 else 0)"
    using assms by (auto simp: b)
  show "get_bit (boolean_byte st k) 2 \<longleftrightarrow> \<not> st"
    using assms by (auto simp: b get_bit_iff bit_or_iff)
  show "get_bit (boolean_byte st k) 1 \<longleftrightarrow> k = 1"
    using assms by (auto simp: b get_bit_iff bit_or_iff)
qed

text \<open>What the writer should add to the trace for an access: \<open>write_in_file_writes\<close> shows that it does.\<close>

definition record_bytes :: "bool \<Rightarrow> bool \<Rightarrow> u64 \<Rightarrow> u8 \<Rightarrow> u8 \<Rightarrow> mem_value \<Rightarrow> u8 \<Rightarrow> u8 list" where
  "record_bytes is64 st a sz delay v cacheable =
     [delay] @ address_bytes is64 a @ [size_byte sz v] @ [boolean_byte st cacheable]
     @ (if st then stored_value_bytes v else [])"

text \<open>What the reader should make of a record, in the order in which it fills the request in.\<close>

fun value_of :: "mem_value \<Rightarrow> nat" where
  "value_of (U8 a) = unat a"
| "value_of (U16 a) = unat a"
| "value_of (U32 a) = unat a"
| "value_of (U64 a) = unat a"
| "value_of U128 = 0"

definition decoded :: "cfg \<Rightarrow> req \<Rightarrow> bool \<Rightarrow> u64 \<Rightarrow> u8 \<Rightarrow> mem_value \<Rightarrow> bool \<Rightarrow> req" where
  "decoded c t st a sz v uncached =
     (let t = t\<lparr>req_addr := bv (HPDCACHE_PA_WIDTH c) (unat a), req_size := unat sz,
                req_op := (if st then op_code HPDCACHE_REQ_STORE else op_code HPDCACHE_REQ_LOAD),
                req_need_rsp := \<not> st, req_uncacheable := uncached, req_phys_indexed := True,
                req_io := uncached, req_abort := False\<rparr>
      in if st then t\<lparr>req_wdata := bv (HPDCACHE_REQ_DATA_WIDTH c) (value_of v)\<rparr> else t)"

lemma value_bytes_length:
  "v \<noteq> U128 \<Longrightarrow> length (stored_value_bytes v) = value_bytes (get_size_value v)"
  by (cases v) (simp_all add: stored_value_bytes_def value_bytes_def get_size_value_def)

lemma word_of_stored_bytes:
  "v \<noteq> U128 \<Longrightarrow> unat (word_of_bytes (stored_value_bytes v)) = value_of v"
  by (cases v) (simp_all add: stored_bytes_value)

lemma read_value_supplied:
  assumes "supplies inflate z0 r (stored_value_bytes v @ rest) r'" and "v \<noteq> U128"
  shows "\<exists>m. read_value c inflate z0 t (get_size_value v) r
       = returns (t\<lparr>req_wdata := bv (HPDCACHE_REQ_DATA_WIDTH c) (value_of v)\<rparr>, m)
     \<and> supplies inflate z0 m rest r'"
proof -
  have k: "get_size_value v \<in> {0, 1, 2, 3, 4}"
    by (simp add: get_size_value_def split: mem_value.split)
  obtain m where "get_content_of_trace inflate z0 (value_bytes (get_size_value v)) r
      = returns (stored_value_bytes v, m)" and "supplies inflate z0 m rest r'"
    using src.get_prefix [OF assms(1)] value_bytes_length [OF assms(2)] by metis
  then show ?thesis using k by (simp add: read_value_def word_of_stored_bytes [OF assms(2)])
qed

lemma read_record:
  assumes "supplies inflate z0 r (record_bytes True st a sz delay v k @ rest) r'"
    and "sz < 8" and "k = 0 \<or> k = 1" and "st \<longrightarrow> v \<noteq> U128"
  shows "\<exists>m. read_transaction c inflate z0 junk t r = returns ((unat delay, decoded c t st a sz v (k = 1)), m)
     \<and> supplies inflate z0 m rest r'"
proof -
  let ?vals = "if st then stored_value_bytes v else []"
  have s0: "supplies inflate z0 r ([delay] @ le_bytes 8 a @ [size_byte sz v] @ [boolean_byte st k]
      @ ?vals @ rest) r'"
    using assms(1) by (simp add: record_bytes_def address_bytes_def)
  obtain r1 where r1: "get_content_of_trace inflate z0 1 r = returns ([delay], r1)"
    and s1: "supplies inflate z0 r1 (le_bytes 8 a @ [size_byte sz v] @ [boolean_byte st k] @ ?vals @ rest) r'"
    using src.get_prefix [OF s0] by auto
  obtain r2 where r2: "get_content_of_trace inflate z0 8 r1 = returns (le_bytes 8 a, r2)"
    and s2: "supplies inflate z0 r2 ([size_byte sz v] @ [boolean_byte st k] @ ?vals @ rest) r'"
    using src.get_prefix [OF s1] by auto
  obtain r3 where r3: "get_content_of_trace inflate z0 1 r2 = returns ([size_byte sz v], r3)"
    and s3: "supplies inflate z0 r3 ([boolean_byte st k] @ ?vals @ rest) r'"
    using src.get_prefix [OF s2] by auto
  obtain r4 where r4: "get_content_of_trace inflate z0 1 r3 = returns ([boolean_byte st k], r4)"
    and s4: "supplies inflate z0 r4 (?vals @ rest) r'"
    using src.get_prefix [OF s3] by auto
  let ?t = "t\<lparr>req_addr := bv (HPDCACHE_PA_WIDTH c) (unat a), req_size := unat sz,
                req_op := (if st then op_code HPDCACHE_REQ_STORE else op_code HPDCACHE_REQ_LOAD),
                req_need_rsp := \<not> st, req_uncacheable := (k = 1), req_phys_indexed := True,
                req_io := (k = 1), req_abort := False\<rparr>"
  have "word_of_bytes (le_bytes 8 a) = a" by (simp add: word_of_le_bytes take_bit_64)
  then have a: "read_address inflate z0 r1 = returns (a, r2)"
    using r2 by (simp add: read_address_def)
  have sz: "read_size inflate z0 junk r2 = returns ((get_size_value v, char_as_unsigned junk sz), r3)"
    using r3 by (simp add: read_size_def size_nibbles_byte [OF assms(2)])
  have op: "bv HPDCACHE_REQ_OP_WIDTH (unat (if st then 1 else 0 :: u8))
      = (if st then op_code HPDCACHE_REQ_STORE else op_code HPDCACHE_REQ_LOAD)"
    by (simp add: bv_def HPDCACHE_REQ_OP_WIDTH_def)
  have b: "read_boolean_and_type inflate z0
        (t\<lparr>req_addr := bv (HPDCACHE_PA_WIDTH c) (unat a), req_size := unat sz\<rparr>) r3 = returns (?t, r4)"
    using r4 by (simp add: read_boolean_and_type_def Let_def boolean_byte_fields [OF assms(3)] op
        del: op_code.simps One_nat_def)
  have st: "is_store ?t = st" by (simp add: is_store_def)
  obtain m where m: "(if st then read_value c inflate z0 ?t (get_size_value v) r4 else returns (?t, r4))
        = returns (decoded c t st a sz v (k = 1), m)" and sm: "supplies inflate z0 m rest r'"
  proof (cases st)
    case True
    then have "supplies inflate z0 r4 (stored_value_bytes v @ rest) r'" using s4 by simp
    from read_value_supplied [OF this] True assms(4) that show thesis
      by (auto simp: decoded_def Let_def)
  next
    case False
    then show thesis using s4 by (intro that [of r4]) (simp_all add: decoded_def)
  qed
  have d: "read_delay inflate z0 r = returns (delay, r1)" using r1 by (simp add: read_delay_def)
  have "read_transaction c inflate z0 junk t r = returns ((unat delay, decoded c t st a sz v (k = 1)), m)"
    unfolding read_transaction_def
    by (simp add: d a sz bv_char_as_unsigned take_bit_3_small [OF assms(2)] b st m del: op_code.simps)
  with sm show ?thesis by blast
qed

section \<open>Loops over the compression library\<close>

text \<open>A loop whose state does not change never ends.\<close>

lemma inflate_loop_stuck:
  assumes "inp \<noteq> []" and "ir_output (inflate z inp MAX_SIZE_BUFFER) = []"
    and "ir_consumed (inflate z inp MAX_SIZE_BUFFER) = 0"
    and "ir_stream (inflate z inp MAX_SIZE_BUFFER) = z"
    and "ir_status (inflate z inp MAX_SIZE_BUFFER) \<noteq> MZ_STREAM_ERROR"
  shows "inflate_loop inflate z inp r = None"
proof (rule ccontr)
  assume "inflate_loop inflate z inp r \<noteq> None"
  then obtain y where y: "inflate_loop inflate z inp r = Some y" by blast
  have "\<not> (f = inflate \<and> w = z \<and> i = inp)" if "inflate_loop f w i s = Some y" for f w i s y
  proof (rule inflate_loop.raw_induct [where P = "\<lambda>f w i s y. \<not> (f = inflate \<and> w = z \<and> i = inp)",
        OF _ that], rule notI)
    fix loop f w i s y
    assume rec: "\<And>f w i s y. loop f w i s = Some y \<Longrightarrow> \<not> (f = inflate \<and> w = z \<and> i = inp)"
      and body: "(let res = f w i MAX_SIZE_BUFFER
         in if ir_status res = MZ_STREAM_ERROR then faults Process_exit
            else case append_output (ir_output res) s of Inl e \<Rightarrow> faults e
              | Inr r \<Rightarrow> let inp = drop (ir_consumed res) i
                         in if inp \<noteq> [] then loop f (ir_stream res) inp r
                            else returns (ir_status res, ir_stream res, r)) = Some y"
    {
      assume e: "f = inflate \<and> w = z \<and> i = inp"
      then have "loop f w i s = Some y"
        using body assms by (simp add: Let_def append_output_def)
      from rec [OF this] e have False by simp
    }
    moreover assume "f = inflate \<and> w = z \<and> i = inp"
    ultimately show False by blast
  qed
  with y show False by blast
qed

text \<open>
  A call is idle when it consumes nothing of its input, gives no output and leaves the stream as
  it was: the next call is the same. This is what the library does after a data error and after
  the end of the stream, when input is left. Every other call makes the rest of the work smaller:
  it consumes or gives out bytes, or moves the stream to its failed or ended state.
\<close>

definition idle :: "'z inflate \<Rightarrow> 'z \<Rightarrow> u8 list \<Rightarrow> bool" where
  "idle inflate z inp \<longleftrightarrow>
     (let res = inflate z inp MAX_SIZE_BUFFER
      in ir_status res \<noteq> MZ_STREAM_ERROR \<and> ir_consumed res = 0 \<and> ir_output res = [] \<and> ir_stream res = z)"

definition works_off :: "'z inflate \<Rightarrow> ('z \<Rightarrow> u8 list \<Rightarrow> nat) \<Rightarrow> bool" where
  "works_off inflate work \<longleftrightarrow> (\<forall>z inp. inp \<noteq> [] \<longrightarrow>
     (let res = inflate z inp MAX_SIZE_BUFFER
      in ir_status res = MZ_STREAM_ERROR \<or> idle inflate z inp
         \<or> work (ir_stream res) (drop (ir_consumed res) inp) < work z inp))"

text \<open>
  The calls on one block of the file come to an idle one while input is left: \<open>n\<close> bytes of the
  buffer are filled, and what a call gives must fit in it.
\<close>

inductive inflate_stalls :: "'z inflate \<Rightarrow> nat \<Rightarrow> 'z \<Rightarrow> u8 list \<Rightarrow> bool" for inflate where
  stalls_idle: "inp \<noteq> [] \<Longrightarrow> idle inflate z inp \<Longrightarrow> inflate_stalls inflate n z inp"
| stalls_later: "res = inflate z inp MAX_SIZE_BUFFER \<Longrightarrow> ir_status res \<noteq> MZ_STREAM_ERROR
     \<Longrightarrow> ir_output res = [] \<or> n + length (ir_output res) \<le> BUF_SIZE
     \<Longrightarrow> drop (ir_consumed res) inp \<noteq> []
     \<Longrightarrow> inflate_stalls inflate (n + length (ir_output res)) (ir_stream res) (drop (ir_consumed res) inp)
     \<Longrightarrow> inflate_stalls inflate n z inp"

inductive_simps stalls_iff: "inflate_stalls inflate n z inp"

lemma append_output_cases:
  obtains (full) "append_output out r = Inl Undefined_behaviour" "out \<noteq> []" "BUF_SIZE < end_buffer r + length out"
  | (fits) r' where "append_output out r = Inr r'" "end_buffer r' = end_buffer r + length out"
      "out = [] \<or> end_buffer r + length out \<le> BUF_SIZE"
proof (cases "out = [] \<or> end_buffer r + length out \<le> BUF_SIZE")
  case True
  then show thesis
    by (cases "out = []") (auto simp: append_output_def intro: fits)
next
  case False
  then show thesis by (intro full) (auto simp: append_output_def)
qed

lemma inflate_loop_step:
  assumes "res = inflate z inp MAX_SIZE_BUFFER" and "ir_status res \<noteq> MZ_STREAM_ERROR"
    and "append_output (ir_output res) r = Inr r'"
  shows "inflate_loop inflate z inp r = (if drop (ir_consumed res) inp \<noteq> []
     then inflate_loop inflate (ir_stream res) (drop (ir_consumed res) inp) r'
     else returns (ir_status res, ir_stream res, r'))"
  using assms by (subst inflate_loop.simps) (simp add: Let_def)

lemma stalls_never_returns:
  "inflate_stalls inflate n z inp \<Longrightarrow> n = end_buffer r \<Longrightarrow> inflate_loop inflate z inp r = None"
proof (induction n z inp arbitrary: r rule: inflate_stalls.induct)
  case (stalls_idle inp z n)
  then show ?case by (intro inflate_loop_stuck) (simp_all add: idle_def Let_def)
next
  case (stalls_later res z inp n)
  obtain r' where "append_output (ir_output res) r = Inr r'" "end_buffer r' = end_buffer r + length (ir_output res)"
    using stalls_later.hyps(3) stalls_later.prems by (cases rule: append_output_cases [of "ir_output res" r]) auto
  then show ?case
    using inflate_loop_step [of res inflate z inp r r', OF stalls_later.hyps(1,2)] stalls_later.hyps(4) stalls_later.IH [of r']
      stalls_later.prems by simp
qed

lemma never_returns_stalls:
  assumes "works_off inflate work"
  shows "inflate_loop inflate z inp r = None \<Longrightarrow> inflate_stalls inflate (end_buffer r) z inp"
proof (induction "work z inp" arbitrary: z inp r rule: less_induct)
  case less
  define res where "res = inflate z inp MAX_SIZE_BUFFER"
  have ok: "ir_status res \<noteq> MZ_STREAM_ERROR"
    using less.prems by (subst (asm) inflate_loop.simps) (auto simp: Let_def res_def)
  show ?case
  proof (cases rule: append_output_cases [of "ir_output res" r])
    case full
    then have "inflate_loop inflate z inp r = faults Undefined_behaviour"
      using ok by (subst inflate_loop.simps) (simp add: Let_def flip: res_def)
    then show ?thesis using less.prems by (simp add: faults_def)
  next
    case (fits r')
    note step = inflate_loop_step [of res inflate z inp r r', OF res_def ok fits(1)]
    have left: "drop (ir_consumed res) inp \<noteq> []" using less.prems step by auto
    then have "inp \<noteq> []" by auto
    then consider "idle inflate z inp" | "work (ir_stream res) (drop (ir_consumed res) inp) < work z inp"
      using assms ok unfolding works_off_def Let_def res_def by blast
    then show ?thesis
    proof cases
      case 1
      with \<open>inp \<noteq> []\<close> show ?thesis by (rule stalls_idle)
    next
      case 2
      have "inflate_stalls inflate (end_buffer r') (ir_stream res) (drop (ir_consumed res) inp)"
        using less.hyps [OF 2] less.prems step left by simp
      then show ?thesis using stalls_later [of res inflate z inp, OF res_def ok fits(3) left] by (simp add: fits(2))
    qed
  qed
qed

text \<open>A refill of the buffer that never returns.\<close>

definition refill_stalls :: "'z inflate \<Rightarrow> 'z \<Rightarrow> 'z trace_reader \<Rightarrow> bool" where
  "refill_stalls inflate z0 r \<longleftrightarrow> read_buffer r = end_buffer r
     \<and> (case stream r of
          Null \<Rightarrow> inflate_stalls inflate 0 z0 (take MAX_SIZE_BUFFER (trace_descriptor r))
        | Stream z \<Rightarrow> inflate_stalls inflate 0 z (take MAX_SIZE_BUFFER (trace_descriptor r))
        | Freed \<Rightarrow> False)"

lemma continue_None_iff: "continue r f = None \<longleftrightarrow> r = None \<or> (\<exists>a. r = returns a \<and> f a = None)"
  by (cases r) (auto simp: continue_def returns_def split: sum.splits)

lemma next_byte_None_iff:
  assumes "works_off inflate work"
  shows "next_byte inflate z0 r = None \<longleftrightarrow> refill_stalls inflate z0 r"
proof -
  let ?r = "r\<lparr>end_buffer := 0, read_buffer := 0, trace_descriptor := drop MAX_SIZE_BUFFER (trace_descriptor r)\<rparr>"
  have loop: "inflate_loop inflate z inp ?r = None \<longleftrightarrow> inflate_stalls inflate 0 z inp" for z inp
    using never_returns_stalls [OF assms, of z inp ?r] stalls_never_returns [of inflate 0 z inp ?r] by auto
  have "decompress_data_from_trace inflate z0 (r\<lparr>end_buffer := 0, read_buffer := 0\<rparr>) = None
      \<longleftrightarrow> (case stream r of Null \<Rightarrow> inflate_stalls inflate 0 z0 (take MAX_SIZE_BUFFER (trace_descriptor r))
           | Stream z \<Rightarrow> inflate_stalls inflate 0 z (take MAX_SIZE_BUFFER (trace_descriptor r)) | Freed \<Rightarrow> False)"
    by (cases "stream r")
      (auto simp: decompress_data_from_trace_def Let_def continue_None_iff loop simp del: not_None_eq)
  then show ?thesis
    by (auto simp: next_byte_def refill_stalls_def continue_None_iff simp del: not_None_eq split: if_splits)
qed

lemma get_content_None_iff:
  assumes "works_off inflate work"
  shows "get_content_of_trace inflate z0 n r = None \<longleftrightarrow>
     (\<exists>i bs r'. i < n \<and> get_content_of_trace inflate z0 i r = returns (bs, r') \<and> refill_stalls inflate z0 r')"
proof (induction n arbitrary: r)
  case 0
  then show ?case by simp
next
  case (Suc n)
  have "get_content_of_trace inflate z0 (Suc n) r = None \<longleftrightarrow> refill_stalls inflate z0 r
      \<or> (\<exists>b r1. next_byte inflate z0 r = returns (b, r1) \<and> get_content_of_trace inflate z0 n r1 = None)"
    by (auto simp: continue_None_iff next_byte_None_iff [OF assms] split_beta simp del: not_None_eq)
  also have "\<dots> \<longleftrightarrow> (\<exists>i bs r'. i < Suc n \<and> get_content_of_trace inflate z0 i r = returns (bs, r')
      \<and> refill_stalls inflate z0 r')" (is "?L \<longleftrightarrow> ?R")
  proof
    assume ?L
    then show ?R
    proof (elim disjE exE conjE)
      assume "refill_stalls inflate z0 r"
      then show ?R by (intro exI [of _ 0]) simp
    next
      fix b r1
      assume b: "next_byte inflate z0 r = returns (b, r1)" and "get_content_of_trace inflate z0 n r1 = None"
      then obtain i bs r' where "i < n" "get_content_of_trace inflate z0 i r1 = returns (bs, r')"
        "refill_stalls inflate z0 r'" using Suc.IH by blast
      then show ?R using b by (intro exI [of _ "Suc i"] exI [of _ "b # bs"] exI [of _ r']) simp
    qed
  next
    assume ?R
    then obtain i bs r' where i: "i < Suc n" "get_content_of_trace inflate z0 i r = returns (bs, r')"
      "refill_stalls inflate z0 r'" by blast
    show ?L
    proof (cases i)
      case 0
      then show ?thesis using i by simp
    next
      case (Suc j)
      then obtain b r1 cs where "next_byte inflate z0 r = returns (b, r1)"
        "get_content_of_trace inflate z0 j r1 = returns (cs, r')"
        using i(2) by (auto simp: continue_returns_iff)
      then show ?thesis using Suc.IH [of r1] i(1,3) Suc by auto
    qed
  qed
  finally show ?case .
qed

lemma deflate_chunk_stuck:
  assumes "dr_output (deflate z fl [] 0) = []" and "dr_stream (deflate z fl [] 0) = z"
    and "dr_status (deflate z fl [] 0) \<noteq> MZ_STREAM_ERROR"
  shows "deflate_chunk deflate fl 0 [] z p = None"
proof (rule ccontr)
  let ?same = "\<lambda>d g n i w. d = deflate \<and> g = fl \<and> n = 0 \<and> i = [] \<and> w = z"
  assume "deflate_chunk deflate fl 0 [] z p \<noteq> None"
  then obtain y where y: "deflate_chunk deflate fl 0 [] z p = Some y" by blast
  have "\<not> ?same d g n i w" if "deflate_chunk d g n i w q = Some y" for d g n i w q y
  proof (rule deflate_chunk.raw_induct [where P = "\<lambda>d g n i w q y. \<not> ?same d g n i w", OF _ that],
      rule notI)
    fix loop d g n i w q y
    assume rec: "\<And>d g n i w q y. loop d g n i w q = Some y \<Longrightarrow> \<not> ?same d g n i w"
      and body: "(let res = d w g i n
         in if dr_status res = MZ_STREAM_ERROR then faults Process_exit
            else let p = put_file (dr_output res) q
              in if n - length (dr_output res) = 0
                 then loop d g n (drop (dr_consumed res) i) (dr_stream res) p
                 else returns (dr_stream res, p)) = Some y"
      and e: "?same d g n i w"
    have "loop deflate fl 0 [] z (put_file [] q) = Some y"
      using body e assms by (simp add: Let_def)
    from rec [OF this] show False by simp
  qed
  with y show False by blast
qed

lemma compress_nothing:
  assumes "dr_output (deflate z fl [] 0) = []" and "dr_stream (deflate z fl [] 0) = z"
    and "dr_status (deflate z fl [] 0) \<noteq> MZ_STREAM_ERROR"
  shows "compress_loop deflate fl [] 0 z p = None"
  using deflate_chunk_stuck [of deflate z fl p, OF assms]
  by (subst compress_loop.simps) (simp add: loop_bound_def Let_def)

lemma compress_one: "compress_loop deflate fl [b] 0 z p = returns (z, p)"
  by (subst compress_loop.simps) (simp add: loop_bound_def Let_def)

section \<open>Every byte reaches the compressor\<close>

text \<open>
  What the compressor promises, as the library documents it: \<open>sv_taken\<close> and \<open>sv_emitted\<close> are the
  input a stream has taken and the output it has given, \<open>sv_ended\<close> says that it was finished. A call
  that leaves room has taken all its input, and with \<open>MZ_FINISH\<close> has ended the stream; a call that
  fills its room leaves less to do, which \<open>sv_left\<close> measures.
\<close>

record 'z stream_view =
  sv_taken :: "'z \<Rightarrow> u8 list"
  sv_emitted :: "'z \<Rightarrow> u8 list"
  sv_left :: "flush \<Rightarrow> 'z \<Rightarrow> u8 list \<Rightarrow> nat"
  sv_ended :: "'z \<Rightarrow> bool"

definition compresses :: "'z deflate \<Rightarrow> 'z stream_view \<Rightarrow> bool" where
  "compresses deflate g \<longleftrightarrow> (\<forall>z fl inp cap.
     0 < cap \<and> (sv_ended g z \<longrightarrow> inp = [] \<and> fl = MZ_FINISH) \<longrightarrow>
     (let res = deflate z fl inp cap
      in dr_status res \<noteq> MZ_STREAM_ERROR
       \<and> dr_consumed res \<le> length inp \<and> length (dr_output res) \<le> cap
       \<and> sv_taken g (dr_stream res) = sv_taken g z @ take (dr_consumed res) inp
       \<and> sv_emitted g (dr_stream res) = sv_emitted g z @ dr_output res
       \<and> (sv_ended g (dr_stream res) \<longrightarrow> dr_consumed res = length inp \<and> fl = MZ_FINISH)
       \<and> (length (dr_output res) < cap \<longrightarrow>
            dr_consumed res = length inp \<and> (fl = MZ_FINISH \<longrightarrow> sv_ended g (dr_stream res)))
       \<and> (length (dr_output res) = cap \<longrightarrow>
            sv_left g fl (dr_stream res) (drop (dr_consumed res) inp) < sv_left g fl z inp)))"

text \<open>
  The stream in use, and what the plugin has been given to write so far: the bytes that wait in
  its buffer come after those the stream has taken.
\<close>

definition stream_of :: "'z \<Rightarrow> 'z plugin \<Rightarrow> 'z" where
  "stream_of z0 p = (case zstream p of None \<Rightarrow> z0 | Some z \<Rightarrow> z)"

definition written :: "'z stream_view \<Rightarrow> 'z \<Rightarrow> 'z plugin \<Rightarrow> u8 list" where
  "written g z0 p =
     (if need_to_compress p then sv_taken g (stream_of z0 p) @ buffer_compress p
      else (case out_file p of None \<Rightarrow> [] | Some f \<Rightarrow> f))"

text \<open>The state of a plugin that records: the file holds what the compressor has given.\<close>

definition recording :: "'z stream_view \<Rightarrow> 'z \<Rightarrow> 'z plugin \<Rightarrow> bool" where
  "recording g z0 p \<longleftrightarrow> buffer_begin p < SIZE_BUFFER \<and> out_file p \<noteq> None
     \<and> (need_to_compress p \<longrightarrow> out_file p = Some (sv_emitted g (stream_of z0 p))
          \<and> \<not> sv_ended g (stream_of z0 p) \<and> SIZE_BUFFER dvd length (sv_taken g (stream_of z0 p)))"

lemma deflate_chunk_compresses:
  assumes "compresses deflate g" and "0 < cap"
  shows "(sv_ended g z \<longrightarrow> inp = [] \<and> fl = MZ_FINISH) \<Longrightarrow> out_file p = Some (sv_emitted g z) \<Longrightarrow>
     \<exists>w q. deflate_chunk deflate fl cap inp z p = returns (w, q) \<and> sv_taken g w = sv_taken g z @ inp
       \<and> (sv_ended g w \<longleftrightarrow> fl = MZ_FINISH) \<and> q = p\<lparr>out_file := Some (sv_emitted g w)\<rparr>"
proof (induction "sv_left g fl z inp" arbitrary: z inp p rule: less_induct)
  case less
  define res where "res = deflate z fl inp cap"
  have r: "dr_status res \<noteq> MZ_STREAM_ERROR" "length (dr_output res) \<le> cap"
      "sv_taken g (dr_stream res) = sv_taken g z @ take (dr_consumed res) inp"
      "sv_emitted g (dr_stream res) = sv_emitted g z @ dr_output res"
      "sv_ended g (dr_stream res) \<longrightarrow> dr_consumed res = length inp \<and> fl = MZ_FINISH"
      "length (dr_output res) < cap \<longrightarrow>
            dr_consumed res = length inp \<and> (fl = MZ_FINISH \<longrightarrow> sv_ended g (dr_stream res))"
      "length (dr_output res) = cap \<longrightarrow>
            sv_left g fl (dr_stream res) (drop (dr_consumed res) inp) < sv_left g fl z inp"
    using assms less.prems(1) unfolding compresses_def Let_def res_def by blast+
  let ?p = "p\<lparr>out_file := Some (sv_emitted g (dr_stream res))\<rparr>"
  have put: "put_file (dr_output res) p = ?p" using less.prems(2) by (simp add: put_file_def r(4))
  have step: "deflate_chunk deflate fl cap inp z p =
      (if cap \<le> length (dr_output res)
       then deflate_chunk deflate fl cap (drop (dr_consumed res) inp) (dr_stream res) ?p
       else returns (dr_stream res, ?p))"
    using r(1) by (subst deflate_chunk.simps) (simp add: Let_def put flip: res_def)
  show ?case
  proof (cases "length (dr_output res) < cap")
    case True
    then show ?thesis using r(3,5,6) by (simp add: step) blast
  next
    case False
    then have "length (dr_output res) = cap" using r(2) by simp
    then have "sv_left g fl (dr_stream res) (drop (dr_consumed res) inp) < sv_left g fl z inp"
      using r(7) by blast
    from less.hyps [OF this, of ?p] r(5)
    obtain w q where "deflate_chunk deflate fl cap (drop (dr_consumed res) inp) (dr_stream res) ?p = returns (w, q)"
      "sv_taken g w = sv_taken g (dr_stream res) @ drop (dr_consumed res) inp"
      "sv_ended g w \<longleftrightarrow> fl = MZ_FINISH" "q = p\<lparr>out_file := Some (sv_emitted g w)\<rparr>"
      by auto
    then show ?thesis using False r(3) by (simp add: step) 
  qed
qed

lemma compress_compresses:
  assumes "compresses deflate g" and "2 \<le> length data"
    and "\<not> sv_ended g z" and "out_file p = Some (sv_emitted g z)"
  shows "\<exists>w. compress_loop deflate fl data 0 z p = returns (w, p\<lparr>out_file := Some (sv_emitted g w)\<rparr>)
     \<and> sv_taken g w = sv_taken g z @ data \<and> (sv_ended g w \<longleftrightarrow> fl = MZ_FINISH)"
proof -
  have ne: "0 < length data" using assms(2) by auto
  obtain w q where c: "deflate_chunk deflate fl (length data) data z p = returns (w, q)"
    "sv_taken g w = sv_taken g z @ data" "sv_ended g w \<longleftrightarrow> fl = MZ_FINISH"
    "q = p\<lparr>out_file := Some (sv_emitted g w)\<rparr>"
    using deflate_chunk_compresses [OF assms(1) ne, of z data fl p] assms(3,4) by blast
  have "\<not> length data < loop_bound (length data)" using ne by (simp add: loop_bound_def)
  then have "compress_loop deflate fl data (length data) w q = returns (w, q)"
    by (subst compress_loop.simps) (simp add: Let_def)
  then have "compress_loop deflate fl data 0 z p = returns (w, q)"
    using assms(2) c(1)
    by (subst compress_loop.simps) (simp add: Let_def loop_bound_def returns_def)
  then show ?thesis using c(2-4) by blast
qed

text \<open>What a write changes and what it leaves alone.\<close>

definition same_settings :: "'z plugin \<Rightarrow> 'z plugin \<Rightarrow> bool" where
  "same_settings p q \<longleftrightarrow> mode q = mode p \<and> is_64_bits q = is_64_bits p
     \<and> need_to_compress q = need_to_compress p \<and> write_data q = write_data p
     \<and> current_instruction q = current_instruction p"

lemma same_settings_refl [simp]: "same_settings p p"
  by (simp add: same_settings_def)

lemma same_settings_trans: "same_settings p q \<Longrightarrow> same_settings q r \<Longrightarrow> same_settings p r"
  by (simp add: same_settings_def)

definition plugin_writes :: "'z stream_view \<Rightarrow> 'z \<Rightarrow> 'z plugin \<Rightarrow> u8 list \<Rightarrow> 'z plugin \<Rightarrow> bool" where
  "plugin_writes g z0 p bs q \<longleftrightarrow> recording g z0 q \<and> same_settings p q \<and> written g z0 q = written g z0 p @ bs"

lemma plugin_writes_nothing: "recording g z0 p \<Longrightarrow> plugin_writes g z0 p [] p"
  by (simp add: plugin_writes_def)

lemma plugin_writes_trans: "plugin_writes g z0 p xs q \<Longrightarrow> plugin_writes g z0 q ys r \<Longrightarrow> plugin_writes g z0 p (xs @ ys) r"
  by (auto simp: plugin_writes_def intro: same_settings_trans)

lemma put_byte_writes:
  assumes "compresses deflate g" and "recording g z0 p" and "need_to_compress p"
  shows "\<exists>q. put_byte deflate z0 b p = returns q \<and> plugin_writes g z0 p [b] q"
proof (cases "Suc (buffer_begin p) = SIZE_BUFFER")
  case False
  then show ?thesis
    using assms(2,3)
    by (simp add: put_byte_def Let_def plugin_writes_def written_def recording_def stream_of_def same_settings_def)
next
  case True
  let ?data = "buffer_compress p @ [b]"
  let ?p = "p\<lparr>buffer_compress := ?data\<rparr>"
  have two: "2 \<le> length ?data" using True by (simp add: SIZE_BUFFER_def)
  have rec: "\<not> sv_ended g (stream_of z0 p)" "out_file ?p = Some (sv_emitted g (stream_of z0 p))"
    "SIZE_BUFFER dvd length (sv_taken g (stream_of z0 p))"
    using assms(2,3) by (simp_all add: recording_def)
  obtain w where c: "compress_loop deflate MZ_NO_FLUSH ?data 0 (stream_of z0 p) ?p
      = returns (w, ?p\<lparr>out_file := Some (sv_emitted g w)\<rparr>)"
    "sv_taken g w = sv_taken g (stream_of z0 p) @ ?data" "\<not> sv_ended g w"
    using compress_compresses [OF assms(1) two rec(1,2), of MZ_NO_FLUSH] by auto
  let ?q = "p\<lparr>out_file := Some (sv_emitted g w), zstream := Some w, buffer_compress := []\<rparr>"
  have "put_byte deflate z0 b p = returns ?q"
    using True c(1) by (simp add: put_byte_def Let_def compress_data_to_file_def stream_of_def)
  moreover have "plugin_writes g z0 p [b] ?q"
    using c(2,3) rec(3) True assms(3)
    by (simp add: plugin_writes_def written_def recording_def stream_of_def same_settings_def SIZE_BUFFER_def)
  ultimately show ?thesis by blast
qed

lemma put_each_byte_writes:
  assumes "compresses deflate g"
  shows "recording g z0 p \<Longrightarrow> need_to_compress p \<Longrightarrow>
     \<exists>q. put_each_byte deflate z0 bs p = returns q \<and> plugin_writes g z0 p bs q"
proof (induction bs arbitrary: p)
  case Nil
  then show ?case by (simp add: plugin_writes_nothing)
next
  case (Cons b bs)
  obtain q where q: "put_byte deflate z0 b p = returns q" "plugin_writes g z0 p [b] q"
    using put_byte_writes [OF assms Cons.prems] by blast
  then have "recording g z0 q" "need_to_compress q"
    using Cons.prems(2) by (simp_all add: plugin_writes_def same_settings_def)
  from Cons.IH [OF this] obtain r where "put_each_byte deflate z0 bs q = returns r" "plugin_writes g z0 q bs r"
    by blast
  then show ?case using q plugin_writes_trans [OF q(2)] by fastforce
qed

lemma write_buffer_writes:
  assumes "compresses deflate g" and "recording g z0 p"
  shows "\<exists>q. write_buffer deflate z0 bs p = returns q \<and> plugin_writes g z0 p bs q"
proof (cases "need_to_compress p")
  case True
  then show ?thesis using put_each_byte_writes [OF assms True] by (simp add: write_buffer_def)
next
  case False
  then show ?thesis
    using assms(2)
    by (auto simp: write_buffer_def plugin_writes_def written_def put_file_def recording_def same_settings_def)
qed


lemma write_then:
  assumes "compresses deflate g" and "recording g z0 p"
    and "\<And>q. plugin_writes g z0 p bs q \<Longrightarrow> \<exists>r. f q = returns r \<and> plugin_writes g z0 q cs r"
  shows "\<exists>r. continue (write_buffer deflate z0 bs p) f = returns r \<and> plugin_writes g z0 p (bs @ cs) r"
  using write_buffer_writes [OF assms(1,2), of bs] assms(3) plugin_writes_trans by fastforce

lemma write_in_file_writes:
  assumes c: "compresses deflate g" and rec: "recording g z0 p"
  shows "\<exists>q. write_in_file deflate z0 st a sz delay v k p = returns q
     \<and> plugin_writes g z0 p (record_bytes (is_64_bits p) st a sz delay v k) q"
proof -
  have last: "\<exists>r. (if st then write_buffer deflate z0 (stored_value_bytes v) q else returns q) = returns r
      \<and> plugin_writes g z0 q (if st then stored_value_bytes v else []) r" if "recording g z0 q" for q
    using write_buffer_writes [OF c that] that by (auto simp: plugin_writes_nothing)
  have *: "recording g z0 q" "is_64_bits q = is_64_bits p" if "plugin_writes g z0 r bs q" "is_64_bits r = is_64_bits p" for r bs q
    using that by (simp_all add: plugin_writes_def same_settings_def)
  show ?thesis
    unfolding write_in_file_def record_bytes_def
    apply (rule write_then [OF c rec])
    apply (subst *(2), assumption, rule refl)
    apply (rule write_then [OF c], erule *(1), rule refl)
    apply (rule write_then [OF c], erule *(1), erule *(2), rule refl)
    apply (rule write_then [OF c], erule *(1))
     apply (metis *(2))
    apply (rule last)
    apply (erule *(1))
    apply (metis *(2))
    done
qed

lemma counter_independent [simp]:
  "written g z0 (p\<lparr>current_instruction := n\<rparr>) = written g z0 p"
  "recording g z0 (p\<lparr>current_instruction := n\<rparr>) = recording g z0 p"
  by (simp_all add: written_def recording_def stream_of_def)

section \<open>Properties\<close>

text \<open>
  C18: what \<open>write_in_file\<close> writes for an access, \<open>read_transaction\<close> reads back. In any state of a
  recording for a 64-bit target, compressed or not, and with a compressor that does what the library
  documents, the call returns, adds some bytes to the trace after all that was written before, and
  keeps the recording going. A reader that is supplied with these bytes, wherever the boundaries of
  its buffer and of the blocks of the file fall, returns the number of instructions as the delay
  and the request with the address, the size, the operation and the attributes of the access and,
  for a store of at most 8 bytes, its value; and it is left exactly behind them.
\<close>

theorem trace_record_roundtrip:
  fixes inflate :: "'y inflate"
  assumes "compresses deflate g" and "recording g z0 p" and "is_64_bits p"
    and "sz < 8" and "k = 0 \<or> k = 1" and "st \<longrightarrow> v \<noteq> U128"
  shows "\<exists>q bs. write_in_file deflate z0 st a sz delay v k p = returns q \<and> recording g z0 q
     \<and> written g z0 q = written g z0 p @ bs
     \<and> (\<forall>r rest r'. supplies inflate start r (bs @ rest) r' \<longrightarrow>
          (\<exists>m. read_transaction c inflate start junk t r
                 = returns ((unat delay, decoded c t st a sz v (k = 1)), m)
             \<and> supplies inflate start m rest r'))"
proof -
  obtain q where q: "write_in_file deflate z0 st a sz delay v k p = returns q"
    "plugin_writes g z0 p (record_bytes True st a sz delay v k) q"
    using write_in_file_writes [OF assms(1,2)] assms(3) by metis
  have "\<exists>m. read_transaction c inflate start junk t r = returns ((unat delay, decoded c t st a sz v (k = 1)), m)
     \<and> supplies inflate start m rest r'"
    if "supplies inflate start r (record_bytes True st a sz delay v k @ rest) r'" for r rest r'
    using read_record [OF that assms(4-6)] .
  then show ?thesis using q unfolding plugin_writes_def by blast
qed

text \<open>A compressor that copies.\<close>

definition copy_deflate :: "(u8 list \<times> bool) deflate" where
  "copy_deflate z fl inp cap = \<lparr>dr_status = MZ_OK, dr_consumed = min cap (length inp),
     dr_output = take cap inp,
     dr_stream = (fst z @ take cap inp, snd z \<or> fl = MZ_FINISH \<and> length inp < cap)\<rparr>"

definition copy_view :: "(u8 list \<times> bool) stream_view" where
  "copy_view = \<lparr>sv_taken = fst, sv_emitted = fst, sv_left = (\<lambda>fl z inp. length inp), sv_ended = snd\<rparr>"

lemma copy_compresses: "compresses copy_deflate copy_view"
  by (auto simp: compresses_def copy_deflate_def copy_view_def Let_def min_def)

definition ex_inflate :: "unit inflate" where
  "ex_inflate z inp cap = \<lparr>ir_status = MZ_OK, ir_consumed = min cap (length inp),
     ir_output = take cap inp, ir_stream = ()\<rparr>"

definition ex_record :: "u8 list" where
  "ex_record = record_bytes True True 0x80001234 1 7 (U16 0xabcd) 0"

definition ex_reader :: "unit trace_reader" where
  "ex_reader = \<lparr>bool_finish = False, stream = Stream (), trace_descriptor = [],
     buf = (\<lambda>i. if i < 13 then ex_record ! i else 0), end_buffer = 13, read_buffer = 0\<rparr>"

lemma ex_record_length: "length ex_record = 13"
  by (simp add: ex_record_def record_bytes_def address_bytes_def stored_value_bytes_def)

lemma ex_reader_supplies: "supplies ex_inflate () ex_reader (ex_record @ []) (ex_reader\<lparr>read_buffer := 13\<rparr>)"
proof -
  have "map (buf ex_reader) [0..<13] = ex_record"
    by (rule nth_equalityI) (simp_all add: ex_record_length ex_reader_def)
  then show ?thesis
    using supplies_buffered [of ex_reader 13 ex_inflate "()"]
    by (simp add: ex_reader_def BUF_SIZE_def MAX_SIZE_BUFFER_def)
qed

text \<open>A plugin that does not compress, with 3 bytes in its file, records a store.\<close>

definition ex_plugin :: "(u8 list \<times> bool) plugin" where
  "ex_plugin = plugin_new\<lparr>is_64_bits := True, out_file := Some [1, 2, 3], need_to_compress := False\<rparr>"

theorem trace_record_roundtrip_witness:
  "\<exists>q m t. write_in_file copy_deflate ([], False) True 0x80001234 1 7 (U16 0xabcd) 0 ex_plugin = returns q
     \<and> out_file q = Some ([1, 2, 3] @ ex_record)
     \<and> read_transaction default_cfg ex_inflate () 0 req_new ex_reader = returns ((7, t), m)
     \<and> req_addr t = 0x80001234 \<and> req_wdata t = 0xabcd \<and> req_size t = 1 \<and> is_store t"
proof -
  have rec: "recording copy_view ([], False) ex_plugin" "is_64_bits ex_plugin"
    by (simp_all add: recording_def ex_plugin_def plugin_new_def SIZE_BUFFER_def)
  obtain q bs where q: "write_in_file copy_deflate ([], False) True 0x80001234 1 7 (U16 0xabcd) 0 ex_plugin = returns q"
    "recording copy_view ([], False) q"
    "written copy_view ([], False) q = written copy_view ([], False) ex_plugin @ bs"
    and rd: "\<forall>r rest r'. supplies ex_inflate () r (bs @ rest) r' \<longrightarrow>
          (\<exists>m. read_transaction default_cfg ex_inflate () 0 req_new r
              = returns ((unat (7 :: u8), decoded default_cfg req_new True 0x80001234 1 (U16 0xabcd) ((0 :: u8) = 1)), m)
             \<and> supplies ex_inflate () m rest r')"
    using trace_record_roundtrip [OF copy_compresses rec, where inflate = ex_inflate and start = "()"
        and c = default_cfg and junk = 0 and t = req_new and st = True and sz = 1 and k = 0
        and v = "U16 0xabcd" and a = "0x80001234" and delay = 7] by auto
  have content: "out_file q = Some ([1, 2, 3] @ ex_record)" "need_to_compress q = False"
    using q(1)
    by (auto simp: write_in_file_def write_buffer_def ex_plugin_def plugin_new_def put_file_def ex_record_def
        record_bytes_def)
  then have "bs = ex_record"
    using q(3) by (simp add: written_def ex_plugin_def plugin_new_def)
  then obtain m where "read_transaction default_cfg ex_inflate () 0 req_new ex_reader
      = returns ((7, decoded default_cfg req_new True 0x80001234 1 (U16 0xabcd) ((0 :: u8) = 1)), m)"
    using rd [rule_format, of ex_reader "[]"] ex_reader_supplies by auto
  moreover have "req_addr (decoded default_cfg req_new True 0x80001234 1 (U16 0xabcd) b) = 0x80001234"
    "req_wdata (decoded default_cfg req_new True 0x80001234 1 (U16 0xabcd) b) = 0xabcd"
    "req_size (decoded default_cfg req_new True 0x80001234 1 (U16 0xabcd) b) = 1"
    "is_store (decoded default_cfg req_new True 0x80001234 1 (U16 0xabcd) b)" for b
    by (simp_all add: decoded_def is_store_def default_cfg_def HPDCACHE_REQ_DATA_WIDTH_def)
  ultimately show ?thesis using q(1) content(1) by blast
qed

text \<open>
  C19: reading \<open>n\<close> bytes of a trace returns, with a value, an exit or an access without meaning,
  whatever the trace holds, except in one case, in which it never does: before one of the bytes
  the buffer is used up and the decompressor, fed with the next block of the file, comes to an idle
  call with input left. The law of the decompressor allows idle calls and stream errors; it says
  that a call that is not idle leaves less to do. As the loop stops at a stream error only, the
  case arises on corrupt data and also on a block with further bytes after the end of the stream.
\<close>

theorem reading_a_trace_ends:
  assumes "works_off inflate work"
  shows "get_content_of_trace inflate z0 n r = None \<longleftrightarrow>
     (\<exists>i bs r'. i < n \<and> get_content_of_trace inflate z0 i r = returns (bs, r') \<and> refill_stalls inflate z0 r')"
  using assms by (rule get_content_None_iff)

text \<open>
  A decompressor that copies bytes, one in each call, fails on a zero byte, and does nothing
  once it has failed.
\<close>

definition ex_copying :: "bool inflate" where
  "ex_copying failed inp cap =
     (if failed \<or> inp = [] then \<lparr>ir_status = MZ_DATA_ERROR, ir_consumed = 0, ir_output = [], ir_stream = failed\<rparr>
      else if hd inp = 0 then \<lparr>ir_status = MZ_DATA_ERROR, ir_consumed = 0, ir_output = [], ir_stream = True\<rparr>
      else \<lparr>ir_status = MZ_OK, ir_consumed = 1, ir_output = [hd inp], ir_stream = False\<rparr>)"

lemma ex_copying_works_off: "works_off ex_copying (\<lambda>failed inp. length inp + (if failed then 0 else 1))"
  by (simp add: works_off_def idle_def ex_copying_def)

definition ex_reader_of :: "u8 list \<Rightarrow> bool trace_reader" where
  "ex_reader_of file = \<lparr>bool_finish = False, stream = Null, trace_descriptor = file, buf = (\<lambda>i. 0),
     end_buffer = MAX_SIZE_BUFFER, read_buffer = MAX_SIZE_BUFFER\<rparr>"

theorem reading_a_trace_ends_witness:
  "get_content_of_trace ex_copying False 1 (ex_reader_of [1, 2]) \<noteq> None
   \<and> get_content_of_trace ex_copying False 1 (ex_reader_of [1, 0]) = None"
proof -
  have one: "get_content_of_trace ex_copying False 1 r = None \<longleftrightarrow> refill_stalls ex_copying False r" for r
    using reading_a_trace_ends [OF ex_copying_works_off, of False 1 r] by simp
  have blk: "take MAX_SIZE_BUFFER [x, y] = [x, y]" for x y :: u8 by (simp add: MAX_SIZE_BUFFER_def)
  have "inflate_stalls ex_copying 1 True [0]" by (rule stalls_idle) (simp_all add: idle_def ex_copying_def)
  then have "inflate_stalls ex_copying 1 False [0]"
    using stalls_later [OF refl, of ex_copying False "[0]" 1] by (simp add: ex_copying_def)
  then have "inflate_stalls ex_copying 0 False [1, 0]"
    using stalls_later [OF refl, of ex_copying False "[1, 0]" 0]
    by (simp add: ex_copying_def BUF_SIZE_def MAX_SIZE_BUFFER_def)
  moreover have "\<not> inflate_stalls ex_copying 1 False [2]"
    by (subst stalls_iff) (simp add: idle_def ex_copying_def)
  then have "\<not> inflate_stalls ex_copying 0 False [1, 2]"
    by (subst stalls_iff) (simp add: idle_def ex_copying_def)
  ultimately show ?thesis
    by (simp only: one) (simp add: refill_stalls_def ex_reader_of_def blk)
qed

text \<open>
  a trace with corrupt data hangs the reader: when the decompressor reports a data error (any
  status but a stream error) without consuming its input or producing output, the code does
  not look at the status and calls it again with the same input for ever.
\<close>

theorem corrupt_trace_hangs:
  assumes "stream r = Stream z" and "read_buffer r = end_buffer r" and "trace_descriptor r \<noteq> []"
    and "\<forall>inp cap. inflate z inp cap = \<lparr>ir_status = MZ_DATA_ERROR, ir_consumed = 0, ir_output = [],
           ir_stream = z\<rparr>"
  shows "get_content_of_trace inflate z0 (Suc n) r = None"
proof -
  have ne: "take MAX_SIZE_BUFFER (trace_descriptor r) \<noteq> []"
    using assms(3) by (simp add: MAX_SIZE_BUFFER_def)
  have "inflate_loop inflate z (take MAX_SIZE_BUFFER (trace_descriptor r)) s = None"
    for s :: "'a trace_reader"
    by (rule inflate_loop_stuck [OF ne]) (simp_all add: assms(4))
  then show ?thesis
    using assms(1,2) by (simp add: next_byte_def decompress_data_from_trace_def Let_def)
qed

theorem corrupt_trace_hangs_witness:
  "get_content_of_trace (\<lambda>z inp cap. \<lparr>ir_status = MZ_DATA_ERROR, ir_consumed = 0, ir_output = [],
      ir_stream = z\<rparr>) () 1 (ex_reader\<lparr>read_buffer := 13, trace_descriptor := [1, 2]\<rparr>) = None"
  using corrupt_trace_hangs [of "ex_reader\<lparr>read_buffer := 13, trace_descriptor := [1, 2]\<rparr>" "()"
      "\<lambda>z inp cap. \<lparr>ir_status = MZ_DATA_ERROR, ir_consumed = 0, ir_output = [], ir_stream = z\<rparr>" "()" 0]
  by (simp add: ex_reader_def)

text \<open>
  the end of a recording. With one byte left in the buffer the final call compresses nothing:
  the byte is dropped and the stream is not finished. With none left, which includes a run
  without any access, the bound of the loop wraps around and, when the compressor has no
  output for no input and no room, the call never returns.
\<close>

theorem short_final_flush:
  assumes "need_to_compress p"
  shows "(buffer_begin p = 1 \<longrightarrow> plugin_exit deflate z0 p
            = returns (p\<lparr>zstream := Some (case zstream p of None \<Rightarrow> z0 | Some z \<Rightarrow> z)\<rparr>))
     \<and> (buffer_begin p = 0 \<and> zstream p = Some z
          \<and> deflate z MZ_FINISH [] 0 = \<lparr>dr_status = MZ_BUF_ERROR, dr_consumed = 0, dr_output = [], dr_stream = z\<rparr>
          \<longrightarrow> plugin_exit deflate z0 p = None)"
proof (intro conjI impI)
  assume "buffer_begin p = 1"
  then obtain b where b: "buffer_compress p = [b]" by (auto simp: length_Suc_conv)
  then show "plugin_exit deflate z0 p
      = returns (p\<lparr>zstream := Some (case zstream p of None \<Rightarrow> z0 | Some z \<Rightarrow> z)\<rparr>)"
    using assms by (simp add: plugin_exit_def compress_data_to_file_def compress_one)
next
  assume e: "buffer_begin p = 0 \<and> zstream p = Some z
     \<and> deflate z MZ_FINISH [] 0 = \<lparr>dr_status = MZ_BUF_ERROR, dr_consumed = 0, dr_output = [], dr_stream = z\<rparr>"
  then have "compress_loop deflate MZ_FINISH [] 0 z p = None"
    by (intro compress_nothing) simp_all
  then show "plugin_exit deflate z0 p = None"
    using assms e by (simp add: plugin_exit_def compress_data_to_file_def)
qed

definition ex_deflate :: "u8 list deflate" where
  "ex_deflate z fl inp cap = \<lparr>dr_status = MZ_OK, dr_consumed = length inp, dr_output = [],
     dr_stream = z @ inp\<rparr>"

theorem short_final_flush_witness:
  "plugin_exit ex_deflate [] (plugin_new\<lparr>out_file := Some [], buffer_compress := [7]\<rparr>)
     = returns (plugin_new\<lparr>out_file := Some [], buffer_compress := [7], zstream := Some []\<rparr>)"
  using short_final_flush [of "plugin_new\<lparr>out_file := Some [], buffer_compress := [7]\<rparr>" ex_deflate "[]" "[]"]
  by (simp add: plugin_new_def)

end
