(* ===== verification/Trace_Replay.thy ===== *)
theory Trace_Replay
  imports Sequences_Run Trace_Codec
begin

text \<open>
  From the plugin that records a program to the requests that the trace sequence sends: the
  composition of \<open>qemu_plugin.c\<close>, \<open>hpdcache_test_trace_manager.h\<close> and
  \<open>hpdcache_test_from_trace_seq.h\<close>.
\<close>

section \<open>Recorded accesses\<close>

record recorded_access =
  ac_store :: bool
  ac_addr :: u64
  ac_size :: u8
  ac_delay :: u8
  ac_value :: mem_value
  ac_uncached :: bool

definition access_ok :: "recorded_access \<Rightarrow> bool" where
  "access_ok a \<longleftrightarrow> ac_size a < 8 \<and> (ac_store a \<longrightarrow> ac_value a \<noteq> U128)"

text \<open>The bytes of an access on a 64-bit target, and the request it stands for.\<close>

definition access_bytes :: "recorded_access \<Rightarrow> u8 list" where
  "access_bytes a = record_bytes True (ac_store a) (ac_addr a) (ac_size a) (ac_delay a) (ac_value a)
     (if ac_uncached a then 1 else 0)"

definition access_request :: "cfg \<Rightarrow> recorded_access \<Rightarrow> nat \<Rightarrow> req" where
  "access_request c a tid = decoded c (req_new\<lparr>req_tid := tid\<rparr>) (ac_store a) (ac_addr a) (ac_size a)
     (ac_value a) (ac_uncached a)"

section \<open>Reading them back\<close>

definition holds_bytes :: "'z trace_reader \<Rightarrow> u8 list \<Rightarrow> bool" where
  "holds_bytes r bs \<longleftrightarrow> read_buffer r + length bs \<le> end_buffer r \<and> end_buffer r \<le> BUF_SIZE
     \<and> map (buf r) [read_buffer r..<read_buffer r + length bs] = bs"

lemma holds_append:
  assumes "holds_bytes r (xs @ ys)"
  shows "holds_bytes r xs" and "holds_bytes (r\<lparr>read_buffer := read_buffer r + length xs\<rparr>) ys"
proof -
  let ?n = "read_buffer r" and ?m = "length xs" and ?k = "length ys"
  have "[?n..<?n + (?m + ?k)] = [?n..<?n + ?m] @ [?n + ?m..<?n + ?m + ?k]"
    using upt_add_eq_append [of ?n "?n + ?m" ?k] by (simp add: add.assoc)
  then have "map (buf r) [?n..<?n + ?m] @ map (buf r) [?n + ?m..<?n + ?m + ?k] = xs @ ys"
    using assms by (simp add: holds_bytes_def)
  then have "map (buf r) [?n..<?n + ?m] = xs" "map (buf r) [?n + ?m..<?n + ?m + ?k] = ys"
    by simp_all
  then show "holds_bytes r xs" and "holds_bytes (r\<lparr>read_buffer := ?n + ?m\<rparr>) ys"
    using assms by (simp_all add: holds_bytes_def)
qed

lemma holds_supplies:
  assumes "holds_bytes r bs"
  shows "supplies inflate z0 r bs (r\<lparr>read_buffer := read_buffer r + length bs\<rparr>)"
  using supplies_buffered [of r "length bs" inflate z0] assms by (simp add: holds_bytes_def)

lemma read_access:
  assumes "holds_bytes r (access_bytes a)" and "access_ok a"
  shows "read_transaction c inflate z0 junk (req_new\<lparr>req_tid := i\<rparr>) r
     = returns ((unat (ac_delay a), access_request c a i),
         r\<lparr>read_buffer := read_buffer r + length (access_bytes a)\<rparr>)"
proof -
  let ?k = "if ac_uncached a then 1 else 0 :: u8"
  have "supplies inflate z0 r (record_bytes True (ac_store a) (ac_addr a) (ac_size a) (ac_delay a) (ac_value a) ?k @ [])
      (r\<lparr>read_buffer := read_buffer r + length (access_bytes a)\<rparr>)"
    using holds_supplies [OF assms(1)] by (simp add: access_bytes_def)
  from read_record [OF this, of c junk "req_new\<lparr>req_tid := i\<rparr>"]
  show ?thesis using assms(2) by (simp add: access_ok_def access_request_def)
qed

lemma access_bytes_nonempty: "0 < length (access_bytes a)"
  by (simp add: access_bytes_def record_bytes_def)

lemma access_request_be: "req_be (access_request c a i) = 0"
  by (simp add: access_request_def decoded_def req_new_def)

text \<open>
  The loop stops after \<open>n\<close> transactions, or at the end of the trace when the decompressor has
  finished and the buffer holds all that is left.
\<close>

lemma replay_up_to:
  assumes "seq_inv c s" and "\<And>n. responsive c (acks n)"
    and "holds_bytes r (concat (map access_bytes accs))" and "\<And>a. a \<in> set accs \<Longrightarrow> access_ok a"
    and "n \<le> length accs \<or> bool_finish r \<and> end_buffer r = read_buffer r + length (concat (map access_bytes accs))"
  shows "\<exists>r' s' is. from_trace_loop c inflate z0 acks rnd junk n r s = returns (r', s')
     \<and> seq_inv c s' \<and> length is = min n (length accs)
     \<and> transaction_fifo s' = transaction_fifo s @ map2 (access_request c) (take n accs) is"
  using assms(1,3-5)
proof (induction accs arbitrary: n r s)
  case Nil
  have "from_trace_loop c inflate z0 acks rnd junk n r s = returns (r, s)"
    using Nil.prems(4) by (cases n) (auto simp: is_finish_def)
  then show ?case using Nil.prems(1) by auto
next
  case (Cons a accs)
  show ?case
  proof (cases n)
    case 0
    then show ?thesis using Cons.prems(1) by auto
  next
    case (Suc m)
    have h: "holds_bytes r (access_bytes a @ concat (map access_bytes accs))" using Cons.prems(2) by simp
    let ?r = "r\<lparr>read_buffer := read_buffer r + length (access_bytes a)\<rparr>"
    have "read_buffer r < end_buffer r"
      using access_bytes_nonempty [of a] holds_append(1) [OF h] unfolding holds_bytes_def by linarith
    then have "\<not> is_finish r" by (simp add: is_finish_def)
    moreover have "is_available_id c (acknowledge (acks m) s)"
      using assms(2) Cons.prems(1) by (simp add: responsive_def seq_inv_def)
    ultimately obtain i nx where step: "from_trace_loop c inflate z0 acks rnd junk (Suc m) r s
          = continue (read_transaction c inflate z0 (junk m) (req_new\<lparr>req_tid := i\<rparr>) r)
              (\<lambda>((delay, q), r). from_trace_loop c inflate z0 acks rnd junk m r (nx q))"
      and nx: "\<And>q. seq_inv c (nx q) \<and> transaction_fifo (nx q) = transaction_fifo s @ [q]"
      using from_trace_step [OF Cons.prems(1), of r acks m inflate z0 rnd junk] by blast
    have rd: "read_transaction c inflate z0 (junk m) (req_new\<lparr>req_tid := i\<rparr>) r
        = returns ((unat (ac_delay a), access_request c a i), ?r)"
      by (rule read_access [OF holds_append(1) [OF h]]) (use Cons.prems(3) in simp)
    have "\<exists>r' s' is. from_trace_loop c inflate z0 acks rnd junk m ?r (nx (access_request c a i))
          = returns (r', s') \<and> seq_inv c s' \<and> length is = min m (length accs)
       \<and> transaction_fifo s' = transaction_fifo (nx (access_request c a i))
           @ map2 (access_request c) (take m accs) is"
    proof (rule Cons.IH)
      show "seq_inv c (nx (access_request c a i))" using nx by blast
      show "holds_bytes ?r (concat (map access_bytes accs))" by (rule holds_append(2) [OF h])
      show "access_ok b" if "b \<in> set accs" for b using Cons.prems(3) that by simp
      show "m \<le> length accs
          \<or> bool_finish ?r \<and> end_buffer ?r = read_buffer ?r + length (concat (map access_bytes accs))"
        using Cons.prems(4) Suc by auto
    qed
    then obtain r' s' "is" where ih: "from_trace_loop c inflate z0 acks rnd junk m ?r
          (nx (access_request c a i)) = returns (r', s')" "seq_inv c s'" "length is = min m (length accs)"
      "transaction_fifo s' = transaction_fifo (nx (access_request c a i))
         @ map2 (access_request c) (take m accs) is"
      by blast
    have "from_trace_loop c inflate z0 acks rnd junk n r s = returns (r', s')"
      using ih(1) unfolding Suc step rd by simp
    then show ?thesis
      using ih(2-4) nx Suc by (intro exI [of _ r'] exI [of _ s'] exI [of _ "i # is"]) simp
  qed
qed

lemma replay_loop:
  assumes "seq_inv c s" and "\<And>n. responsive c (acks n)"
    and "holds_bytes r (concat (map access_bytes accs))" and "\<And>a. a \<in> set accs \<Longrightarrow> access_ok a"
  shows "\<exists>r' s' is. from_trace_loop c inflate z0 acks rnd junk (length accs) r s = returns (r', s')
     \<and> seq_inv c s' \<and> length is = length accs
     \<and> transaction_fifo s' = transaction_fifo s @ map2 (access_request c) accs is"
  using replay_up_to [OF assms, of "length accs"] by simp

section \<open>Properties\<close>

text \<open>
  A recorded program is replayed access by access: a reader whose buffer holds the records the
  plugin wrote for a list of accesses makes the trace sequence, when it is asked for that many
  transactions, send exactly the requests of those accesses, in order, each with an identifier
  of its own; and the run ends.
\<close>

theorem trace_replays_accesses:
  assumes "seq_inv c s" and "\<forall>n. responsive c (acks n)"
    and "holds_bytes r (concat (map access_bytes accs))" and "\<forall>a \<in> set accs. access_ok a"
    and "max_transactions s = length accs"
  shows "\<exists>r' s' is. from_trace_run c inflate z0 acks rnd junk r s = returns (r', s')
     \<and> seq_inv c s' \<and> length is = length accs
     \<and> transaction_fifo s' = transaction_fifo s @ map2 (access_request c) accs is"
  unfolding from_trace_run_def assms(5)
  using replay_loop [OF assms(1) _ assms(3)] assms(2,4) by blast

definition ex_access :: recorded_access where
  "ex_access = \<lparr>ac_store = True, ac_addr = 0x80001234, ac_size = 1, ac_delay = 7, ac_value = U16 0xabcd,
     ac_uncached = False\<rparr>"

lemma ex_access_bytes: "access_bytes ex_access = ex_record"
  by (simp add: access_bytes_def ex_access_def ex_record_def)

lemma ex_reader_holds: "holds_bytes ex_reader (concat (map access_bytes [ex_access]))"
proof -
  have "map (buf ex_reader) [0..<13] = ex_record"
    by (rule nth_equalityI) (simp_all add: ex_record_length ex_reader_def)
  then show ?thesis
    by (simp add: holds_bytes_def ex_access_bytes ex_record_length)
      (simp add: ex_reader_def BUF_SIZE_def MAX_SIZE_BUFFER_def)
qed

theorem trace_replays_accesses_witness:
  "\<exists>r' s' t. from_trace_run default_cfg ex_inflate () (\<lambda>n. take 1) (\<lambda>n. 9) (\<lambda>n. 0) ex_reader
       (seq_new ''from_trace_seq''\<lparr>max_transactions := 1\<rparr>) = returns (r', s')
     \<and> transaction_fifo s' = [t] \<and> is_store t \<and> req_addr t = 0x80001234 \<and> req_wdata t = 0xabcd"
proof -
  let ?s = "seq_new ''from_trace_seq''\<lparr>max_transactions := 1\<rparr>"
  have ok: "\<forall>a \<in> set [ex_access]. access_ok a" by (simp add: access_ok_def ex_access_def)
  obtain r' s' "is" where r: "from_trace_run default_cfg ex_inflate () (\<lambda>n. take 1) (\<lambda>n. 9) (\<lambda>n. 0) ex_reader ?s
      = returns (r', s')" "length is = 1"
    "transaction_fifo s' = transaction_fifo ?s @ map2 (access_request default_cfg) [ex_access] is"
    using trace_replays_accesses [OF seq_inv_new [of default_cfg 1 "''from_trace_seq''"] _ ex_reader_holds ok,
        where acks = "\<lambda>n. take 1" and inflate = ex_inflate
        and rnd = "\<lambda>n. 9" and junk = "\<lambda>n. 0"]
      ex_responsive by auto
  obtain i where "is = [i]" using r(2) by (auto simp: length_Suc_conv)
  then have "transaction_fifo s' = [access_request default_cfg ex_access i]"
    using r(3) by (simp add: seq_new_def)
  then show ?thesis
    using r(1) by (simp add: access_request_def decoded_def ex_access_def is_store_def default_cfg_def
        HPDCACHE_REQ_DATA_WIDTH_def)
qed

text \<open>
  What a trace cannot express: whatever the trace, none of the requests that the trace sequence
  sends enables a byte, so that its stores write nothing.
\<close>

theorem trace_requests_enable_no_byte:
  assumes "seq_inv c s" and "from_trace_run c inflate z0 acks rnd junk r s = returns (r', s')"
  shows "\<exists>ts. transaction_fifo s' = transaction_fifo s @ ts \<and> length ts \<le> max_transactions s
     \<and> (\<forall>t \<in> set ts. req_be t = 0)"
  using from_trace_loop_sends [OF assms(1) assms(2) [unfolded from_trace_run_def]]
  by (auto simp: sends_def)

theorem trace_requests_enable_no_byte_witness:
  "\<exists>r' s' t. from_trace_run default_cfg ex_inflate () (\<lambda>n. take 1) (\<lambda>n. 9) (\<lambda>n. 0) ex_reader
       (seq_new ''from_trace_seq''\<lparr>max_transactions := 1\<rparr>) = returns (r', s')
     \<and> transaction_fifo s' = [t] \<and> req_be t = 0"
proof -
  let ?s = "seq_new ''from_trace_seq''\<lparr>max_transactions := 1\<rparr>"
  obtain r' s' "is" where r: "from_trace_loop default_cfg ex_inflate () (\<lambda>n. take 1) (\<lambda>n. 9) (\<lambda>n. 0)
        (length [ex_access]) ex_reader ?s = returns (r', s')" "length is = length [ex_access]"
    "transaction_fifo s' = transaction_fifo ?s @ map2 (access_request default_cfg) [ex_access] is"
    using replay_loop [OF seq_inv_new [of default_cfg 1 "''from_trace_seq''"] ex_responsive ex_reader_holds,
        where inflate = ex_inflate and rnd = "\<lambda>n. 9" and junk = "\<lambda>n. 0"] by (auto simp: access_ok_def ex_access_def)
  then have run: "from_trace_run default_cfg ex_inflate () (\<lambda>n. take 1) (\<lambda>n. 9) (\<lambda>n. 0) ex_reader ?s
      = returns (r', s')"
    by (simp add: from_trace_run_def)
  obtain t where "transaction_fifo s' = [t]"
    using r(2,3) by (cases "is") (auto simp: seq_new_def)
  moreover from this have "req_be t = 0"
    using trace_requests_enable_no_byte [OF seq_inv_new run] by (auto simp: seq_new_def)
  ultimately show ?thesis using run by blast
qed

end
