(* ===== verification/Trace_Recording.thy ===== *)
theory Trace_Recording
  imports Trace_Replay
begin

text \<open>
  A program recorded by the plugin of \<open>qemu_plugin.c\<close> and replayed by the trace sequence: the
  callbacks over a whole run, the last flush, the file, and the reader that starts on it.
\<close>

section \<open>The accesses of a program\<close>

text \<open>Both callbacks are registered on every instruction, so each of them causes its events.\<close>

definition insn_trace :: "bool \<Rightarrow> mem_access list \<Rightarrow> event list" where
  "insn_trace exec_first accs =
     (if exec_first then Executed # map Accessed accs else map Accessed accs @ [Executed])"

lemma insn_events_registered:
  "i < n \<Longrightarrow> insn_events b (tb_trans_cb n) i accs = insn_trace b accs"
  by (auto simp: insn_events_def tb_trans_cb_def insn_trace_def)

lemma block_events_insns: "block_events b insns = concat (map (insn_trace b) insns)"
proof -
  have "block_events b insns = concat (map (\<lambda>i. insn_trace b (insns ! i)) [0..<length insns])"
    unfolding block_events_def by (rule arg_cong [where f = concat]) (simp add: insn_events_registered)
  also have "\<dots> = concat (map (insn_trace b) (map ((!) insns) [0..<length insns]))"
    by (simp add: comp_def del: map_nth)
  finally show ?thesis by (simp only: map_nth)
qed

text \<open>
  The reference: each access of each instruction, with the number of instructions executed since
  the last access; the further accesses of one instruction have none.
\<close>

definition access_of :: "nat \<Rightarrow> mem_access \<Rightarrow> recorded_access" where
  "access_of instrs a = \<lparr>ac_store = mi_is_store (ma_info a),
     ac_addr = (case mi_hwaddr (ma_info a) of Some pa \<Rightarrow> pa | None \<Rightarrow> ma_vaddr a),
     ac_size = word_of_nat (mi_size_shift (ma_info a)), ac_delay = word_of_nat instrs,
     ac_value = mi_value (ma_info a),
     ac_uncached = (case mi_hwaddr (ma_info a) of Some pa \<Rightarrow> is_device_address pa | None \<Rightarrow> False)\<rparr>"

primrec insn_accesses :: "nat \<Rightarrow> mem_access list \<Rightarrow> recorded_access list" where
  "insn_accesses n [] = []"
| "insn_accesses n (a # as) = access_of n a # insn_accesses 0 as"

definition counter_after :: "nat \<Rightarrow> mem_access list \<Rightarrow> nat" where
  "counter_after n as = (if as = [] then n else 0)"

fun program_accesses :: "bool \<Rightarrow> nat \<Rightarrow> mem_access list list \<Rightarrow> recorded_access list" where
  "program_accesses exec_first n [] = []"
| "program_accesses exec_first n (as # insns) =
     (let m = (if exec_first then n + 1 else n); k = counter_after m as
      in insn_accesses m as @ program_accesses exec_first (if exec_first then k else k + 1) insns)"

section \<open>What the callbacks write\<close>

text \<open>
  The callback of a memory access in binary mode adds exactly one record to what has been
  written, compressed or not, with the physical address when QEMU knows it, the device
  ranges marked uncacheable, and the number of instructions since the last access, of which
  the record keeps 8 bits; the counter restarts at 0.
\<close>

theorem access_writes_one_record:
  assumes "compresses deflate g" and "recording g z0 p"
    and "write_data p" and "mode p = WRITE_BINARY" and "is_64_bits p"
  shows "\<exists>q. mem_cb deflate z0 (ma_vcpu a) (ma_info a) (ma_vaddr a) p = returns (q\<lparr>current_instruction := 0\<rparr>)
     \<and> plugin_writes g z0 p (access_bytes (access_of (current_instruction p) a)) q"
proof -
  let ?i = "ma_info a"
  let ?a = "case mi_hwaddr ?i of Some a \<Rightarrow> a | None \<Rightarrow> ma_vaddr a"
  let ?k = "if mi_hwaddr ?i \<noteq> None \<and> is_device_address ?a then 1 else 0"
  obtain q where q: "write_in_file deflate z0 (mi_is_store ?i) ?a (word_of_nat (mi_size_shift ?i))
        (word_of_nat (current_instruction p)) (mi_value ?i) ?k p = returns q"
    "plugin_writes g z0 p (record_bytes (is_64_bits p) (mi_is_store ?i) ?a
        (word_of_nat (mi_size_shift ?i)) (word_of_nat (current_instruction p)) (mi_value ?i) ?k) q"
    using write_in_file_writes [OF assms(1,2)] by blast
  have "record_bytes (is_64_bits p) (mi_is_store ?i) ?a
        (word_of_nat (mi_size_shift ?i)) (word_of_nat (current_instruction p)) (mi_value ?i) ?k
      = access_bytes (access_of (current_instruction p) a)"
    using assms(5) by (simp add: access_bytes_def access_of_def split: option.split)
  moreover have "mem_cb deflate z0 (ma_vcpu a) ?i (ma_vaddr a) p = returns (q\<lparr>current_instruction := 0\<rparr>)"
    using assms(3,4) q(1) by (simp only: mem_cb_def Let_def) simp
  ultimately show ?thesis using q(2) by metis
qed

text \<open>What the callbacks keep, and what a stretch of a run records.\<close>

definition binary_recorder :: "'z stream_view \<Rightarrow> 'z \<Rightarrow> 'z plugin \<Rightarrow> bool" where
  "binary_recorder g z0 p \<longleftrightarrow> recording g z0 p \<and> write_data p \<and> mode p = WRITE_BINARY \<and> is_64_bits p"

definition plugin_records :: "'z stream_view \<Rightarrow> 'z \<Rightarrow> nat \<Rightarrow> 'z plugin \<Rightarrow> recorded_access list \<Rightarrow> 'z plugin \<Rightarrow> bool" where
  "plugin_records g z0 n p accs q \<longleftrightarrow> binary_recorder g z0 q \<and> need_to_compress q = need_to_compress p
     \<and> current_instruction q = n \<and> written g z0 q = written g z0 p @ concat (map access_bytes accs)"

lemma plugin_records_nothing: "binary_recorder g z0 p \<Longrightarrow> plugin_records g z0 (current_instruction p) p [] p"
  by (simp add: plugin_records_def)

lemma plugin_records_trans: "plugin_records g z0 m p as q \<Longrightarrow> plugin_records g z0 n q bs r \<Longrightarrow> plugin_records g z0 n p (as @ bs) r"
  by (simp add: plugin_records_def)

lemma count_records:
  "binary_recorder g z0 p \<Longrightarrow> plugin_records g z0 (current_instruction p + 1) p [] (counter_inst p)"
  by (simp add: plugin_records_def binary_recorder_def counter_inst_def)

lemma access_records:
  assumes "compresses deflate g" and "binary_recorder g z0 p"
  shows "\<exists>q. plugin_event deflate z0 (Accessed a) p = returns q
     \<and> plugin_records g z0 0 p [access_of (current_instruction p) a] q"
proof -
  obtain q where q: "plugin_event deflate z0 (Accessed a) p = returns (q\<lparr>current_instruction := 0\<rparr>)"
    "plugin_writes g z0 p (access_bytes (access_of (current_instruction p) a)) q"
    using access_writes_one_record [OF assms(1), of z0 p a] assms(2) by (auto simp: binary_recorder_def)
  have "plugin_records g z0 0 p [access_of (current_instruction p) a] (q\<lparr>current_instruction := 0\<rparr>)"
    using q(2) assms(2)
    by (simp add: plugin_records_def plugin_writes_def binary_recorder_def same_settings_def)
  with q(1) show ?thesis by blast
qed

lemma plugin_events_append:
  "plugin_events deflate z0 (es @ fs) p
     = continue (plugin_events deflate z0 es p) (plugin_events deflate z0 fs)"
  by (induction es arbitrary: p) (simp_all add: continue_continue cong: continue_cong)

lemma accesses_records:
  assumes "compresses deflate g"
  shows "binary_recorder g z0 p \<Longrightarrow>
     \<exists>q. plugin_events deflate z0 (map Accessed as) p = returns q
       \<and> plugin_records g z0 (counter_after (current_instruction p) as) p
           (insn_accesses (current_instruction p) as) q"
proof (induction as arbitrary: p)
  case Nil
  then show ?case using plugin_records_nothing [OF Nil] by (simp add: counter_after_def)
next
  case (Cons a as)
  obtain q where q: "plugin_event deflate z0 (Accessed a) p = returns q"
    "plugin_records g z0 0 p [access_of (current_instruction p) a] q"
    using access_records [OF assms Cons.prems, of a] by auto
  then have "binary_recorder g z0 q" "current_instruction q = 0" by (simp_all add: plugin_records_def)
  with Cons.IH [of q] obtain r where "plugin_events deflate z0 (map Accessed as) q = returns r"
    "plugin_records g z0 0 q (insn_accesses 0 as) r" by (auto simp: counter_after_def split: if_splits)
  with q plugin_records_trans [OF q(2)] show ?case by (fastforce simp: counter_after_def)
qed

lemma insn_records:
  assumes "compresses deflate g" and "binary_recorder g z0 p"
    and n_def: "n = (if b then current_instruction p + 1 else current_instruction p)"
  shows "\<exists>q. plugin_events deflate z0 (insn_trace b as) p = returns q
     \<and> plugin_records g z0 (if b then counter_after n as else counter_after n as + 1) p (insn_accesses n as) q"
proof (cases b)
  case True
  have c: "plugin_records g z0 n p [] (counter_inst p)" "binary_recorder g z0 (counter_inst p)"
    "current_instruction (counter_inst p) = n"
    using count_records [OF assms(2)] True by (simp_all add: plugin_records_def n_def)
  from accesses_records [OF assms(1) c(2)] c(3) obtain q where
    "plugin_events deflate z0 (map Accessed as) (counter_inst p) = returns q"
    "plugin_records g z0 (counter_after n as) (counter_inst p) (insn_accesses n as) q" by auto
  with plugin_records_trans [OF c(1)] True show ?thesis by (fastforce simp: insn_trace_def)
next
  case False
  obtain q where q: "plugin_events deflate z0 (map Accessed as) p = returns q"
    "plugin_records g z0 (counter_after n as) p (insn_accesses n as) q"
    using accesses_records [OF assms(1,2)] False by (auto simp: n_def)
  then have "plugin_records g z0 (counter_after n as + 1) q [] (counter_inst q)"
    using count_records [of g z0 q] by (simp add: plugin_records_def)
  with q plugin_records_trans [OF q(2)] False show ?thesis
    by (fastforce simp: insn_trace_def plugin_events_append)
qed

lemma program_records:
  assumes "compresses deflate g"
  shows "binary_recorder g z0 p \<Longrightarrow>
     \<exists>q n. plugin_events deflate z0 (concat (map (insn_trace b) insns)) p = returns q
       \<and> plugin_records g z0 n p (program_accesses b (current_instruction p) insns) q"
proof (induction insns arbitrary: p)
  case Nil
  then show ?case using plugin_records_nothing [OF Nil] by auto
next
  case (Cons as insns)
  define n where "n = (if b then current_instruction p + 1 else current_instruction p)"
  define k where "k = (if b then counter_after n as else counter_after n as + 1)"
  obtain q where q: "plugin_events deflate z0 (insn_trace b as) p = returns q"
    "plugin_records g z0 k p (insn_accesses n as) q"
    using insn_records [OF assms Cons.prems n_def] unfolding k_def by blast
  then have "binary_recorder g z0 q" "current_instruction q = k" by (simp_all add: plugin_records_def)
  with Cons.IH [of q] obtain r m where
    r: "plugin_events deflate z0 (concat (map (insn_trace b) insns)) q = returns r"
    "plugin_records g z0 m q (program_accesses b k insns) r" by auto
  have "plugin_events deflate z0 (concat (map (insn_trace b) (as # insns))) p = returns r"
    using q(1) r(1) by (simp add: plugin_events_append)
  moreover have "program_accesses b (current_instruction p) (as # insns)
      = insn_accesses n as @ program_accesses b k insns"
    by (simp add: n_def k_def Let_def)
  ultimately show ?case using plugin_records_trans [OF q(2) r(2)] by metis
qed

section \<open>The end of a recording\<close>

lemma exit_ends_stream:
  assumes "compresses deflate g" and "recording g z0 p" and "need_to_compress p" and "2 \<le> buffer_begin p"
  shows "\<exists>w. plugin_exit deflate z0 p = returns (p\<lparr>out_file := Some (sv_emitted g w), zstream := Some w\<rparr>)
     \<and> sv_ended g w \<and> sv_taken g w = written g z0 p"
proof -
  have p: "\<not> sv_ended g (stream_of z0 p)" "out_file p = Some (sv_emitted g (stream_of z0 p))"
    using assms(2,3) by (simp_all add: recording_def)
  obtain w where "compress_loop deflate MZ_FINISH (buffer_compress p) 0 (stream_of z0 p) p
      = returns (w, p\<lparr>out_file := Some (sv_emitted g w)\<rparr>)"
    "sv_taken g w = sv_taken g (stream_of z0 p) @ buffer_compress p" "sv_ended g w"
    using compress_compresses [OF assms(1,4) p, of MZ_FINISH] by auto
  then show ?thesis
    using assms(3)
    by (intro exI [of _ w]) (simp add: plugin_exit_def compress_data_to_file_def stream_of_def written_def)
qed

lemma buffered_mod:
  assumes "recording g z0 p" and "need_to_compress p"
  shows "buffer_begin p = length (written g z0 p) mod SIZE_BUFFER"
proof -
  obtain k where "length (sv_taken g (stream_of z0 p)) = SIZE_BUFFER * k"
    using assms by (auto simp: recording_def)
  then show ?thesis using assms by (simp add: written_def recording_def)
qed

text \<open>
  What the decompressor promises of a finished stream of the compressor, whose content fits the room it is
  given: it gives back what the stream had taken.
\<close>

definition restores :: "'y inflate \<Rightarrow> 'y \<Rightarrow> 'z stream_view \<Rightarrow> bool" where
  "restores inflate y0 g \<longleftrightarrow> (\<forall>z. sv_ended g z \<and> length (sv_taken g z) < MAX_SIZE_BUFFER \<longrightarrow>
     (let res = inflate y0 (sv_emitted g z) MAX_SIZE_BUFFER
      in ir_status res = MZ_STREAM_END \<and> ir_consumed res = length (sv_emitted g z)
         \<and> ir_output res = sv_taken g z))"

lemma first_refill:
  assumes "restores inflate y0 g" and "sv_ended g z" and "sv_taken g z \<noteq> []"
    and "length (sv_taken g z) < MAX_SIZE_BUFFER" and "length (sv_emitted g z) \<le> MAX_SIZE_BUFFER"
    and "trace_reader_new (Some (sv_emitted g z)) junk = Inr r"
  shows "\<exists>r1. (\<forall>n. get_content_of_trace inflate y0 (Suc n) r = get_content_of_trace inflate y0 (Suc n) r1)
     \<and> \<not> is_finish r \<and> \<not> is_finish r1 \<and> holds_bytes r1 (sv_taken g z)
     \<and> bool_finish r1 \<and> end_buffer r1 = read_buffer r1 + length (sv_taken g z)"
proof -
  let ?bs = "sv_taken g z" and ?file = "sv_emitted g z"
  define res where "res = inflate y0 ?file MAX_SIZE_BUFFER"
  have res: "ir_status res = MZ_STREAM_END" "ir_consumed res = length ?file" "ir_output res = ?bs"
    using assms(1,2,4) unfolding restores_def Let_def res_def by blast+
  have r: "r = \<lparr>bool_finish = False, stream = Null, trace_descriptor = ?file, buf = junk,
      end_buffer = MAX_SIZE_BUFFER, read_buffer = MAX_SIZE_BUFFER\<rparr>"
    using assms(6) by (simp add: trace_reader_new_def init_buf_def)
  define r1 where "r1 = r\<lparr>bool_finish := True, stream := Freed, trace_descriptor := [],
      buf := (\<lambda>i. if i < length ?bs then ?bs ! i else junk i), end_buffer := length ?bs, read_buffer := 0\<rparr>"
  have fits: "length ?bs \<le> BUF_SIZE" using assms(4) by (simp add: BUF_SIZE_def MAX_SIZE_BUFFER_def)
  have "decompress_data_from_trace inflate y0 (r\<lparr>end_buffer := 0, read_buffer := 0\<rparr>) = returns r1"
    using assms(3,5) fits res
    by (simp add: decompress_data_from_trace_def r Let_def inflate_loop.simps append_output_def r1_def
        cong: if_cong flip: res_def)
  then have nb: "next_byte inflate y0 r = next_byte inflate y0 r1"
    using assms(3) by (simp add: next_byte_def r1_def r)
  have "map (buf r1) [0..<length ?bs] = ?bs"
    by (rule nth_equalityI) (simp_all add: r1_def)
  then have "holds_bytes r1 ?bs" using fits by (simp add: holds_bytes_def) (simp add: r1_def)
  with nb show ?thesis
    using assms(3) by (intro exI [of _ r1]) (simp add: is_finish_def r1_def r)
qed

lemma reading_same_bytes:
  assumes "\<And>n. get_content_of_trace inflate y0 (Suc n) r = get_content_of_trace inflate y0 (Suc n) r1"
  shows "read_transaction c inflate y0 junk t r = read_transaction c inflate y0 junk t r1"
  using assms [of 0] by (simp add: read_transaction_def read_delay_def)

lemma loop_same_bytes:
  assumes "\<And>n. get_content_of_trace inflate y0 (Suc n) r = get_content_of_trace inflate y0 (Suc n) r1"
    and "\<not> is_finish r" and "\<not> is_finish r1"
  shows "from_trace_loop c inflate y0 acks rnd junk (Suc n) r s
     = from_trace_loop c inflate y0 acks rnd junk (Suc n) r1 s"
  using assms(2,3) reading_same_bytes [OF assms(1)] by (simp add: Let_def split: sum.split)


lemma install_options_keeps:
  "install_options opts p = Inr (Some q) \<Longrightarrow>
     zstream q = zstream p \<and> write_data q = write_data p \<and> current_instruction q = current_instruction p
     \<and> (out_file q = out_file p \<or> out_file q = Some [])"
proof (induction opts arbitrary: p)
  case (Cons opt opts)
  from Cons.prems show ?case
    by (auto simp: set_mode_def andthen_Inr_iff dest!: Cons.IH split: prod.splits option.splits if_splits)
qed simp

lemma installed_recorder:
  assumes "qemu_plugin_install ''riscv64'' opts plugin_new = Inr (Some p)"
    and "mode p = WRITE_BINARY" and "out_file p \<noteq> None"
    and "sv_taken g z0 = []" and "sv_emitted g z0 = []" and "\<not> sv_ended g z0"
  shows "binary_recorder g z0 p" and "current_instruction p = 0" and "written g z0 p = []"
proof -
  obtain p0 where i: "install_options opts plugin_new = Inr (Some p0)"
    and p: "p = p0\<lparr>is_64_bits := True, buffer_compress := []\<rparr>"
    using assms(1) by (auto simp: qemu_plugin_install_def andthen_Inr_iff split: if_splits)
  have "zstream p = None" "write_data p" "current_instruction p = 0" "out_file p = Some []"
    using install_options_keeps [OF i] assms(3) by (auto simp: p plugin_new_def)
  then show "binary_recorder g z0 p" "current_instruction p = 0" "written g z0 p = []"
    using assms(2,4-6)
    by (simp_all add: binary_recorder_def recording_def written_def stream_of_def p SIZE_BUFFER_def)
qed

lemma recording_replayed:
  fixes inflate :: "'y inflate"
  assumes "restores inflate y0 g" and "sv_ended g z" and "sv_taken g z = concat (map access_bytes accs)"
    and "accs \<noteq> []" and "length (sv_taken g z) < MAX_SIZE_BUFFER" and "length (sv_emitted g z) \<le> MAX_SIZE_BUFFER"
    and "seq_inv c s" and "\<forall>n. responsive c (acks n)" and "\<forall>a \<in> set accs. access_ok a"
  shows "\<exists>r r' s' is. trace_reader_new (Some (sv_emitted g z)) mem = Inr r
     \<and> from_trace_run c inflate y0 acks rnd junk r s = returns (r', s')
     \<and> seq_inv c s' \<and> length is = min (max_transactions s) (length accs)
     \<and> transaction_fifo s' = transaction_fifo s @ map2 (access_request c) (take (max_transactions s) accs) is"
proof -
  obtain r :: "'y trace_reader" where r: "trace_reader_new (Some (sv_emitted g z)) mem = Inr r"
    by (simp add: trace_reader_new_def)
  have ne: "sv_taken g z \<noteq> []"
    using assms(3,4) access_bytes_nonempty by (cases accs) auto
  obtain r1 where r1: "\<And>n. get_content_of_trace inflate y0 (Suc n) r = get_content_of_trace inflate y0 (Suc n) r1"
    "\<not> is_finish r" "\<not> is_finish r1" "holds_bytes r1 (sv_taken g z)"
    "bool_finish r1" "end_buffer r1 = read_buffer r1 + length (sv_taken g z)"
    using first_refill [OF assms(1,2) ne assms(5,6) r] by blast
  obtain r' s' "is" where run: "from_trace_loop c inflate y0 acks rnd junk (max_transactions s) r1 s = returns (r', s')"
    "seq_inv c s'" "length is = min (max_transactions s) (length accs)"
    "transaction_fifo s' = transaction_fifo s @ map2 (access_request c) (take (max_transactions s) accs) is"
    using replay_up_to [OF assms(7), of acks r1 accs "max_transactions s" inflate y0 rnd junk]
      assms(3,8,9) r1(4-6) by auto
  show ?thesis
  proof (cases "max_transactions s")
    case 0
    then have "from_trace_run c inflate y0 acks rnd junk r s = returns (r, s)"
      by (simp add: from_trace_run_def)
    then show ?thesis using r assms(7) 0 by auto
  next
    case (Suc n)
    have "from_trace_run c inflate y0 acks rnd junk r s = returns (r', s')"
      using run(1) loop_same_bytes [OF r1(1-3)] unfolding from_trace_run_def Suc by metis
    with r run(2-4) show ?thesis by blast
  qed
qed

section \<open>Properties\<close>

text \<open>
  C17: A recorded program is replayed access by access. Whatever a program of a 64-bit target does,
  the plugin, installed for binary and compressed output, records each of its accesses and, if the
  last block has at least two bytes, its file is the finished stream of exactly those records. A
  trace reader that opens this file, when it fits one block of the reader, makes the trace sequence
  send exactly the requests of the accesses, in order, up to its bound or the end of the trace, and
  end. The compressor and the decompressor do what the library documents.
\<close>

theorem recorded_program_replays:
  fixes inflate :: "'y inflate"
  assumes "compresses deflate g" and "restores inflate y0 g"
    and "sv_taken g z0 = []" and "sv_emitted g z0 = []" and "\<not> sv_ended g z0"
    and "qemu_plugin_install ''riscv64'' opts plugin_new = Inr (Some p)"
    and "mode p = WRITE_BINARY" and "need_to_compress p" and "out_file p \<noteq> None"
    and "accs = program_accesses exec_first 0 (concat blocks)" and "\<forall>a \<in> set accs. access_ok a"
    and "bytes = concat (map access_bytes accs)"
    and "2 \<le> length bytes mod SIZE_BUFFER" and "length bytes < MAX_SIZE_BUFFER"
    and "seq_inv c s" and "\<forall>n. responsive c (acks n)"
  shows "\<exists>q z. record_program deflate z0 exec_first blocks p = returns q \<and> out_file q = Some (sv_emitted g z)
     \<and> sv_ended g z \<and> sv_taken g z = bytes
     \<and> (length (sv_emitted g z) \<le> MAX_SIZE_BUFFER \<longrightarrow>
          (\<exists>r r' s' is. trace_reader_new (out_file q) mem = Inr r
            \<and> from_trace_run c inflate y0 acks rnd junk r s = returns (r', s')
            \<and> seq_inv c s' \<and> length is = min (max_transactions s) (length accs)
            \<and> transaction_fifo s' = transaction_fifo s
                @ map2 (access_request c) (take (max_transactions s) accs) is))"
proof -
  note p = installed_recorder [OF assms(6,7,9,3,4,5)]
  have events: "concat (map (block_events exec_first) blocks)
      = concat (map (insn_trace exec_first) (concat blocks))"
    by (induction blocks) (simp_all add: block_events_insns)
  obtain q n where q: "plugin_events deflate z0 (concat (map (block_events exec_first) blocks)) p = returns q"
    "plugin_records g z0 n p accs q"
    using program_records [OF assms(1) p(1)] p(2) unfolding events assms(10) by metis
  have w: "written g z0 q = bytes" "recording g z0 q" "need_to_compress q"
    using q(2) p(3) assms(8,12) by (simp_all add: plugin_records_def binary_recorder_def)
  have "2 \<le> buffer_begin q" using buffered_mod [OF w(2,3)] w(1) assms(13) by simp
  then obtain z where z: "plugin_exit deflate z0 q
      = returns (q\<lparr>out_file := Some (sv_emitted g z), zstream := Some z\<rparr>)"
    "sv_ended g z" "sv_taken g z = bytes"
    using exit_ends_stream [OF assms(1) w(2,3)] w(1) by metis
  have "accs \<noteq> []" using assms(12,13) by auto
  then have "length (sv_emitted g z) \<le> MAX_SIZE_BUFFER \<longrightarrow>
          (\<exists>r r' s' is. trace_reader_new (Some (sv_emitted g z)) mem = Inr r
            \<and> from_trace_run c inflate y0 acks rnd junk r s = returns (r', s')
            \<and> seq_inv c s' \<and> length is = min (max_transactions s) (length accs)
            \<and> transaction_fifo s' = transaction_fifo s
                @ map2 (access_request c) (take (max_transactions s) accs) is)"
    using recording_replayed [OF assms(2) z(2), of accs c s acks mem rnd junk] z(3) assms(11,12,14-16) by blast
  with q(1) z show ?thesis
    by (intro exI [of _ "q\<lparr>out_file := Some (sv_emitted g z), zstream := Some z\<rparr>"] exI [of _ z])
      (simp add: record_program_def)
qed

text \<open>The decompressor of the compressor that copies.\<close>

definition copy_inflate :: "unit inflate" where
  "copy_inflate z inp cap = \<lparr>ir_status = (if length inp < cap then MZ_STREAM_END else MZ_OK),
     ir_consumed = min cap (length inp), ir_output = take cap inp, ir_stream = ()\<rparr>"

lemma copy_restores: "restores copy_inflate () copy_view"
  by (simp add: restores_def copy_inflate_def copy_view_def)

definition ex_program :: "mem_access list list list" where
  "ex_program = [[[], [], [\<lparr>ma_vcpu = 0, ma_info = \<lparr>mi_size_shift = 1, mi_hwaddr = Some 0x10000004,
     mi_is_store = True, mi_value = U16 0xabcd, mi_u64 = 0xabcd\<rparr>, ma_vaddr = 5\<rparr>]]]"

definition ex_opts :: "string list" where
  "ex_opts = [''mode=0'', ''ofile=t'', ''compress=true'']"

lemma ex_install:
  "qemu_plugin_install ''riscv64'' ex_opts plugin_new
     = Inr (Some (plugin_new\<lparr>is_64_bits := True, out_file := Some []\<rparr>))"
  by (simp add: ex_opts_def qemu_plugin_install_def set_mode_def plugin_new_def)

lemma ex_accesses:
  "program_accesses True 0 (concat ex_program) = [\<lparr>ac_store = True, ac_addr = 0x10000004, ac_size = 1,
     ac_delay = 3, ac_value = U16 0xabcd, ac_uncached = True\<rparr>]"
  by (simp add: ex_program_def access_of_def is_device_address_def counter_after_def)

theorem recorded_program_replays_witness:
  "\<exists>q file r r' s' t. record_program copy_deflate ([], False) True ex_program
        (plugin_new\<lparr>is_64_bits := True, out_file := Some []\<rparr>) = returns q
     \<and> out_file q = Some file \<and> length file = 13
     \<and> trace_reader_new (Some file) (\<lambda>i. 0) = Inr r
     \<and> from_trace_run default_cfg copy_inflate () (\<lambda>n. take 1) (\<lambda>n. 9) (\<lambda>n. 0) r
         (seq_new ''from_trace_seq''\<lparr>max_transactions := 10\<rparr>) = returns (r', s')
     \<and> transaction_fifo s' = [t] \<and> is_store t \<and> req_addr t = 0x10000004 \<and> req_wdata t = 0xabcd
     \<and> req_uncacheable t"
proof -
  let ?s = "seq_new ''from_trace_seq''\<lparr>max_transactions := 10\<rparr>"
  let ?p = "plugin_new\<lparr>is_64_bits := True, out_file := Some []\<rparr> :: (u8 list \<times> bool) plugin"
  let ?accs = "program_accesses True 0 (concat ex_program)"
  let ?bytes = "concat (map access_bytes ?accs)"
  have len: "length ?bytes = 13"
    by (simp add: ex_accesses access_bytes_def record_bytes_def address_bytes_def stored_value_bytes_def)
  have new: "sv_taken copy_view ([], False) = []" "sv_emitted copy_view ([], False) = []"
    "\<not> sv_ended copy_view ([], False)" by (simp_all add: copy_view_def)
  have p: "mode ?p = WRITE_BINARY" "need_to_compress ?p" "out_file ?p \<noteq> None"
    by (simp_all add: plugin_new_def)
  have ok: "\<forall>a \<in> set ?accs. access_ok a" by (simp add: ex_accesses access_ok_def)
  have size: "2 \<le> length ?bytes mod SIZE_BUFFER" "length ?bytes < MAX_SIZE_BUFFER"
    by (simp_all add: len SIZE_BUFFER_def MAX_SIZE_BUFFER_def)
  obtain q z where q: "record_program copy_deflate ([], False) True ex_program ?p = returns q"
    "out_file q = Some (sv_emitted copy_view z)" "sv_taken copy_view z = ?bytes"
    and rest: "length (sv_emitted copy_view z) \<le> MAX_SIZE_BUFFER \<longrightarrow>
          (\<exists>r r' s' is. trace_reader_new (out_file q) (\<lambda>i. 0) = Inr r
            \<and> from_trace_run default_cfg copy_inflate () (\<lambda>n. take 1) (\<lambda>n. 9) (\<lambda>n. 0) r ?s = returns (r', s')
            \<and> seq_inv default_cfg s' \<and> length is = min (max_transactions ?s) (length ?accs)
            \<and> transaction_fifo s' = transaction_fifo ?s
                @ map2 (access_request default_cfg) (take (max_transactions ?s) ?accs) is)"
    using recorded_program_replays [OF copy_compresses copy_restores new ex_install p refl ok refl size
        seq_inv_new [of default_cfg 10 "''from_trace_seq''"], of "\<lambda>n. take 1" "\<lambda>i. 0" "\<lambda>n. 9" "\<lambda>n. 0"]
      ex_responsive by blast
  have e: "sv_emitted copy_view z = ?bytes" using q(3) by (simp add: copy_view_def)
  then obtain r r' s' "is" where run: "trace_reader_new (Some ?bytes) (\<lambda>i. 0) = Inr r"
    "from_trace_run default_cfg copy_inflate () (\<lambda>n. take 1) (\<lambda>n. 9) (\<lambda>n. 0) r ?s = returns (r', s')"
    "length is = 1"
    "transaction_fifo s' = transaction_fifo ?s
       @ map2 (access_request default_cfg) (take (max_transactions ?s) ?accs) is"
    using rest q(2) size(2) by (auto simp: ex_accesses)
  obtain i where "is = [i]" using run(3) by (auto simp: length_Suc_conv)
  then have "\<exists>t. transaction_fifo s' = [t] \<and> is_store t \<and> req_addr t = 0x10000004 \<and> req_wdata t = 0xabcd
     \<and> req_uncacheable t"
    using run(4)
    by (simp add: seq_new_def ex_accesses access_request_def decoded_def is_store_def default_cfg_def
        HPDCACHE_REQ_DATA_WIDTH_def)
  then show ?thesis using q(1,2) e len run(1,2) by metis
qed

end
