(* ===== verification/Std_Map.thy ===== *)
theory Std_Map
  imports Prelude
begin

text \<open>
  \<open>std::map\<close> with unsigned keys, as the scoreboard uses it: an association list kept in the
  order of the keys, because the code iterates over it. \<open>insert\<close> leaves an existing entry
  alone, as the C++ member does.
\<close>

type_synonym 'v std_map = "(nat \<times> 'v) list"

definition sm_find :: "'v std_map \<Rightarrow> nat \<Rightarrow> 'v option" where
  "sm_find m k = map_of m k"

fun sm_insert :: "nat \<Rightarrow> 'v \<Rightarrow> 'v std_map \<Rightarrow> 'v std_map" where
  "sm_insert k v [] = [(k, v)]"
| "sm_insert k v ((k', v') # m) =
     (if k < k' then (k, v) # (k', v') # m
      else if k = k' then (k', v') # m
      else (k', v') # sm_insert k v m)"

definition sm_erase :: "nat \<Rightarrow> 'v std_map \<Rightarrow> 'v std_map" where
  "sm_erase k m = filter (\<lambda>p. fst p \<noteq> k) m"

definition sm_wf :: "'v std_map \<Rightarrow> bool" where
  "sm_wf m \<longleftrightarrow> sorted_wrt (<) (map fst m)"

lemma sm_wf_Nil [simp]: "sm_wf []"
  by (simp add: sm_wf_def)

lemma sm_wf_Cons: "sm_wf ((k, v) # m) \<longleftrightarrow> (\<forall>p \<in> set m. k < fst p) \<and> sm_wf m"
  by (auto simp: sm_wf_def)

lemma sm_find_Nil [simp]: "sm_find [] k = None"
  by (simp add: sm_find_def)

lemma sm_find_above: "\<forall>p \<in> set m. k < fst p \<Longrightarrow> sm_find m k = None"
  by (fastforce simp: sm_find_def map_of_eq_None_iff)

lemma set_sm_insert_keys: "fst ` set (sm_insert k v m) = insert k (fst ` set m)"
  by (induction k v m rule: sm_insert.induct) auto

lemma sm_find_insert:
  "sm_wf m \<Longrightarrow> sm_find (sm_insert k v m) k' =
     (if k' = k then (case sm_find m k of None \<Rightarrow> Some v | Some v' \<Rightarrow> Some v') else sm_find m k')"
proof (induction k v m rule: sm_insert.induct)
  case (1 k v)
  then show ?case by (simp add: sm_find_def)
next
  case (2 k v k1 v1 m)
  have "sm_find m k = None" if "k < k1"
    using 2(2) that by (intro sm_find_above) (auto simp: sm_wf_Cons)
  then show ?case using 2 by (auto simp: sm_wf_Cons sm_find_def)
qed

lemma sm_wf_insert: "sm_wf m \<Longrightarrow> sm_wf (sm_insert k v m)"
proof (induction k v m rule: sm_insert.induct)
  case (1 k v)
  then show ?case by (simp add: sm_wf_def)
next
  case (2 k v k1 v1 m)
  have "k1 < fst p" if "p \<in> set (sm_insert k v m)" "k1 < k" for p
  proof -
    have "fst p \<in> fst ` set (sm_insert k v m)" using that(1) by simp
    then have "fst p \<in> insert k (fst ` set m)" by (simp only: set_sm_insert_keys)
    then show ?thesis using 2(2) that(2) by (auto simp: sm_wf_Cons)
  qed
  with 2 show ?case by (auto simp: sm_wf_Cons)
qed

lemma sm_wf_erase: "sm_wf m \<Longrightarrow> sm_wf (sm_erase k m)"
  unfolding sm_wf_def sm_erase_def sorted_wrt_map by (rule sorted_wrt_filter)

lemma sm_find_erase: "sm_find (sm_erase k m) k' = (if k' = k then None else sm_find m k')"
  by (induction m) (auto simp: sm_find_def sm_erase_def)

lemma sm_keys: "sm_find m k \<noteq> None \<longleftrightarrow> k \<in> fst ` set m"
  by (simp add: sm_find_def map_of_eq_None_iff)

lemma length_sm_insert: "sm_find m k = None \<Longrightarrow> length (sm_insert k v m) = Suc (length m)"
  by (induction k v m rule: sm_insert.induct) (auto simp: sm_find_def split: if_splits)

lemma length_sm_erase:
  assumes "sm_wf m" and "sm_find m k = Some v"
  shows "Suc (length (sm_erase k m)) = length m"
  using assms
proof (induction m)
  case Nil
  then show ?case by simp
next
  case (Cons p m)
  obtain k1 v1 where p: "p = (k1, v1)" by fastforce
  show ?case
  proof (cases "k1 = k")
    case True
    then have "sm_erase k m = m"
      using Cons.prems(1) by (auto simp: sm_erase_def p sm_wf_Cons filter_id_conv)
    then show ?thesis using True by (simp add: sm_erase_def p)
  next
    case False
    then have "sm_find m k = Some v" "sm_wf m"
      using Cons.prems by (auto simp: p sm_find_def sm_wf_Cons)
    then show ?thesis using Cons.IH False by (simp add: sm_erase_def p)
  qed
qed

section \<open>The interface\<close>

text \<open>What the scoreboard relies on; the size counts the entries.\<close>

locale keyed_table =
  fixes wf :: "'m \<Rightarrow> bool"
    and find :: "'m \<Rightarrow> nat \<Rightarrow> 'v option"
    and insert :: "nat \<Rightarrow> 'v \<Rightarrow> 'm \<Rightarrow> 'm"
    and erase :: "nat \<Rightarrow> 'm \<Rightarrow> 'm"
    and count :: "'m \<Rightarrow> nat"
  assumes wf_insert: "wf m \<Longrightarrow> wf (insert k v m)"
    and wf_erase: "wf m \<Longrightarrow> wf (erase k m)"
    and find_insert: "wf m \<Longrightarrow> find m k = None \<Longrightarrow> find (insert k v m) = (find m)(k \<mapsto> v)"
    and find_erase: "wf m \<Longrightarrow> find (erase k m) = (find m)(k := None)"
    and count_insert: "find m k = None \<Longrightarrow> count (insert k v m) = Suc (count m)"
    and count_erase: "wf m \<Longrightarrow> find m k = Some v \<Longrightarrow> Suc (count (erase k m)) = count m"
begin

lemma insert_erase:
  assumes "wf m" and "find m k = None"
  shows "find (erase k (insert k v m)) = find m" and "count (erase k (insert k v m)) = count m"
proof -
  note wf = wf_insert [OF assms(1), of k v]
  show "find (erase k (insert k v m)) = find m"
    using assms by (auto simp: find_erase [OF wf] find_insert fun_eq_iff)
  have "find (insert k v m) k = Some v" using assms by (simp add: find_insert)
  then show "count (erase k (insert k v m)) = count m"
    using count_erase [OF wf] count_insert [OF assms(2), of v] by simp
qed

lemma dom_insert: "wf m \<Longrightarrow> find m k = None \<Longrightarrow> dom (find (insert k v m)) = {k} \<union> dom (find m)"
  by (simp add: find_insert)

lemma dom_erase: "wf m \<Longrightarrow> dom (find (erase k m)) = dom (find m) - {k}"
  by (auto simp: find_erase)

end

interpretation sm: keyed_table sm_wf sm_find sm_insert sm_erase length
  by unfold_locales
    (auto simp: sm_wf_insert sm_wf_erase sm_find_insert sm_find_erase length_sm_insert
      length_sm_erase fun_eq_iff)

end
