(* ===== verification/Ram_Model.thy ===== *)
theory Ram_Model
  imports Prelude
begin

unbundle bit_operations_syntax

text \<open>
  \<open>rtl/tb/sc_verif_lib/modules/mem_model/include/ram_model.h\<close>: the byte array in which the
  scoreboard keeps what it knows of the memory, with a bitmap that tells which bytes have
  been written. The template parameter \<open>N\<close> is the length of \<open>mem_m\<close>. Addresses are the
  values of \<open>uint64_t\<close> expressions, as natural numbers.
\<close>

section \<open>State and operations\<close>

record ram =
  ram_name :: string
  mem_m :: "u8 list"
  bmap_m :: "u8 list"

definition ram_new :: "string \<Rightarrow> nat \<Rightarrow> ram" where
  "ram_new name N = \<lparr>ram_name = name, mem_m = replicate N 0, bmap_m = replicate (N div 8) 0\<rparr>"

abbreviation ram_size :: "ram \<Rightarrow> nat" where
  "ram_size r \<equiv> length (mem_m r)"

definition getBit :: "u8 \<Rightarrow> nat \<Rightarrow> u8" where
  "getBit b pos = drop_bit pos b AND 1"

definition setBit :: "u8 \<Rightarrow> nat \<Rightarrow> u8" where
  "setBit b pos = b OR push_bit pos 1"

definition getBmap :: "ram \<Rightarrow> nat \<Rightarrow> bool" where
  "getBmap r a =
     (let off = a mod ram_size r in getBit (bmap_m r ! (off div 8)) (off mod 8) \<noteq> 0)"

definition setBmap :: "nat \<Rightarrow> ram \<Rightarrow> ram" where
  "setBmap a r =
     (let off = a mod ram_size r
      in r\<lparr>bmap_m := (bmap_m r)[off div 8 := setBit (bmap_m r ! (off div 8)) (off mod 8)]\<rparr>)"

text \<open>
  The byte loop of \<open>read\<close>. The caller's arrays \<open>buf\<close> and \<open>valid\<close> are threaded through;
  an index outside \<open>mem_m\<close>, \<open>buf\<close> or \<open>valid\<close> is undefined behaviour. \<open>valid\<close> may be a null
  pointer.
\<close>

definition ram_read_byte ::
  "ram \<Rightarrow> nat \<Rightarrow> nat \<Rightarrow> u8 list \<times> u8 list option \<Rightarrow> (u8 list \<times> u8 list option) outcome" where
  "ram_read_byte r off i s =
     (case s of (buf, valid) \<Rightarrow>
        if ram_size r \<le> off + i \<or> length buf \<le> i then Inl Undefined_behaviour
        else
          (let rdata = mem_m r ! (off + i);
               valid' = map_option
                 (\<lambda>v. if getBmap r (off + i) then v[i div 8 := setBit (v ! (i div 8)) (i mod 8)]
                      else v) valid
           in Inr (buf[i := rdata], valid')))"

definition ram_read ::
  "ram \<Rightarrow> u8 list \<Rightarrow> nat \<Rightarrow> nat \<Rightarrow> u8 list option \<Rightarrow> (u8 list \<times> u8 list option) outcome" where
  "ram_read r buf n addr valid =
     (let off = addr mod ram_size r; k = (n + 7) div 8
      in case valid of
           None \<Rightarrow> fold_ok (ram_read_byte r off) [0..<n] (buf, None)
         | Some v \<Rightarrow>
             if length v < k then Inl Undefined_behaviour
             else fold_ok (ram_read_byte r off) [0..<n] (buf, Some (replicate k 0 @ drop k v)))"

definition ram_write_byte ::
  "u8 list \<Rightarrow> u8 list \<Rightarrow> nat \<Rightarrow> nat \<Rightarrow> ram \<Rightarrow> ram outcome" where
  "ram_write_byte buf be off i r =
     (if length be \<le> i div 8 then Inl Undefined_behaviour
      else if getBit (be ! (i div 8)) (i mod 8) \<noteq> 0 then
        (if ram_size r \<le> off + i \<or> length buf \<le> i then Inl Undefined_behaviour
         else Inr (setBmap (off + i) (r\<lparr>mem_m := (mem_m r)[off + i := buf ! i]\<rparr>)))
      else Inr r)"

definition ram_write :: "ram \<Rightarrow> u8 list \<Rightarrow> u8 list \<Rightarrow> nat \<Rightarrow> nat \<Rightarrow> ram outcome" where
  "ram_write r buf be n addr =
     (let off = addr mod ram_size r in fold_ok (ram_write_byte buf be off) [0..<n] r)"

section \<open>Bits\<close>

lemma getBit_iff [simp]: "getBit b p \<noteq> 0 \<longleftrightarrow> bit b p"
  by (simp add: getBit_def bit_iff_and_drop_bit_eq_1 and_one_eq)

lemma bit_setBit: "p < 8 \<Longrightarrow> bit (setBit b p) n \<longleftrightarrow> bit b n \<or> n = p"
  by (auto simp: setBit_def bit_or_iff bit_exp_iff)

section \<open>Invariant and abstraction\<close>

definition wf_ram :: "ram \<Rightarrow> bool" where
  "wf_ram r \<longleftrightarrow> 0 < ram_size r \<and> 8 dvd ram_size r \<and> length (bmap_m r) = ram_size r div 8"

text \<open>What the RAM knows: the bytes whose bitmap bit is set.\<close>

definition ram_abs :: "ram \<Rightarrow> nat \<Rightarrow> u8 option" where
  "ram_abs r a = (if a < ram_size r \<and> getBmap r a then Some (mem_m r ! a) else None)"

lemma wf_ram_new: "0 < N \<Longrightarrow> 8 dvd N \<Longrightarrow> wf_ram (ram_new name N)"
  by (simp add: wf_ram_def ram_new_def)

lemma ram_abs_new: "0 < N \<Longrightarrow> 8 dvd N \<Longrightarrow> ram_abs (ram_new name N) = Map.empty"
  by (rule ext) (auto simp: ram_abs_def ram_new_def getBmap_def Let_def elim!: dvdE)

lemma bmap_index: "wf_ram r \<Longrightarrow> a < ram_size r \<Longrightarrow> a div 8 < length (bmap_m r)"
  by (auto simp: wf_ram_def elim!: dvdE)

lemma setBmap_frame [simp]:
  "mem_m (setBmap a r) = mem_m r" "length (bmap_m (setBmap a r)) = length (bmap_m r)"
  by (simp_all add: setBmap_def Let_def)

lemma getBmap_setBmap:
  assumes "wf_ram r" and "a < ram_size r" and "b < ram_size r"
  shows "getBmap (setBmap a r) b \<longleftrightarrow> getBmap r b \<or> b = a"
proof -
  have "a div 8 = b div 8 \<and> a mod 8 = b mod 8 \<longleftrightarrow> b = a"
    by (metis div_mult_mod_eq)
  then show ?thesis
    using assms bmap_index [OF assms(1,2)] bmap_index [OF assms(1,3)]
    by (auto simp: getBmap_def setBmap_def Let_def nth_list_update bit_setBit)
qed

lemma getBmap_mem_update: "length xs = ram_size r \<Longrightarrow> getBmap (r\<lparr>mem_m := xs\<rparr>) b = getBmap r b"
  by (simp add: getBmap_def)

lemma write_byte_step:
  assumes "wf_ram r" and "off + i < ram_size r" and "i < length buf" and "i div 8 < length be"
  shows "\<exists>r'. ram_write_byte buf be off i r = Inr r' \<and> wf_ram r'
     \<and> ram_size r' = ram_size r
     \<and> ram_abs r' = (if bit (be ! (i div 8)) (i mod 8)
                      then (ram_abs r)(off + i \<mapsto> buf ! i) else ram_abs r)"
proof (cases "bit (be ! (i div 8)) (i mod 8)")
  case False
  with assms show ?thesis by (simp add: ram_write_byte_def)
next
  case True
  let ?r = "r\<lparr>mem_m := (mem_m r)[off + i := buf ! i]\<rparr>"
  let ?r' = "setBmap (off + i) ?r"
  have wf: "wf_ram ?r" using assms(1) by (simp add: wf_ram_def)
  have "ram_abs ?r' = (ram_abs r)(off + i \<mapsto> buf ! i)"
    using assms wf
    by (intro ext) (auto simp: ram_abs_def getBmap_setBmap getBmap_mem_update nth_list_update)
  moreover have "wf_ram ?r'" using wf by (simp add: wf_ram_def)
  ultimately show ?thesis using True assms by (auto simp: ram_write_byte_def)
qed

section \<open>Correctness of the two loops\<close>

text \<open>The effect of a byte-enabled write on what the RAM knows.\<close>

definition put_bytes ::
  "u8 list \<Rightarrow> u8 list \<Rightarrow> nat \<Rightarrow> nat \<Rightarrow> (nat \<Rightarrow> u8 option) \<Rightarrow> nat \<Rightarrow> u8 option" where
  "put_bytes buf be off n f a =
     (if off \<le> a \<and> a < off + n \<and> bit (be ! ((a - off) div 8)) ((a - off) mod 8)
      then Some (buf ! (a - off)) else f a)"

lemma put_bytes_0 [simp]: "put_bytes buf be off 0 f = f"
  by (rule ext) (auto simp: put_bytes_def)

lemma put_bytes_Suc:
  "put_bytes buf be off (Suc i) f =
     (if bit (be ! (i div 8)) (i mod 8)
      then (put_bytes buf be off i f)(off + i \<mapsto> buf ! i) else put_bytes buf be off i f)"
proof (rule ext)
  fix a
  consider "a = off + i" | "a \<noteq> off + i" by blast
  then show "put_bytes buf be off (Suc i) f a =
     (if bit (be ! (i div 8)) (i mod 8)
      then (put_bytes buf be off i f)(off + i \<mapsto> buf ! i) else put_bytes buf be off i f) a"
    by cases (auto simp: put_bytes_def)
qed

lemma ram_write_correct:
  assumes "wf_ram r" and "addr mod ram_size r + n \<le> ram_size r"
    and "n \<le> length buf" and "n \<le> 8 * length be"
  shows "\<exists>r'. ram_write r buf be n addr = Inr r' \<and> wf_ram r' \<and> ram_size r' = ram_size r
     \<and> ram_abs r' = put_bytes buf be (addr mod ram_size r) n (ram_abs r)"
proof -
  let ?off = "addr mod ram_size r"
  let ?P = "\<lambda>i s. wf_ram s \<and> ram_size s = ram_size r
     \<and> ram_abs s = put_bytes buf be ?off i (ram_abs r)"
  have "\<exists>r'. fold_ok (ram_write_byte buf be ?off) [0..<n] r = Inr r' \<and> ?P n r'"
  proof (rule fold_ok_upt [where P = ?P])
    show "?P 0 r" using assms(1) by simp
  next
    fix i s
    assume i: "i < n" and P: "?P i s"
    have "\<exists>s'. ram_write_byte buf be ?off i s = Inr s' \<and> wf_ram s'
       \<and> ram_size s' = ram_size s
       \<and> ram_abs s' = (if bit (be ! (i div 8)) (i mod 8)
                        then (ram_abs s)(?off + i \<mapsto> buf ! i) else ram_abs s)"
      by (rule write_byte_step) (use i P assms in auto)
    then show "\<exists>s'. ram_write_byte buf be ?off i s = Inr s' \<and> ?P (Suc i) s'"
      using P by (auto simp: put_bytes_Suc)
  qed
  then show ?thesis by (simp add: ram_write_def Let_def)
qed

text \<open>What \<open>read\<close> leaves in the caller's arrays.\<close>

definition read_result :: "ram \<Rightarrow> nat \<Rightarrow> nat \<Rightarrow> u8 list \<Rightarrow> u8 list \<Rightarrow> u8 list \<Rightarrow> bool" where
  "read_result r off n buf buf' v \<longleftrightarrow>
     length buf' = length buf
     \<and> (\<forall>i < length buf. buf' ! i = (if i < n then mem_m r ! (off + i) else buf ! i))
     \<and> (\<forall>i < n. bit (v ! (i div 8)) (i mod 8) = getBmap r (off + i))"

lemma ram_read_correct:
  assumes "wf_ram r" and "addr mod ram_size r + n \<le> ram_size r"
    and "n \<le> length buf" and "n \<le> 8 * length v"
  shows "\<exists>buf' v'. ram_read r buf n addr (Some v) = Inr (buf', Some v')
     \<and> length v' = length v \<and> read_result r (addr mod ram_size r) n buf buf' v'"
proof -
  let ?off = "addr mod ram_size r" and ?k = "(n + 7) div 8"
  let ?v0 = "replicate ?k 0 @ drop ?k v"
  let ?P = "\<lambda>i s. \<exists>b (w :: u8 list). s = (b, Some w) \<and> length b = length buf \<and> length w = length v
     \<and> (\<forall>j < length buf. b ! j = (if j < i then mem_m r ! (?off + j) else buf ! j))
     \<and> (\<forall>j < n. bit (w ! (j div 8)) (j mod 8) = (j < i \<and> getBmap r (?off + j)))"
  have kv: "?k \<le> length v" using assms(4) by simp
  have "\<exists>s. fold_ok (ram_read_byte r ?off) [0..<n] (buf, Some ?v0) = Inr s \<and> ?P n s"
  proof (rule fold_ok_upt [where P = ?P])
    have "bit (?v0 ! (j div 8)) (j mod 8) = False" if "j < n" for j
    proof -
      have "j div 8 < ?k" using that by linarith
      then show ?thesis by (simp add: nth_append)
    qed
    then show "?P 0 (buf, Some ?v0)" using kv by simp
  next
    fix i s
    assume i: "i < n" and "?P i s"
    then obtain b w where s: "s = (b, Some w)" and b: "length b = length buf"
      and w: "length w = length v"
      and bs: "\<forall>j < length buf. b ! j = (if j < i then mem_m r ! (?off + j) else buf ! j)"
      and vs: "\<forall>j < n. bit (w ! (j div 8)) (j mod 8) = (j < i \<and> getBmap r (?off + j))"
      by blast
    let ?w = "if getBmap r (?off + i) then w[i div 8 := setBit (w ! (i div 8)) (i mod 8)] else w"
    have iw: "i div 8 < length w" using i assms(4) w by linarith
    have "ram_read_byte r ?off i s = Inr (b[i := mem_m r ! (?off + i)], Some ?w)"
      using i assms(2,3) b by (simp add: ram_read_byte_def s Let_def)
    moreover have "bit (?w ! (j div 8)) (j mod 8) = (j < Suc i \<and> getBmap r (?off + j))"
      if "j < n" for j
    proof -
      have "i div 8 = j div 8 \<and> i mod 8 = j mod 8 \<longleftrightarrow> j = i" by (metis div_mult_mod_eq)
      then show ?thesis
        using that vs iw by (auto simp: nth_list_update bit_setBit less_Suc_eq)
    qed
    moreover have "b[i := mem_m r ! (?off + i)] ! j
         = (if j < Suc i then mem_m r ! (?off + j) else buf ! j)" if "j < length buf" for j
      using that bs b by (auto simp: nth_list_update less_Suc_eq)
    ultimately show "\<exists>s'. ram_read_byte r ?off i s = Inr s' \<and> ?P (Suc i) s'"
      using b w by simp
  qed
  then show ?thesis
    using kv by (auto simp: ram_read_def Let_def read_result_def)
qed


section \<open>Properties\<close>

text \<open>
  C30: the RAM refines a finite map from byte addresses to bytes. A byte-enabled write that
  stays inside the array never faults, keeps the representation invariant, and updates the
  abstract map at exactly the enabled bytes of its window.
\<close>

theorem ram_write_refines:
  assumes "wf_ram r" and "addr mod ram_size r + n \<le> ram_size r"
    and "n \<le> length buf" and "n \<le> 8 * length be"
  shows "\<exists>r'. ram_write r buf be n addr = Inr r' \<and> wf_ram r' \<and> ram_size r' = ram_size r
     \<and> (\<forall>a. ram_abs r' a =
          (let off = addr mod ram_size r
           in if off \<le> a \<and> a < off + n \<and> bit (be ! ((a - off) div 8)) ((a - off) mod 8)
              then Some (buf ! (a - off)) else ram_abs r a))"
  using ram_write_correct [OF assms] by (auto simp: put_bytes_def Let_def)

theorem ram_write_refines_witness:
  "\<exists>r'. ram_write (ram_new ''ram'' 16) [7, 8] [2] 2 36 = Inr r'
     \<and> ram_abs r' 5 = Some 8 \<and> ram_abs r' 4 = None"
proof -
  have size: "ram_size (ram_new ''ram'' 16) = 16" by (simp add: ram_new_def)
  have "bit (2 :: u8) 1" "\<not> bit (2 :: u8) 0"
    by (simp_all add: bit_iff_odd)
  then show ?thesis
    using ram_write_refines [of "ram_new ''ram'' 16" 36 2 "[7, 8]" "[2]"]
    by (auto simp: size wf_ram_new ram_abs_new Let_def)
qed

text \<open>
  a read that stays inside the array never faults; it copies the window into the
  caller's buffer, leaves the rest of the buffer alone, and sets the valid bit of exactly
  the bytes that the abstract map knows, whose values it therefore returns.
\<close>

theorem ram_read_refines:
  assumes "wf_ram r" and "addr mod ram_size r + n \<le> ram_size r"
    and "n \<le> length buf" and "n \<le> 8 * length v"
  shows "\<exists>buf' v'. ram_read r buf n addr (Some v) = Inr (buf', Some v')
     \<and> length buf' = length buf \<and> (\<forall>i. n \<le> i \<and> i < length buf \<longrightarrow> buf' ! i = buf ! i)
     \<and> (\<forall>i < n. ram_abs r (addr mod ram_size r + i)
            = (if bit (v' ! (i div 8)) (i mod 8) then Some (buf' ! i) else None))"
proof -
  obtain buf' v' where r: "ram_read r buf n addr (Some v) = Inr (buf', Some v')"
    and res: "read_result r (addr mod ram_size r) n buf buf' v'"
    using ram_read_correct [OF assms] by blast
  have "ram_abs r (addr mod ram_size r + i)
      = (if bit (v' ! (i div 8)) (i mod 8) then Some (buf' ! i) else None)" if "i < n" for i
    using that assms res by (auto simp: read_result_def ram_abs_def)
  with r res assms(3) show ?thesis by (auto simp: read_result_def)
qed

theorem ram_read_refines_witness:
  "\<exists>buf' v'. ram_read (ram_new ''ram'' 16) [0, 0] 2 36 (Some [0]) = Inr (buf', Some v')
     \<and> \<not> bit (v' ! 0) 0"
proof -
  have size: "ram_size (ram_new ''ram'' 16) = 16" by (simp add: ram_new_def)
  show ?thesis
    using ram_read_refines [of "ram_new ''ram'' 16" 36 2 "[0, 0]" "[0]"]
    by (auto simp: size wf_ram_new ram_abs_new split: if_splits)
qed

text \<open>
  an access whose window runs past the end of the array does not wrap around, as the
  bitmap accesses do: as soon as one byte past the end is enabled the write is undefined.
\<close>

theorem ram_access_past_end:
  assumes "wf_ram r" and "ram_size r < addr mod ram_size r + n"
    and "\<forall>i < n. i div 8 < length be \<and> bit (be ! (i div 8)) (i mod 8)" and "n \<le> length buf"
  shows "ram_write r buf be n addr = Inl Undefined_behaviour"
    and "ram_read r buf n addr None = Inl Undefined_behaviour"
proof -
  let ?off = "addr mod ram_size r"
  let ?k = "ram_size r - ?off"
  have off: "?off < ram_size r" using assms(1) by (simp add: wf_ram_def)
  have k: "?k < n" "?off + ?k = ram_size r" using assms(2) off by simp_all
  then have split: "[0..<n] = [0..<?k] @ ?k # [Suc ?k..<n]"
    using upt_add_eq_append [of 0 ?k "n - ?k"] by (simp add: upt_conv_Cons)
  have "?k \<le> length buf" "?k \<le> 8 * length be"
    using k assms(3,4) by (simp, metis add.commute add_diff_cancel_left' div_less_iff_less_mult
        le_add1 less_imp_le mult.commute nat_le_linear not_less zero_less_numeral)
  then obtain s where s: "fold_ok (ram_write_byte buf be ?off) [0..<?k] r = Inr s"
    and sz: "ram_size s = ram_size r"
    using ram_write_correct [OF assms(1), of addr ?k buf be] k
    by (auto simp: ram_write_def Let_def)
  have "ram_write_byte buf be ?off ?k s = Inl Undefined_behaviour"
    using assms(3) k sz by (simp add: ram_write_byte_def)
  then show "ram_write r buf be n addr = Inl Undefined_behaviour"
    by (simp add: ram_write_def Let_def split fold_ok_append s)
  have "\<exists>t. fold_ok (ram_read_byte r ?off) [0..<?k] (buf, None) = Inr t
      \<and> (\<exists>b. t = (b, None) \<and> length b = length buf)"
    by (rule fold_ok_upt [where P = "\<lambda>_ t. \<exists>b. t = (b, None) \<and> length b = length buf"])
      (use k \<open>?k \<le> length buf\<close> in \<open>auto simp: ram_read_byte_def Let_def\<close>)
  then obtain b where t: "fold_ok (ram_read_byte r ?off) [0..<?k] (buf, None) = Inr (b, None)"
    by blast
  have "ram_read_byte r ?off ?k (b, None) = Inl Undefined_behaviour"
    using k by (simp add: ram_read_byte_def)
  then show "ram_read r buf n addr None = Inl Undefined_behaviour"
    by (simp add: ram_read_def Let_def split fold_ok_append t)
qed

end
