(* ===== verification/Scoreboard.thy ===== *)
theory Scoreboard
  imports Std_Map Ram_Model Sequence_Base Mem_Resp
begin

text \<open>
  \<open>rtl/tb/include/hpdcache_test_scoreboard.h\<close>: the checker that follows every transaction of
  the core interface and of the memory interface. Each process of the class is a thread
  whose loop reads one transaction and handles it without waiting: its body is a function
  from the transaction and the state to the new state, and the interleaving of the threads
  is a sequence of such steps. The optional cache directory (\<open>ENABLE_CACHE_DIR_VERIF\<close>) and the
  debug printing, both off in the source, are left out.
\<close>

section \<open>State\<close>

record inflight_entry =
  e_time :: u64
  e_tid :: nat
  e_addr :: u64
  e_need_rsp :: bool
  e_hit :: bool
  e_is_read :: bool
  e_is_write :: bool
  e_is_amo :: bool
  e_is_amo_sc :: bool
  e_is_amo_lr :: bool
  e_is_atomic :: bool
  e_is_error :: bool
  e_op :: nat
  e_is_uncacheable :: bool
  e_bytes :: u8
  e_wdata :: "u64 list"
  e_be :: "u8 list"
  e_rdata :: "u8 list"
  e_rv :: "u8 list"

text \<open>\<open>e_rdata\<close> is the array \<open>uint64_t rdata[]\<close> seen as bytes, as the code accesses it.\<close>

record inflight_mem_entry =
  me_addr :: u64
  me_bytes :: u8
  me_is_uncacheable :: bool
  me_is_error :: bool
  me_core_req :: "nat option"

record lrsc_reservation_buf =
  rs_valid :: bool
  rs_base_addr :: u64
  rs_end_addr :: u64
  rs_is_atomic :: bool

text \<open>One entry per performance event: the counters of the class, and the sampled inputs.\<close>

record 'a perf =
  cache_write_miss :: 'a
  cache_read_miss :: 'a
  cache_dir_unc_err :: 'a
  cache_dir_cor_err :: 'a
  cache_dat_unc_err :: 'a
  cache_dat_cor_err :: 'a
  scrub_complete :: 'a
  uncached_req :: 'a
  cmo_req :: 'a
  write_req :: 'a
  read_req :: 'a
  prefetch_req :: 'a
  req_on_hold :: 'a
  rtab_rollback :: 'a
  stall_refill :: 'a
  stall :: 'a

type_synonym perf_counters = "u64 perf"
type_synonym perf_signals = "bool perf"

record scoreboard =
  nb_cycles :: u64
  nb_cycles_effective :: u64
  nb_core_req :: u64
  nb_core_req_need_rsp :: u64
  nb_core_resp :: u64
  nb_mem_read_req :: u64
  nb_mem_read_resp :: u64
  nb_mem_write_req :: u64
  nb_mem_write_resp :: u64
  nb_error :: nat
  sb_error_limit_m :: nat
  evt :: perf_counters
  seq :: seq_state
  mem_resp_model :: "segment list option"
  inflight_m :: "inflight_entry std_map"
  inflight_mem_read_m :: "inflight_mem_entry std_map"
  inflight_mem_write_m :: "inflight_mem_entry std_map"
  lrsc_buf_m :: lrsc_reservation_buf
  ram_m :: ram
  inflight_amo_req_m :: "inflight_entry list"
  sc_is_atomic :: bool
  sb_log :: "string list"

text \<open>
  The counter of errors and its limit are \<open>size_t\<close>; as natural numbers they agree with the
  code as long as fewer than \<open>2 ^ 64\<close> errors are reported. \<open>mem_resp_model\<close> is the pointer to
  the memory model, of which the scoreboard uses the error segments. \<open>sb_log\<close> is what
  \<open>print_error\<close> has written.
\<close>

definition evt_zero :: perf_counters where
  "evt_zero = \<lparr>cache_write_miss = 0, cache_read_miss = 0, cache_dir_unc_err = 0,
     cache_dir_cor_err = 0, cache_dat_unc_err = 0, cache_dat_cor_err = 0, scrub_complete = 0,
     uncached_req = 0, cmo_req = 0, write_req = 0, read_req = 0, prefetch_req = 0,
     req_on_hold = 0, rtab_rollback = 0, stall_refill = 0, stall = 0\<rparr>"

text \<open>The constructor leaves the reservation buffer uninitialised: its content is an argument.\<close>

definition scoreboard_new :: "lrsc_reservation_buf \<Rightarrow> seq_state \<Rightarrow> scoreboard" where
  "scoreboard_new lrsc sq =
     \<lparr>nb_cycles = 0, nb_cycles_effective = 0, nb_core_req = 0, nb_core_req_need_rsp = 0,
      nb_core_resp = 0, nb_mem_read_req = 0, nb_mem_read_resp = 0, nb_mem_write_req = 0,
      nb_mem_write_resp = 0, nb_error = 0, sb_error_limit_m = 0, evt = evt_zero, seq = sq,
      mem_resp_model = None, inflight_m = [], inflight_mem_read_m = [], inflight_mem_write_m = [],
      lrsc_buf_m = lrsc, ram_m = ram_new ''ram'' SCOREBOARD_RAM_SIZE, inflight_amo_req_m = [],
      sc_is_atomic = False, sb_log = []\<rparr>"

definition set_sequence :: "seq_state \<Rightarrow> scoreboard \<Rightarrow> scoreboard" where
  "set_sequence p s = s\<lparr>seq := p\<rparr>"

definition set_mem_resp_model :: "segment list option \<Rightarrow> scoreboard \<Rightarrow> scoreboard" where
  "set_mem_resp_model p s = s\<lparr>mem_resp_model := p\<rparr>"

definition set_error_limit :: "nat \<Rightarrow> scoreboard \<Rightarrow> scoreboard" where
  "set_error_limit n s = s\<lparr>sb_error_limit_m := n\<rparr>"

text \<open>Capacity of \<open>inflight_amo_req_m\<close>, which is built with the default depth of \<open>sc_fifo\<close>.\<close>

definition SC_FIFO_DEPTH :: nat where
  "SC_FIFO_DEPTH = 16"

definition CORE_REQ_WORDS :: "cfg \<Rightarrow> nat" where
  "CORE_REQ_WORDS c = HPDCACHE_REQ_WORDS c"

definition CORE_REQ_WORD_BYTES :: "cfg \<Rightarrow> nat" where
  "CORE_REQ_WORD_BYTES c = HPDCACHE_WORD_WIDTH c div 8"

definition CORE_REQ_BYTES :: "cfg \<Rightarrow> nat" where
  "CORE_REQ_BYTES c = CORE_REQ_WORDS c * CORE_REQ_WORD_BYTES c"

section \<open>Helpers of the class\<close>

text \<open>The variant of the scoreboard includes both bounds.\<close>

definition sb_within_region :: "u64 \<Rightarrow> u64 \<Rightarrow> u64 \<Rightarrow> bool" where
  "sb_within_region addr base end_addr =
     (if addr < base then False else if addr > end_addr then False else True)"

definition get_nline :: "cfg \<Rightarrow> u64 \<Rightarrow> u64" where
  "get_nline c addr = drop_bit (HPDCACHE_CL_OFFSET_WIDTH c) addr"

definition get_offset :: "cfg \<Rightarrow> u64 \<Rightarrow> u64" where
  "get_offset c addr = addr AND (push_bit (HPDCACHE_CL_OFFSET_WIDTH c) 1 - 1)"

definition align_to :: "u64 \<Rightarrow> nat \<Rightarrow> nat" where
  "align_to v n = unat v div n * n"

definition print_error :: "string \<Rightarrow> scoreboard \<Rightarrow> scoreboard outcome" where
  "print_error msg s =
     (let s = s\<lparr>sb_log := sb_log s @ [msg], nb_error := nb_error s + 1\<rparr>
      in if sb_error_limit_m s > 0 \<and> nb_error s \<ge> sb_error_limit_m s then Inl Process_exit
         else Inr s)"

definition release_id :: "nat \<Rightarrow> scoreboard \<Rightarrow> scoreboard" where
  "release_id i s = s\<lparr>seq := fst (deallocate_id i (seq s))\<rparr>"

definition bump :: "u64 \<Rightarrow> bool \<Rightarrow> u64" where
  "bump n b = (if b then n + 1 else n)"

definition perf_events_process :: "perf_signals \<Rightarrow> scoreboard \<Rightarrow> scoreboard" where
  "perf_events_process sig s =
     (let c = evt s
      in s\<lparr>nb_cycles := nb_cycles s + 1,
           evt := \<lparr>cache_write_miss = bump (cache_write_miss c) (cache_write_miss sig),
             cache_read_miss = bump (cache_read_miss c) (cache_read_miss sig),
             cache_dir_unc_err = bump (cache_dir_unc_err c) (cache_dir_unc_err sig),
             cache_dir_cor_err = bump (cache_dir_cor_err c) (cache_dir_cor_err sig),
             cache_dat_unc_err = bump (cache_dat_unc_err c) (cache_dat_unc_err sig),
             cache_dat_cor_err = bump (cache_dat_cor_err c) (cache_dat_cor_err sig),
             scrub_complete = bump (scrub_complete c) (scrub_complete sig),
             uncached_req = bump (uncached_req c) (uncached_req sig),
             cmo_req = bump (cmo_req c) (cmo_req sig),
             write_req = bump (write_req c) (write_req sig),
             read_req = bump (read_req c) (read_req sig),
             prefetch_req = bump (prefetch_req c) (prefetch_req sig),
             req_on_hold = bump (req_on_hold c) (req_on_hold sig),
             rtab_rollback = bump (rtab_rollback c) (rtab_rollback sig),
             stall_refill = bump (stall_refill c) (stall_refill sig),
             stall = bump (stall c) (stall sig)\<rparr>\<rparr>)"

definition check_inflight_requests :: "scoreboard \<Rightarrow> bool" where
  "check_inflight_requests s \<longleftrightarrow>
     inflight_mem_write_m s = [] \<and> inflight_mem_read_m s = [] \<and> inflight_m s = []"

section \<open>Core requests\<close>

text \<open>
  The local entry of a round, filled in from the request; \<open>junk\<close> is the uninitialised
  variable, whose arrays have \<open>CORE_REQ_WORDS\<close> elements.
\<close>

definition make_entry :: "cfg \<Rightarrow> inflight_entry \<Rightarrow> req \<Rightarrow> scoreboard \<Rightarrow> inflight_entry" where
  "make_entry c junk t s =
     (let e = junk\<lparr>e_time := nb_cycles s, e_tid := req_tid t, e_addr := bv_to_uint64 (req_addr t),
                e_need_rsp := req_need_rsp t, e_hit := False, e_is_read := is_load t,
                e_is_write := is_store t, e_is_amo := is_amo t, e_is_amo_lr := is_amo_lr t,
                e_is_amo_sc := is_amo_sc t, e_is_uncacheable := req_uncacheable t,
                e_is_error := False, e_bytes := push_bit (req_size t) 1, e_op := req_op t\<rparr>
      in if is_store t \<or> is_amo_sc t \<or> is_amo t then
           e\<lparr>e_wdata := map (\<lambda>i. bv_to_uint64 (get_field (i * HPDCACHE_WORD_WIDTH c)
                                            (HPDCACHE_WORD_WIDTH c) (req_wdata t)))
                      [0..<CORE_REQ_WORDS c],
             e_be := map (\<lambda>i. word_of_nat (get_field (i * CORE_REQ_WORD_BYTES c)
                                         (CORE_REQ_WORD_BYTES c) (req_be t)))
                      [0..<CORE_REQ_WORDS c]\<rparr>
         else e)"

definition mark_error :: "req \<Rightarrow> scoreboard \<Rightarrow> inflight_entry \<Rightarrow> inflight_entry" where
  "mark_error t s e =
     (case mem_resp_model s of
        Some segs \<Rightarrow>
          if \<not> is_cmo t \<or> is_cmo_prefetch t then
            e\<lparr>e_is_error := error_region_loop segs (e_addr e) (e_addr e + ucast (e_bytes e))\<rparr>
          else e
      | None \<Rightarrow> e)"

definition read_expected :: "cfg \<Rightarrow> req \<Rightarrow> scoreboard \<Rightarrow> inflight_entry \<Rightarrow> inflight_entry outcome" where
  "read_expected c t s e =
     (if \<not> e_is_error e \<and> (is_load t \<or> is_amo_lr t \<or> is_amo t) then
        andthen (ram_read (ram_m s) (e_rdata e) (HPDCACHE_REQ_DATA_WIDTH c div 8)
                   (align_to (e_addr e) (HPDCACHE_REQ_DATA_WIDTH c div 8)) (Some (e_rv e)))
          (\<lambda>(rdata, rv). Inr (e\<lparr>e_rdata := rdata, e_rv := the rv\<rparr>))
      else Inr e)"

definition lr_reservation :: "req \<Rightarrow> inflight_entry \<Rightarrow> scoreboard \<Rightarrow> scoreboard" where
  "lr_reservation t e s =
     (if is_amo_lr t then
        (if \<not> e_is_error e then
           s\<lparr>lrsc_buf_m := \<lparr>rs_valid = True, rs_base_addr = e_addr e, rs_end_addr = e_addr e + 8,
                            rs_is_atomic = False\<rparr>\<rparr>
         else s\<lparr>lrsc_buf_m := (lrsc_buf_m s)\<lparr>rs_valid := False\<rparr>\<rparr>)
      else s)"

definition lrsc_addr_match :: "cfg \<Rightarrow> inflight_entry \<Rightarrow> lrsc_reservation_buf \<Rightarrow> bool" where
  "lrsc_addr_match c e b =
     (let lrsc_rsrv_nline = get_nline c (rs_base_addr b);
          lrsc_rsrv_word = drop_bit 3 (get_offset c (rs_base_addr b));
          lrsc_entry_nline = get_nline c (e_addr e);
          lrsc_entry_words = (if e_bytes e < 8 then 1 else ucast (drop_bit 3 (e_bytes e)) :: u64);
          lrsc_entry_base = drop_bit 3 (get_offset c (e_addr e));
          lrsc_entry_end = lrsc_entry_base + lrsc_entry_words
      in rs_valid b \<and> lrsc_rsrv_nline = lrsc_entry_nline
         \<and> lrsc_rsrv_word \<ge> lrsc_entry_base \<and> lrsc_rsrv_word < lrsc_entry_end)"

definition lrsc_invalidation ::
  "cfg \<Rightarrow> req \<Rightarrow> inflight_entry \<Rightarrow> scoreboard \<Rightarrow> inflight_entry \<times> scoreboard" where
  "lrsc_invalidation c t e s =
     (if is_amo t \<or> is_amo_sc t \<or> is_store t then
        (let addr_match = lrsc_addr_match c e (lrsc_buf_m s);
             e = (if is_amo_sc t then
                    e\<lparr>e_is_error := (e_is_error e \<and> addr_match), e_is_atomic := addr_match\<rparr>
                  else e);
             s = (if addr_match \<or> is_amo_sc t then
                    s\<lparr>lrsc_buf_m := (lrsc_buf_m s)\<lparr>rs_valid := False\<rparr>\<rparr>
                  else s)
         in (e, s))
      else (e, s))"

definition forwards_atomic :: "req \<Rightarrow> inflight_entry \<Rightarrow> bool" where
  "forwards_atomic t e \<longleftrightarrow> is_amo t \<or> is_amo_lr t \<or> is_amo_sc t \<and> e_is_atomic e"

definition store_ram :: "cfg \<Rightarrow> req \<Rightarrow> inflight_entry \<Rightarrow> scoreboard \<Rightarrow> scoreboard outcome" where
  "store_ram c t e s =
     (if is_store t \<and> \<not> e_is_error e then
        andthen (ram_write (ram_m s) (bytes_of_words (e_wdata e)) (e_be e)
                   (HPDCACHE_REQ_DATA_WIDTH c div 8)
                   (align_to (e_addr e) (HPDCACHE_REQ_DATA_WIDTH c div 8)))
          (\<lambda>r. Inr (s\<lparr>ram_m := r\<rparr>))
      else Inr s)"

definition track_request :: "req \<Rightarrow> inflight_entry \<Rightarrow> scoreboard \<Rightarrow> scoreboard" where
  "track_request t e s =
     (if req_need_rsp t then s\<lparr>inflight_m := sm_insert (req_tid t) e (inflight_m s)\<rparr>
      else release_id (req_tid t) s)"

definition count_core_req :: "req \<Rightarrow> scoreboard \<Rightarrow> scoreboard" where
  "count_core_req t s =
     s\<lparr>nb_core_req := nb_core_req s + 1,
       nb_core_req_need_rsp := nb_core_req_need_rsp s + (if req_need_rsp t then 1 else 0)\<rparr>"

definition dispatch_request ::
  "cfg \<Rightarrow> req \<Rightarrow> inflight_entry \<Rightarrow> scoreboard \<Rightarrow> scoreboard outcome" where
  "dispatch_request c t e s =
     (if forwards_atomic t e \<and> \<not> length (inflight_amo_req_m s) < SC_FIFO_DEPTH then
        print_error ''inflight AMO request fifo is full'' s
      else
        (let s = (if forwards_atomic t e then s\<lparr>inflight_amo_req_m := inflight_amo_req_m s @ [e]\<rparr>
                  else s)
         in andthen (store_ram c t e s) (\<lambda>s. Inr (track_request t e s))))"

definition core_req_step ::
  "cfg \<Rightarrow> inflight_entry \<Rightarrow> req \<Rightarrow> scoreboard \<Rightarrow> scoreboard outcome" where
  "core_req_step c junk t s =
     (let s = count_core_req t s
      in if sm_find (inflight_m s) (req_tid t) \<noteq> None then
           print_error (''core request ID 0x'' @ hex (req_tid t) @ '' matches an inflight request'') s
         else if is_cmo t \<and> \<not> req_need_rsp t then Inr (release_id (req_tid t) s)
         else
           andthen (read_expected c t s (mark_error t s (make_entry c junk t s)))
             (\<lambda>e. let s = lr_reservation t e s; (e, s) = lrsc_invalidation c t e s
                  in dispatch_request c t e s))"

section \<open>Core responses\<close>

definition entry_word :: "cfg \<Rightarrow> inflight_entry \<Rightarrow> nat" where
  "entry_word c e = unat (e_addr e) div CORE_REQ_WORD_BYTES c mod CORE_REQ_WORDS c"

definition entry_byte :: "cfg \<Rightarrow> inflight_entry \<Rightarrow> nat" where
  "entry_byte c e = unat (e_addr e) mod CORE_REQ_BYTES c"

definition rsp_word :: "cfg \<Rightarrow> resp \<Rightarrow> nat \<Rightarrow> u64" where
  "rsp_word c r i =
     bv_to_uint64 (get_field (i * HPDCACHE_WORD_WIDTH c) (HPDCACHE_WORD_WIDTH c) (rsp_rdata r))"

text \<open>Writing one word through pointers into the entry's arrays.\<close>

definition write_entry_word ::
  "cfg \<Rightarrow> inflight_entry \<Rightarrow> u64 list \<Rightarrow> u8 list \<Rightarrow> scoreboard \<Rightarrow> scoreboard outcome" where
  "write_entry_word c e ws be s =
     andthen (ram_write (ram_m s) (bytes_of_words ws) be (CORE_REQ_WORD_BYTES c)
                (align_to (e_addr e) (CORE_REQ_WORD_BYTES c)))
       (\<lambda>r. Inr (s\<lparr>ram_m := r\<rparr>))"

definition check_sc :: "cfg \<Rightarrow> inflight_entry \<Rightarrow> resp \<Rightarrow> scoreboard \<Rightarrow> scoreboard outcome" where
  "check_sc c e r s =
     (if e_is_amo_sc e then
        (let w = entry_word c e;
             sc_resp = rsp_word c r w;
             sc_resp = (if e_bytes e = 4 then low_32 sc_resp else sc_resp);
             sc_ok = (e_is_atomic e \<and> sc_is_atomic s)
         in if sc_ok then
              andthen (write_entry_word c e (drop w (e_wdata e)) (drop w (e_be e)) s)
                (\<lambda>s. if sc_resp \<noteq> 0 then print_error ''response shall be SC_SUCCESS'' s else Inr s)
            else if sc_resp \<noteq> 1 then print_error ''response shall be SC_FAILURE'' s
            else Inr s)
      else Inr s)"

definition check_byte ::
  "cfg \<Rightarrow> inflight_entry \<Rightarrow> u8 list \<Rightarrow> nat \<Rightarrow> scoreboard \<Rightarrow> scoreboard outcome" where
  "check_byte c e rdata i s =
     (if length rdata \<le> i \<or> length (e_rdata e) \<le> i \<or> length (e_rv e) \<le> i div CORE_REQ_WORD_BYTES c
      then Inl Undefined_behaviour
      else
        (let recv = rdata ! i; expc = e_rdata e ! i; rv = e_rv e ! (i div CORE_REQ_WORD_BYTES c)
         in if drop_bit (i mod CORE_REQ_WORD_BYTES c) rv AND 1 \<noteq> 0 \<and> recv \<noteq> expc then
              print_error
                (''response data is wrong / @0x'' @ hex (align_to (e_addr e) (CORE_REQ_BYTES c) + i)
                 @ '' / actual = 0x'' @ hex (unat recv) @ '' / expected = 0x'' @ hex (unat expc)) s
            else Inr s))"

definition check_data :: "cfg \<Rightarrow> inflight_entry \<Rightarrow> u8 list \<Rightarrow> scoreboard \<Rightarrow> scoreboard outcome" where
  "check_data c e rdata s =
     fold_ok (check_byte c e rdata) [entry_byte c e..<entry_byte c e + unat (e_bytes e)] s"

definition update_amo :: "cfg \<Rightarrow> inflight_entry \<Rightarrow> resp \<Rightarrow> scoreboard \<Rightarrow> scoreboard outcome" where
  "update_amo c e r s =
     (if e_is_amo e then
        (let w = entry_word c e;
             offset = unat (e_addr e) mod CORE_REQ_WORD_BYTES c * CORE_REQ_WORD_BYTES c;
             amo_new = e_wdata e ! w;
             amo_old = rsp_word c r w;
             amo_new = (if e_bytes e = 4 then low_32 (drop_bit offset amo_new) else amo_new);
             amo_old = (if e_bytes e = 4 then low_32 (drop_bit offset amo_old) else amo_old)
         in andthen (compute_amo (e_op e) amo_old amo_new (unat (e_bytes e)))
              (\<lambda>amo_res. write_entry_word c e [push_bit offset amo_res] [e_be e ! w] s))
      else Inr s)"

definition check_response :: "cfg \<Rightarrow> inflight_entry \<Rightarrow> resp \<Rightarrow> scoreboard \<Rightarrow> scoreboard outcome" where
  "check_response c e r s =
     (if e_is_error e then Inr s
      else andthen (check_sc c e r s)
        (\<lambda>s. if e_is_read e \<or> e_is_amo e \<or> e_is_amo_lr e then
               andthen (check_data c e (bytes_of_words (map (rsp_word c r) [0..<CORE_REQ_WORDS c])) s)
                 (update_amo c e r)
             else Inr s))"

definition retire_request :: "nat \<Rightarrow> scoreboard \<Rightarrow> scoreboard" where
  "retire_request i s = release_id i (s\<lparr>inflight_m := sm_erase i (inflight_m s)\<rparr>)"

definition core_resp_step :: "cfg \<Rightarrow> resp \<Rightarrow> scoreboard \<Rightarrow> scoreboard outcome" where
  "core_resp_step c r s =
     (let s = s\<lparr>nb_core_resp := nb_core_resp s + 1, nb_cycles_effective := nb_cycles s\<rparr>
      in case sm_find (inflight_m s) (rsp_tid r) of
           None \<Rightarrow>
             print_error (''core response ID 0x'' @ hex (rsp_tid r)
               @ '' does not match any inflight request'') s
         | Some e \<Rightarrow>
             if \<not> e_is_write e \<and> rsp_error r \<noteq> e_is_error e then
               print_error ''unexpected value in the error flag of the response'' s
             else andthen (check_response c e r s) (\<lambda>s. Inr (retire_request (rsp_tid r) s)))"

end
