(* ===== verification/Scoreboard_Mem.thy ===== *)
theory Scoreboard_Mem
  imports Scoreboard
begin

text \<open>
  The threads of \<open>rtl/tb/include/hpdcache_test_scoreboard.h\<close> on the memory interface, the
  checks of its destructor, and the whole scoreboard as a transition system: an event is
  what one thread reads, \<open>sb_step\<close> runs the round of that thread.
\<close>

section \<open>Requests to the memory\<close>

definition entry_to_string :: "inflight_entry \<Rightarrow> string" where
  "entry_to_string e =
     ''@0x'' @ hex (unat (e_addr e)) @ (if e_hit e then '' / hit'' else '' / miss'')
     @ (if e_is_read e then '' / read''
        else if e_is_write e then '' / write''
        else if e_is_amo e then '' / amo''
        else if e_is_amo_sc e then '' / sc''
        else if e_is_amo_lr e then '' / lr''
        else '''')
     @ '' / '' @ op_to_string (e_op e)
     @ (if e_is_uncacheable e then '' / uncacheable'' else '''')
     @ '' / bytes = '' @ dec_nat (unat (e_bytes e))"

text \<open>
  The loop over the inflight requests, in the order of the map: the oldest one on the line
  of the memory request, the first of them in case of a tie. The pointer to the entry is
  its key.
\<close>

definition oldest_on_line ::
  "cfg \<Rightarrow> u64 \<Rightarrow> (nat \<times> inflight_entry) option \<Rightarrow> nat \<times> inflight_entry
     \<Rightarrow> (nat \<times> inflight_entry) option" where
  "oldest_on_line c addr best cr =
     (if get_nline c (e_addr (snd cr)) = get_nline c addr then
        (case best of
           None \<Rightarrow> Some cr
         | Some b \<Rightarrow> if e_time (snd cr) < e_time (snd b) then Some cr else Some b)
      else best)"

definition find_core_req :: "cfg \<Rightarrow> u64 \<Rightarrow> inflight_entry std_map \<Rightarrow> nat option" where
  "find_core_req c addr m = map_option fst (foldl (oldest_on_line c addr) None m)"

text \<open>
  The new entry; \<open>mem_resp_model\<close> is dereferenced without a test for the null pointer, and
  a shift by 64 or more has no meaning.
\<close>

definition make_mem_entry ::
  "cfg \<Rightarrow> 'a mem_req_scheme \<Rightarrow> scoreboard \<Rightarrow> inflight_mem_entry outcome" where
  "make_mem_entry c req s =
     (if unat (mr_size req) \<ge> 64 then Inl Undefined_behaviour
      else case mem_resp_model s of
        None \<Rightarrow> Inl Undefined_behaviour
      | Some segs \<Rightarrow>
          (let bytes = push_bit (unat (mr_size req)) 1 :: u64
           in Inr \<lparr>me_addr = mr_addr req, me_bytes = ucast bytes,
                   me_is_uncacheable = (\<not> mr_cacheable req),
                   me_is_error = error_region_loop segs (mr_addr req) (mr_addr req + bytes),
                   me_core_req = find_core_req c (mr_addr req) (inflight_m s)\<rparr>))"

text \<open>
  Reading the transaction that the core thread has shared: more than one waiting is
  reported, none is reported with the text of the caller, which then goes to the next
  request (\<open>None\<close>).
\<close>

definition take_amo ::
  "string \<Rightarrow> scoreboard \<Rightarrow> (inflight_entry option \<times> scoreboard) outcome" where
  "take_amo msg s =
     andthen
       (if length (inflight_amo_req_m s) > 1 then
          print_error ''there shall be a single inflight atomic operation'' s else Inr s)
       (\<lambda>s. case inflight_amo_req_m s of
              [] \<Rightarrow> andthen (print_error msg s) (\<lambda>s. Inr (None, s))
            | e # es \<Rightarrow> Inr (Some e, s\<lparr>inflight_amo_req_m := es\<rparr>))"

definition mem_read_req_step :: "cfg \<Rightarrow> mem_req \<Rightarrow> scoreboard \<Rightarrow> scoreboard outcome" where
  "mem_read_req_step c req s =
     (let s = s\<lparr>nb_mem_read_req := nb_mem_read_req s + 1\<rparr>;
          req_id = unat (mr_id req)
      in if sm_find (inflight_mem_read_m s) req_id \<noteq> None then
           print_error (''memory read request ID 0x'' @ hex req_id
             @ '' matches an inflight request'') s
         else andthen (make_mem_entry c req s)
           (\<lambda>e. let s = s\<lparr>inflight_mem_read_m := sm_insert req_id e (inflight_mem_read_m s)\<rparr>
                in if mr_is_ldex req then
                     andthen (take_amo ''unexpected load-exclusive request'' s) (\<lambda>(_, s). Inr s)
                   else Inr s))"

definition mem_amo_request ::
  "mem_write_req \<Rightarrow> inflight_mem_entry \<Rightarrow> scoreboard \<Rightarrow> (bool \<times> scoreboard) outcome" where
  "mem_amo_request req e s =
     (if mr_is_amo req then
        andthen (take_amo ''unexpected AMO request'' s)
          (\<lambda>(r, s). case r of
             None \<Rightarrow> Inr (False, s)
           | Some _ \<Rightarrow>
               andthen
                 (if me_core_req e = None then
                    print_error ''memory AMO request with no associated core request'' s
                  else Inr s)
                 (\<lambda>s. Inr (True, s\<lparr>inflight_mem_read_m :=
                        sm_insert (unat (mr_id req)) e (inflight_mem_read_m s)\<rparr>)))
      else Inr (True, s))"

definition mem_stex_request ::
  "mem_write_req \<Rightarrow> inflight_mem_entry \<Rightarrow> scoreboard \<Rightarrow> scoreboard outcome" where
  "mem_stex_request req e s =
     (if mr_is_stex req then
        andthen (take_amo ''unexpected store-exclusive request'' s)
          (\<lambda>(r, s). case r of
             None \<Rightarrow> Inr s
           | Some inflight_ret \<Rightarrow>
               if \<not> e_is_atomic inflight_ret then
                 print_error ''store exclusive access with no valid reservation'' s
               else if me_core_req e = None then
                 print_error ''memory store-conditional request with no associated core request'' s
               else Inr s)
      else Inr s)"

definition mem_write_req_step :: "cfg \<Rightarrow> mem_write_req \<Rightarrow> scoreboard \<Rightarrow> scoreboard outcome" where
  "mem_write_req_step c req s =
     (let s = s\<lparr>nb_mem_write_req := nb_mem_write_req s + 1\<rparr>;
          req_id = unat (mr_id req)
      in if sm_find (inflight_mem_write_m s) req_id \<noteq> None then
           print_error (''memory write request ID 0x'' @ hex req_id
             @ '' matches an inflight request'') s
         else andthen (make_mem_entry c req s)
           (\<lambda>e. andthen
                  (mem_amo_request req e
                     (s\<lparr>inflight_mem_write_m := sm_insert req_id e (inflight_mem_write_m s)\<rparr>))
                  (\<lambda>(go_on, s). if go_on then mem_stex_request req e s else Inr s)))"

section \<open>Responses of the memory\<close>

definition MEM_WORDS :: "cfg \<Rightarrow> nat" where
  "MEM_WORDS c = HPDCACHE_MEM_DATA_WIDTH c div 64"

definition MEM_BYTES :: "cfg \<Rightarrow> nat" where
  "MEM_BYTES c = HPDCACHE_MEM_DATA_WIDTH c div 8"

definition mem_rdata :: "cfg \<Rightarrow> mem_read_resp \<Rightarrow> u64 list" where
  "mem_rdata c r = map (\<lambda>i. bv_to_uint64 (get_field (i * 64) 64 (rr_data r))) [0..<MEM_WORDS c]"

text \<open>The mask of the bytes that the scoreboard does not know yet.\<close>

definition unset_bit :: "ram \<Rightarrow> nat \<Rightarrow> nat \<Rightarrow> u8 list \<Rightarrow> u8 list outcome" where
  "unset_bit r aligned_addr i unset =
     (if length unset \<le> i div 8 then Inl Undefined_behaviour
      else Inr (unset[i div 8 := unset ! (i div 8)
                  OR push_bit (i mod 8) (if getBmap r (aligned_addr + i) then 0 else 1)]))"

definition unset_mask :: "cfg \<Rightarrow> ram \<Rightarrow> nat \<Rightarrow> u8 list outcome" where
  "unset_mask c r aligned_addr =
     fold_ok (unset_bit r aligned_addr) [0..<MEM_BYTES c] (replicate (MEM_WORDS c) 0)"

text \<open>
  The byte enables: \<open>((1UL << bytes) - 1) << (_byte - i * 8)\<close>. A shift by a negative amount
  or by 64 and more has no meaning; neither has an index outside of \<open>be\<close>. The counter
  \<open>bytes\<close> is an \<open>int\<close> that the loop decreases by 8 until it is not positive: as a natural
  number it ends at 0.
\<close>

definition lane_mask :: "nat \<Rightarrow> int \<Rightarrow> u8 outcome" where
  "lane_mask bytes sh =
     (if bytes \<ge> 64 \<or> sh < 0 \<or> sh \<ge> 64 then Inl Undefined_behaviour
      else Inr (ucast (push_bit (nat sh) (push_bit bytes 1 - 1 :: u64))))"

fun lane_enables :: "nat \<Rightarrow> u8 list \<Rightarrow> nat \<Rightarrow> nat \<Rightarrow> u8 list \<Rightarrow> u8 list outcome" where
  "lane_enables byte unset i bytes be =
     (if bytes = 0 then Inr be
      else case lane_mask bytes (int byte - int (i * 8)) of
             Inl f \<Rightarrow> Inl f
           | Inr m \<Rightarrow>
               if length be \<le> i then Inl Undefined_behaviour
               else lane_enables byte unset (Suc i) (bytes - 8) (be[i := m AND unset ! i]))"

declare lane_enables.simps [simp del]

text \<open>What a response without error teaches the scoreboard.\<close>

definition learn_refill ::
  "cfg \<Rightarrow> inflight_mem_entry \<Rightarrow> mem_read_resp \<Rightarrow> ram \<Rightarrow> ram outcome" where
  "learn_refill c e r m =
     (if MEM_WORDS c = 0 then Inl Undefined_behaviour
      else
        (let aligned_addr = align_to (me_addr e) (MEM_BYTES c);
             word = unat (me_addr e) div MEM_BYTES c mod MEM_WORDS c;
             byte = unat (me_addr e) mod MEM_BYTES c
         in andthen (unset_mask c m aligned_addr)
           (\<lambda>unset. andthen (lane_enables byte unset word (unat (me_bytes e))
                               (replicate (MEM_WORDS c) 0))
              (\<lambda>be. ram_write m (bytes_of_words (mem_rdata c r)) be (MEM_BYTES c) aligned_addr))))"

definition mem_read_resp_step :: "cfg \<Rightarrow> mem_read_resp \<Rightarrow> scoreboard \<Rightarrow> scoreboard outcome" where
  "mem_read_resp_step c r s =
     (let s = s\<lparr>nb_mem_read_resp := nb_mem_read_resp s + 1\<rparr>;
          rid = unat (rr_id r)
      in case sm_find (inflight_mem_read_m s) rid of
           None \<Rightarrow>
             print_error (''memory read response ID 0x'' @ hex rid
               @ '' does not match any inflight request'') s
         | Some e \<Rightarrow>
             andthen
               (if rr_error r = 0 then
                  andthen (learn_refill c e r (ram_m s)) (\<lambda>m. Inr (s\<lparr>ram_m := m\<rparr>))
                else Inr s)
               (\<lambda>s. Inr (if rr_last r then
                            s\<lparr>inflight_mem_read_m := sm_erase rid (inflight_mem_read_m s)\<rparr>
                          else s)))"

definition mem_write_resp_step :: "mem_write_resp \<Rightarrow> scoreboard \<Rightarrow> scoreboard outcome" where
  "mem_write_resp_step r s =
     (let s = s\<lparr>nb_mem_write_resp := nb_mem_write_resp s + 1\<rparr>;
          rid = unat (wr_id r)
      in case sm_find (inflight_mem_write_m s) rid of
           None \<Rightarrow>
             print_error (''memory write response ID 0x'' @ hex rid
               @ '' does not match any inflight request'') s
         | Some e \<Rightarrow>
             Inr (s\<lparr>sc_is_atomic := wr_is_atomic r,
                    inflight_mem_write_m := sm_erase rid (inflight_mem_write_m s)\<rparr>))"

section \<open>End of the test\<close>

definition report_if :: "bool \<Rightarrow> string \<Rightarrow> scoreboard \<Rightarrow> scoreboard outcome" where
  "report_if b msg s = (if b then print_error msg s else Inr s)"

definition sb_destructor :: "scoreboard \<Rightarrow> scoreboard outcome" where
  "sb_destructor s =
     andthen (report_if (nb_core_resp s \<noteq> nb_core_req_need_rsp s)
        (''number of responses ('' @ dec_nat (unat (nb_core_resp s))
         @ '') is different than the number of requests ('' @ dec_nat (unat (nb_core_req_need_rsp s))
         @ '')'') s)
     (\<lambda>s. andthen (report_if (cache_write_miss (evt s) > write_req (evt s))
        (''number of write misses ('' @ dec_nat (unat (cache_write_miss (evt s)))
         @ '') is bigger than the number of write requests ('' @ dec_nat (unat (write_req (evt s)))
         @ '')'') s)
     (\<lambda>s. andthen (report_if (cache_read_miss (evt s) > read_req (evt s))
        (''number of read misses ('' @ dec_nat (unat (cache_read_miss (evt s)))
         @ '') is bigger than the number of read requests ('' @ dec_nat (unat (read_req (evt s)))
         @ '')'') s)
     (\<lambda>s. report_if (length (ids (seq s)) > 0)
        (''unresponded ids:'' @ concat (map (\<lambda>i. '' 0x'' @ hex i) (ids (seq s)))) s)))"

section \<open>The transition system\<close>

datatype sb_event =
    Clock perf_signals
  | Core_req inflight_entry req
  | Core_resp resp
  | Mem_read_req mem_req
  | Mem_read_resp mem_read_resp
  | Mem_write_req mem_write_req
  | Mem_write_resp mem_write_resp
  | Seq_allocate nat

text \<open>
  \<open>Core_req\<close> carries the content of the uninitialised local variable. \<open>Seq_allocate\<close> is the
  sequence, with whom the scoreboard shares the identifiers, taking a new one; a call that
  does not return has no step.
\<close>

definition seq_allocate :: "cfg \<Rightarrow> nat \<Rightarrow> scoreboard \<Rightarrow> scoreboard outcome" where
  "seq_allocate c rand s =
     (case allocate_id c rand (seq s) of
        Some (Inr (_, q)) \<Rightarrow> Inr (s\<lparr>seq := q\<rparr>)
      | Some (Inl f) \<Rightarrow> Inl f
      | None \<Rightarrow> Inl Undefined_behaviour)"

fun sb_step :: "cfg \<Rightarrow> sb_event \<Rightarrow> scoreboard \<Rightarrow> scoreboard outcome" where
  "sb_step c (Clock sig) s = Inr (perf_events_process sig s)"
| "sb_step c (Core_req junk t) s = core_req_step c junk t s"
| "sb_step c (Core_resp r) s = core_resp_step c r s"
| "sb_step c (Mem_read_req q) s = mem_read_req_step c q s"
| "sb_step c (Mem_read_resp r) s = mem_read_resp_step c r s"
| "sb_step c (Mem_write_req q) s = mem_write_req_step c q s"
| "sb_step c (Mem_write_resp r) s = mem_write_resp_step r s"
| "sb_step c (Seq_allocate rand) s = seq_allocate c rand s"

inductive sb_reach :: "cfg \<Rightarrow> scoreboard \<Rightarrow> scoreboard \<Rightarrow> bool" for c s0 where
  start: "sb_reach c s0 s0"
| step: "sb_reach c s0 s \<Longrightarrow> sb_step c ev s = Inr t \<Longrightarrow> sb_reach c s0 t"

end
