(* ===== verification/Scoreboard_Inv.thy ===== *)
theory Scoreboard_Inv
  imports Scoreboard_Mem
begin

text \<open>
  What every step of the scoreboard preserves: the representation of its tables and of its
  RAM, the depth of the FIFO of atomic requests, the count of errors, and the balance
  between requests, responses and inflight entries.
\<close>

section \<open>Reporting and checking\<close>

lemma print_error_Inr:
  "print_error msg s = Inr t \<longleftrightarrow>
     t = s\<lparr>sb_log := sb_log s @ [msg], nb_error := nb_error s + 1\<rparr>
     \<and> (sb_error_limit_m s > 0 \<longrightarrow> nb_error s + 1 < sb_error_limit_m s)"
  by (auto simp: print_error_def Let_def)

text \<open>A state without what the checks of a response change.\<close>

definition core_view :: "scoreboard \<Rightarrow> scoreboard" where
  "core_view s = s\<lparr>ram_m := ram_new '''' 0, nb_error := 0, sb_log := []\<rparr>"

definition below_limit :: "scoreboard \<Rightarrow> bool" where
  "below_limit s \<longleftrightarrow> sb_error_limit_m s > 0 \<longrightarrow> nb_error s < sb_error_limit_m s"

definition ram_kept :: "ram \<Rightarrow> ram \<Rightarrow> bool" where
  "ram_kept r r' \<longleftrightarrow> (wf_ram r \<longrightarrow> wf_ram r') \<and> ram_size r' = ram_size r"

definition checks :: "scoreboard \<Rightarrow> scoreboard \<Rightarrow> bool" where
  "checks s t \<longleftrightarrow> core_view t = core_view s \<and> ram_kept (ram_m s) (ram_m t)
     \<and> (\<exists>msgs. sb_log t = sb_log s @ msgs \<and> nb_error t = nb_error s + length msgs)
     \<and> (below_limit s \<longrightarrow> below_limit t)"

lemma ram_kept_refl [simp]: "ram_kept r r"
  by (simp add: ram_kept_def)

lemma ram_kept_trans: "ram_kept r r' \<Longrightarrow> ram_kept r' r'' \<Longrightarrow> ram_kept r r''"
  by (simp add: ram_kept_def)

lemma checks_refl [simp]: "checks s s"
  by (simp add: checks_def)

lemma checks_trans: "checks s t \<Longrightarrow> checks t u \<Longrightarrow> checks s u"
  unfolding checks_def by (metis append.assoc add.assoc length_append ram_kept_trans)

lemma checks_error: "print_error msg s = Inr t \<Longrightarrow> checks s t"
  by (auto simp: print_error_Inr checks_def core_view_def below_limit_def)

lemma checks_fields:
  assumes "checks s t"
  shows "inflight_m t = inflight_m s" and "inflight_mem_read_m t = inflight_mem_read_m s"
    and "inflight_mem_write_m t = inflight_mem_write_m s" and "seq t = seq s"
    and "inflight_amo_req_m t = inflight_amo_req_m s" and "nb_core_resp t = nb_core_resp s"
    and "nb_core_req_need_rsp t = nb_core_req_need_rsp s"
    and "sb_error_limit_m t = sb_error_limit_m s" and "lrsc_buf_m t = lrsc_buf_m s"
    and "sc_is_atomic t = sc_is_atomic s" and "mem_resp_model t = mem_resp_model s"
    and "nb_error s \<le> nb_error t" and "ram_kept (ram_m s) (ram_m t)"
proof -
  have u: "core_view t = core_view s" using assms by (simp add: checks_def)
  show "inflight_m t = inflight_m s" using arg_cong [OF u, of inflight_m] by (simp add: core_view_def)
  show "inflight_mem_read_m t = inflight_mem_read_m s"
    using arg_cong [OF u, of inflight_mem_read_m] by (simp add: core_view_def)
  show "inflight_mem_write_m t = inflight_mem_write_m s"
    using arg_cong [OF u, of inflight_mem_write_m] by (simp add: core_view_def)
  show "seq t = seq s" using arg_cong [OF u, of seq] by (simp add: core_view_def)
  show "inflight_amo_req_m t = inflight_amo_req_m s"
    using arg_cong [OF u, of inflight_amo_req_m] by (simp add: core_view_def)
  show "nb_core_resp t = nb_core_resp s"
    using arg_cong [OF u, of nb_core_resp] by (simp add: core_view_def)
  show "nb_core_req_need_rsp t = nb_core_req_need_rsp s"
    using arg_cong [OF u, of nb_core_req_need_rsp] by (simp add: core_view_def)
  show "sb_error_limit_m t = sb_error_limit_m s"
    using arg_cong [OF u, of sb_error_limit_m] by (simp add: core_view_def)
  show "lrsc_buf_m t = lrsc_buf_m s" using arg_cong [OF u, of lrsc_buf_m] by (simp add: core_view_def)
  show "sc_is_atomic t = sc_is_atomic s"
    using arg_cong [OF u, of sc_is_atomic] by (simp add: core_view_def)
  show "mem_resp_model t = mem_resp_model s"
    using arg_cong [OF u, of mem_resp_model] by (simp add: core_view_def)
  show "nb_error s \<le> nb_error t" "ram_kept (ram_m s) (ram_m t)"
    using assms by (auto simp: checks_def)
qed

lemma ram_write_kept:
  assumes "ram_write r buf be n a = Inr r'"
  shows "ram_kept r r'"
proof -
  let ?P = "ram_kept r"
  have step: "?P t" if "ram_write_byte buf be off i s = Inr t" "?P s" for off i s t
  proof -
    have "ram_kept s t"
      using that(1)
      by (auto simp: ram_write_byte_def ram_kept_def wf_ram_def split: if_splits)
    with that(2) show ?thesis by (rule ram_kept_trans)
  qed
  show ?thesis
    by (rule fold_ok_inv [where P = ?P, OF assms [unfolded ram_write_def Let_def]])
      (use step in auto)
qed

lemma write_entry_word_checks:
  "write_entry_word c e ws be s = Inr t \<Longrightarrow> checks s t \<and> nb_error t = nb_error s \<and> sb_log t = sb_log s"
  by (auto simp: write_entry_word_def andthen_Inr_iff checks_def core_view_def below_limit_def
      dest: ram_write_kept)

lemma check_sc_checks: "check_sc c e r s = Inr t \<Longrightarrow> checks s t"
  by (auto simp: check_sc_def Let_def andthen_Inr_iff split: if_splits
      dest!: write_entry_word_checks dest: checks_error checks_trans)

lemma check_byte_checks: "check_byte c e rdata i s = Inr t \<Longrightarrow> checks s t"
  by (auto simp: check_byte_def Let_def split: if_splits dest: checks_error)

lemma check_data_checks: "check_data c e rdata s = Inr t \<Longrightarrow> checks s t"
  unfolding check_data_def
  by (erule fold_ok_inv [where P = "checks s"]) (auto dest: check_byte_checks checks_trans)

lemma update_amo_checks: "update_amo c e r s = Inr t \<Longrightarrow> checks s t"
  by (auto simp: update_amo_def Let_def andthen_Inr_iff split: if_splits
      dest!: write_entry_word_checks)

lemma check_response_checks:
  assumes "check_response c e r s = Inr t"
  shows "checks s t"
proof (cases "e_is_error e")
  case True
  then show ?thesis using assms by (simp add: check_response_def)
next
  case False
  then obtain s1 where s1: "check_sc c e r s = Inr s1"
    and rest: "(if e_is_read e \<or> e_is_amo e \<or> e_is_amo_lr e then
               andthen (check_data c e (bytes_of_words (map (rsp_word c r) [0..<CORE_REQ_WORDS c])) s1)
                 (update_amo c e r)
             else Inr s1) = Inr t"
    using assms by (auto simp: check_response_def andthen_Inr_iff)
  have "checks s1 t"
  proof (cases "e_is_read e \<or> e_is_amo e \<or> e_is_amo_lr e")
    case True
    then show ?thesis
      using rest by (auto simp: andthen_Inr_iff dest!: check_data_checks update_amo_checks
          intro: checks_trans)
  next
    case False
    then show ?thesis using rest by simp
  qed
  with check_sc_checks [OF s1] show ?thesis by (rule checks_trans)
qed

section \<open>What a core request changes\<close>

lemma reservation_frame:
  assumes "lrsc_invalidation c t e (lr_reservation t e s) = (e', s')"
  shows "s' = s\<lparr>lrsc_buf_m := lrsc_buf_m s'\<rparr>" and "e_tid e' = e_tid e"
    and "e_need_rsp e' = e_need_rsp e"
  using assms
  by (auto simp: lrsc_invalidation_def lr_reservation_def Let_def split: if_splits)

lemma read_expected_frame:
  assumes "read_expected c t s e = Inr e'"
  shows "e_tid e' = e_tid e" and "e_need_rsp e' = e_need_rsp e"
  using assms by (auto simp: read_expected_def andthen_Inr_iff split: if_splits prod.splits)

lemma new_entry_frame:
  "e_tid (mark_error t s (make_entry c junk t s)) = req_tid t"
  "e_need_rsp (mark_error t s (make_entry c junk t s)) = req_need_rsp t"
  by (simp_all add: mark_error_def make_entry_def Let_def split: option.split)

lemma store_ram_frame:
  "store_ram c t e s = Inr s' \<Longrightarrow> \<exists>m. s' = s\<lparr>ram_m := m\<rparr> \<and> ram_kept (ram_m s) m"
  by (cases "is_store t \<and> \<not> e_is_error e")
    (auto simp: store_ram_def andthen_Inr_iff dest: ram_write_kept intro: exI [of _ "ram_m s"])

lemma count_core_req_amo: "inflight_amo_req_m (count_core_req t s) = inflight_amo_req_m s"
  by (simp add: count_core_req_def)

text \<open>The four ways in which the round of a core request ends.\<close>

lemma core_req_step_cases:
  assumes "core_req_step c junk t s = Inr u"
  obtains (duplicate) msg where "print_error msg (count_core_req t s) = Inr u"
  | (cmo) "sm_find (inflight_m s) (req_tid t) = None" "\<not> req_need_rsp t"
      "u = release_id (req_tid t) (count_core_req t s)"
  | (full) msg b where "print_error msg (count_core_req t s\<lparr>lrsc_buf_m := b\<rparr>) = Inr u"
  | (tracked) e b q m where "sm_find (inflight_m s) (req_tid t) = None"
      "e_tid e = req_tid t" "e_need_rsp e = req_need_rsp t" "ram_kept (ram_m s) m"
      "length (inflight_amo_req_m s) \<le> SC_FIFO_DEPTH \<longrightarrow> length q \<le> SC_FIFO_DEPTH"
      "u = track_request t e
             (count_core_req t s\<lparr>lrsc_buf_m := b, inflight_amo_req_m := q, ram_m := m\<rparr>)"
proof -
  let ?s = "count_core_req t s"
  have tab: "inflight_m ?s = inflight_m s" by (simp add: count_core_req_def)
  consider "sm_find (inflight_m s) (req_tid t) \<noteq> None"
    | "is_cmo t \<and> \<not> req_need_rsp t" "sm_find (inflight_m s) (req_tid t) = None"
    | "\<not> (is_cmo t \<and> \<not> req_need_rsp t)" "sm_find (inflight_m s) (req_tid t) = None"
    by blast
  then show thesis
  proof cases
    case 1
    then show thesis
      using assms by (intro duplicate) (auto simp: core_req_step_def Let_def tab)
  next
    case 2
    then show thesis
      using assms by (intro cmo) (auto simp: core_req_step_def Let_def tab)
  next
    case 3
    then obtain e where e: "read_expected c t ?s (mark_error t ?s (make_entry c junk t ?s)) = Inr e"
      and rest: "(let (e, s) = lrsc_invalidation c t e (lr_reservation t e ?s)
                  in dispatch_request c t e s) = Inr u"
      using assms by (auto simp: core_req_step_def Let_def tab andthen_Inr_iff)
    obtain e' s' where inv: "lrsc_invalidation c t e (lr_reservation t e ?s) = (e', s')"
      by fastforce
    note fr = reservation_frame [OF inv]
    have id: "e_tid e' = req_tid t" "e_need_rsp e' = req_need_rsp t"
      using fr(2,3) read_expected_frame [OF e] new_entry_frame by simp_all
    define b where "b = lrsc_buf_m s'"
    have s': "s' = ?s\<lparr>lrsc_buf_m := b\<rparr>" using fr(1) by (simp add: b_def)
    have d: "dispatch_request c t e' (?s\<lparr>lrsc_buf_m := b\<rparr>) = Inr u"
      using rest inv s' by simp
    show thesis
    proof (cases "forwards_atomic t e' \<and> \<not> length (inflight_amo_req_m s) < SC_FIFO_DEPTH")
      case True
      then have "print_error ''inflight AMO request fifo is full'' (?s\<lparr>lrsc_buf_m := b\<rparr>) = Inr u"
        using d by (simp add: dispatch_request_def count_core_req_def)
      then show thesis by (rule full)
    next
      case False
      define q where "q = (if forwards_atomic t e' then inflight_amo_req_m s @ [e']
                           else inflight_amo_req_m s)"
      have q: "length (inflight_amo_req_m s) \<le> SC_FIFO_DEPTH \<longrightarrow> length q \<le> SC_FIFO_DEPTH"
        using False by (auto simp: q_def)
      have "andthen (store_ram c t e' (?s\<lparr>lrsc_buf_m := b, inflight_amo_req_m := q\<rparr>))
          (\<lambda>s. Inr (track_request t e' s)) = Inr u"
      proof (cases "forwards_atomic t e'")
        case True
        then show ?thesis
          using d False by (simp add: dispatch_request_def Let_def count_core_req_amo q_def)
      next
        case nf: False
        then have "?s\<lparr>lrsc_buf_m := b, inflight_amo_req_m := q\<rparr> = ?s\<lparr>lrsc_buf_m := b\<rparr>"
          by (simp add: q_def count_core_req_def)
        then show ?thesis using d nf by (simp add: dispatch_request_def)
      qed
      then obtain s2 where s2: "store_ram c t e' (?s\<lparr>lrsc_buf_m := b, inflight_amo_req_m := q\<rparr>) = Inr s2"
        and u: "u = track_request t e' s2"
        by (auto simp: andthen_Inr_iff)
      obtain m where m: "s2 = ?s\<lparr>lrsc_buf_m := b, inflight_amo_req_m := q\<rparr>\<lparr>ram_m := m\<rparr>"
        and k: "ram_kept (ram_m (?s\<lparr>lrsc_buf_m := b, inflight_amo_req_m := q\<rparr>)) m"
        using store_ram_frame [OF s2] by blast
      show thesis
        by (rule tracked [OF 3(2) id _ q, of m b])
          (use m k u in \<open>simp_all add: count_core_req_def\<close>)
    qed
  qed
qed

section \<open>The invariant\<close>

definition balanced :: "scoreboard \<Rightarrow> bool" where
  "balanced s \<longleftrightarrow> (nb_error s = 0 \<longrightarrow>
     nb_core_req_need_rsp s = nb_core_resp s + of_nat (length (inflight_m s)))"

definition entries_ok :: "inflight_entry std_map \<Rightarrow> bool" where
  "entries_ok m \<longleftrightarrow> sm_wf m \<and> (\<forall>k e. sm_find m k = Some e \<longrightarrow> e_tid e = k \<and> e_need_rsp e)"

definition sb_inv :: "scoreboard \<Rightarrow> bool" where
  "sb_inv s \<longleftrightarrow> entries_ok (inflight_m s)
     \<and> sm_wf (inflight_mem_read_m s) \<and> sm_wf (inflight_mem_write_m s)
     \<and> wf_ram (ram_m s) \<and> ram_size (ram_m s) = SCOREBOARD_RAM_SIZE
     \<and> length (inflight_amo_req_m s) \<le> SC_FIFO_DEPTH
     \<and> nb_error s = length (sb_log s) \<and> below_limit s \<and> balanced s"

lemma entries_ok_insert:
  assumes "entries_ok m" and "sm_find m k = None" and "e_tid e = k" and "e_need_rsp e"
  shows "entries_ok (sm_insert k e m)"
  using assms by (auto simp: entries_ok_def sm_wf_insert sm.find_insert)

lemma entries_ok_erase: "entries_ok m \<Longrightarrow> entries_ok (sm_erase k m)"
  by (auto simp: entries_ok_def sm_wf_erase sm.find_erase)

lemma sb_inv_error:
  assumes "sb_inv (s\<lparr>nb_core_req_need_rsp := n, nb_core_resp := r\<rparr>)" and "print_error msg s = Inr t"
  shows "sb_inv t"
  using assms by (auto simp: sb_inv_def print_error_Inr balanced_def below_limit_def)

lemma sb_inv_new: "sb_inv (scoreboard_new lrsc sq)"
  by (simp add: sb_inv_def scoreboard_new_def balanced_def below_limit_def entries_ok_def wf_ram_new
      SCOREBOARD_RAM_SIZE_def push_bit_eq_mult ram_new_def wf_ram_def)

lemma sb_inv_core_req:
  assumes inv: "sb_inv s" and step: "core_req_step c junk t s = Inr u"
  shows "sb_inv u"
  using step
proof (cases rule: core_req_step_cases)
  case (duplicate msg)
  have "sb_inv (count_core_req t s\<lparr>nb_core_req_need_rsp := nb_core_req_need_rsp s,
      nb_core_resp := nb_core_resp s\<rparr>)"
    using inv by (auto simp: sb_inv_def count_core_req_def balanced_def below_limit_def)
  then show ?thesis using duplicate by (rule sb_inv_error)
next
  case cmo
  then show ?thesis
    using inv by (auto simp: sb_inv_def count_core_req_def balanced_def below_limit_def release_id_def)
next
  case (full msg b)
  have "sb_inv (count_core_req t s\<lparr>lrsc_buf_m := b\<rparr>\<lparr>nb_core_req_need_rsp := nb_core_req_need_rsp s,
      nb_core_resp := nb_core_resp s\<rparr>)"
    using inv by (auto simp: sb_inv_def count_core_req_def balanced_def below_limit_def)
  then show ?thesis using full by (rule sb_inv_error)
next
  case (tracked e b q m)
  show ?thesis
  proof (cases "req_need_rsp t")
    case True
    have "entries_ok (sm_insert (req_tid t) e (inflight_m s))"
      using inv tracked True by (intro entries_ok_insert) (simp_all add: sb_inv_def)
    then show ?thesis
      using inv tracked True
      by (auto simp: sb_inv_def count_core_req_def balanced_def below_limit_def track_request_def
          ram_kept_def length_sm_insert)
  next
    case False
    then show ?thesis
      using inv tracked
      by (auto simp: sb_inv_def count_core_req_def balanced_def below_limit_def track_request_def
          ram_kept_def release_id_def)
  qed
qed

lemma sb_inv_core_resp:
  assumes inv: "sb_inv s" and step: "core_resp_step c r s = Inr u"
  shows "sb_inv u"
proof -
  let ?s = "s\<lparr>nb_core_resp := nb_core_resp s + 1, nb_cycles_effective := nb_cycles s\<rparr>"
  have err: "sb_inv u" if "print_error msg ?s = Inr u" for msg
    using inv that by (auto simp: sb_inv_def print_error_Inr balanced_def below_limit_def)
  show ?thesis
  proof (cases "sm_find (inflight_m s) (rsp_tid r)")
    case None
    then show ?thesis using step err by (simp add: core_resp_step_def)
  next
    case (Some e)
    show ?thesis
    proof (cases "\<not> e_is_write e \<and> rsp_error r \<noteq> e_is_error e")
      case True
      then show ?thesis using step err Some by (simp add: core_resp_step_def)
    next
      case False
      then obtain v where v: "check_response c e r ?s = Inr v" and u: "u = retire_request (rsp_tid r) v"
        using step Some by (auto simp: core_resp_step_def andthen_Inr_iff)
      note ck = check_response_checks [OF v]
      note f = checks_fields [OF ck, simplified]
      have len: "Suc (length (sm_erase (rsp_tid r) (inflight_m s))) = length (inflight_m s)"
        using inv Some by (intro length_sm_erase) (auto simp: sb_inv_def entries_ok_def)
      have log: "nb_error v = length (sb_log v)" and lim: "below_limit v"
        using ck inv by (auto simp: checks_def sb_inv_def below_limit_def)
      have "balanced u"
        using inv f by (auto simp: sb_inv_def balanced_def u retire_request_def release_id_def
            simp flip: len)
      then show ?thesis
        using inv f log lim
        by (auto simp: sb_inv_def u retire_request_def release_id_def entries_ok_erase ram_kept_def
            below_limit_def)
    qed
  qed
qed

section \<open>The memory interface\<close>

text \<open>The memory threads change neither the core table nor what it is balanced against.\<close>

definition mem_side :: "scoreboard \<Rightarrow> scoreboard \<Rightarrow> bool" where
  "mem_side s t \<longleftrightarrow>
     inflight_m t = inflight_m s \<and> seq t = seq s \<and> nb_core_resp t = nb_core_resp s
     \<and> nb_core_req_need_rsp t = nb_core_req_need_rsp s
     \<and> sb_error_limit_m t = sb_error_limit_m s \<and> ram_kept (ram_m s) (ram_m t)
     \<and> length (inflight_amo_req_m t) \<le> length (inflight_amo_req_m s)
     \<and> (sm_wf (inflight_mem_read_m s) \<longrightarrow> sm_wf (inflight_mem_read_m t))
     \<and> (sm_wf (inflight_mem_write_m s) \<longrightarrow> sm_wf (inflight_mem_write_m t))
     \<and> (\<exists>msgs. sb_log t = sb_log s @ msgs \<and> nb_error t = nb_error s + length msgs)
     \<and> (below_limit s \<longrightarrow> below_limit t)"

lemma mem_side_trans: "mem_side s t \<Longrightarrow> mem_side t u \<Longrightarrow> mem_side s u"
  unfolding mem_side_def by (clarsimp simp: ram_kept_def)

lemma mem_side_error: "print_error msg s = Inr t \<Longrightarrow> mem_side s t"
  by (auto simp: print_error_Inr mem_side_def below_limit_def)

lemma mem_side_refl [simp]: "mem_side s s"
  by (simp add: mem_side_def)

lemma mem_side_counters:
  "mem_side s (s\<lparr>nb_mem_read_req := n\<rparr>)" "mem_side s (s\<lparr>nb_mem_write_req := n\<rparr>)"
  "mem_side s (s\<lparr>nb_mem_read_resp := n\<rparr>)" "mem_side s (s\<lparr>nb_mem_write_resp := n\<rparr>)"
  by (simp_all add: mem_side_def below_limit_def)

lemma mem_side_tables:
  "mem_side s (s\<lparr>inflight_mem_read_m := sm_insert k e (inflight_mem_read_m s)\<rparr>)"
  "mem_side s (s\<lparr>inflight_mem_write_m := sm_insert k e (inflight_mem_write_m s)\<rparr>)"
  "mem_side s (s\<lparr>inflight_mem_read_m := sm_erase k (inflight_mem_read_m s)\<rparr>)"
  "mem_side s (s\<lparr>sc_is_atomic := b, inflight_mem_write_m := sm_erase k (inflight_mem_write_m s)\<rparr>)"
  by (simp_all add: mem_side_def below_limit_def sm_wf_insert sm_wf_erase)

lemma sb_inv_mem_side:
  assumes "sb_inv s" and "mem_side s t"
  shows "sb_inv t"
  using assms by (auto simp: sb_inv_def mem_side_def balanced_def ram_kept_def)

lemma take_amo_side:
  assumes "take_amo msg s = Inr (r, t)"
  shows "mem_side s t"
proof -
  obtain s1 where s1: "(if length (inflight_amo_req_m s) > 1 then
          print_error ''there shall be a single inflight atomic operation'' s else Inr s) = Inr s1"
    and rest: "(case inflight_amo_req_m s1 of
              [] \<Rightarrow> andthen (print_error msg s1) (\<lambda>s. Inr (None, s))
            | e # es \<Rightarrow> Inr (Some e, s1\<lparr>inflight_amo_req_m := es\<rparr>)) = Inr (r, t)"
    using assms by (auto simp only: take_amo_def andthen_Inr_iff)
  have "mem_side s s1" using s1 by (auto split: if_splits dest: mem_side_error)
  moreover have "mem_side s1 t"
  proof (cases "inflight_amo_req_m s1")
    case Nil
    then show ?thesis using rest by (auto simp: andthen_Inr_iff dest: mem_side_error)
  next
    case (Cons e es)
    then show ?thesis using rest by (auto simp: mem_side_def below_limit_def)
  qed
  ultimately show ?thesis by (rule mem_side_trans)
qed

lemma mem_read_req_side:
  assumes "mem_read_req_step c req s = Inr t"
  shows "mem_side s t"
proof -
  let ?s = "s\<lparr>nb_mem_read_req := nb_mem_read_req s + 1\<rparr>"
  have "mem_side ?s t"
  proof (cases "sm_find (inflight_mem_read_m s) (unat (mr_id req))")
    case (Some e)
    then show ?thesis using assms by (auto simp: mem_read_req_step_def intro: mem_side_error)
  next
    case None
    then obtain e where e: "(if mr_is_ldex req then
          andthen (take_amo ''unexpected load-exclusive request''
            (?s\<lparr>inflight_mem_read_m := sm_insert (unat (mr_id req)) e (inflight_mem_read_m ?s)\<rparr>))
            (\<lambda>(_, s). Inr s)
        else Inr (?s\<lparr>inflight_mem_read_m := sm_insert (unat (mr_id req)) e (inflight_mem_read_m ?s)\<rparr>))
        = Inr t"
      using assms
      by (auto simp: mem_read_req_step_def andthen_Inr_iff Let_def cong: if_cong simp del: if_split)
    note ins = mem_side_tables(1) [of ?s "unat (mr_id req)" e]
    show ?thesis
    proof (cases "mr_is_ldex req")
      case True
      then obtain r where "take_amo ''unexpected load-exclusive request''
            (?s\<lparr>inflight_mem_read_m := sm_insert (unat (mr_id req)) e (inflight_mem_read_m ?s)\<rparr>)
          = Inr (r, t)"
        using e by (auto simp only: andthen_Inr_iff if_True split: prod.splits)
      then show ?thesis by (rule mem_side_trans [OF ins take_amo_side])
    next
      case False
      then show ?thesis using e ins by (simp only: if_False sum.inject)
    qed
  qed
  with mem_side_counters(1) show ?thesis by (rule mem_side_trans)
qed

lemma mem_amo_request_side:
  assumes "mem_amo_request req e s = Inr (b, t)"
  shows "mem_side s t"
proof (cases "mr_is_amo req")
  case False
  then show ?thesis using assms by (simp add: mem_amo_request_def)
next
  case True
  then obtain r s1 where s1: "take_amo ''unexpected AMO request'' s = Inr (r, s1)"
    and rest: "(case r of None \<Rightarrow> Inr (False, s1)
        | Some _ \<Rightarrow> andthen (if me_core_req e = None then
                    print_error ''memory AMO request with no associated core request'' s1
                  else Inr s1)
                 (\<lambda>s. Inr (True, s\<lparr>inflight_mem_read_m :=
                        sm_insert (unat (mr_id req)) e (inflight_mem_read_m s)\<rparr>))) = Inr (b, t)"
    using assms by (auto simp: mem_amo_request_def andthen_Inr_iff)
  have "mem_side s1 t"
  proof (cases r)
    case None
    then show ?thesis using rest by simp
  next
    case (Some i)
    then obtain s2 where s2: "(if me_core_req e = None then
                    print_error ''memory AMO request with no associated core request'' s1
                  else Inr s1) = Inr s2"
      and t: "t = s2\<lparr>inflight_mem_read_m := sm_insert (unat (mr_id req)) e (inflight_mem_read_m s2)\<rparr>"
      using rest by (auto simp only: andthen_Inr_iff option.simps prod.inject sum.inject)
    have "mem_side s1 s2" using s2 by (auto split: if_splits dest: mem_side_error)
    then show ?thesis unfolding t by (rule mem_side_trans) (rule mem_side_tables)
  qed
  with take_amo_side [OF s1] show ?thesis by (rule mem_side_trans)
qed

lemma mem_stex_request_side:
  assumes "mem_stex_request req e s = Inr t"
  shows "mem_side s t"
proof (cases "mr_is_stex req")
  case False
  then show ?thesis using assms by (simp add: mem_stex_request_def)
next
  case True
  then obtain r s1 where s1: "take_amo ''unexpected store-exclusive request'' s = Inr (r, s1)"
    and rest: "(case r of None \<Rightarrow> Inr s1
         | Some inflight_ret \<Rightarrow>
               if \<not> e_is_atomic inflight_ret then
                 print_error ''store exclusive access with no valid reservation'' s1
               else if me_core_req e = None then
                 print_error ''memory store-conditional request with no associated core request'' s1
               else Inr s1) = Inr t"
    using assms by (auto simp: mem_stex_request_def andthen_Inr_iff)
  have "mem_side s1 t"
    using rest by (cases r) (auto split: if_splits dest: mem_side_error)
  with take_amo_side [OF s1] show ?thesis by (rule mem_side_trans)
qed

lemma mem_write_req_side:
  assumes "mem_write_req_step c req s = Inr t"
  shows "mem_side s t"
proof -
  let ?s = "s\<lparr>nb_mem_write_req := nb_mem_write_req s + 1\<rparr>"
  have "mem_side ?s t"
  proof (cases "sm_find (inflight_mem_write_m s) (unat (mr_id req))")
    case (Some e)
    then show ?thesis using assms by (auto simp: mem_write_req_step_def intro: mem_side_error)
  next
    case None
    then obtain e b s1 where s1: "mem_amo_request req e
          (?s\<lparr>inflight_mem_write_m := sm_insert (unat (mr_id req)) e (inflight_mem_write_m ?s)\<rparr>)
        = Inr (b, s1)"
      and rest: "(if b then mem_stex_request req e s1 else Inr s1) = Inr t"
      using assms by (auto simp: mem_write_req_step_def andthen_Inr_iff Let_def simp del: if_split)
    have "mem_side s1 t" using rest by (cases b) (auto dest: mem_stex_request_side)
    with mem_side_trans [OF mem_side_tables(2) mem_amo_request_side [OF s1]]
    show ?thesis by (rule mem_side_trans)
  qed
  with mem_side_counters(2) show ?thesis by (rule mem_side_trans)
qed

lemma mem_read_resp_side:
  assumes "mem_read_resp_step c r s = Inr t"
  shows "mem_side s t"
proof -
  let ?s = "s\<lparr>nb_mem_read_resp := nb_mem_read_resp s + 1\<rparr>"
  have "mem_side ?s t"
  proof (cases "sm_find (inflight_mem_read_m s) (unat (rr_id r))")
    case None
    then show ?thesis using assms by (auto simp: mem_read_resp_step_def intro: mem_side_error)
  next
    case (Some e)
    then obtain s1 where s1: "(if rr_error r = 0 then
                  andthen (learn_refill c e r (ram_m ?s)) (\<lambda>m. Inr (?s\<lparr>ram_m := m\<rparr>))
                else Inr ?s) = Inr s1"
      and t: "t = (if rr_last r then
            s1\<lparr>inflight_mem_read_m := sm_erase (unat (rr_id r)) (inflight_mem_read_m s1)\<rparr> else s1)"
      using assms by (auto simp: mem_read_resp_step_def andthen_Inr_iff Let_def simp del: if_split)
    have "mem_side ?s s1"
    proof (cases "rr_error r = 0")
      case True
      then obtain m where m: "learn_refill c e r (ram_m s) = Inr m" and "s1 = ?s\<lparr>ram_m := m\<rparr>"
        using s1 by (auto simp: andthen_Inr_iff)
      moreover have "ram_kept (ram_m s) m"
        using m by (auto simp: learn_refill_def Let_def andthen_Inr_iff split: if_splits
            dest: ram_write_kept)
      ultimately show ?thesis by (simp add: mem_side_def below_limit_def)
    next
      case False
      then show ?thesis using s1 by simp
    qed
    then show ?thesis
      using mem_side_trans [OF _ mem_side_tables(3)] by (cases "rr_last r") (auto simp: t)
  qed
  with mem_side_counters(3) show ?thesis by (rule mem_side_trans)
qed

lemma mem_write_resp_side:
  assumes "mem_write_resp_step r s = Inr t"
  shows "mem_side s t"
proof -
  let ?s = "s\<lparr>nb_mem_write_resp := nb_mem_write_resp s + 1\<rparr>"
  have "mem_side ?s t"
  proof (cases "sm_find (inflight_mem_write_m s) (unat (wr_id r))")
    case None
    then show ?thesis using assms by (auto simp: mem_write_resp_step_def intro: mem_side_error)
  next
    case (Some e)
    then have "t = ?s\<lparr>sc_is_atomic := wr_is_atomic r,
        inflight_mem_write_m := sm_erase (unat (wr_id r)) (inflight_mem_write_m ?s)\<rparr>"
      using assms by (simp add: mem_write_resp_step_def Let_def)
    then show ?thesis by (simp only: mem_side_tables(4))
  qed
  with mem_side_counters(4) show ?thesis by (rule mem_side_trans)
qed

section \<open>All steps\<close>

lemma sb_inv_clock: "sb_inv s \<Longrightarrow> sb_inv (perf_events_process sig s)"
  by (auto simp: sb_inv_def perf_events_process_def Let_def balanced_def below_limit_def)

lemma sb_inv_seq: "sb_inv s \<Longrightarrow> sb_inv (s\<lparr>seq := q\<rparr>)"
  by (auto simp: sb_inv_def balanced_def below_limit_def)

lemma sb_inv_allocate:
  assumes "sb_inv s" and "seq_allocate c rand s = Inr t"
  shows "sb_inv t"
  using assms by (auto simp: seq_allocate_def sb_inv_seq split: option.splits sum.splits)

lemmas mem_steps_side =
  mem_read_req_side mem_write_req_side mem_read_resp_side mem_write_resp_side

lemma sb_inv_step:
  assumes "sb_inv s" and "sb_step c ev s = Inr t"
  shows "sb_inv t"
  using assms
  by (cases ev)
    (auto intro: sb_inv_clock sb_inv_core_req sb_inv_core_resp sb_inv_allocate sb_inv_mem_side
      dest: mem_steps_side)

lemma sb_inv_reach: "sb_reach c s0 s \<Longrightarrow> sb_inv s0 \<Longrightarrow> sb_inv s"
  by (induction rule: sb_reach.induct) (auto intro: sb_inv_step)

lemma core_resp_limit:
  assumes "core_resp_step c r s = Inr u"
  shows "sb_error_limit_m u = sb_error_limit_m s"
proof -
  let ?s = "s\<lparr>nb_core_resp := nb_core_resp s + 1, nb_cycles_effective := nb_cycles s\<rparr>"
  consider msg where "print_error msg ?s = Inr u"
    | v where "checks ?s v" "u = retire_request (rsp_tid r) v"
    using assms
    by (auto simp: core_resp_step_def Let_def andthen_Inr_iff split: option.splits if_splits
        dest: check_response_checks)
  then show ?thesis
    by cases (auto simp: print_error_Inr retire_request_def release_id_def checks_fields(8))
qed

lemma core_req_limit:
  assumes "core_req_step c junk t s = Inr u"
  shows "sb_error_limit_m u = sb_error_limit_m s"
  using assms
  by (cases rule: core_req_step_cases)
    (auto simp: print_error_Inr count_core_req_def track_request_def release_id_def)

text \<open>No step changes the limit on the errors.\<close>

lemma sb_step_limit:
  assumes "sb_step c ev s = Inr t"
  shows "sb_error_limit_m t = sb_error_limit_m s"
proof -
  have side: "mem_side s t \<Longrightarrow> ?thesis" by (simp add: mem_side_def)
  show ?thesis
  proof (cases ev)
    case (Clock sig)
    then show ?thesis using assms by (auto simp: perf_events_process_def Let_def)
  next
    case (Core_req junk q)
    then show ?thesis using assms core_req_limit by simp
  next
    case (Core_resp r)
    then show ?thesis using assms core_resp_limit by simp
  next
    case (Seq_allocate rand)
    then show ?thesis
      using assms by (auto simp: seq_allocate_def split: option.splits sum.splits)
  qed (use assms side mem_steps_side in auto)
qed

lemma sb_reach_limit: "sb_reach c s0 s \<Longrightarrow> sb_error_limit_m s = sb_error_limit_m s0"
  by (induction rule: sb_reach.induct) (simp_all add: sb_step_limit)

section \<open>Identifiers\<close>

text \<open>
  A run in which the driver only sends transactions whose identifier the sequence has
  allocated and not yet got back.
\<close>

fun sent_ok :: "sb_event \<Rightarrow> scoreboard \<Rightarrow> bool" where
  "sent_ok (Core_req junk t) s \<longleftrightarrow> req_tid t \<in> set (ids (seq s))"
| "sent_ok _ s \<longleftrightarrow> True"

inductive sb_run :: "cfg \<Rightarrow> scoreboard \<Rightarrow> scoreboard \<Rightarrow> bool" for c s0 where
  start: "sb_run c s0 s0"
| step: "sb_run c s0 s \<Longrightarrow> sent_ok ev s \<Longrightarrow> sb_step c ev s = Inr t \<Longrightarrow> sb_run c s0 t"

lemma sb_run_reach: "sb_run c s0 s \<Longrightarrow> sb_reach c s0 s"
  by (induction rule: sb_run.induct) (auto intro: sb_reach.intros)

definition ids_ok :: "cfg \<Rightarrow> scoreboard \<Rightarrow> bool" where
  "ids_ok c s \<longleftrightarrow> wf_ids c (seq s) \<and> dom (sm_find (inflight_m s)) \<subseteq> set (ids (seq s))"

lemma ids_release:
  assumes "wf_ids c (seq s)" and "dom (sm_find (inflight_m s)) \<subseteq> set (ids (seq s)) - {k}"
  shows "ids_ok c (release_id k s)"
  using assms by (auto simp: ids_ok_def release_id_def deallocate_id_def wf_ids_def
      dest: set_remove1_subset [THEN subsetD])

lemma ids_ok_same:
  "ids_ok c s \<Longrightarrow> inflight_m t = inflight_m s \<Longrightarrow> seq t = seq s \<Longrightarrow> ids_ok c t"
  by (simp add: ids_ok_def)

lemma ids_core_req:
  assumes ok: "ids_ok c s" and wf: "sm_wf (inflight_m s)" and sent: "req_tid t \<in> set (ids (seq s))"
    and step: "core_req_step c junk t s = Inr u"
  shows "ids_ok c u"
  using step
proof (cases rule: core_req_step_cases)
  case (duplicate msg)
  then show ?thesis
    by (intro ids_ok_same [OF ok]) (auto simp: print_error_Inr count_core_req_def)
next
  case cmo
  then show ?thesis
    using ok by (simp, intro ids_release) (auto simp: ids_ok_def count_core_req_def)
next
  case (full msg b)
  then show ?thesis
    by (intro ids_ok_same [OF ok]) (auto simp: print_error_Inr count_core_req_def)
next
  case (tracked e b q m)
  show ?thesis
  proof (cases "req_need_rsp t")
    case True
    then show ?thesis
      using ok tracked sent sm.dom_insert [OF wf tracked(1), of e]
      by (simp add: ids_ok_def track_request_def count_core_req_def)
  next
    case False
    then show ?thesis
      using ok tracked by (simp add: track_request_def, intro ids_release)
        (auto simp: ids_ok_def count_core_req_def)
  qed
qed

lemma ids_core_resp:
  assumes ok: "ids_ok c s" and wf: "sm_wf (inflight_m s)" and step: "core_resp_step c r s = Inr u"
  shows "ids_ok c u"
proof -
  let ?s = "s\<lparr>nb_core_resp := nb_core_resp s + 1, nb_cycles_effective := nb_cycles s\<rparr>"
  have err: "ids_ok c u" if "print_error msg ?s = Inr u" for msg
    using that by (intro ids_ok_same [OF ok]) (auto simp: print_error_Inr)
  show ?thesis
  proof (cases "sm_find (inflight_m s) (rsp_tid r)")
    case None
    then show ?thesis using step err by (simp add: core_resp_step_def)
  next
    case (Some e)
    show ?thesis
    proof (cases "\<not> e_is_write e \<and> rsp_error r \<noteq> e_is_error e")
      case True
      then show ?thesis using step err Some by (simp add: core_resp_step_def)
    next
      case False
      then obtain v where v: "check_response c e r ?s = Inr v" and u: "u = retire_request (rsp_tid r) v"
        using step Some by (auto simp: core_resp_step_def andthen_Inr_iff)
      note f = checks_fields [OF check_response_checks [OF v], simplified]
      show ?thesis
        unfolding u retire_request_def
        by (rule ids_release) (use ok f wf in \<open>auto simp: ids_ok_def sm.dom_erase\<close>)
    qed
  qed
qed

lemma ids_allocate:
  assumes "ids_ok c s" and "seq_allocate c rand s = Inr t"
  shows "\<exists>i. ids (seq t) = ids (seq s) @ [i] \<and> i \<notin> set (ids (seq s))
     \<and> inflight_m t = inflight_m s \<and> ids_ok c t"
proof -
  obtain i q where a: "allocate_id c rand (seq s) = Some (Inr (i, q))" and t: "t = s\<lparr>seq := q\<rparr>"
    using assms(2) by (auto simp: seq_allocate_def split: option.splits sum.splits)
  have "i \<notin> set (ids (seq s)) \<and> wf_ids c q \<and> ids q = ids (seq s) @ [i]"
    using allocate_id_spec [of c "seq s" rand] assms(1) a
    by (auto simp: ids_ok_def split: if_splits)
  then show ?thesis using assms(1) t by (auto simp: ids_ok_def)
qed

lemma ids_step:
  assumes "ids_ok c s" and "sb_inv s" and "sent_ok ev s" and "sb_step c ev s = Inr t"
  shows "ids_ok c t"
proof -
  have wf: "sm_wf (inflight_m s)" using assms(2) by (simp add: sb_inv_def entries_ok_def)
  have side: "mem_side s t \<Longrightarrow> ids_ok c t"
    using assms(1) by (auto simp: mem_side_def ids_ok_def)
  show ?thesis
  proof (cases ev)
    case (Clock sig)
    then show ?thesis
      using assms(4) by (intro ids_ok_same [OF assms(1)]) (auto simp: perf_events_process_def Let_def)
  next
    case (Core_req junk t)
    then show ?thesis using ids_core_req [OF assms(1) wf] assms(3,4) by simp
  next
    case (Core_resp r)
    then show ?thesis using ids_core_resp [OF assms(1) wf] assms(4) by simp
  next
    case (Seq_allocate rand)
    then show ?thesis using ids_allocate [OF assms(1)] assms(4) by auto
  qed (use assms(4) side mem_steps_side in auto)
qed

lemma ids_run: "sb_run c s0 s \<Longrightarrow> ids_ok c s0 \<Longrightarrow> sb_inv s0 \<Longrightarrow> ids_ok c s \<and> sb_inv s"
  by (induction rule: sb_run.induct) (auto intro: ids_step sb_inv_step)

section \<open>Properties\<close>

text \<open>The scoreboard as the testbench sets it up.\<close>

definition sb_init ::
  "lrsc_reservation_buf \<Rightarrow> seq_state \<Rightarrow> segment list option \<Rightarrow> nat \<Rightarrow> scoreboard" where
  "sb_init lrsc sq segs n = set_error_limit n (set_mem_resp_model segs (scoreboard_new lrsc sq))"

lemma sb_inv_init: "sb_inv (sb_init lrsc sq segs n)"
  using sb_inv_new [of lrsc sq]
  by (auto simp: sb_init_def set_error_limit_def set_mem_resp_model_def sb_inv_def balanced_def
      below_limit_def scoreboard_new_def)

lemma init_fields:
  "inflight_m (sb_init lrsc sq segs n) = []" "seq (sb_init lrsc sq segs n) = sq"
  "nb_error (sb_init lrsc sq segs n) = 0"
  by (simp_all add: sb_init_def set_error_limit_def set_mem_resp_model_def scoreboard_new_def)

text \<open>A fence that waits for its response, the request of the examples.\<close>

definition ex_sq :: seq_state where "ex_sq = seq_new ''seq''\<lparr>ids := [3]\<rparr>"
definition ex_sb :: scoreboard where "ex_sb = sb_init \<lparr>rs_valid = False, rs_base_addr = 0,
   rs_end_addr = 0, rs_is_atomic = False\<rparr> ex_sq (Some []) 0"
definition ex_junk :: inflight_entry where
  "ex_junk = \<lparr>e_time = 0, e_tid = 0, e_addr = 0, e_need_rsp = False, e_hit = False, e_is_read = False,
     e_is_write = False, e_is_amo = False, e_is_amo_sc = False, e_is_amo_lr = False,
     e_is_atomic = False, e_is_error = False, e_op = 0, e_is_uncacheable = False, e_bytes = 0,
     e_wdata = [0], e_be = [0], e_rdata = replicate 8 0, e_rv = [0]\<rparr>"
definition ex_fence :: req where
  "ex_fence = req_new\<lparr>req_op := op_code HPDCACHE_REQ_CMO_FENCE, req_need_rsp := True, req_tid := 3\<rparr>"

lemma ex_fence_classes:
  "\<not> is_load ex_fence" "\<not> is_store ex_fence" "\<not> is_amo ex_fence" "\<not> is_amo_lr ex_fence"
  "\<not> is_amo_sc ex_fence" "is_cmo ex_fence" "\<not> is_cmo_prefetch ex_fence" "req_need_rsp ex_fence"
  "req_tid ex_fence = 3"
  by (simp_all add: ex_fence_def op_class_defs is_cmo_prefetch_def)

lemma fence_step:
  assumes "sm_find (inflight_m s) 3 = None"
  shows "core_req_step c ex_junk ex_fence s
     = Inr (track_request ex_fence (make_entry c ex_junk ex_fence (count_core_req ex_fence s))
              (count_core_req ex_fence s))"
proof -
  have "sm_find (inflight_m (count_core_req ex_fence s)) 3 = None"
    using assms by (simp add: count_core_req_def)
  moreover have "mark_error ex_fence s' e = e" for s' e
    by (simp add: mark_error_def ex_fence_classes split: option.split)
  ultimately show ?thesis
    by (simp add: core_req_step_def Let_def ex_fence_classes read_expected_def lr_reservation_def
        lrsc_invalidation_def dispatch_request_def forwards_atomic_def store_ram_def)
qed

lemma ex_fence_step:
  "core_req_step default_cfg ex_junk ex_fence ex_sb
     = Inr (count_core_req ex_fence ex_sb\<lparr>inflight_m :=
              [(3, make_entry default_cfg ex_junk ex_fence (count_core_req ex_fence ex_sb))]\<rparr>)"
proof -
  have "inflight_m ex_sb = []" by (simp add: ex_sb_def init_fields)
  then show ?thesis
    by (simp add: fence_step track_request_def ex_fence_classes) (simp add: count_core_req_def)
qed

lemma ex_sb_seq: "seq ex_sb = ex_sq"
  by (simp add: ex_sb_def init_fields)

lemma ex_fence_run:
  "sb_run default_cfg ex_sb (count_core_req ex_fence ex_sb\<lparr>inflight_m :=
     [(3, make_entry default_cfg ex_junk ex_fence (count_core_req ex_fence ex_sb))]\<rparr>)"
  by (rule sb_run.step [OF sb_run.start, of "Core_req ex_junk ex_fence"])
    (simp_all only: sb_step.simps ex_fence_step sent_ok.simps ex_fence_classes ex_sb_seq,
      simp add: ex_sq_def)

text \<open>
  C7: in every reachable state the three tables are sorted by key, an inflight request is filed
  under its own identifier and waits for a response, the RAM keeps its size and bitmap, no
  more atomic requests wait than the FIFO can hold, every counted error has been printed,
  and the number of errors is below the limit that ends the simulation.
\<close>

theorem scoreboard_invariant:
  assumes "sb_reach c (sb_init lrsc sq segs n) s"
  shows "sm_wf (inflight_m s) \<and> sm_wf (inflight_mem_read_m s) \<and> sm_wf (inflight_mem_write_m s)
     \<and> (\<forall>k e. sm_find (inflight_m s) k = Some e \<longrightarrow> e_tid e = k \<and> e_need_rsp e)
     \<and> wf_ram (ram_m s) \<and> ram_size (ram_m s) = 16 * 2 ^ 20
     \<and> length (inflight_amo_req_m s) \<le> 16
     \<and> nb_error s = length (sb_log s)
     \<and> (0 < sb_error_limit_m s \<longrightarrow> nb_error s < sb_error_limit_m s)"
  using sb_inv_reach [OF assms sb_inv_init]
  by (auto simp: sb_inv_def entries_ok_def SC_FIFO_DEPTH_def SCOREBOARD_RAM_SIZE_def below_limit_def
      push_bit_eq_mult)

theorem scoreboard_invariant_witness:
  "\<exists>s. sb_reach default_cfg ex_sb s \<and> (\<exists>e. sm_find (inflight_m s) 3 = Some e \<and> e_tid e = 3)"
proof -
  let ?s = "count_core_req ex_fence ex_sb\<lparr>inflight_m :=
     [(3, make_entry default_cfg ex_junk ex_fence (count_core_req ex_fence ex_sb))]\<rparr>"
  have r: "sb_reach default_cfg ex_sb ?s" by (rule sb_run_reach [OF ex_fence_run])
  have "sm_find (inflight_m ?s) 3
      = Some (make_entry default_cfg ex_junk ex_fence (count_core_req ex_fence ex_sb))"
    by (simp add: sm_find_def)
  moreover have "\<forall>k e. sm_find (inflight_m ?s) k = Some e \<longrightarrow> e_tid e = k \<and> e_need_rsp e"
    using scoreboard_invariant [OF r [unfolded ex_sb_def], folded ex_sb_def] by blast
  ultimately show ?thesis using r by blast
qed

text \<open>
  the balance checked at the end of the test. As long as no error is reported, the requests
  that need a response are the responses received plus the requests inflight; so the first
  check of the destructor then passes exactly when no request is left (fewer than
  \<open>2 ^ 64\<close> being inflight).
\<close>

theorem responses_balance_requests:
  assumes "sb_reach c (sb_init lrsc sq segs n) s" and "nb_error s = 0"
    and "length (inflight_m s) < 2 ^ 64"
  shows "nb_core_req_need_rsp s = nb_core_resp s + of_nat (length (inflight_m s))
     \<and> (nb_core_resp s = nb_core_req_need_rsp s \<longleftrightarrow> inflight_m s = [])"
proof -
  have b: "nb_core_req_need_rsp s = nb_core_resp s + of_nat (length (inflight_m s))"
    using sb_inv_reach [OF assms(1) sb_inv_init] assms(2) by (simp add: sb_inv_def balanced_def)
  have "(of_nat (length (inflight_m s)) :: u64) = 0 \<longleftrightarrow> length (inflight_m s) = 0"
    by (simp only: unat_eq_zero [symmetric] unat_word_of_nat [OF assms(3)])
  then show ?thesis using b by simp
qed

theorem responses_balance_requests_witness:
  "\<exists>s. sb_reach default_cfg ex_sb s \<and> nb_core_req_need_rsp s = nb_core_resp s + 1"
proof -
  let ?s = "count_core_req ex_fence ex_sb\<lparr>inflight_m :=
     [(3, make_entry default_cfg ex_junk ex_fence (count_core_req ex_fence ex_sb))]\<rparr>"
  have r: "sb_reach default_cfg ex_sb ?s" by (rule sb_run_reach [OF ex_fence_run])
  have "nb_error ?s = 0" by (simp add: count_core_req_def ex_sb_def init_fields)
  then show ?thesis
    using responses_balance_requests [OF r [unfolded ex_sb_def], folded ex_sb_def] r by auto
qed

text \<open>
  C8: when the driver only sends identifiers that the sequence has allocated, the identifier of
  every inflight request stays allocated until its response, so the identifier of a new
  transaction never is that of an inflight one.
\<close>

theorem inflight_identifiers_reserved:
  assumes "sb_run c (sb_init lrsc sq segs n) s" and "wf_ids c sq"
  shows "distinct (ids (seq s)) \<and> fst ` set (inflight_m s) \<subseteq> set (ids (seq s))
     \<and> (\<forall>rand t. seq_allocate c rand s = Inr t \<longrightarrow>
          (\<exists>i. ids (seq t) = ids (seq s) @ [i] \<and> sm_find (inflight_m t) i = None))"
proof -
  have "ids_ok c (sb_init lrsc sq segs n)"
    using assms(2) by (simp add: ids_ok_def init_fields dom_def)
  then have ok: "ids_ok c s" using ids_run [OF assms(1) _ sb_inv_init] by blast
  have dom: "dom (sm_find (inflight_m s)) = fst ` set (inflight_m s)"
    by (simp only: dom_def sm_keys Collect_mem_eq)
  have "\<exists>i. ids (seq t) = ids (seq s) @ [i] \<and> sm_find (inflight_m t) i = None"
    if "seq_allocate c rand s = Inr t" for rand t
    using ids_allocate [OF ok that] ok by (auto simp: ids_ok_def)
  then show ?thesis using ok dom by (auto simp: ids_ok_def wf_ids_def)
qed

theorem inflight_identifiers_reserved_witness:
  "\<exists>s. sb_run default_cfg ex_sb s \<and> fst ` set (inflight_m s) = {3} \<and> 3 \<in> set (ids (seq s))"
proof -
  let ?s = "count_core_req ex_fence ex_sb\<lparr>inflight_m :=
     [(3, make_entry default_cfg ex_junk ex_fence (count_core_req ex_fence ex_sb))]\<rparr>"
  have "wf_ids default_cfg ex_sq"
    by (simp add: wf_ids_def ex_sq_def seq_new_def MAX_TRANS_ID default_cfg_def)
  then have "fst ` set (inflight_m ?s) \<subseteq> set (ids (seq ?s))"
    using inflight_identifiers_reserved [OF ex_fence_run [unfolded ex_sb_def], folded ex_sb_def]
    by blast
  then show ?thesis using ex_fence_run by (intro exI [of _ ?s]) simp
qed

end
