(* ===== verification/Testbench.thy ===== *)
theory Testbench
  imports Sequences_Run Scoreboard_Inv
begin

text \<open>
  \<open>rtl/tb/hpdcache_tb.cpp\<close> and \<open>rtl/tb/sc_verif_lib/include/logger.h\<close>: the command line, the
  construction of the test and the clock loop. \<open>getopt_long\<close> of the C library gives the options
  as a list of characters with their arguments; \<open>files\<close> is the file system. The simulated
  circuit and the threads run inside \<open>sc_start\<close>: what the loop sees of them is when the
  simulation has finished, \<open>finish k\<close> after \<open>k\<close> half periods of the clock. Binding the ports of
  the modules, printing, waveforms and coverage files are not modelled.
\<close>

section \<open>Logger\<close>

definition LOG_WARNING :: int where "LOG_WARNING = 1"
definition LOG_INFO :: int where "LOG_INFO = 2"
definition LOG_DEBUG :: int where "LOG_DEBUG = 3"

definition is_warning_enabled :: "int \<Rightarrow> bool" where "is_warning_enabled lvl \<longleftrightarrow> lvl \<ge> LOG_WARNING"
definition is_info_enabled :: "int \<Rightarrow> bool" where "is_info_enabled lvl \<longleftrightarrow> lvl \<ge> LOG_INFO"
definition is_debug_enabled :: "int \<Rightarrow> bool" where "is_debug_enabled lvl \<longleftrightarrow> lvl \<ge> LOG_DEBUG"

text \<open>What \<open>info\<close>, \<open>warning\<close> and \<open>debug\<close> print.\<close>

definition log_info :: "int \<Rightarrow> string \<Rightarrow> string" where
  "log_info lvl msg = (if lvl \<ge> LOG_INFO then msg else [])"

definition log_warning :: "int \<Rightarrow> string \<Rightarrow> string" where
  "log_warning lvl msg = (if lvl \<ge> LOG_WARNING then msg else [])"

definition log_debug :: "int \<Rightarrow> string \<Rightarrow> string" where
  "log_debug lvl msg = (if lvl \<ge> LOG_DEBUG then msg else [])"

section \<open>Numbers on the command line\<close>

text \<open>\<open>atoll\<close> and \<open>atoi\<close> of the C library: leading space, a sign, decimal digits; out of range is undefined.\<close>

definition is_space :: "char \<Rightarrow> bool" where
  "is_space ch \<longleftrightarrow> of_char ch \<in> {9, 10, 11, 12, 13, 32 :: nat}"

definition is_digit :: "char \<Rightarrow> bool" where
  "is_digit ch \<longleftrightarrow> 48 \<le> (of_char ch :: nat) \<and> (of_char ch :: nat) \<le> 57"

definition digits_value :: "string \<Rightarrow> int" where
  "digits_value cs = foldl (\<lambda>n ch. 10 * n + (of_char ch - 48)) 0 (takeWhile is_digit cs)"

definition ascii_to_int :: "nat \<Rightarrow> string \<Rightarrow> int outcome" where
  "ascii_to_int w cs =
     (let cs = dropWhile is_space cs;
          v = (case cs of
                 [] \<Rightarrow> 0
               | ch # rest \<Rightarrow>
                   if ch = CHR ''-'' then - digits_value rest
                   else if ch = CHR ''+'' then digits_value rest
                   else digits_value cs)
      in if - (2 ^ (w - 1)) \<le> v \<and> v < 2 ^ (w - 1) then Inr v else Inl Undefined_behaviour)"

definition atoll :: "string \<Rightarrow> int outcome" where "atoll = ascii_to_int 64"

definition atoi :: "string \<Rightarrow> int outcome" where "atoi = ascii_to_int 32"

section \<open>The test object\<close>

datatype seq_kind =
  Random_seq | Read_seq | Write_seq | Unique_set_seq | From_trace_seq "unit trace_reader"

datatype sc_verbosity = SC_NONE | SC_LOW | SC_MEDIUM | SC_HIGH | SC_FULL | SC_DEBUG

record test =
  max_cycles :: u64
  max_trans :: u64
  error_limit :: u64
  trace_on :: bool
  trace_name :: string
  file_name :: string
  covname :: string
  test_seq :: "seq_kind option"
  seed :: "string option"
  log_level :: int
  verbosity :: sc_verbosity

text \<open>\<open>trace_on\<close> is not initialised: its value is an argument. \<open>SC_MEDIUM\<close> is SystemC's default.\<close>

definition test_new :: "bool \<Rightarrow> test" where
  "test_new junk = \<lparr>max_cycles = push_bit 30 1, max_trans = 100, error_limit = 0, trace_on = junk,
     trace_name = [], file_name = [], covname = [], test_seq = None, seed = None,
     log_level = LOG_INFO, verbosity = SC_MEDIUM\<rparr>"

text \<open>\<open>junk\<close> is the content of the buffer of a new \<open>trace_reader\<close>.\<close>

definition set_test_sequence ::
  "(string \<Rightarrow> u8 list option) \<Rightarrow> (nat \<Rightarrow> u8) \<Rightarrow> string \<Rightarrow> test \<Rightarrow> test outcome" where
  "set_test_sequence files junk nm t =
     (if test_seq t \<noteq> None then Inl Process_exit
      else if nm = ''random'' then Inr (t\<lparr>test_seq := Some Random_seq\<rparr>)
      else if nm = ''read'' then Inr (t\<lparr>test_seq := Some Read_seq\<rparr>)
      else if nm = ''write'' then Inr (t\<lparr>test_seq := Some Write_seq\<rparr>)
      else if nm = ''unique_set'' then Inr (t\<lparr>test_seq := Some Unique_set_seq\<rparr>)
      else if nm = ''from_trace'' then
        andthen (trace_reader_new (files (file_name t)) junk)
          (\<lambda>r. Inr (t\<lparr>test_seq := Some (From_trace_seq r)\<rparr>))
      else Inl Process_exit)"

definition set_log_level :: "int \<Rightarrow> test \<Rightarrow> test outcome" where
  "set_log_level level t =
     (if level = 0 then Inr (t\<lparr>log_level := level, verbosity := SC_NONE\<rparr>)
      else if level = 1 then Inr (t\<lparr>log_level := level, verbosity := SC_LOW\<rparr>)
      else if level = 2 then Inr (t\<lparr>log_level := level, verbosity := SC_MEDIUM\<rparr>)
      else if level = 3 then Inr (t\<lparr>log_level := level, verbosity := SC_HIGH\<rparr>)
      else if level = 4 then Inr (t\<lparr>log_level := level, verbosity := SC_FULL\<rparr>)
      else if level = 5 then Inr (t\<lparr>log_level := level, verbosity := SC_DEBUG\<rparr>)
      else Inl Process_exit)"

text \<open>
  The options. \<open>Inr None\<close> is the return of \<open>sc_main\<close> on \<open>-h\<close> and on an unknown option. The
  value of the seed is only kept as text.
\<close>

definition handle_option ::
  "(string \<Rightarrow> u8 list option) \<Rightarrow> (nat \<Rightarrow> u8) \<Rightarrow> char \<Rightarrow> string \<Rightarrow> test \<Rightarrow> test option outcome" where
  "handle_option files junk opt optarg t =
     (if opt = CHR ''?'' \<or> opt = CHR ''h'' then Inr None
      else if opt = CHR ''m'' then andthen (atoll optarg) (\<lambda>n. Inr (Some (t\<lparr>max_cycles := word_of_int n\<rparr>)))
      else if opt = CHR ''n'' then andthen (atoll optarg) (\<lambda>n. Inr (Some (t\<lparr>max_trans := word_of_int n\<rparr>)))
      else if opt = CHR ''r'' then Inr (Some (t\<lparr>seed := Some optarg\<rparr>))
      else if opt = CHR ''t'' then Inr (Some (t\<lparr>trace_on := True, trace_name := optarg\<rparr>))
      else if opt = CHR ''c'' then Inr (Some (t\<lparr>covname := optarg\<rparr>))
      else if opt = CHR ''l'' then
        andthen (atoi optarg) (\<lambda>n. andthen (set_log_level n t) (\<lambda>t. Inr (Some t)))
      else if opt = CHR ''s'' then andthen (set_test_sequence files junk optarg t) (\<lambda>t. Inr (Some t))
      else if opt = CHR ''f'' then
        (if files optarg = None then Inl Process_exit else Inr (Some (t\<lparr>file_name := optarg\<rparr>)))
      else if opt = CHR ''e'' then andthen (atoll optarg) (\<lambda>n. Inr (Some (t\<lparr>error_limit := word_of_int n\<rparr>)))
      else Inr (Some t))"

fun handle_options ::
  "(string \<Rightarrow> u8 list option) \<Rightarrow> (nat \<Rightarrow> u8) \<Rightarrow> (char \<times> string) list \<Rightarrow> test \<Rightarrow> test option outcome" where
  "handle_options files junk [] t = Inr (Some t)"
| "handle_options files junk ((opt, optarg) # opts) t =
     andthen (handle_option files junk opt optarg t)
       (\<lambda>r. case r of None \<Rightarrow> Inr None | Some t \<Rightarrow> handle_options files junk opts t)"

section \<open>Building and simulating\<close>

definition seq_object_name :: "seq_kind \<Rightarrow> string" where
  "seq_object_name k =
     (case k of Random_seq \<Rightarrow> ''random_seq'' | Read_seq \<Rightarrow> ''read_seq'' | Write_seq \<Rightarrow> ''write_seq''
      | Unique_set_seq \<Rightarrow> ''random_seq'' | From_trace_seq r \<Rightarrow> ''from_trace_seq'')"

text \<open>
  \<open>build\<close> gives the sequence its limit and the scoreboard the sequence, the memory model and the
  error limit. \<open>lrsc\<close> is the reservation that the scoreboard does not initialise; \<open>segs\<close> are the
  error segments of the memory model.
\<close>

definition build ::
  "lrsc_reservation_buf \<Rightarrow> segment list \<Rightarrow> test \<Rightarrow> (seq_state \<times> scoreboard) outcome" where
  "build lrsc segs t =
     (case test_seq t of
        None \<Rightarrow> Inl Undefined_behaviour
      | Some k \<Rightarrow>
          (let sq = set_max_transactions (unat (max_trans t)) (seq_new (seq_object_name k));
               sb = set_error_limit (unat (error_limit t))
                      (set_mem_resp_model (Some segs) (set_sequence sq (scoreboard_new lrsc sq)))
           in Inr (sq, sb)))"

record cache_cfg_ports =
  wbuf_flush :: bool
  cfg_enable :: bool
  cfg_wbuf_threshold :: nat
  cfg_wbuf_reset_timecnt_on_write :: bool
  cfg_wbuf_sequential_waw :: bool
  cfg_wbuf_inhibit_write_coalescing :: bool
  cfg_prefetch_updt_plru :: bool
  cfg_error_on_cacheable_amo :: bool
  cfg_rtab_single_entry :: bool
  cfg_default_wb :: bool
  cfg_scrub_enable :: bool
  cfg_scrub_period :: nat
  cfg_scrub_restart :: bool

definition simulated_cfg :: cache_cfg_ports where
  "simulated_cfg = \<lparr>wbuf_flush = False, cfg_enable = True, cfg_wbuf_threshold = bv 3 1,
     cfg_wbuf_reset_timecnt_on_write = True, cfg_wbuf_sequential_waw = False,
     cfg_wbuf_inhibit_write_coalescing = False, cfg_prefetch_updt_plru = False,
     cfg_error_on_cacheable_amo = False, cfg_rtab_single_entry = False, cfg_default_wb = False,
     cfg_scrub_enable = False, cfg_scrub_period = bv 6 10, cfg_scrub_restart = True\<rparr>"

text \<open>A clock event: the value of the reset and of the clock for half a period.\<close>

type_synonym half_period = "bool \<times> bool"

definition reset_cycles :: "bool \<Rightarrow> half_period list" where
  "reset_cycles rst_ni = concat (replicate 5 [(rst_ni, False), (rst_ni, True)])"

text \<open>
  The main loop: \<open>k\<close> counts the half periods simulated so far. It returns the number of cycles
  and the half periods it added.
\<close>

function clock_loop :: "(nat \<Rightarrow> bool) \<Rightarrow> nat \<Rightarrow> nat \<Rightarrow> nat \<Rightarrow> nat \<times> half_period list" where
  "clock_loop finish m k cycles =
     (if cycles < m then
        (if finish (k + 1) then (cycles, [(True, False)])
         else if finish (k + 2) then (cycles, [(True, False), (True, True)])
         else case clock_loop finish m (k + 2) (cycles + 1) of
                (n, hs) \<Rightarrow> (n, [(True, False), (True, True)] @ hs))
      else (cycles, []))"
  by pat_completeness auto
termination by (relation "measure (\<lambda>(finish, m, k, cycles). m - cycles)") auto

declare clock_loop.simps [simp del]

definition simulate :: "(nat \<Rightarrow> bool) \<Rightarrow> test \<Rightarrow> nat \<times> half_period list" where
  "simulate finish t =
     (let start = reset_cycles True @ reset_cycles False
      in case clock_loop finish (unat (max_cycles t)) (length start) 5 of
           (cycles, hs) \<Rightarrow> (cycles, start @ hs))"

text \<open>\<open>sc_main\<close>: its return value, the objects it built and the run, if it got that far.\<close>

definition sc_main ::
  "(string \<Rightarrow> u8 list option) \<Rightarrow> (nat \<Rightarrow> u8) \<Rightarrow> bool \<Rightarrow> lrsc_reservation_buf \<Rightarrow> segment list
     \<Rightarrow> (nat \<Rightarrow> bool) \<Rightarrow> (char \<times> string) list
     \<Rightarrow> (nat \<times> ((seq_state \<times> scoreboard) \<times> nat \<times> half_period list) option) outcome" where
  "sc_main files junk trace_junk lrsc segs finish opts =
     andthen (handle_options files junk opts (test_new trace_junk)) (\<lambda>r.
       case r of
         None \<Rightarrow> Inr (0, None)
       | Some t \<Rightarrow> andthen (build lrsc segs t) (\<lambda>objs. Inr (0, Some (objs, simulate finish t))))"

section \<open>The clock loop\<close>

lemma clock_loop_spec:
  assumes "clock_loop finish m k cycles = (n, hs)" and "cycles \<le> m"
  shows "cycles \<le> n \<and> n \<le> m \<and> length hs \<le> 2 * (m - cycles)
     \<and> (\<forall>i. 0 < i \<and> i < length hs \<longrightarrow> \<not> finish (k + i))
     \<and> (n < m \<longrightarrow> hs \<noteq> [] \<and> finish (k + length hs))
     \<and> (n = m \<longrightarrow> length hs = 2 * (m - cycles) \<and> (hs \<noteq> [] \<longrightarrow> \<not> finish (k + length hs)))
     \<and> (\<forall>h \<in> set hs. fst h)"
  using assms
proof (induction finish m k cycles arbitrary: n hs rule: clock_loop.induct)
  case (1 finish m k cycles)
  consider "\<not> cycles < m" | "cycles < m" "finish (k + 1)" | "cycles < m" "\<not> finish (k + 1)" "finish (k + 2)"
    | "cycles < m" "\<not> finish (k + 1)" "\<not> finish (k + 2)" by blast
  then show ?case
  proof cases
    case 1
    then show ?thesis using "1.prems" by (simp add: clock_loop.simps)
  next
    case 2
    then show ?thesis using "1.prems" by (auto simp: clock_loop.simps)
  next
    case 3
    have "n = cycles" "hs = [(True, False), (True, True)]"
      using 3 "1.prems"(1) by (simp_all add: clock_loop.simps [of finish m k cycles])
    moreover have "\<not> finish (k + i)" if "0 < i" "i < 2" for i
    proof -
      have "i = 1" using that by simp
      then show ?thesis using 3 by simp
    qed
    ultimately show ?thesis using 3 by auto
  next
    case 4
    obtain n' hs' where r: "clock_loop finish m (k + 2) (cycles + 1) = (n', hs')" by fastforce
    have e: "n = n'" "hs = [(True, False), (True, True)] @ hs'"
      using 4 "1.prems"(1) r by (simp_all add: clock_loop.simps [of finish m k cycles])
    note ih = "1.IH" [OF 4 r]
    have le: "cycles + 1 \<le> m" using 4 by simp
    have "\<not> finish (k + i)" if i: "0 < i" "i < length hs" for i
    proof -
      consider "i = 1" | "i = 2" | "2 < i" using i by linarith
      then show ?thesis
      proof cases
        case 3
        then have "0 < i - 2" "i - 2 < length hs'" "k + 2 + (i - 2) = k + i"
          using i(2) e(2) by simp_all
        then show ?thesis using ih [OF le] by metis
      qed (use 4 in simp_all)
    qed
    then show ?thesis using ih [OF le] e 4 by (auto simp: add.commute)
  qed
qed

section \<open>Properties\<close>

lemma option_keeps_sequence:
  assumes "handle_option files junk opt optarg t = Inr (Some t')" and "opt \<noteq> CHR ''s''"
  shows "test_seq t' = test_seq t"
  using assms by (auto simp: handle_option_def set_log_level_def andthen_Inr_iff split: if_splits)

lemma options_keep_sequence:
  assumes "handle_options files junk opts t = Inr (Some t')" and "CHR ''s'' \<notin> fst ` set opts"
  shows "test_seq t' = test_seq t"
  using assms
proof (induction opts arbitrary: t)
  case Nil
  then show ?case by simp
next
  case (Cons p opts)
  obtain opt optarg where p: "p = (opt, optarg)" by (cases p)
  obtain t1 where t1: "handle_option files junk opt optarg t = Inr (Some t1)"
    "handle_options files junk opts t1 = Inr (Some t')"
    using Cons.prems(1) by (auto simp: p andthen_Inr_iff split: option.splits)
  have "opt \<noteq> CHR ''s''" using Cons.prems(2) by (auto simp: p)
  then show ?case
    using Cons.IH [OF t1(2)] Cons.prems(2) option_keeps_sequence [OF t1(1)] by (simp add: p)
qed

text \<open>
  The test needs a sequence, once. Without \<open>-s\<close> the construction of the test dereferences a null
  pointer, unless the options end the program before; asking for a second sequence, or for the
  trace sequence before a trace file that can be read is named, ends the program.
\<close>

theorem sequence_option_required:
  "(CHR ''s'' \<notin> fst ` set opts \<and> handle_options files junk opts (test_new tj) = Inr (Some t)
       \<longrightarrow> sc_main files junk tj lrsc segs finish opts = Inl Undefined_behaviour)
   \<and> (test_seq t' \<noteq> None \<longrightarrow> handle_option files junk CHR ''s'' nm t' = Inl Process_exit)
   \<and> (files (file_name t') = None
       \<longrightarrow> handle_option files junk CHR ''s'' ''from_trace'' t' = Inl Process_exit)"
proof (intro conjI impI)
  assume "CHR ''s'' \<notin> fst ` set opts \<and> handle_options files junk opts (test_new tj) = Inr (Some t)"
  moreover from this have "test_seq t = None"
    using options_keep_sequence [of files junk opts "test_new tj" t] by (simp add: test_new_def)
  ultimately show "sc_main files junk tj lrsc segs finish opts = Inl Undefined_behaviour"
    by (simp add: sc_main_def build_def)
next
  assume "test_seq t' \<noteq> None"
  then show "handle_option files junk CHR ''s'' nm t' = Inl Process_exit"
    by (simp add: handle_option_def set_test_sequence_def)
next
  assume "files (file_name t') = None"
  then show "handle_option files junk CHR ''s'' ''from_trace'' t' = Inl Process_exit"
    by (simp add: handle_option_def set_test_sequence_def trace_reader_new_def)
qed

definition ex_lrsc :: lrsc_reservation_buf where
  "ex_lrsc = \<lparr>rs_valid = False, rs_base_addr = 0, rs_end_addr = 0, rs_is_atomic = False\<rparr>"

theorem sequence_option_required_witness:
  "sc_main (\<lambda>f. None) (\<lambda>i. 0) False ex_lrsc [] (\<lambda>k. True) [(CHR ''n'', ''20'')] = Inl Undefined_behaviour
     \<and> handle_option (\<lambda>f. None) (\<lambda>i. 0) CHR ''s'' ''from_trace'' (test_new False) = Inl Process_exit"
proof -
  have "atoll ''20'' = Inr 20"
    by (simp add: atoll_def ascii_to_int_def is_space_def digits_value_def is_digit_def)
  then have "handle_options (\<lambda>f. None) (\<lambda>i. 0) [(CHR ''n'', ''20'')] (test_new False)
      = Inr (Some ((test_new False)\<lparr>max_trans := 20\<rparr>))"
    by (simp add: handle_option_def)
  then show ?thesis
    using sequence_option_required [of "[(CHR ''n'', ''20'')]" "\<lambda>f. None" "\<lambda>i. 0" False
        "(test_new False)\<lparr>max_trans := 20\<rparr>" ex_lrsc "[]" "\<lambda>k. True" "test_new False"] by simp
qed

text \<open>
  The length of a simulation. After ten cycles of reset, five of them with the reset released,
  the loop runs until the simulation finishes or the limit of cycles is reached, of which five
  are already counted; it stops at the first half period at which the simulation has finished,
  and the program returns 0 in both cases.
\<close>

theorem simulation_length:
  assumes "5 \<le> unat (max_cycles t)" and "simulate finish t = (n, hs)"
  shows "n \<le> unat (max_cycles t) \<and> length hs \<le> 20 + 2 * (unat (max_cycles t) - 5)
     \<and> take 20 hs = reset_cycles True @ reset_cycles False \<and> (\<forall>h \<in> set (drop 20 hs). fst h)
     \<and> (\<forall>i. 20 < i \<and> i < length hs \<longrightarrow> \<not> finish i)
     \<and> (n < unat (max_cycles t) \<longrightarrow> finish (length hs))
     \<and> (n = unat (max_cycles t) \<longrightarrow> length hs = 20 + 2 * (unat (max_cycles t) - 5))"
proof -
  let ?m = "unat (max_cycles t)" and ?start = "reset_cycles True @ reset_cycles False"
  have l: "length ?start = 20" by (simp add: reset_cycles_def numeral_eq_Suc)
  obtain hs' where c: "clock_loop finish ?m 20 5 = (n, hs')" "hs = ?start @ hs'"
    using assms(2) unfolding simulate_def Let_def l by (auto split: prod.splits)
  note s = clock_loop_spec [OF c(1) assms(1)]
  have len: "length hs = 20 + length hs'" using c(2) l by simp
  have "\<not> finish i" if "20 < i" "i < length hs" for i
  proof -
    have "0 < i - 20" "i - 20 < length hs'" "20 + (i - 20) = i" using that len by simp_all
    then show ?thesis using s by metis
  qed
  moreover have "take 20 hs = ?start" "drop 20 hs = hs'" using c(2) l by simp_all
  ultimately show ?thesis using s len by auto
qed

theorem simulation_length_witness:
  "fst (simulate (\<lambda>k. 30 \<le> k) (test_new False)) < 2 ^ 30
     \<and> length (snd (simulate (\<lambda>k. 30 \<le> k) (test_new False))) \<le> 30"
proof -
  have m: "unat (max_cycles (test_new False)) = 2 ^ 30"
    by (simp add: test_new_def push_bit_of_1 unsigned_push_bit_eq)
  obtain n hs where s: "simulate (\<lambda>k. 30 \<le> k) (test_new False) = (n, hs)" by fastforce
  have "5 \<le> unat (max_cycles (test_new False))" by (simp add: m)
  note l = simulation_length [OF this s, unfolded m]
  have "n \<noteq> 2 ^ 30"
  proof
    assume "n = 2 ^ 30"
    then have "length hs = 20 + 2 * (2 ^ 30 - 5)" using l by blast
    then have "20 < (31 :: nat) \<and> 31 < length hs" by simp
    then have "\<not> (30 :: nat) \<le> 31" using l by blast
    then show False by simp
  qed
  then have "n < 2 ^ 30" using l by simp
  moreover have "length hs \<le> 30"
  proof (rule ccontr)
    assume "\<not> length hs \<le> 30"
    then have "20 < (30 :: nat) \<and> 30 < length hs" by simp
    then have "\<not> (30 :: nat) \<le> 30" using l by blast
    then show False by simp
  qed
  ultimately show ?thesis using s by simp
qed

end
