(* ===== verification/Scoreboard_Check.thy ===== *)
theory Scoreboard_Check
  imports Scoreboard_Inv
begin

text \<open>
  What the checks of \<open>rtl/tb/include/hpdcache_test_scoreboard.h\<close> amount to, in terms of the
  requests and responses: the bytes a load is compared with are the bytes stored before, a
  wrong byte is counted, an SC is atomic when its reservation is intact, an atomic operation
  updates the memory image with the architectural result, and what a response of the memory
  teaches the scoreboard.
\<close>

section \<open>Bytes of a request\<close>

text \<open>Byte \<open>i\<close> of a data bus.\<close>

definition data_byte :: "nat \<Rightarrow> nat \<Rightarrow> u8" where
  "data_byte v i = word_of_nat (drop_bit (8 * i) v)"

lemma bit_data_byte: "bit (data_byte v i) n \<longleftrightarrow> n < 8 \<and> bit v (8 * i + n)"
  by (auto simp: data_byte_def bit_of_nat_iff bit_drop_bit_eq)

lemma bit_get_field: "0 < w \<Longrightarrow> bit (get_field pos w v) n \<longleftrightarrow> n < w \<and> bit v (pos + n)"
  by (auto simp: get_field_def bit_bv_range)

lemma byte_of_lane:
  "j < 8 \<Longrightarrow> byte_of (bv_to_uint64 (get_field (i * 64) 64 v)) j = data_byte v (8 * i + j)"
  by (rule bit_word_eqI) (auto simp: bit_data_byte bit_word_of_nat_u64 bit_get_field algebra_simps)

lemma nth_lanes:
  assumes "i < 8 * n"
  shows "bytes_of_words (map (\<lambda>i. bv_to_uint64 (get_field (i * 64) 64 v)) [0..<n]) ! i = data_byte v i"
proof -
  have "i div 8 < n" using assms by linarith
  then show ?thesis using assms by (simp add: nth_bytes_of_words byte_of_lane)
qed

lemma bit_be_lane: "j < 8 \<Longrightarrow> bit (word_of_nat (get_field (i * 8) 8 b) :: u8) j \<longleftrightarrow> bit b (8 * i + j)"
  by (auto simp: bit_of_nat_iff bit_get_field algebra_simps)

text \<open>
  The configurations the byte arrays of the scoreboard are laid out for: 64-bit words, and
  a request bus that divides the RAM.
\<close>

definition sb_cfg :: "cfg \<Rightarrow> bool" where
  "sb_cfg c \<longleftrightarrow> HPDCACHE_WORD_WIDTH c = 64 \<and> 0 < HPDCACHE_REQ_WORDS c
     \<and> 8 * HPDCACHE_REQ_WORDS c dvd SCOREBOARD_RAM_SIZE"

lemma sb_cfg_default: "sb_cfg default_cfg"
  by (simp add: sb_cfg_def default_cfg_def SCOREBOARD_RAM_SIZE_def push_bit_eq_mult)

lemma sb_widths:
  assumes "sb_cfg c"
  shows "HPDCACHE_REQ_DATA_WIDTH c div 8 = 8 * HPDCACHE_REQ_WORDS c"
    and "CORE_REQ_WORD_BYTES c = 8" and "CORE_REQ_BYTES c = 8 * HPDCACHE_REQ_WORDS c"
  using assms
  by (simp_all add: sb_cfg_def HPDCACHE_REQ_DATA_WIDTH_def CORE_REQ_WORD_BYTES_def
      CORE_REQ_BYTES_def CORE_REQ_WORDS_def)

lemma align_in_ram:
  assumes "n dvd N" and "0 < (n :: nat)" and "0 < N"
  shows "a div n * n mod N + n \<le> N"
proof -
  obtain k where k: "N = n * k" using assms(1) ..
  have e: "a div n * n mod N = n * (a div n mod k)"
    unfolding k mult.commute [of "a div n" n] by (rule mult_mod_right [symmetric])
  have "0 < k" using assms(3) unfolding k by simp
  then have "Suc (a div n mod k) \<le> k" by (simp add: Suc_le_eq)
  then have "n * Suc (a div n mod k) \<le> n * k" by (rule mult_le_mono2)
  then show ?thesis unfolding e unfolding k by simp
qed

section \<open>Stores and loads\<close>

definition req_address :: "req \<Rightarrow> u64" where
  "req_address t = bv_to_uint64 (req_addr t)"

definition in_error_region :: "req \<Rightarrow> scoreboard \<Rightarrow> bool" where
  "in_error_region t s = (case mem_resp_model s of None \<Rightarrow> False
     | Some segs \<Rightarrow> error_region_loop segs (req_address t)
                      (req_address t + ucast (push_bit (req_size t) 1 :: u8)))"

text \<open>The offset in the RAM of the bus-aligned window of a request.\<close>

definition ram_window :: "cfg \<Rightarrow> req \<Rightarrow> nat" where
  "ram_window c t = align_to (req_address t) (8 * HPDCACHE_REQ_WORDS c) mod SCOREBOARD_RAM_SIZE"

lemma ram_window_fits:
  "sb_cfg c \<Longrightarrow> ram_window c t + 8 * HPDCACHE_REQ_WORDS c \<le> SCOREBOARD_RAM_SIZE"
  unfolding ram_window_def align_to_def
  by (rule align_in_ram) (auto simp: sb_cfg_def SCOREBOARD_RAM_SIZE_def push_bit_eq_mult)

lemma class_exclusive:
  "is_store t \<Longrightarrow> \<not> is_load t \<and> \<not> is_amo t \<and> \<not> is_amo_lr t \<and> \<not> is_amo_sc t \<and> \<not> is_cmo t"
  "is_load t \<Longrightarrow> \<not> is_store t \<and> \<not> is_amo t \<and> \<not> is_amo_lr t \<and> \<not> is_amo_sc t \<and> \<not> is_cmo t"
  "is_amo_lr t \<Longrightarrow> \<not> is_store t \<and> \<not> is_amo t \<and> \<not> is_load t \<and> \<not> is_amo_sc t \<and> \<not> is_cmo t"
  "is_amo_sc t \<Longrightarrow> \<not> is_store t \<and> \<not> is_amo t \<and> \<not> is_load t \<and> \<not> is_amo_lr t \<and> \<not> is_cmo t"
  by (simp_all add: op_class_defs)

lemma new_entry_fields:
  assumes "\<not> is_cmo t"
  shows "e_addr (mark_error t s (make_entry c junk t s')) = req_address t"
    and "e_is_error (mark_error t s (make_entry c junk t s')) = in_error_region t s"
    and "e_bytes (mark_error t s (make_entry c junk t s')) = push_bit (req_size t) 1"
    and "e_rdata (mark_error t s (make_entry c junk t s')) = e_rdata junk"
    and "e_rv (mark_error t s (make_entry c junk t s')) = e_rv junk"
  using assms
  by (auto simp: mark_error_def make_entry_def Let_def in_error_region_def req_address_def
      split: option.split)

lemma new_entry_data:
  assumes "is_store t \<or> is_amo_sc t \<or> is_amo t" and "sb_cfg c"
  shows "e_wdata (mark_error t s (make_entry c junk t s'))
         = map (\<lambda>i. bv_to_uint64 (get_field (i * 64) 64 (req_wdata t))) [0..<HPDCACHE_REQ_WORDS c]"
    and "e_be (mark_error t s (make_entry c junk t s'))
         = map (\<lambda>i. word_of_nat (get_field (i * 8) 8 (req_be t))) [0..<HPDCACHE_REQ_WORDS c]"
  using assms sb_widths(2) [OF assms(2)]
  by (auto simp: mark_error_def make_entry_def Let_def CORE_REQ_WORDS_def sb_cfg_def
      split: option.split)

lemma store_ram_spec:
  assumes cfg: "sb_cfg c" and ram: "wf_ram (ram_m s)" "ram_size (ram_m s) = SCOREBOARD_RAM_SIZE"
    and st: "is_store t" "\<not> e_is_error e" and addr: "e_addr e = req_address t"
    and data: "e_wdata e = map (\<lambda>i. bv_to_uint64 (get_field (i * 64) 64 (req_wdata t)))
        [0..<HPDCACHE_REQ_WORDS c]"
    "e_be e = map (\<lambda>i. word_of_nat (get_field (i * 8) 8 (req_be t))) [0..<HPDCACHE_REQ_WORDS c]"
  shows "\<exists>m. store_ram c t e s = Inr (s\<lparr>ram_m := m\<rparr>)
     \<and> (\<forall>a. ram_abs m a =
          (if ram_window c t \<le> a \<and> a < ram_window c t + 8 * HPDCACHE_REQ_WORDS c
              \<and> bit (req_be t) (a - ram_window c t)
           then Some (data_byte (req_wdata t) (a - ram_window c t)) else ram_abs (ram_m s) a))"
proof -
  let ?n = "8 * HPDCACHE_REQ_WORDS c"
  let ?buf = "bytes_of_words (e_wdata e)"
  have win: "align_to (e_addr e) ?n mod ram_size (ram_m s) = ram_window c t"
    by (simp add: addr ram(2) ram_window_def)
  have fits: "align_to (e_addr e) ?n mod ram_size (ram_m s) + ?n \<le> ram_size (ram_m s)"
    unfolding win unfolding ram(2) by (rule ram_window_fits [OF cfg])
  have len: "?n \<le> length ?buf" "?n \<le> 8 * length (e_be e)" by (simp_all add: data)
  obtain m where m: "ram_write (ram_m s) ?buf (e_be e) ?n (align_to (e_addr e) ?n) = Inr m"
    and abs: "ram_abs m = put_bytes ?buf (e_be e) (ram_window c t) ?n (ram_abs (ram_m s))"
    using ram_write_correct [OF ram(1) fits len] by (auto simp only: win)
  have be: "bit (e_be e ! (i div 8)) (i mod 8) = bit (req_be t) i"
    and dt: "?buf ! i = data_byte (req_wdata t) i" if "i < ?n" for i
  proof -
    have "i div 8 < HPDCACHE_REQ_WORDS c" using that by linarith
    then show "bit (e_be e ! (i div 8)) (i mod 8) = bit (req_be t) i"
      by (simp add: data bit_be_lane)
    show "?buf ! i = data_byte (req_wdata t) i" unfolding data by (rule nth_lanes [OF that])
  qed
  have "ram_abs m a =
      (if ram_window c t \<le> a \<and> a < ram_window c t + ?n \<and> bit (req_be t) (a - ram_window c t)
       then Some (data_byte (req_wdata t) (a - ram_window c t)) else ram_abs (ram_m s) a)" for a
  proof (cases "ram_window c t \<le> a \<and> a < ram_window c t + ?n")
    case True
    then have "a - ram_window c t < ?n" by linarith
    then show ?thesis using True be dt by (simp add: abs put_bytes_def)
  next
    case False
    then show ?thesis by (auto simp: abs put_bytes_def)
  qed
  then show ?thesis using m st by (auto simp: store_ram_def sb_widths [OF cfg])
qed

lemma read_expected_spec:
  assumes cfg: "sb_cfg c" and ram: "wf_ram (ram_m s)" "ram_size (ram_m s) = SCOREBOARD_RAM_SIZE"
    and ld: "is_load t \<or> is_amo_lr t \<or> is_amo t" "\<not> e_is_error e" and addr: "e_addr e = req_address t"
    and junk: "length (e_rdata e) = 8 * HPDCACHE_REQ_WORDS c" "length (e_rv e) = HPDCACHE_REQ_WORDS c"
  shows "\<exists>rd rv. read_expected c t s e = Inr (e\<lparr>e_rdata := rd, e_rv := rv\<rparr>)
     \<and> length rd = length (e_rdata e) \<and> length rv = length (e_rv e)
     \<and> (\<forall>i < 8 * HPDCACHE_REQ_WORDS c. ram_abs (ram_m s) (ram_window c t + i)
           = (if bit (rv ! (i div 8)) (i mod 8) then Some (rd ! i) else None))"
proof -
  let ?n = "8 * HPDCACHE_REQ_WORDS c"
  have win: "align_to (e_addr e) ?n mod ram_size (ram_m s) = ram_window c t"
    by (simp add: addr ram(2) ram_window_def)
  note f = ram_window_fits [OF cfg, of t]
  have fits: "align_to (e_addr e) ?n mod ram_size (ram_m s) + ?n \<le> ram_size (ram_m s)"
    unfolding win unfolding ram(2) by (rule f)
  have len: "?n \<le> length (e_rdata e)" "?n \<le> 8 * length (e_rv e)" by (simp_all add: junk)
  obtain rd rv where r: "ram_read (ram_m s) (e_rdata e) ?n (align_to (e_addr e) ?n) (Some (e_rv e))
        = Inr (rd, Some rv)" and l: "length rv = length (e_rv e)"
    and res: "read_result (ram_m s) (ram_window c t) ?n (e_rdata e) rd rv"
    using ram_read_correct [OF ram(1) fits len] by (auto simp only: win)
  have "ram_abs (ram_m s) (ram_window c t + i)
      = (if bit (rv ! (i div 8)) (i mod 8) then Some (rd ! i) else None)" if "i < ?n" for i
    using that res f ram(2) junk(1) by (auto simp: read_result_def ram_abs_def)
  moreover have "read_expected c t s e = Inr (e\<lparr>e_rdata := rd, e_rv := rv\<rparr>)"
    using r ld by (simp add: read_expected_def sb_widths [OF cfg])
  moreover have "length rd = length (e_rdata e)" using res by (simp add: read_result_def)
  ultimately show ?thesis using l by blast
qed

text \<open>The round of a store and of a load, with the state it leaves.\<close>

definition sb_ready :: "cfg \<Rightarrow> scoreboard \<Rightarrow> bool" where
  "sb_ready c s \<longleftrightarrow> sb_cfg c \<and> wf_ram (ram_m s) \<and> ram_size (ram_m s) = SCOREBOARD_RAM_SIZE"

definition junk_ok :: "cfg \<Rightarrow> inflight_entry \<Rightarrow> bool" where
  "junk_ok c e \<longleftrightarrow> length (e_rdata e) = 8 * HPDCACHE_REQ_WORDS c
     \<and> length (e_rv e) = HPDCACHE_REQ_WORDS c"

lemma count_core_req_frame:
  "inflight_m (count_core_req t s) = inflight_m s" "ram_m (count_core_req t s) = ram_m s"
  "mem_resp_model (count_core_req t s) = mem_resp_model s"
  "lrsc_buf_m (count_core_req t s) = lrsc_buf_m s" "nb_error (count_core_req t s) = nb_error s"
  "in_error_region t' (count_core_req t s) = in_error_region t' s"
  "inflight_amo_req_m (count_core_req t s) = inflight_amo_req_m s"
  by (simp_all add: count_core_req_def in_error_region_def)

lemma track_request_frame:
  "ram_m (track_request t e s) = ram_m s" "nb_error (track_request t e s) = nb_error s"
  "lrsc_buf_m (track_request t e s) = lrsc_buf_m s"
  "inflight_amo_req_m (track_request t e s) = inflight_amo_req_m s"
  by (simp_all add: track_request_def release_id_def)

lemma tracked_entry:
  assumes "sm_wf (inflight_m s)" and "sm_find (inflight_m s) (req_tid t) = None" and "req_need_rsp t"
  shows "sm_find (inflight_m (track_request t e s)) (req_tid t) = Some e"
  using assms by (simp add: track_request_def sm.find_insert)

lemma store_step:
  assumes "sb_ready c s" and "sm_find (inflight_m s) (req_tid t) = None"
    and st: "is_store t" and "\<not> in_error_region t s"
  shows "\<exists>u. core_req_step c junk t s = Inr u \<and> nb_error u = nb_error s
     \<and> (\<forall>a. ram_abs (ram_m u) a =
          (if ram_window c t \<le> a \<and> a < ram_window c t + 8 * HPDCACHE_REQ_WORDS c
              \<and> bit (req_be t) (a - ram_window c t)
           then Some (data_byte (req_wdata t) (a - ram_window c t)) else ram_abs (ram_m s) a))"
proof -
  note cl = class_exclusive(1) [OF st]
  let ?s = "count_core_req t s"
  define e where "e = mark_error t ?s (make_entry c junk t ?s)"
  have addr: "e_addr e = req_address t" and ok: "\<not> e_is_error e"
    using assms(4) cl by (simp_all add: e_def new_entry_fields count_core_req_frame)
  have cfg: "sb_cfg c" using assms(1) by (simp add: sb_ready_def)
  have "is_store t \<or> is_amo_sc t \<or> is_amo t" using st by simp
  note data = new_entry_data [OF this cfg, of ?s junk ?s, folded e_def]
  obtain e' s' where inv: "lrsc_invalidation c t e ?s = (e', s')" by fastforce
  have e': "e' = e"
    using inv st cl by (auto simp: lrsc_invalidation_def Let_def split: if_splits)
  have lr: "lr_reservation t e ?s = ?s" using cl by (simp add: lr_reservation_def)
  have s': "s' = ?s\<lparr>lrsc_buf_m := lrsc_buf_m s'\<rparr>"
    using reservation_frame(1) [of c t e ?s e' s'] inv lr by simp
  have f: "ram_m s' = ram_m s" "nb_error s' = nb_error s"
    by (subst s', simp add: count_core_req_frame)+
  have step: "core_req_step c junk t s = dispatch_request c t e s'"
    using assms(2) cl inv lr
    by (simp add: core_req_step_def Let_def count_core_req_frame read_expected_def e' flip: e_def)
  have ram: "wf_ram (ram_m s')" "ram_size (ram_m s') = SCOREBOARD_RAM_SIZE"
    using assms(1) by (simp_all add: sb_ready_def f)
  obtain m where m: "store_ram c t e s' = Inr (s'\<lparr>ram_m := m\<rparr>)"
    and abs: "\<forall>a. ram_abs m a =
          (if ram_window c t \<le> a \<and> a < ram_window c t + 8 * HPDCACHE_REQ_WORDS c
              \<and> bit (req_be t) (a - ram_window c t)
           then Some (data_byte (req_wdata t) (a - ram_window c t)) else ram_abs (ram_m s') a)"
    using store_ram_spec [OF cfg ram st ok addr data] by blast
  have "dispatch_request c t e s' = Inr (track_request t e (s'\<lparr>ram_m := m\<rparr>))"
    using cl m by (simp add: dispatch_request_def forwards_atomic_def)
  then show ?thesis
    using abs unfolding step by (intro exI) (auto simp: track_request_frame f)
qed

definition load_entry :: "cfg \<Rightarrow> req \<Rightarrow> inflight_entry \<Rightarrow> bool" where
  "load_entry c t e \<longleftrightarrow> e_is_read e \<and> \<not> e_is_amo e \<and> \<not> e_is_amo_sc e \<and> \<not> e_is_error e
     \<and> e_addr e = req_address t \<and> e_bytes e = push_bit (req_size t) 1 \<and> junk_ok c e"

lemma new_entry_kind:
  "e_is_read (mark_error t s (make_entry c junk t s')) = is_load t"
  "e_is_amo (mark_error t s (make_entry c junk t s')) = is_amo t"
  "e_is_amo_sc (mark_error t s (make_entry c junk t s')) = is_amo_sc t"
  "e_is_amo_lr (mark_error t s (make_entry c junk t s')) = is_amo_lr t"
  "e_is_write (mark_error t s (make_entry c junk t s')) = is_store t"
  "e_op (mark_error t s (make_entry c junk t s')) = req_op t"
  by (simp_all add: mark_error_def make_entry_def Let_def split: option.split)

lemma load_step:
  assumes "sb_ready c s" and "sm_wf (inflight_m s)" and "sm_find (inflight_m s) (req_tid t) = None"
    and ld: "is_load t" and "req_need_rsp t" and "\<not> in_error_region t s" and "junk_ok c junk"
  shows "\<exists>u e. core_req_step c junk t s = Inr u \<and> nb_error u = nb_error s \<and> ram_m u = ram_m s
     \<and> sm_find (inflight_m u) (req_tid t) = Some e \<and> load_entry c t e
     \<and> (\<forall>i < 8 * HPDCACHE_REQ_WORDS c. ram_abs (ram_m s) (ram_window c t + i)
           = (if bit (e_rv e ! (i div 8)) (i mod 8) then Some (e_rdata e ! i) else None))"
proof -
  note cl = class_exclusive(2) [OF ld]
  let ?s = "count_core_req t s"
  define e where "e = mark_error t ?s (make_entry c junk t ?s)"
  have addr: "e_addr e = req_address t" and ok: "\<not> e_is_error e"
    and jk: "length (e_rdata e) = 8 * HPDCACHE_REQ_WORDS c" "length (e_rv e) = HPDCACHE_REQ_WORDS c"
    using assms(6,7) cl by (simp_all add: e_def new_entry_fields count_core_req_frame junk_ok_def)
  have cfg: "sb_cfg c" and ram: "wf_ram (ram_m ?s)" "ram_size (ram_m ?s) = SCOREBOARD_RAM_SIZE"
    using assms(1) by (simp_all add: sb_ready_def count_core_req_frame)
  have ld': "is_load t \<or> is_amo_lr t \<or> is_amo t" using ld by simp
  obtain rd rv where r: "read_expected c t ?s e = Inr (e\<lparr>e_rdata := rd, e_rv := rv\<rparr>)"
    and l: "length rd = length (e_rdata e)" "length rv = length (e_rv e)"
    and abs: "\<forall>i < 8 * HPDCACHE_REQ_WORDS c. ram_abs (ram_m ?s) (ram_window c t + i)
           = (if bit (rv ! (i div 8)) (i mod 8) then Some (rd ! i) else None)"
    using read_expected_spec [OF cfg ram ld' ok addr jk] by blast
  let ?e = "e\<lparr>e_rdata := rd, e_rv := rv\<rparr>"
  have "load_entry c t ?e"
    using ld cl ok addr jk l
    by (simp add: load_entry_def junk_ok_def) (simp add: e_def new_entry_kind new_entry_fields)
  moreover have "core_req_step c junk t s = Inr (track_request t ?e ?s)"
    using assms(3) cl r
    by (simp add: core_req_step_def Let_def count_core_req_frame lr_reservation_def
        lrsc_invalidation_def dispatch_request_def forwards_atomic_def store_ram_def flip: e_def)
  moreover have "sm_find (inflight_m (track_request t ?e ?s)) (req_tid t) = Some ?e"
    by (rule tracked_entry) (use assms in \<open>simp_all add: count_core_req_frame\<close>)
  ultimately show ?thesis
    using abs by (auto simp: track_request_frame count_core_req_frame)
qed

section \<open>Comparing the data of a response\<close>

text \<open>Byte \<open>i\<close> is known and the response has another value.\<close>

definition wrong_byte :: "inflight_entry \<Rightarrow> resp \<Rightarrow> nat \<Rightarrow> bool" where
  "wrong_byte e r i \<longleftrightarrow> bit (e_rv e ! (i div 8)) (i mod 8) \<and> data_byte (rsp_rdata r) i \<noteq> e_rdata e ! i"

definition entry_ok :: "cfg \<Rightarrow> inflight_entry \<Rightarrow> bool" where
  "entry_ok c e \<longleftrightarrow> junk_ok c e \<and> entry_byte c e + unat (e_bytes e) \<le> 8 * HPDCACHE_REQ_WORDS c"

definition rsp_bytes :: "cfg \<Rightarrow> resp \<Rightarrow> u8 list" where
  "rsp_bytes c r = bytes_of_words (map (rsp_word c r) [0..<CORE_REQ_WORDS c])"

lemma nth_rsp_bytes:
  assumes "sb_cfg c" and "i < 8 * HPDCACHE_REQ_WORDS c"
  shows "rsp_bytes c r ! i = data_byte (rsp_rdata r) i"
proof -
  have "rsp_word c r = (\<lambda>i. bv_to_uint64 (get_field (i * 64) 64 (rsp_rdata r)))"
    using assms(1) by (auto simp: rsp_word_def sb_cfg_def)
  then show ?thesis using nth_lanes [OF assms(2)] by (simp add: rsp_bytes_def CORE_REQ_WORDS_def)
qed

lemma check_byte_spec:
  assumes "sb_cfg c" and "junk_ok c e" and "i < 8 * HPDCACHE_REQ_WORDS c" and "sb_error_limit_m s = 0"
  shows "\<exists>t. check_byte c e (rsp_bytes c r) i s = Inr t
     \<and> nb_error t = nb_error s + (if wrong_byte e r i then 1 else 0)"
proof -
  have "length (rsp_bytes c r) = 8 * HPDCACHE_REQ_WORDS c"
    by (simp add: rsp_bytes_def CORE_REQ_WORDS_def)
  moreover have "i div 8 < length (e_rv e)" "i < length (e_rdata e)"
    using assms(2,3) by (auto simp: junk_ok_def)
  moreover have "drop_bit (i mod 8) b AND 1 \<noteq> 0 \<longleftrightarrow> bit b (i mod 8)" for b :: u8
    by (simp add: bit_iff_and_drop_bit_eq_1 and_one_eq)
  ultimately show ?thesis
    using assms
    by (simp add: check_byte_def Let_def sb_widths [OF assms(1)] nth_rsp_bytes wrong_byte_def
        print_error_def)
qed

lemma check_data_count:
  assumes "sb_cfg c" and "junk_ok c e" and "sb_error_limit_m s = 0"
    and "\<forall>i \<in> set is. i < 8 * HPDCACHE_REQ_WORDS c"
  shows "\<exists>t. fold_ok (check_byte c e (rsp_bytes c r)) is s = Inr t
     \<and> nb_error t = nb_error s + length (filter (wrong_byte e r) is)"
  using assms(3,4)
proof (induction "is" arbitrary: s)
  case Nil
  then show ?case by simp
next
  case (Cons i "is")
  obtain t where t: "check_byte c e (rsp_bytes c r) i s = Inr t"
    "nb_error t = nb_error s + (if wrong_byte e r i then 1 else 0)"
    using check_byte_spec [OF assms(1,2) _ Cons.prems(1), of i r] Cons.prems(2) by auto
  have "sb_error_limit_m t = 0"
    using checks_fields(8) [OF check_byte_checks [OF t(1)]] Cons.prems(1) by simp
  then obtain u where "fold_ok (check_byte c e (rsp_bytes c r)) is t = Inr u"
    "nb_error u = nb_error t + length (filter (wrong_byte e r) is)"
    using Cons.IH [of t] Cons.prems(2) by auto
  then show ?case using t by auto
qed

lemma check_data_spec:
  assumes "sb_cfg c" and "entry_ok c e" and "sb_error_limit_m s = 0"
  shows "\<exists>t. check_data c e (rsp_bytes c r) s = Inr t \<and> checks s t
     \<and> nb_error t = nb_error s
         + length (filter (wrong_byte e r) [entry_byte c e..<entry_byte c e + unat (e_bytes e)])"
proof -
  have "\<forall>i \<in> set [entry_byte c e..<entry_byte c e + unat (e_bytes e)]. i < 8 * HPDCACHE_REQ_WORDS c"
    using assms(2) by (auto simp: entry_ok_def)
  then show ?thesis
    using check_data_count [OF assms(1) _ assms(3)] assms(2) check_data_checks
    unfolding check_data_def entry_ok_def by blast
qed

text \<open>The response to a load, without the error flag.\<close>

lemma load_response_step:
  assumes cfg: "sb_cfg c" and wf: "sm_wf (inflight_m s)" and lim: "sb_error_limit_m s = 0"
    and find: "sm_find (inflight_m s) (rsp_tid r) = Some e" and ok: "entry_ok c e"
    and kind: "e_is_read e" "\<not> e_is_amo e" "\<not> e_is_amo_sc e"
    and flag: "\<not> e_is_error e" "\<not> rsp_error r"
  shows "\<exists>u. core_resp_step c r s = Inr u
     \<and> nb_error u = nb_error s
         + length (filter (wrong_byte e r) [entry_byte c e..<entry_byte c e + unat (e_bytes e)])
     \<and> sm_find (inflight_m u) = (sm_find (inflight_m s))(rsp_tid r := None)
     \<and> seq u = fst (deallocate_id (rsp_tid r) (seq s))"
proof -
  let ?s = "s\<lparr>nb_core_resp := nb_core_resp s + 1, nb_cycles_effective := nb_cycles s\<rparr>"
  have lim': "sb_error_limit_m ?s = 0" using lim by simp
  obtain v where v: "check_data c e (rsp_bytes c r) ?s = Inr v" and ck: "checks ?s v"
    and n: "nb_error v = nb_error ?s
         + length (filter (wrong_byte e r) [entry_byte c e..<entry_byte c e + unat (e_bytes e)])"
    using check_data_spec [OF cfg ok lim'] by blast
  have "check_response c e r ?s = Inr v"
    using v kind flag
    by (simp add: check_response_def check_sc_def update_amo_def flip: rsp_bytes_def)
  then have "core_resp_step c r s = Inr (retire_request (rsp_tid r) v)"
    using find flag by (simp add: core_resp_step_def Let_def)
  moreover have "sm_find (sm_erase (rsp_tid r) (inflight_m s))
      = (sm_find (inflight_m s))(rsp_tid r := None)"
    by (rule sm.find_erase [OF wf])
  ultimately show ?thesis
    using n checks_fields [OF ck] by (simp add: retire_request_def release_id_def)
qed

section \<open>Properties of stores and loads\<close>

lemma load_after_store_entry:
  assumes "sb_cfg c" and "sb_reach c (sb_init lrsc sq segs n) s"
    and st: "is_store t1" "\<not> in_error_region t1 s" "sm_find (inflight_m s) (req_tid t1) = None"
    and u: "core_req_step c j1 t1 s = Inr u"
    and ld: "is_load t2" "req_need_rsp t2" "\<not> in_error_region t2 u"
      "sm_find (inflight_m u) (req_tid t2) = None" "junk_ok c j2"
    and same: "unat (req_address t2) div (8 * HPDCACHE_REQ_WORDS c)
             = unat (req_address t1) div (8 * HPDCACHE_REQ_WORDS c)"
  shows "\<exists>v e. core_req_step c j2 t2 u = Inr v \<and> sm_find (inflight_m v) (req_tid t2) = Some e \<and> load_entry c t2 e
     \<and> (\<forall>i < 8 * HPDCACHE_REQ_WORDS c. bit (req_be t1) i \<longrightarrow>
          bit (e_rv e ! (i div 8)) (i mod 8) \<and> e_rdata e ! i = data_byte (req_wdata t1) i)"
proof -
  have inv: "sb_inv s" "sb_inv u"
    using sb_inv_reach [OF assms(2) sb_inv_init] sb_inv_core_req u by blast+
  then have rdy: "sb_ready c s" "sb_ready c u" and wf: "sm_wf (inflight_m u)"
    using assms(1) by (simp_all add: sb_ready_def sb_inv_def entries_ok_def)
  have win: "ram_window c t2 = ram_window c t1" using same by (simp add: ram_window_def align_to_def)
  have abs: "ram_abs (ram_m u) (ram_window c t2 + i) = Some (data_byte (req_wdata t1) i)"
    if "i < 8 * HPDCACHE_REQ_WORDS c" "bit (req_be t1) i" for i
    using store_step [OF rdy(1) st(3) st(1,2), of j1] u that by (auto simp: win)
  obtain v e where v: "core_req_step c j2 t2 u = Inr v" "sm_find (inflight_m v) (req_tid t2) = Some e"
      "load_entry c t2 e"
    and e: "\<forall>i < 8 * HPDCACHE_REQ_WORDS c. ram_abs (ram_m u) (ram_window c t2 + i)
           = (if bit (e_rv e ! (i div 8)) (i mod 8) then Some (e_rdata e ! i) else None)"
    using load_step [OF rdy(2) wf ld(4,1,2,3,5)] by blast
  have "bit (e_rv e ! (i div 8)) (i mod 8) \<and> e_rdata e ! i = data_byte (req_wdata t1) i"
    if "i < 8 * HPDCACHE_REQ_WORDS c" "bit (req_be t1) i" for i
    using e [rule_format, OF that(1)] abs [OF that] by (simp split: if_splits)
  then show ?thesis using v by blast
qed

text \<open>
  what is stored is what a later load is checked against. In a reachable state, a store
  outside of the error segments followed by a load of the same bus window makes the load's
  entry hold, for every byte the store enabled, that byte of the store's data, marked as
  known.
\<close>

theorem load_after_store:
  assumes "sb_cfg c" and "sb_reach c (sb_init lrsc sq segs n) s"
    and st: "is_store t1" "\<not> in_error_region t1 s" "sm_find (inflight_m s) (req_tid t1) = None"
    and u: "core_req_step c j1 t1 s = Inr u"
    and ld: "is_load t2" "req_need_rsp t2" "\<not> in_error_region t2 u"
      "sm_find (inflight_m u) (req_tid t2) = None" "junk_ok c j2"
    and same: "unat (req_address t2) div (8 * HPDCACHE_REQ_WORDS c)
             = unat (req_address t1) div (8 * HPDCACHE_REQ_WORDS c)"
  shows "\<exists>v e. core_req_step c j2 t2 u = Inr v \<and> sm_find (inflight_m v) (req_tid t2) = Some e
     \<and> (\<forall>i < 8 * HPDCACHE_REQ_WORDS c. bit (req_be t1) i \<longrightarrow>
          bit (e_rv e ! (i div 8)) (i mod 8) \<and> e_rdata e ! i = data_byte (req_wdata t1) i)"
  using load_after_store_entry [OF assms] by blast

definition ex_store :: req where
  "ex_store = req_new\<lparr>req_op := op_code HPDCACHE_REQ_STORE, req_tid := 3, req_addr := 4096,
     req_wdata := 0x1234, req_be := 3, req_size := 1\<rparr>"
definition ex_load :: req where
  "ex_load = req_new\<lparr>req_op := op_code HPDCACHE_REQ_LOAD, req_tid := 4, req_need_rsp := True,
     req_addr := 4096, req_size := 1\<rparr>"

lemma ex_load_after_store_premises:
  "is_store ex_store" "is_load ex_load" "req_need_rsp ex_load" "junk_ok default_cfg ex_junk"
  "\<not> in_error_region t ex_sb" "sm_find (inflight_m ex_sb) k = None" "req_tid ex_load = 4"
  by (simp_all add: ex_store_def ex_load_def is_store_def is_load_def junk_ok_def ex_junk_def
      default_cfg_def in_error_region_def ex_sb_def sb_init_def set_error_limit_def
      set_mem_resp_model_def scoreboard_new_def)

lemma ex_sb_start:
  "sb_reach default_cfg (sb_init \<lparr>rs_valid = False, rs_base_addr = 0, rs_end_addr = 0,
     rs_is_atomic = False\<rparr> ex_sq (Some []) 0) ex_sb"
  by (simp add: ex_sb_def sb_reach.start)

lemma ex_sb_ready: "sb_ready default_cfg ex_sb"
  using sb_inv_init [of _ ex_sq "Some []" 0]
  by (simp add: sb_ready_def sb_cfg_default ex_sb_def sb_inv_def)

lemma ex_store_run:
  assumes "core_req_step default_cfg ex_junk t ex_sb = Inr u" and "\<not> req_need_rsp t"
  shows "inflight_m u = []" and "mem_resp_model u = Some []"
proof -
  have "inflight_m ex_sb = []" by (simp add: ex_sb_def init_fields)
  with assms show "inflight_m u = []"
    by (cases rule: core_req_step_cases)
      (auto simp: print_error_Inr count_core_req_def track_request_def release_id_def)
  have "mem_resp_model ex_sb = Some []"
    by (simp add: ex_sb_def sb_init_def set_error_limit_def set_mem_resp_model_def)
  with assms show "mem_resp_model u = Some []"
    by (cases rule: core_req_step_cases)
      (auto simp: print_error_Inr count_core_req_def track_request_def release_id_def)
qed

theorem load_after_store_witness:
  "\<exists>u v e. core_req_step default_cfg ex_junk ex_store ex_sb = Inr u
     \<and> core_req_step default_cfg ex_junk ex_load u = Inr v
     \<and> sm_find (inflight_m v) 4 = Some e \<and> e_rdata e ! 1 = 0x12"
proof -
  note pr = ex_load_after_store_premises
  obtain u where u: "core_req_step default_cfg ex_junk ex_store ex_sb = Inr u"
    using store_step [OF ex_sb_ready pr(6,1,5), of ex_junk] by blast
  have "\<not> req_need_rsp ex_store" by (simp add: ex_store_def req_new_def)
  note f = ex_store_run [OF u this]
  have "bit (req_be ex_store) 1" by (simp add: ex_store_def bit_iff_odd)
  moreover have "data_byte (req_wdata ex_store) 1 = 0x12"
    by (simp add: data_byte_def ex_store_def drop_bit_eq_div)
  moreover have "HPDCACHE_REQ_WORDS default_cfg = 1" by (simp add: default_cfg_def)
  moreover have "\<exists>v e. core_req_step default_cfg ex_junk ex_load u = Inr v
     \<and> sm_find (inflight_m v) (req_tid ex_load) = Some e
     \<and> (\<forall>i < 8 * HPDCACHE_REQ_WORDS default_cfg. bit (req_be ex_store) i \<longrightarrow>
          bit (e_rv e ! (i div 8)) (i mod 8) \<and> e_rdata e ! i = data_byte (req_wdata ex_store) i)"
    by (rule load_after_store [OF sb_cfg_default ex_sb_start pr(1,5,6) u pr(2,3)])
      (simp_all add: f in_error_region_def pr ex_store_def ex_load_def req_address_def)
  ultimately show ?thesis using u by (auto simp: pr(7))
qed

lemma load_response_exact:
  assumes "sb_cfg c" and "sb_reach c (sb_init lrsc sq segs 0) s"
    and "sm_find (inflight_m s) (rsp_tid r) = Some e" and "entry_ok c e"
    and "e_is_read e" "\<not> e_is_amo e" "\<not> e_is_amo_sc e" "\<not> e_is_error e" "\<not> rsp_error r"
  shows "\<exists>u. core_resp_step c r s = Inr u
     \<and> (nb_error u = nb_error s \<longleftrightarrow>
          (\<forall>i. entry_byte c e \<le> i \<and> i < entry_byte c e + unat (e_bytes e)
             \<and> bit (e_rv e ! (i div 8)) (i mod 8) \<longrightarrow> data_byte (rsp_rdata r) i = e_rdata e ! i))
     \<and> nb_error u = nb_error s + card {i. entry_byte c e \<le> i \<and> i < entry_byte c e + unat (e_bytes e)
             \<and> bit (e_rv e ! (i div 8)) (i mod 8) \<and> data_byte (rsp_rdata r) i \<noteq> e_rdata e ! i}
     \<and> sm_find (inflight_m u) = (sm_find (inflight_m s))(rsp_tid r := None)
     \<and> seq u = fst (deallocate_id (rsp_tid r) (seq s))"
proof -
  let ?is = "[entry_byte c e..<entry_byte c e + unat (e_bytes e)]"
  let ?W = "{i. entry_byte c e \<le> i \<and> i < entry_byte c e + unat (e_bytes e)
             \<and> bit (e_rv e ! (i div 8)) (i mod 8) \<and> data_byte (rsp_rdata r) i \<noteq> e_rdata e ! i}"
  have lim: "sb_error_limit_m s = 0"
    using sb_reach_limit [OF assms(2)]
    by (simp add: sb_init_def set_error_limit_def set_mem_resp_model_def)
  have wf: "sm_wf (inflight_m s)"
    using sb_inv_reach [OF assms(2) sb_inv_init] by (simp add: sb_inv_def entries_ok_def)
  have W: "set (filter (wrong_byte e r) ?is) = ?W" by (auto simp: wrong_byte_def)
  have n: "length (filter (wrong_byte e r) ?is) = card ?W"
    unfolding W [symmetric] by (rule distinct_card [symmetric]) simp
  have fin: "finite ?W" unfolding W [symmetric] by (rule finite_set)
  then have zero: "card ?W = 0 \<longleftrightarrow> ?W = {}" by (rule card_0_eq)
  obtain u where u: "core_resp_step c r s = Inr u"
    "nb_error u = nb_error s + length (filter (wrong_byte e r) ?is)"
    "sm_find (inflight_m u) = (sm_find (inflight_m s))(rsp_tid r := None)"
    "seq u = fst (deallocate_id (rsp_tid r) (seq s))"
    using load_response_step [OF assms(1) wf lim assms(3,4,5,6,7,8,9)] by blast
  have "nb_error u = nb_error s + card ?W" using u(2) by (simp only: n)
  moreover from this have "nb_error u = nb_error s \<longleftrightarrow> ?W = {}" using zero by linarith
  ultimately show ?thesis using u(1,3,4) by (intro exI [of _ u]) blast
qed

text \<open>
  C6: what the check of a load's response counts: one error for each byte of the access that the
  scoreboard knows and that differs in the response, and none otherwise; the request leaves
  the table of inflight requests and its identifier goes back to the sequence.
\<close>

theorem load_response_checked:
  assumes "sb_cfg c" and "sb_reach c (sb_init lrsc sq segs 0) s"
    and "sm_find (inflight_m s) (rsp_tid r) = Some e" and "entry_ok c e"
    and "e_is_read e" "\<not> e_is_amo e" "\<not> e_is_amo_sc e" "\<not> e_is_error e" "\<not> rsp_error r"
  shows "\<exists>u. core_resp_step c r s = Inr u
     \<and> (nb_error u = nb_error s \<longleftrightarrow>
          (\<forall>i. entry_byte c e \<le> i \<and> i < entry_byte c e + unat (e_bytes e)
             \<and> bit (e_rv e ! (i div 8)) (i mod 8) \<longrightarrow> data_byte (rsp_rdata r) i = e_rdata e ! i))
     \<and> nb_error u = nb_error s + card {i. entry_byte c e \<le> i \<and> i < entry_byte c e + unat (e_bytes e)
             \<and> bit (e_rv e ! (i div 8)) (i mod 8) \<and> data_byte (rsp_rdata r) i \<noteq> e_rdata e ! i}
     \<and> sm_find (inflight_m u) = (sm_find (inflight_m s))(rsp_tid r := None)
     \<and> seq u = fst (deallocate_id (rsp_tid r) (seq s))"
  using load_response_exact [OF assms] by blast

theorem load_response_checked_witness:
  "\<exists>v w. sb_reach default_cfg ex_sb v \<and> core_resp_step default_cfg
     (resp_new\<lparr>rsp_tid := 4, rsp_rdata := 0x1235\<rparr>) v = Inr w \<and> nb_error w = nb_error v + 1"
proof -
  note pr = ex_load_after_store_premises
  let ?r = "resp_new\<lparr>rsp_tid := 4, rsp_rdata := 0x1235\<rparr>"
  have W: "HPDCACHE_REQ_WORDS default_cfg = 1" by (simp add: default_cfg_def)
  obtain u where u: "core_req_step default_cfg ex_junk ex_store ex_sb = Inr u"
    using store_step [OF ex_sb_ready pr(6,1,5), of ex_junk] by blast
  have "\<not> req_need_rsp ex_store" by (simp add: ex_store_def req_new_def)
  note f = ex_store_run [OF u this]
  have "\<exists>v e. core_req_step default_cfg ex_junk ex_load u = Inr v
     \<and> sm_find (inflight_m v) (req_tid ex_load) = Some e \<and> load_entry default_cfg ex_load e
     \<and> (\<forall>i < 8 * HPDCACHE_REQ_WORDS default_cfg. bit (req_be ex_store) i \<longrightarrow>
          bit (e_rv e ! (i div 8)) (i mod 8) \<and> e_rdata e ! i = data_byte (req_wdata ex_store) i)"
    by (rule load_after_store_entry [OF sb_cfg_default ex_sb_start pr(1,5,6) u pr(2,3)])
      (simp_all add: f in_error_region_def pr ex_store_def ex_load_def req_address_def)
  then obtain v e where v: "core_req_step default_cfg ex_junk ex_load u = Inr v"
    and e: "sm_find (inflight_m v) (rsp_tid ?r) = Some e" "load_entry default_cfg ex_load e"
    and d: "\<forall>i < 8. bit (req_be ex_store) i \<longrightarrow>
          bit (e_rv e ! (i div 8)) (i mod 8) \<and> e_rdata e ! i = data_byte (req_wdata ex_store) i"
    by (auto simp: W pr(7))
  have r: "sb_reach default_cfg ex_sb v"
    using sb_reach.step [OF sb_reach.step [OF sb_reach.start, of _ "Core_req ex_junk ex_store"],
        of _ _ u "Core_req ex_junk ex_load" v] u v by simp
  have win: "entry_byte default_cfg e = 0" "unat (e_bytes e) = 2"
    using e(2) by (simp_all add: load_entry_def entry_byte_def sb_widths [OF sb_cfg_default] W
        req_address_def ex_load_def bv_to_uint64_def)
  then have ok: "entry_ok default_cfg e" using e(2) by (simp add: entry_ok_def load_entry_def W)
  note k = e(2) [unfolded load_entry_def]
  let ?W = "{i. entry_byte default_cfg e \<le> i \<and> i < entry_byte default_cfg e + unat (e_bytes e)
     \<and> bit (e_rv e ! (i div 8)) (i mod 8) \<and> data_byte (rsp_rdata ?r) i \<noteq> e_rdata e ! i}"
  have be: "bit (req_be ex_store) 0" "bit (req_be ex_store) 1"
    by (simp_all add: ex_store_def bit_iff_odd)
  have db: "data_byte (req_wdata ex_store) 0 = 0x34" "data_byte (req_wdata ex_store) 1 = 0x12"
    "data_byte (rsp_rdata ?r) 0 = 0x35" "data_byte (rsp_rdata ?r) 1 = 0x12"
    by (simp_all add: data_byte_def ex_store_def drop_bit_eq_div)
  have b0: "bit (e_rv e ! 0) 0" "e_rdata e ! 0 = 0x34" "e_rdata e ! 1 = 0x12"
    using d [rule_format, of 0] d [rule_format, of 1] be db(1,2) by simp_all
  have "?W = {0}"
  proof (rule set_eqI)
    fix i :: nat
    consider "i = 0" | "i = 1" | "2 \<le> i" by linarith
    then show "i \<in> ?W \<longleftrightarrow> i \<in> {0}"
      by cases (use b0 db(3,4) in \<open>simp_all add: win\<close>)
  qed
  then have "card ?W = 1" by simp
  then show ?thesis
    using load_response_checked [OF sb_cfg_default r [unfolded ex_sb_def] e(1) ok, folded ex_sb_def] k r
    by (auto simp: resp_new_def)
qed

end
