(* ===== verification/Scoreboard_Atomics.thy ===== *)
theory Scoreboard_Atomics
  imports Scoreboard_Check
begin

text \<open>
  The atomic accesses of \<open>rtl/tb/include/hpdcache_test_scoreboard.h\<close>: the reservation that an LR
  makes and the accesses that break it, the check of an SC, the update of the memory image
  by an atomic operation, and what a response of the memory teaches the scoreboard.
\<close>

section \<open>The reservation in terms of addresses\<close>

text \<open>
  The double words of an access: the first one, and how many. \<open>overlaps\<close> is the test of the
  code read on addresses: same line, and the reserved double word is one of the access.
\<close>

definition dword :: "u64 \<Rightarrow> nat" where
  "dword a = unat a div 8"

definition dwords :: "u8 \<Rightarrow> nat" where
  "dwords bytes = (if bytes < 8 then 1 else unat bytes div 8)"

definition overlaps :: "cfg \<Rightarrow> u64 \<Rightarrow> u8 \<Rightarrow> u64 \<Rightarrow> bool" where
  "overlaps c addr bytes base \<longleftrightarrow>
     unat base div 2 ^ HPDCACHE_CL_OFFSET_WIDTH c = unat addr div 2 ^ HPDCACHE_CL_OFFSET_WIDTH c
     \<and> dword addr \<le> dword base \<and> dword base < dword addr + dwords bytes"

lemma get_nline_eq:
  "get_nline c a = get_nline c b \<longleftrightarrow>
     unat a div 2 ^ HPDCACHE_CL_OFFSET_WIDTH c = unat b div 2 ^ HPDCACHE_CL_OFFSET_WIDTH c"
  unfolding get_nline_def word_unat_eq_iff by (simp only: unat_drop_bit_u64)

lemma unat_offset_word:
  "unat (drop_bit 3 (get_offset c a)) = unat a mod 2 ^ HPDCACHE_CL_OFFSET_WIDTH c div 8"
proof -
  have "get_offset c a = take_bit (HPDCACHE_CL_OFFSET_WIDTH c) a"
    by (simp add: get_offset_def take_bit_eq_mask mask_eq_exp_minus_1 push_bit_of_1)
  then show ?thesis by (simp add: unat_drop_bit_u64 unat_take_bit_u64)
qed

lemma dword_split:
  assumes "3 \<le> w"
  shows "(n :: nat) div 8 = n div 2 ^ w * 2 ^ (w - 3) + n mod 2 ^ w div 8"
proof -
  have p: "(2 :: nat) ^ w = 8 * 2 ^ (w - 3)"
    using power_add [of "2 :: nat" 3 "w - 3"] assms by simp
  have "n = 2 ^ w * (n div 2 ^ w) + n mod 2 ^ w" by simp
  also have "\<dots> = 8 * (n div 2 ^ w * 2 ^ (w - 3)) + n mod 2 ^ w"
    by (simp only: p mult.assoc mult.commute mult.left_commute)
  finally have "n div 8 = (8 * (n div 2 ^ w * 2 ^ (w - 3)) + n mod 2 ^ w) div 8"
    by (rule arg_cong)
  then show ?thesis by simp
qed

lemma unat_drop_bit_u8: "unat (drop_bit n (b :: u8)) = unat b div 2 ^ n"
proof -
  have "unat b < 2 ^ 8" using unsigned_less [where 'a = nat, of b] by simp
  then have "unat (drop_bit n b) = drop_bit n (unat b)"
    by (simp add: unsigned_drop_bit_eq take_bit_nat_eq_self)
  then show ?thesis by (simp add: drop_bit_eq_div [where 'a = nat])
qed

lemma unat_dwords: "unat (if b < 8 then 1 else ucast (drop_bit 3 (b :: u8)) :: u64) = dwords b"
proof -
  have "unat (drop_bit 3 b) = unat b div 8"
    using unat_drop_bit_u8 [of 3 b] by (simp only:) simp
  moreover have "unat (ucast (x :: u8) :: u64) = unat x" for x by (simp add: unsigned_ucast_eq
      take_bit_nat_eq_self order_less_trans [OF unsigned_less])
  ultimately show ?thesis by (simp add: dwords_def)
qed

lemma lrsc_addr_match_iff:
  assumes "3 \<le> HPDCACHE_CL_OFFSET_WIDTH c"
  shows "lrsc_addr_match c e b \<longleftrightarrow> rs_valid b \<and> overlaps c (e_addr e) (e_bytes e) (rs_base_addr b)"
proof -
  let ?o = "HPDCACHE_CL_OFFSET_WIDTH c"
  define p where "p = drop_bit 3 (get_offset c (rs_base_addr b))"
  define q where "q = drop_bit 3 (get_offset c (e_addr e))"
  define w where "w = (if e_bytes e < 8 then 1 else ucast (drop_bit 3 (e_bytes e)) :: u64)"
  have up: "unat p = unat (rs_base_addr b) mod 2 ^ ?o div 8"
    and uq: "unat q = unat (e_addr e) mod 2 ^ ?o div 8" and uw: "unat w = dwords (e_bytes e)"
    by (simp_all only: p_def q_def w_def unat_offset_word unat_dwords)
  have "unat (e_addr e) mod 2 ^ ?o \<le> unat (e_addr e)" by (rule mod_less_eq_dividend)
  then have "unat (e_addr e) mod 2 ^ ?o < 2 ^ 64" using unat_u64_less [of "e_addr e"] by linarith
  then have "unat q < 2 ^ 61" unfolding uq by simp
  moreover have "unat (e_bytes e) < 256" using unsigned_less [where 'a = nat, of "e_bytes e"] by simp
  then have "unat w < 32" unfolding uw by (auto simp: dwords_def)
  ultimately have uqw: "unat (q + w) = unat q + unat w" by (subst unat_word_ariths) simp
  have "lrsc_addr_match c e b \<longleftrightarrow> rs_valid b \<and> get_nline c (rs_base_addr b) = get_nline c (e_addr e)
      \<and> q \<le> p \<and> p < q + w"
    by (simp add: lrsc_addr_match_def Let_def p_def q_def w_def)
  also have "\<dots> \<longleftrightarrow> rs_valid b \<and> get_nline c (rs_base_addr b) = get_nline c (e_addr e)
      \<and> unat q \<le> unat p \<and> unat p < unat q + dwords (e_bytes e)"
    by (simp only: word_le_nat_alt word_less_nat_alt uqw uw)
  also have "\<dots> \<longleftrightarrow> rs_valid b \<and> overlaps c (e_addr e) (e_bytes e) (rs_base_addr b)"
  proof -
    have "dword (rs_base_addr b) = unat (rs_base_addr b) div 2 ^ ?o * 2 ^ (?o - 3) + unat p"
      "dword (e_addr e) = unat (e_addr e) div 2 ^ ?o * 2 ^ (?o - 3) + unat q"
      unfolding dword_def up uq by (rule dword_split [OF assms])+
    then show ?thesis unfolding overlaps_def get_nline_eq by auto
  qed
  finally show ?thesis .
qed

section \<open>Reservation and SC requests\<close>

lemma read_expected_keeps:
  assumes "read_expected c t s e = Inr e'"
  shows "e_addr e' = e_addr e" and "e_bytes e' = e_bytes e" and "e_is_error e' = e_is_error e"
  using assms by (auto simp: read_expected_def andthen_Inr_iff split: if_splits prod.splits)

text \<open>What the two blocks on the reservation leave, for a request at the given entry.\<close>

definition next_reservation :: "cfg \<Rightarrow> req \<Rightarrow> scoreboard \<Rightarrow> lrsc_reservation_buf" where
  "next_reservation c t s =
     (let b = lrsc_buf_m s; a = req_address t; n = push_bit (req_size t) 1 :: u8
      in if is_amo_lr t then
           (if in_error_region t s then b\<lparr>rs_valid := False\<rparr>
            else \<lparr>rs_valid = True, rs_base_addr = a, rs_end_addr = a + 8, rs_is_atomic = False\<rparr>)
         else if is_amo_sc t
             \<or> (is_store t \<or> is_amo t) \<and> rs_valid b \<and> overlaps c a n (rs_base_addr b)
           then b\<lparr>rs_valid := False\<rparr>
         else b)"

lemma reservation_blocks:
  assumes cw: "3 \<le> HPDCACHE_CL_OFFSET_WIDTH c"
    and addr: "e_addr e = req_address t" "e_bytes e = push_bit (req_size t) 1"
    and err: "is_amo_lr t \<Longrightarrow> e_is_error e = in_error_region t s"
    and inv: "lrsc_invalidation c t e (lr_reservation t e s) = (e', s')"
  shows "lrsc_buf_m s' = next_reservation c t s"
proof (cases "is_amo_lr t")
  case True
  then have "\<not> is_amo_sc t" "\<not> is_store t" "\<not> is_amo t" by (simp_all add: op_class_defs)
  then show ?thesis
    using True inv err addr(1)
    by (auto simp: lrsc_invalidation_def lr_reservation_def next_reservation_def Let_def)
next
  case False
  then have "lr_reservation t e s = s" by (simp add: lr_reservation_def)
  then show ?thesis
    using inv False addr lrsc_addr_match_iff [OF cw, of e "lrsc_buf_m s"]
    by (auto simp: lrsc_invalidation_def next_reservation_def Let_def split: if_splits)
qed

lemma dispatch_reservation:
  assumes "dispatch_request c t e s = Inr u"
  shows "lrsc_buf_m u = lrsc_buf_m s"
  using assms
  by (auto simp: dispatch_request_def Let_def andthen_Inr_iff print_error_Inr track_request_frame
      split: if_splits dest!: store_ram_frame)

lemma mark_error_cmo: "is_cmo t \<Longrightarrow> e_addr (mark_error t s e) = e_addr e"
  "e_bytes (mark_error t s e) = e_bytes e"
  by (simp_all add: mark_error_def split: option.split)

lemma new_entry_place:
  "e_addr (mark_error t s (make_entry c junk t s')) = req_address t"
  "e_bytes (mark_error t s (make_entry c junk t s')) = push_bit (req_size t) 1"
  by (simp_all add: mark_error_def make_entry_def Let_def req_address_def split: option.split)

lemma core_req_reservation:
  assumes cw: "3 \<le> HPDCACHE_CL_OFFSET_WIDTH c" and find: "sm_find (inflight_m s) (req_tid t) = None"
    and step: "core_req_step c junk t s = Inr u"
  shows "lrsc_buf_m u = next_reservation c t s"
proof (cases "is_cmo t \<and> \<not> req_need_rsp t")
  case True
  then have "\<not> is_amo_lr t" "\<not> is_amo_sc t" "\<not> is_store t" "\<not> is_amo t"
    by (auto simp: op_class_defs)
  then show ?thesis
    using True step find
    by (auto simp: core_req_step_def Let_def count_core_req_frame next_reservation_def
        release_id_def)
next
  case False
  let ?s = "count_core_req t s"
  obtain e where e: "read_expected c t ?s (mark_error t ?s (make_entry c junk t ?s)) = Inr e"
    and rest: "(let (e, s) = lrsc_invalidation c t e (lr_reservation t e ?s)
                in dispatch_request c t e s) = Inr u"
    using step find False by (auto simp: core_req_step_def Let_def count_core_req_frame andthen_Inr_iff)
  obtain e' s' where inv: "lrsc_invalidation c t e (lr_reservation t e ?s) = (e', s')" by fastforce
  have place: "e_addr e = req_address t" "e_bytes e = push_bit (req_size t) 1"
    using read_expected_keeps [OF e] by (simp_all add: new_entry_place)
  have err: "e_is_error e = in_error_region t ?s" if "is_amo_lr t"
    using read_expected_keeps(3) [OF e] class_exclusive(3) [OF that]
    by (simp add: new_entry_fields)
  have "lrsc_buf_m s' = next_reservation c t ?s"
    by (rule reservation_blocks [OF cw place err inv])
  moreover have "next_reservation c t ?s = next_reservation c t s"
    by (simp add: next_reservation_def Let_def count_core_req_frame)
  moreover have "dispatch_request c t e' s' = Inr u" using rest inv by simp
  then have "lrsc_buf_m u = lrsc_buf_m s'" by (rule dispatch_reservation)
  ultimately show ?thesis by simp
qed

text \<open>The round of an SC that waits for a response.\<close>

lemma sc_step:
  assumes cw: "3 \<le> HPDCACHE_CL_OFFSET_WIDTH c" and wf: "sm_wf (inflight_m s)"
    and find: "sm_find (inflight_m s) (req_tid t) = None"
    and sc: "is_amo_sc t" and "req_need_rsp t" and room: "length (inflight_amo_req_m s) < SC_FIFO_DEPTH"
  shows "\<exists>u e. core_req_step c junk t s = Inr u \<and> sm_find (inflight_m u) (req_tid t) = Some e
     \<and> e_is_atomic e = (rs_valid (lrsc_buf_m s)
          \<and> overlaps c (req_address t) (push_bit (req_size t) 1) (rs_base_addr (lrsc_buf_m s)))
     \<and> e_is_error e = (in_error_region t s \<and> e_is_atomic e)
     \<and> inflight_amo_req_m u = inflight_amo_req_m s @ (if e_is_atomic e then [e] else [])
     \<and> ram_m u = ram_m s"
proof -
  note cl = class_exclusive(4) [OF sc]
  let ?s = "count_core_req t s"
  define e where "e = mark_error t ?s (make_entry c junk t ?s)"
  define m where "m = lrsc_addr_match c e (lrsc_buf_m ?s)"
  define e' where "e' = e\<lparr>e_is_error := (e_is_error e \<and> m), e_is_atomic := m\<rparr>"
  define s' where "s' = ?s\<lparr>lrsc_buf_m := (lrsc_buf_m ?s)\<lparr>rs_valid := False\<rparr>\<rparr>"
  define q where "q = inflight_amo_req_m s @ (if m then [e'] else [])"
  have err: "e_is_error e = in_error_region t s"
    using cl by (simp add: e_def new_entry_fields count_core_req_frame)
  have m: "m = (rs_valid (lrsc_buf_m s)
          \<and> overlaps c (req_address t) (push_bit (req_size t) 1) (rs_base_addr (lrsc_buf_m s)))"
    unfolding m_def lrsc_addr_match_iff [OF cw]
    by (simp add: e_def new_entry_place count_core_req_frame)
  have inv: "lrsc_invalidation c t e ?s = (e', s')"
    using sc by (simp add: lrsc_invalidation_def Let_def e'_def s'_def m_def)
  have step: "core_req_step c junk t s = dispatch_request c t e' s'"
    using find cl inv
    by (simp add: core_req_step_def Let_def count_core_req_frame read_expected_def
        lr_reservation_def flip: e_def)
  have fw: "forwards_atomic t e' = m" using sc cl by (simp add: forwards_atomic_def e'_def)
  have amo: "inflight_amo_req_m s' = inflight_amo_req_m s"
    by (simp add: s'_def count_core_req_frame)
  have q': "q = inflight_amo_req_m s' @ (if m then [e'] else [])" by (simp add: q_def amo)
  have room': "length (inflight_amo_req_m s') < SC_FIFO_DEPTH" using room by (simp add: amo)
  have "dispatch_request c t e' s' = Inr (track_request t e' (s'\<lparr>inflight_amo_req_m := q\<rparr>))"
    using cl room' by (cases m) (simp_all add: dispatch_request_def fw store_ram_def q')
  moreover have "sm_find (inflight_m (track_request t e' (s'\<lparr>inflight_amo_req_m := q\<rparr>))) (req_tid t)
      = Some e'"
    by (rule tracked_entry) (use assms in \<open>simp_all add: s'_def count_core_req_frame\<close>)
  moreover have "e_is_atomic e' = m" "e_is_error e' = (in_error_region t s \<and> m)"
    by (simp_all add: e'_def err)
  moreover have "inflight_amo_req_m (track_request t e' (s'\<lparr>inflight_amo_req_m := q\<rparr>)) = q"
    "ram_m (track_request t e' (s'\<lparr>inflight_amo_req_m := q\<rparr>)) = ram_m s"
    by (simp_all add: track_request_frame s'_def count_core_req_frame)
  ultimately show ?thesis
    unfolding step m [symmetric]
    by (intro exI [of _ "track_request t e' (s'\<lparr>inflight_amo_req_m := q\<rparr>)"] exI [of _ e'])
      (simp add: q_def)
qed

section \<open>Responses to SC and atomic operations\<close>

text \<open>The offset in the RAM of the double word an entry addresses.\<close>

definition ram_dword :: "inflight_entry \<Rightarrow> nat" where
  "ram_dword e = align_to (e_addr e) 8 mod SCOREBOARD_RAM_SIZE"

lemma write_entry_word_spec:
  assumes "sb_ready c s" and "ws \<noteq> []" and "be \<noteq> []"
  shows "\<exists>m. write_entry_word c e ws be s = Inr (s\<lparr>ram_m := m\<rparr>)
     \<and> (\<forall>a. ram_abs m a = (if ram_dword e \<le> a \<and> a < ram_dword e + 8 \<and> bit (hd be) (a - ram_dword e)
           then Some (byte_of (hd ws) (a - ram_dword e)) else ram_abs (ram_m s) a))"
proof -
  have ram: "wf_ram (ram_m s)" and sz: "ram_size (ram_m s) = SCOREBOARD_RAM_SIZE" and cfg: "sb_cfg c"
    using assms(1) by (simp_all add: sb_ready_def)
  have off: "align_to (e_addr e) 8 mod ram_size (ram_m s) = ram_dword e"
    by (simp add: ram_dword_def sz)
  have "ram_dword e + 8 \<le> SCOREBOARD_RAM_SIZE"
    unfolding ram_dword_def align_to_def
    by (rule align_in_ram) (simp_all add: SCOREBOARD_RAM_SIZE_def push_bit_eq_mult)
  then have fits: "align_to (e_addr e) 8 mod ram_size (ram_m s) + 8 \<le> ram_size (ram_m s)"
    unfolding off unfolding sz .
  have len: "8 \<le> length (bytes_of_words ws)" "8 \<le> 8 * length be"
    using assms(2,3) by (cases ws; cases be; simp)+
  obtain m where m: "ram_write (ram_m s) (bytes_of_words ws) be 8 (align_to (e_addr e) 8) = Inr m"
    and abs: "ram_abs m = put_bytes (bytes_of_words ws) be (ram_dword e) 8 (ram_abs (ram_m s))"
    using ram_write_correct [OF ram fits len] by (auto simp only: off)
  have "ram_abs m a = (if ram_dword e \<le> a \<and> a < ram_dword e + 8 \<and> bit (hd be) (a - ram_dword e)
           then Some (byte_of (hd ws) (a - ram_dword e)) else ram_abs (ram_m s) a)" for a
  proof (cases "ram_dword e \<le> a \<and> a < ram_dword e + 8")
    case True
    then have "a - ram_dword e < 8" by linarith
    moreover have "ws ! 0 = hd ws" "be ! 0 = hd be" using assms(2,3) by (simp_all add: hd_conv_nth)
    moreover have "8 \<le> 8 * length ws" using assms(2) by (cases ws) simp_all
    then have "a - ram_dword e < 8 * length ws" using calculation(1) by linarith
    ultimately show ?thesis using True by (simp add: abs put_bytes_def nth_bytes_of_words)
  next
    case False
    then show ?thesis by (auto simp: abs put_bytes_def)
  qed
  then show ?thesis using m by (auto simp: write_entry_word_def sb_widths [OF cfg])
qed

text \<open>An entry of a store-conditional or of an atomic operation, whose data is in place.\<close>

definition data_entry :: "cfg \<Rightarrow> inflight_entry \<Rightarrow> bool" where
  "data_entry c e \<longleftrightarrow> length (e_wdata e) = HPDCACHE_REQ_WORDS c \<and> length (e_be e) = HPDCACHE_REQ_WORDS c
     \<and> \<not> e_is_error e \<and> \<not> e_is_write e"

lemma entry_word_less: "sb_cfg c \<Longrightarrow> entry_word c e < HPDCACHE_REQ_WORDS c"
  by (simp add: entry_word_def CORE_REQ_WORDS_def sb_cfg_def)

definition sc_success :: "scoreboard \<Rightarrow> inflight_entry \<Rightarrow> bool" where
  "sc_success s e \<longleftrightarrow> e_is_atomic e \<and> sc_is_atomic s"

definition sc_status :: "cfg \<Rightarrow> inflight_entry \<Rightarrow> resp \<Rightarrow> u64" where
  "sc_status c e r = (if e_bytes e = 4 then low_32 (rsp_word c r (entry_word c e))
     else rsp_word c r (entry_word c e))"

definition put_word :: "nat \<Rightarrow> u64 \<Rightarrow> u8 \<Rightarrow> (nat \<Rightarrow> u8 option) \<Rightarrow> nat \<Rightarrow> u8 option" where
  "put_word off w be f a =
     (if off \<le> a \<and> a < off + 8 \<and> bit be (a - off) then Some (byte_of w (a - off)) else f a)"

lemma check_sc_spec:
  assumes rdy: "sb_ready c s" and lim: "sb_error_limit_m s = 0" and sc: "e_is_amo_sc e"
    and ent: "data_entry c e"
  shows "\<exists>t. check_sc c e r s = Inr t
     \<and> nb_error t = nb_error s + (if sc_status c e r = (if sc_success s e then 0 else 1) then 0 else 1)
     \<and> ram_abs (ram_m t) = (if sc_success s e
          then put_word (ram_dword e) (e_wdata e ! entry_word c e) (e_be e ! entry_word c e)
                 (ram_abs (ram_m s))
          else ram_abs (ram_m s))"
proof -
  let ?w = "entry_word c e"
  have w: "?w < length (e_wdata e)" "?w < length (e_be e)"
    using entry_word_less [of c e] ent rdy by (simp_all add: data_entry_def sb_ready_def)
  have hd: "drop ?w (e_wdata e) \<noteq> []" "drop ?w (e_be e) \<noteq> []"
    "hd (drop ?w (e_wdata e)) = e_wdata e ! ?w" "hd (drop ?w (e_be e)) = e_be e ! ?w"
    using w by (simp_all add: hd_drop_conv_nth)
  obtain m where m: "write_entry_word c e (drop ?w (e_wdata e)) (drop ?w (e_be e)) s = Inr (s\<lparr>ram_m := m\<rparr>)"
    and abs: "\<forall>a. ram_abs m a = (if ram_dword e \<le> a \<and> a < ram_dword e + 8
           \<and> bit (e_be e ! ?w) (a - ram_dword e)
           then Some (byte_of (e_wdata e ! ?w) (a - ram_dword e)) else ram_abs (ram_m s) a)"
    using write_entry_word_spec [OF rdy hd(1,2)] by (auto simp only: hd)
  have abs': "ram_abs m = put_word (ram_dword e) (e_wdata e ! ?w) (e_be e ! ?w) (ram_abs (ram_m s))"
    by (rule ext) (simp add: abs put_word_def)
  have st: "(if e_bytes e = 4 then low_32 (rsp_word c r ?w) else rsp_word c r ?w) = sc_status c e r"
    by (simp add: sc_status_def)
  show ?thesis
  proof (cases "sc_success s e")
    case True
    then have "e_is_atomic e \<and> sc_is_atomic s" by (simp add: sc_success_def)
    then have "check_sc c e r s = (if sc_status c e r \<noteq> 0
        then print_error ''response shall be SC_SUCCESS'' (s\<lparr>ram_m := m\<rparr>) else Inr (s\<lparr>ram_m := m\<rparr>))"
      using sc m by (simp add: check_sc_def Let_def st)
    then show ?thesis using True abs' lim by (simp add: print_error_def)
  next
    case False
    then have "\<not> (e_is_atomic e \<and> sc_is_atomic s)" by (simp add: sc_success_def)
    then have "check_sc c e r s = (if sc_status c e r \<noteq> 1
        then print_error ''response shall be SC_FAILURE'' s else Inr s)"
      using sc by (cases "e_is_atomic e") (simp_all add: check_sc_def Let_def st)
    then show ?thesis using False lim by (simp add: print_error_def)
  qed
qed

lemma resp_step_entry:
  assumes "sm_find (inflight_m s) (rsp_tid r) = Some e" and "\<not> e_is_error e" and "\<not> rsp_error r"
    and "check_response c e r (s\<lparr>nb_core_resp := nb_core_resp s + 1, nb_cycles_effective := nb_cycles s\<rparr>)
       = Inr v"
  shows "core_resp_step c r s = Inr (retire_request (rsp_tid r) v)"
  using assms by (simp add: core_resp_step_def Let_def)

lemma sc_response_step:
  assumes rdy: "sb_ready c s" and lim: "sb_error_limit_m s = 0"
    and find: "sm_find (inflight_m s) (rsp_tid r) = Some e" and ent: "data_entry c e"
    and kind: "e_is_amo_sc e" "\<not> e_is_read e" "\<not> e_is_amo e" "\<not> e_is_amo_lr e" and ne: "\<not> rsp_error r"
  shows "\<exists>u. core_resp_step c r s = Inr u
     \<and> nb_error u = nb_error s + (if sc_status c e r = (if sc_success s e then 0 else 1) then 0 else 1)
     \<and> ram_abs (ram_m u) = (if sc_success s e
          then put_word (ram_dword e) (e_wdata e ! entry_word c e) (e_be e ! entry_word c e)
                 (ram_abs (ram_m s))
          else ram_abs (ram_m s))"
proof -
  let ?s = "s\<lparr>nb_core_resp := nb_core_resp s + 1, nb_cycles_effective := nb_cycles s\<rparr>"
  have "sb_ready c ?s" "sb_error_limit_m ?s = 0" using rdy lim by (simp_all add: sb_ready_def)
  from check_sc_spec [OF this kind(1) ent, of r] obtain t where t: "check_sc c e r ?s = Inr t"
    "nb_error t = nb_error ?s + (if sc_status c e r = (if sc_success ?s e then 0 else 1) then 0 else 1)"
    "ram_abs (ram_m t) = (if sc_success ?s e
          then put_word (ram_dword e) (e_wdata e ! entry_word c e) (e_be e ! entry_word c e)
                 (ram_abs (ram_m ?s))
          else ram_abs (ram_m ?s))" by blast
  have ss: "sc_success ?s e = sc_success s e" by (simp add: sc_success_def)
  have good: "\<not> e_is_error e" using ent by (simp add: data_entry_def)
  have "check_response c e r ?s = Inr t"
    using t(1) kind good by (simp add: check_response_def)
  then have "core_resp_step c r s = Inr (retire_request (rsp_tid r) t)"
    by (rule resp_step_entry [OF find good ne])
  then show ?thesis using t(2,3) by (simp add: retire_request_def release_id_def ss)
qed

text \<open>
  The result that \<open>update_amo\<close> stores: on a double word the architectural operation, on an
  aligned word the operation on the two 32-bit lanes, put back in its lane.
\<close>

definition amo_stored :: "cfg \<Rightarrow> hpdcache_req_op_e \<Rightarrow> inflight_entry \<Rightarrow> resp \<Rightarrow> u64 \<Rightarrow> bool" where
  "amo_stored c opc e r res \<longleftrightarrow>
     (let old = rsp_word c r (entry_word c e); new = e_wdata e ! entry_word c e;
          off = unat (e_addr e) mod 8 * 8
      in if e_bytes e = 8 then res = amo_spec opc old new
         else (ucast (drop_bit off res) :: u32)
                = amo_spec opc (ucast (drop_bit off old)) (ucast (drop_bit off new)))"

definition amo_aligned :: "inflight_entry \<Rightarrow> bool" where
  "amo_aligned e \<longleftrightarrow> (e_bytes e = 8 \<and> unat (e_addr e) mod 8 = 0)
     \<or> (e_bytes e = 4 \<and> unat (e_addr e) mod 8 \<in> {0, 4})"

lemma ucast_drop_push: "off \<le> 32 \<Longrightarrow> (ucast (drop_bit off (push_bit off (x :: u64))) :: u32) = ucast x"
  by (rule bit_word_eqI) (auto simp: bit_ucast_iff bit_drop_bit_eq bit_push_bit_iff)

lemma low_32_eq: "low_32 x = ucast (ucast x :: u32)"
  by (simp add: low_32_def)

lemma update_amo_spec:
  assumes rdy: "sb_ready c s" and amo: "e_is_amo e" "e_op e = op_code opc" "opc \<in> set amo_ops"
    and ent: "data_entry c e" and al: "amo_aligned e"
  shows "\<exists>t res. update_amo c e r s = Inr t \<and> nb_error t = nb_error s \<and> amo_stored c opc e r res
     \<and> ram_abs (ram_m t) = put_word (ram_dword e) res (e_be e ! entry_word c e) (ram_abs (ram_m s))"
proof -
  let ?w = "entry_word c e" and ?off = "unat (e_addr e) mod 8 * 8"
  define new where "new = e_wdata e ! ?w"
  define old where "old = rsp_word c r ?w"
  define be where "be = e_be e ! ?w"
  have cfg: "sb_cfg c" using rdy by (simp add: sb_ready_def)
  obtain x where x: "compute_amo (op_code opc)
        (if e_bytes e = 4 then low_32 (drop_bit ?off old) else old)
        (if e_bytes e = 4 then low_32 (drop_bit ?off new) else new) (unat (e_bytes e)) = Inr x"
    and res: "amo_stored c opc e r (push_bit ?off x)"
  proof (cases "e_bytes e = 8")
    case True
    then have "?off = 0" using al by (auto simp: amo_aligned_def)
    then show thesis
      using True compute_amo_64 [OF amo(3), of old new]
      by (intro that [of "amo_spec opc old new"]) (simp_all add: amo_stored_def old_def new_def)
  next
    case False
    then have b: "e_bytes e = 4" and off: "?off \<le> 32" using al by (auto simp: amo_aligned_def)
    obtain y where y: "compute_amo (op_code opc) (ucast (ucast (drop_bit ?off old) :: u32))
        (ucast (ucast (drop_bit ?off new) :: u32)) 4 = Inr y"
      and z: "ucast y = amo_spec opc (ucast (drop_bit ?off old) :: u32) (ucast (drop_bit ?off new))"
      using compute_amo_32 [OF amo(3)] by blast
    have "unat (e_bytes e) = 4" by (simp add: b)
    then show thesis
      using y z off
      by (intro that [of y])
        (simp_all add: low_32_eq b amo_stored_def Let_def ucast_drop_push old_def new_def)
  qed
  obtain m where m: "write_entry_word c e [push_bit ?off x] [be] s = Inr (s\<lparr>ram_m := m\<rparr>)"
    and abs: "\<forall>a. ram_abs m a = (if ram_dword e \<le> a \<and> a < ram_dword e + 8 \<and> bit be (a - ram_dword e)
           then Some (byte_of (push_bit ?off x) (a - ram_dword e)) else ram_abs (ram_m s) a)"
    using write_entry_word_spec [OF rdy, of "[push_bit ?off x]" "[be]" e] by auto
  have abs': "ram_abs m = put_word (ram_dword e) (push_bit ?off x) be (ram_abs (ram_m s))"
    by (rule ext) (simp add: abs put_word_def)
  have "update_amo c e r s = Inr (s\<lparr>ram_m := m\<rparr>)"
    using amo(1,2) x m
    by (cases "e_bytes e = 4")
      (simp_all add: update_amo_def Let_def sb_widths [OF cfg] old_def new_def be_def)
  then show ?thesis
    using res abs' by (intro exI [of _ "s\<lparr>ram_m := m\<rparr>"] exI [of _ "push_bit ?off x"])
      (simp add: be_def)
qed

lemma amo_response_step:
  assumes rdy: "sb_ready c s" and lim: "sb_error_limit_m s = 0"
    and find: "sm_find (inflight_m s) (rsp_tid r) = Some e" and ent: "data_entry c e"
    and ok: "entry_ok c e" and al: "amo_aligned e" and ne: "\<not> rsp_error r"
    and amo: "e_is_amo e" "e_op e = op_code opc" "opc \<in> set amo_ops" "\<not> e_is_amo_sc e"
  shows "\<exists>u res. core_resp_step c r s = Inr u \<and> amo_stored c opc e r res
     \<and> nb_error u = nb_error s
         + length (filter (wrong_byte e r) [entry_byte c e..<entry_byte c e + unat (e_bytes e)])
     \<and> ram_abs (ram_m u) = put_word (ram_dword e) res (e_be e ! entry_word c e) (ram_abs (ram_m s))"
proof -
  let ?s = "s\<lparr>nb_core_resp := nb_core_resp s + 1, nb_cycles_effective := nb_cycles s\<rparr>"
  have cfg: "sb_cfg c" and lim': "sb_error_limit_m ?s = 0" and good: "\<not> e_is_error e"
    using rdy lim ent by (simp_all add: sb_ready_def data_entry_def)
  obtain t where t: "check_data c e (rsp_bytes c r) ?s = Inr t" and ck: "checks ?s t"
    and n: "nb_error t = nb_error ?s
         + length (filter (wrong_byte e r) [entry_byte c e..<entry_byte c e + unat (e_bytes e)])"
    using check_data_spec [OF cfg ok lim'] by blast
  have ram: "ram_m t = ram_m s"
  proof -
    have "ram_m v = ram_m s" if "fold_ok (check_byte c e (rsp_bytes c r)) is ?s = Inr v" for "is" v
      by (rule fold_ok_inv [where P = "\<lambda>v. ram_m v = ram_m s", OF that])
        (auto simp: check_byte_def Let_def print_error_Inr split: if_splits)
    then show ?thesis using t by (simp add: check_data_def)
  qed
  have "sb_ready c t" using rdy by (simp add: sb_ready_def ram)
  then obtain u res where u: "update_amo c e r t = Inr u" "nb_error u = nb_error t"
    "amo_stored c opc e r res"
    "ram_abs (ram_m u) = put_word (ram_dword e) res (e_be e ! entry_word c e) (ram_abs (ram_m t))"
    using update_amo_spec [OF _ amo(1-3) ent al] by blast
  have "check_response c e r ?s = Inr u"
    using t u(1) amo(1,4) good by (simp add: check_response_def check_sc_def flip: rsp_bytes_def)
  then have "core_resp_step c r s = Inr (retire_request (rsp_tid r) u)"
    by (rule resp_step_entry [OF find good ne])
  then show ?thesis
    using u n ram by (intro exI [of _ "retire_request (rsp_tid r) u"] exI [of _ res])
      (simp add: retire_request_def release_id_def)
qed

section \<open>Properties\<close>

text \<open>
  C11: the life of a reservation. After any accepted request the reservation buffer is the one
  the specification \<open>next_reservation\<close> gives: an LR outside of the error segments reserves its
  address and one inside invalidates; an SC always invalidates; a store or an atomic
  operation invalidates exactly when it touches the reserved double word; every other
  request leaves it alone.
\<close>

theorem reservation_follows_requests:
  assumes "3 \<le> HPDCACHE_CL_OFFSET_WIDTH c" and "sm_find (inflight_m s) (req_tid t) = None"
    and "core_req_step c junk t s = Inr u"
  shows "lrsc_buf_m u = next_reservation c t s"
  using assms by (rule core_req_reservation)

definition ex_reserved :: scoreboard where
  "ex_reserved = ex_sb\<lparr>lrsc_buf_m := \<lparr>rs_valid = True, rs_base_addr = 4096, rs_end_addr = 4104,
     rs_is_atomic = False\<rparr>\<rparr>"

lemma ex_reserved_ready: "sb_ready default_cfg ex_reserved"
  using ex_sb_ready by (simp add: sb_ready_def ex_reserved_def)

lemma ex_reserved_fields:
  "inflight_m ex_reserved = []" "inflight_amo_req_m ex_reserved = []" "\<not> in_error_region t ex_reserved"
  "rs_valid (lrsc_buf_m ex_reserved)" "rs_base_addr (lrsc_buf_m ex_reserved) = 4096"
  "ram_abs (ram_m ex_reserved) a = None" "sb_error_limit_m ex_reserved = 0"
  using ex_sb_ready ram_abs_new [of SCOREBOARD_RAM_SIZE "''ram''"]
  by (simp_all add: ex_reserved_def in_error_region_def ex_sb_def sb_init_def set_error_limit_def
      set_mem_resp_model_def scoreboard_new_def SCOREBOARD_RAM_SIZE_def push_bit_eq_mult)

lemma default_offset: "HPDCACHE_CL_OFFSET_WIDTH default_cfg = 6"
  by (simp add: default_cfg_def derived_widths HPDCACHE_TEST_DEFS_LOG2_def)

theorem reservation_follows_requests_witness:
  "\<exists>u. core_req_step default_cfg ex_junk ex_store ex_reserved = Inr u \<and> \<not> rs_valid (lrsc_buf_m u)"
proof -
  have find: "sm_find (inflight_m ex_reserved) (req_tid ex_store) = None"
    by (simp add: ex_reserved_fields)
  obtain u where u: "core_req_step default_cfg ex_junk ex_store ex_reserved = Inr u"
    using store_step [OF ex_reserved_ready find ex_load_after_store_premises(1) ex_reserved_fields(3)]
    by blast
  have "overlaps default_cfg (req_address ex_store) (push_bit (req_size ex_store) 1) 4096"
    by (simp add: overlaps_def default_offset dword_def dwords_def req_address_def ex_store_def
        bv_to_uint64_def)
  moreover have "\<not> is_amo_lr ex_store"
    using class_exclusive(1) [OF ex_load_after_store_premises(1)] by simp
  ultimately have "\<not> rs_valid (next_reservation default_cfg ex_store ex_reserved)"
    using ex_load_after_store_premises(1) ex_reserved_fields(4,5)
    by (simp add: next_reservation_def Let_def)
  then show ?thesis
    using u reservation_follows_requests [OF _ find u] by (simp add: default_offset)
qed

text \<open>
  C9: which SC may succeed. An SC that is accepted is marked atomic, and shared with the memory
  threads, exactly when the reservation is valid and on a double word it accesses; only then
  can it expect an error response. It never writes the memory image before its response.
\<close>

theorem sc_atomic_iff_reserved:
  assumes "3 \<le> HPDCACHE_CL_OFFSET_WIDTH c" and "sm_wf (inflight_m s)"
    and "sm_find (inflight_m s) (req_tid t) = None"
    and "is_amo_sc t" and "req_need_rsp t" and "length (inflight_amo_req_m s) < SC_FIFO_DEPTH"
  shows "\<exists>u e. core_req_step c junk t s = Inr u \<and> sm_find (inflight_m u) (req_tid t) = Some e
     \<and> e_is_atomic e = (rs_valid (lrsc_buf_m s)
          \<and> overlaps c (req_address t) (push_bit (req_size t) 1) (rs_base_addr (lrsc_buf_m s)))
     \<and> e_is_error e = (in_error_region t s \<and> e_is_atomic e)
     \<and> inflight_amo_req_m u = inflight_amo_req_m s @ (if e_is_atomic e then [e] else [])
     \<and> ram_m u = ram_m s"
  using assms by (rule sc_step)

theorem sc_atomic_iff_reserved_witness:
  "\<exists>u e. core_req_step default_cfg ex_junk (req_new\<lparr>req_op := op_code HPDCACHE_REQ_AMO_SC,
         req_need_rsp := True, req_tid := 3, req_addr := 4096, req_size := 3\<rparr>) ex_reserved = Inr u
     \<and> sm_find (inflight_m u) 3 = Some e \<and> e_is_atomic e \<and> inflight_amo_req_m u = [e]"
  using sc_atomic_iff_reserved [of default_cfg ex_reserved "req_new\<lparr>req_op := op_code
      HPDCACHE_REQ_AMO_SC, req_need_rsp := True, req_tid := 3, req_addr := 4096, req_size := 3\<rparr>" ex_junk]
  by (auto simp: default_offset ex_reserved_fields is_amo_sc_def SC_FIFO_DEPTH_def overlaps_def
      dword_def dwords_def req_address_def bv_to_uint64_def)

text \<open>
  C10: the response to an SC without error: it must be 0 when the request was atomic and the
  memory acknowledged it as such, and 1 otherwise; another value is one error. In the first
  case, and only then, the enabled bytes of the double word enter the memory image.
\<close>

theorem sc_response_checked:
  assumes "sb_ready c s" and "sb_error_limit_m s = 0"
    and "sm_find (inflight_m s) (rsp_tid r) = Some e" and "data_entry c e"
    and "e_is_amo_sc e" "\<not> e_is_read e" "\<not> e_is_amo e" "\<not> e_is_amo_lr e" and "\<not> rsp_error r"
  shows "\<exists>u. core_resp_step c r s = Inr u
     \<and> nb_error u = nb_error s + (if sc_status c e r = (if sc_success s e then 0 else 1) then 0 else 1)
     \<and> ram_abs (ram_m u) = (if sc_success s e
          then put_word (ram_dword e) (e_wdata e ! entry_word c e) (e_be e ! entry_word c e)
                 (ram_abs (ram_m s))
          else ram_abs (ram_m s))"
  using assms by (rule sc_response_step)

definition ex_sc_entry :: inflight_entry where
  "ex_sc_entry = ex_junk\<lparr>e_is_amo_sc := True, e_is_atomic := True, e_addr := 4096, e_bytes := 8,
     e_wdata := [0x55], e_be := [0xff]\<rparr>"

lemma ex_entry_word: "entry_word default_cfg e = 0"
  by (simp add: entry_word_def CORE_REQ_WORDS_def default_cfg_def)

lemma ex_rsp_word: "rsp_word default_cfg r 0 = bv_to_uint64 (take_bit 64 (rsp_rdata r))"
  by (simp add: rsp_word_def default_cfg_def get_field_def bv_range_def)

theorem sc_response_checked_witness:
  "\<exists>u. core_resp_step default_cfg (resp_new\<lparr>rsp_tid := 3, rsp_rdata := 1\<rparr>)
        (ex_reserved\<lparr>inflight_m := [(3, ex_sc_entry)], sc_is_atomic := True\<rparr>) = Inr u
     \<and> nb_error u = nb_error ex_reserved + 1 \<and> ram_abs (ram_m u) 4096 = Some 0x55"
proof -
  let ?s = "ex_reserved\<lparr>inflight_m := [(3, ex_sc_entry)], sc_is_atomic := True\<rparr>"
  let ?r = "resp_new\<lparr>rsp_tid := 3, rsp_rdata := 1\<rparr>"
  have rdy: "sb_ready default_cfg ?s" using ex_reserved_ready by (simp add: sb_ready_def)
  have ent: "data_entry default_cfg ex_sc_entry"
    by (simp add: data_entry_def ex_sc_entry_def ex_junk_def default_cfg_def)
  have st: "sc_status default_cfg ex_sc_entry ?r = 1" "sc_success ?s ex_sc_entry"
    by (simp_all add: sc_status_def ex_entry_word ex_rsp_word ex_sc_entry_def sc_success_def
        bv_to_uint64_def)
  have "put_word (ram_dword ex_sc_entry) 0x55 0xff f 4096 = Some 0x55" for f
    by (simp add: put_word_def ram_dword_def ex_sc_entry_def align_to_def SCOREBOARD_RAM_SIZE_def
        push_bit_eq_mult bit_iff_odd byte_of_def)
  then show ?thesis
    using sc_response_checked [OF rdy _ _ ent, of ?r] st ex_reserved_fields(7)
    by (auto simp: sm_find_def ex_sc_entry_def ex_junk_def resp_new_def ex_entry_word)
qed

text \<open>
  C12: the response to an atomic operation. The old value in the response is checked like the data
  of a load, and the double word in the memory image becomes, on the bytes the request
  enables, the result of the architectural operation on that value and the operand: on the
  double word, or on the addressed 32-bit lane.
\<close>

theorem amo_response_updates_image:
  assumes "sb_ready c s" and "sb_error_limit_m s = 0"
    and "sm_find (inflight_m s) (rsp_tid r) = Some e" and "data_entry c e"
    and "entry_ok c e" and "amo_aligned e" and "\<not> rsp_error r"
    and "e_is_amo e" "e_op e = op_code opc" "opc \<in> set amo_ops" "\<not> e_is_amo_sc e"
  shows "\<exists>u res. core_resp_step c r s = Inr u \<and> amo_stored c opc e r res
     \<and> nb_error u = nb_error s
         + length (filter (wrong_byte e r) [entry_byte c e..<entry_byte c e + unat (e_bytes e)])
     \<and> ram_abs (ram_m u) = put_word (ram_dword e) res (e_be e ! entry_word c e) (ram_abs (ram_m s))"
  using assms by (rule amo_response_step)

definition ex_amo_entry :: inflight_entry where
  "ex_amo_entry = ex_junk\<lparr>e_is_amo := True, e_op := op_code HPDCACHE_REQ_AMO_ADD, e_addr := 4096,
     e_bytes := 8, e_wdata := [5], e_be := [0xff]\<rparr>"

theorem amo_response_updates_image_witness:
  "\<exists>u. core_resp_step default_cfg (resp_new\<lparr>rsp_tid := 3, rsp_rdata := 7\<rparr>)
        (ex_reserved\<lparr>inflight_m := [(3, ex_amo_entry)]\<rparr>) = Inr u
     \<and> ram_abs (ram_m u) 4096 = Some 12"
proof -
  let ?s = "ex_reserved\<lparr>inflight_m := [(3, ex_amo_entry)]\<rparr>"
  let ?r = "resp_new\<lparr>rsp_tid := 3, rsp_rdata := 7\<rparr>"
  have rdy: "sb_ready default_cfg ?s" using ex_reserved_ready by (simp add: sb_ready_def)
  have ent: "data_entry default_cfg ex_amo_entry" and al: "amo_aligned ex_amo_entry"
    by (simp_all add: data_entry_def amo_aligned_def ex_amo_entry_def ex_junk_def default_cfg_def)
  have ok: "entry_ok default_cfg ex_amo_entry"
    by (simp add: entry_ok_def junk_ok_def entry_byte_def sb_widths [OF sb_cfg_default]
        ex_amo_entry_def ex_junk_def) (simp add: default_cfg_def)
  have "res = 12" if "amo_stored default_cfg HPDCACHE_REQ_AMO_ADD ex_amo_entry ?r res" for res
    using that by (simp add: amo_stored_def Let_def ex_entry_word ex_rsp_word ex_amo_entry_def
        bv_to_uint64_def)
  moreover have "put_word (ram_dword ex_amo_entry) 12 0xff f 4096 = Some 12" for f
    by (simp add: put_word_def ram_dword_def ex_amo_entry_def align_to_def SCOREBOARD_RAM_SIZE_def
        push_bit_eq_mult bit_iff_odd byte_of_def)
  moreover have "e_be ex_amo_entry ! 0 = 0xff" by (simp add: ex_amo_entry_def)
  ultimately show ?thesis
    using amo_response_updates_image [OF rdy _ _ ent ok al, of ?r HPDCACHE_REQ_AMO_ADD]
      ex_reserved_fields(7)
    by (auto simp: sm_find_def ex_amo_entry_def ex_junk_def resp_new_def ex_entry_word amo_ops_def)
qed

end
