(* ===== verification/Scoreboard_Refill.thy ===== *)
theory Scoreboard_Refill
  imports Scoreboard_Check
begin

text \<open>
  What a response of the memory without error teaches the scoreboard
  (\<open>mem_read_resp_process\<close> of \<open>rtl/tb/include/hpdcache_test_scoreboard.h\<close>), and the accesses
  for which its mask computation has no meaning.
\<close>

section \<open>The mask of the unknown bytes\<close>

lemma getBmap_mod: "getBmap m (a mod ram_size m) = getBmap m a"
  by (simp add: getBmap_def Let_def)

lemma unset_mask_spec:
  assumes "MEM_BYTES c = 8 * MEM_WORDS c"
  shows "\<exists>u. unset_mask c m base = Inr u \<and> length u = MEM_WORDS c
     \<and> (\<forall>i < MEM_BYTES c. bit (u ! (i div 8)) (i mod 8) = (\<not> getBmap m (base + i)))"
proof -
  let ?P = "\<lambda>k u. length u = MEM_WORDS c
     \<and> (\<forall>i < MEM_BYTES c. bit (u ! (i div 8)) (i mod 8) = (i < k \<and> \<not> getBmap m (base + i)))"
  have "\<exists>u. fold_ok (unset_bit m base) [0..<MEM_BYTES c] (replicate (MEM_WORDS c) 0) = Inr u
      \<and> ?P (MEM_BYTES c) u"
  proof (rule fold_ok_upt [where P = ?P])
    have "i div 8 < MEM_WORDS c" if "i < MEM_BYTES c" for i using that assms by simp
    then show "?P 0 (replicate (MEM_WORDS c) 0)" by simp
  next
    fix k and u :: "u8 list"
    assume k: "k < MEM_BYTES c" and P: "?P k u"
    have kw: "k div 8 < length u" using k P assms by simp
    let ?b = "if getBmap m (base + k) then 0 else 1 :: u8"
    let ?u = "u[k div 8 := u ! (k div 8) OR push_bit (k mod 8) ?b]"
    have "bit (?u ! (i div 8)) (i mod 8) = (i < Suc k \<and> \<not> getBmap m (base + i))"
      if i: "i < MEM_BYTES c" for i
    proof -
      have old: "bit (u ! (i div 8)) (i mod 8) = (i < k \<and> \<not> getBmap m (base + i))"
        using P i by blast
      have eq: "i div 8 = k div 8 \<and> i mod 8 = k mod 8 \<longleftrightarrow> i = k" by (metis div_mult_mod_eq)
      have new: "bit (push_bit (k mod 8) ?b) (i mod 8) = (i mod 8 = k mod 8 \<and> \<not> getBmap m (base + k))"
        by (auto simp: bit_push_bit_iff bit_1_iff)
      show ?thesis
      proof (cases "i div 8 = k div 8")
        case True
        then have "?u ! (i div 8) = u ! (i div 8) OR push_bit (k mod 8) ?b" using kw by simp
        then have "bit (?u ! (i div 8)) (i mod 8) = (i < k \<and> \<not> getBmap m (base + i)
            \<or> i mod 8 = k mod 8 \<and> \<not> getBmap m (base + k))"
          by (simp only: bit_or_iff old new)
        then show ?thesis using eq True by (auto simp: less_Suc_eq)
      next
        case False
        then have "?u ! (i div 8) = u ! (i div 8)" by simp
        then show ?thesis using old False by (auto simp: less_Suc_eq)
      qed
    qed
    moreover have "unset_bit m base k u = Inr ?u" using kw by (simp add: unset_bit_def)
    ultimately show "\<exists>u'. unset_bit m base k u = Inr u' \<and> ?P (Suc k) u'" using P by simp
  qed
  then show ?thesis by (auto simp: unset_mask_def)
qed

section \<open>The byte enables\<close>

lemma div_8_step: "8 < b \<Longrightarrow> (b - 1) div 8 = Suc ((b - 8 - 1) div (8 :: nat))"
  using le_div_geq [of 8 "b - 1"] by (simp add: diff_commute)

lemma lane_mask_exact:
  assumes "b < 64" and "8 * i \<le> byte" and "byte < 8 * i + 64"
  shows "\<exists>m. lane_mask b (int byte - int (i * 8)) = Inr m
     \<and> (\<forall>j < 8. bit m j = (byte \<le> 8 * i + j \<and> 8 * i + j < byte + b))"
proof -
  have "push_bit b 1 - 1 = (mask b :: u64)"
    by (simp add: mask_eq_exp_minus_1 push_bit_of_1)
  moreover have "nat (int byte - int (i * 8)) = byte - 8 * i" using assms(2) by linarith
  ultimately have "lane_mask b (int byte - int (i * 8)) = Inr (ucast (push_bit (byte - 8 * i) (mask b :: u64)))"
    using assms by (simp add: lane_mask_def)
  moreover have "bit (ucast (push_bit (byte - 8 * i) (mask b :: u64)) :: u8) j
      = (byte \<le> 8 * i + j \<and> 8 * i + j < byte + b)" if "j < 8" for j
    using that assms(2) by (auto simp: bit_ucast_iff bit_push_bit_iff bit_mask_iff)
  ultimately show ?thesis by blast
qed

lemma lane_enables_0: "lane_enables byte unset i 0 be = Inr be"
  by (subst lane_enables.simps) simp

lemma lane_enables_Suc:
  assumes "0 < b" and "lane_mask b (int byte - int (i * 8)) = Inr m" and "i < length be"
  shows "lane_enables byte unset i b be = lane_enables byte unset (Suc i) (b - 8) (be[i := m AND unset ! i])"
  using assms by (subst lane_enables.simps) simp

text \<open>
  The loop visits a lane for every eight bytes of the access. The lanes before the last one get
  no byte: the shift moves their mask out of the eight bits that are kept.
\<close>

lemma lane_enables_exact:
  assumes "0 < b" and "b < 64" and "8 * (i + (b - 1) div 8) \<le> byte" and "byte < 64 + 8 * i"
    and "i + (b - 1) div 8 < length be"
  shows "\<exists>be'. lane_enables byte unset i b be = Inr be' \<and> length be' = length be
     \<and> (\<forall>L < length be. \<forall>j < 8. bit (be' ! L) j =
          (if i \<le> L \<and> L < i + (b - 1) div 8 then False
           else if L = i + (b - 1) div 8
           then bit (unset ! L) j \<and> byte \<le> 8 * L + j \<and> 8 * L + j < byte + (b - 8 * ((b - 1) div 8))
           else bit (be ! L) j))"
  using assms
proof (induction b arbitrary: i be rule: less_induct)
  case (less b)
  have i: "i < length be" using less.prems(5) by linarith
  have "8 * i \<le> 8 * (i + (b - 1) div 8)" by simp
  then have le: "8 * i \<le> byte" using less.prems(3) by (rule order_trans)
  obtain m where m: "lane_mask b (int byte - int (i * 8)) = Inr m"
    and mb: "\<forall>j < 8. bit m j = (byte \<le> 8 * i + j \<and> 8 * i + j < byte + b)"
    using lane_mask_exact [of b i byte] less.prems le by auto
  let ?be = "be[i := m AND unset ! i]"
  note step = lane_enables_Suc [OF less.prems(1) m i, of unset]
  show ?case
  proof (cases "b \<le> 8")
    case True
    then have J: "(b - 1) div 8 = 0" using less.prems(1) by simp
    have "lane_enables byte unset i b be = Inr ?be" using step True by (simp add: lane_enables_0)
    then show ?thesis using mb i J by (intro exI [of _ ?be]) (auto simp: nth_list_update bit_and_iff)
  next
    case False
    define K where "K = (b - 8 - 1) div 8"
    have J: "(b - 1) div 8 = Suc K" unfolding K_def using False by (intro div_8_step) simp
    have "Suc i + K < length ?be" "8 * (Suc i + K) \<le> byte"
      using less.prems J by simp_all
    moreover have small: "b - 8 < b" "0 < b - 8" "b - 8 < 64" using False less.prems(2) by simp_all
    moreover have "byte < 64 + 8 * Suc i" using less.prems(4) by simp
    ultimately obtain be' where be': "lane_enables byte unset (Suc i) (b - 8) ?be = Inr be'"
      "length be' = length be"
      and bits: "\<forall>L < length be. \<forall>j < 8. bit (be' ! L) j =
          (if Suc i \<le> L \<and> L < Suc i + K then False
           else if L = Suc i + K
           then bit (unset ! L) j \<and> byte \<le> 8 * L + j \<and> 8 * L + j < byte + (b - 8 - 8 * K)
           else bit (?be ! L) j)"
      using less.IH [of "b - 8" "Suc i" ?be, folded K_def] small by auto
    have "\<not> bit (?be ! i) j" if "j < 8" for j
      using mb that i \<open>8 * (Suc i + K) \<le> byte\<close> by (simp add: bit_and_iff)
    then have "\<forall>L < length be. \<forall>j < 8. bit (be' ! L) j =
          (if i \<le> L \<and> L < i + Suc K then False
           else if L = i + Suc K
           then bit (unset ! L) j \<and> byte \<le> 8 * L + j \<and> 8 * L + j < byte + (b - 8 * Suc K)
           else bit (be ! L) j)"
      using bits by (auto simp: nth_list_update)
    then show ?thesis unfolding J step using be' by blast
  qed
qed

section \<open>A refill\<close>

text \<open>
  The lane (double word of the bus) that the loop of the code starts at, and the one it ends
  at. The start is computed from the address divided by the bytes of the whole bus, instead of
  the position in the bus divided by eight: it is in general not the lane of the address.
\<close>

definition first_lane :: "cfg \<Rightarrow> inflight_mem_entry \<Rightarrow> nat" where
  "first_lane c e = unat (me_addr e) div MEM_BYTES c mod MEM_WORDS c"

definition last_lane :: "cfg \<Rightarrow> inflight_mem_entry \<Rightarrow> nat" where
  "last_lane c e = first_lane c e + (unat (me_bytes e) - 1) div 8"

definition refill_offset :: "cfg \<Rightarrow> inflight_mem_entry \<Rightarrow> nat" where
  "refill_offset c e = align_to (me_addr e) (MEM_BYTES c) mod SCOREBOARD_RAM_SIZE"

text \<open>The positions of the bus whose bytes the scoreboard takes when it does not know them.\<close>

definition taught :: "cfg \<Rightarrow> inflight_mem_entry \<Rightarrow> nat \<Rightarrow> bool" where
  "taught c e p \<longleftrightarrow> 0 < unat (me_bytes e) \<and> p div 8 = last_lane c e
     \<and> unat (me_addr e) mod MEM_BYTES c \<le> p
     \<and> p < unat (me_addr e) mod MEM_BYTES c + (unat (me_bytes e) - 8 * ((unat (me_bytes e) - 1) div 8))"

text \<open>
  When the access lies in one double word and the lane the code computes is the right one, these
  are the bytes of the access. When the loop ends in a lane before the one of the address, there
  are none.
\<close>

lemma taught_whole_access:
  assumes "0 < unat (me_bytes e)" and "unat (me_addr e) mod MEM_BYTES c mod 8 + unat (me_bytes e) \<le> 8"
    and "first_lane c e = unat (me_addr e) mod MEM_BYTES c div 8"
  shows "taught c e p \<longleftrightarrow> unat (me_addr e) mod MEM_BYTES c \<le> p
     \<and> p < unat (me_addr e) mod MEM_BYTES c + unat (me_bytes e)"
proof -
  define a where "a = unat (me_addr e) mod MEM_BYTES c"
  define b where "b = unat (me_bytes e)"
  have J: "(b - 1) div 8 = 0" using assms(1,2) by (simp add: b_def)
  have "p div 8 = a div 8" if "a \<le> p" "p < a + b"
  proof -
    have "a div 8 * 8 + a mod 8 = a" "a mod 8 + b \<le> 8"
      using assms(2) by (simp_all add: a_def b_def)
    then have "8 * (a div 8) \<le> p" "p < 8 * (a div 8) + 8" using that by linarith+
    then show ?thesis by (intro div_nat_eqI) simp_all
  qed
  then show ?thesis
    using assms(1,3) J by (auto simp: taught_def last_lane_def simp flip: a_def b_def)
qed

lemma taught_nothing:
  assumes "last_lane c e < unat (me_addr e) mod MEM_BYTES c div 8"
  shows "\<not> taught c e p"
proof
  assume "taught c e p"
  then have "p div 8 = last_lane c e" "unat (me_addr e) mod MEM_BYTES c \<le> p" by (auto simp: taught_def)
  then have "unat (me_addr e) mod MEM_BYTES c div 8 \<le> last_lane c e" by (metis div_le_mono)
  then show False using assms by simp
qed

text \<open>
  A shift of the mask by 64 or more, or by a negative amount: the computation has no meaning.
\<close>

lemma lane_enables_undefined:
  assumes "0 < b" and "byte < 8 * (i + (b - 1) div 8)"
  shows "lane_enables byte unset i b be = Inl Undefined_behaviour"
  using assms
proof (induction b arbitrary: i be rule: less_induct)
  case (less b)
  show ?case
  proof (cases "lane_mask b (int byte - int (i * 8))")
    case (Inl f)
    then have "f = Undefined_behaviour" by (simp add: lane_mask_def split: if_splits)
    then show ?thesis using Inl less.prems(1) by (subst lane_enables.simps) simp
  next
    case (Inr m)
    then have "8 * i \<le> byte" by (auto simp: lane_mask_def split: if_splits)
    then have "8 < b" using less.prems by (cases "b \<le> 8") (auto simp: div_eq_0_iff)
    note J = div_8_step [OF this]
    show ?thesis
      using less.prems(1) Inr less.IH [of "b - 8" "Suc i"] less.prems(2) \<open>8 < b\<close> J
      by (subst lane_enables.simps) simp
  qed
qed

definition meaningless :: "cfg \<Rightarrow> inflight_mem_entry \<Rightarrow> bool" where
  "meaningless c e \<longleftrightarrow> 0 < unat (me_bytes e) \<and>
     (64 \<le> unat (me_bytes e) \<or> unat (me_addr e) mod MEM_BYTES c < 8 * last_lane c e
      \<or> 64 + 8 * first_lane c e \<le> unat (me_addr e) mod MEM_BYTES c)"

lemma learn_refill_meaningless:
  assumes "MEM_BYTES c = 8 * MEM_WORDS c" and "0 < MEM_WORDS c" and "meaningless c e"
  shows "learn_refill c e r m = Inl Undefined_behaviour"
proof -
  define byte where "byte = unat (me_addr e) mod MEM_BYTES c"
  define b where "b = unat (me_bytes e)"
  define L where "L = first_lane c e"
  obtain u where u: "unset_mask c m (align_to (me_addr e) (MEM_BYTES c)) = Inr u"
    using unset_mask_spec [OF assms(1)] by blast
  have b: "0 < b" and bad: "64 \<le> b \<or> byte < 8 * (L + (b - 1) div 8) \<or> 64 + 8 * L \<le> byte"
    using assms(3) by (auto simp: meaningless_def last_lane_def b_def byte_def L_def)
  have "lane_enables byte u L b (replicate (MEM_WORDS c) 0) = Inl Undefined_behaviour"
  proof (cases "byte < 8 * (L + (b - 1) div 8)")
    case True
    then show ?thesis by (rule lane_enables_undefined [OF b])
  next
    case False
    then have "64 \<le> b \<or> 64 \<le> int byte - int (L * 8)" using bad by linarith
    then have "lane_mask b (int byte - int (L * 8)) = Inl Undefined_behaviour"
      by (auto simp: lane_mask_def)
    then show ?thesis using b by (subst lane_enables.simps) simp
  qed
  then show ?thesis using u assms(2)
    by (simp add: learn_refill_def Let_def byte_def b_def L_def first_lane_def)
qed


text \<open>In every other case the memory image learns the bytes at the taught positions.\<close>

lemma taught_bits:
  assumes cfg: "MEM_BYTES c = 8 * MEM_WORDS c" "0 < MEM_WORDS c" and ok: "\<not> meaningless c e"
    and ub: "\<forall>i < MEM_BYTES c. bit (u ! (i div 8)) (i mod 8) = P i"
  shows "\<exists>be. lane_enables (unat (me_addr e) mod MEM_BYTES c) u (first_lane c e) (unat (me_bytes e))
        (replicate (MEM_WORDS c) 0) = Inr be \<and> length be = MEM_WORDS c
     \<and> (\<forall>i < MEM_BYTES c. bit (be ! (i div 8)) (i mod 8) = (taught c e i \<and> P i))"
proof (cases "unat (me_bytes e) = 0")
  case True
  have "i div 8 < MEM_WORDS c" if "i < MEM_BYTES c" for i using that cfg(1) by simp
  then show ?thesis using True by (simp add: lane_enables_0 taught_def)
next
  case False
  define byte where "byte = unat (me_addr e) mod MEM_BYTES c"
  define b where "b = unat (me_bytes e)"
  define J where "J = (b - 1) div 8"
  define L where "L = first_lane c e"
  have byte: "byte < 8 * MEM_WORDS c" unfolding byte_def cfg(1) using cfg(2) by simp
  have pre: "0 < b" "b < 64" "8 * (L + J) \<le> byte" "byte < 64 + 8 * L"
    using ok False by (auto simp: meaningless_def last_lane_def b_def byte_def L_def J_def)
  then have "L + J < length (replicate (MEM_WORDS c) (0 :: u8))" using byte by simp
  then obtain be where be: "lane_enables byte u L b (replicate (MEM_WORDS c) 0) = Inr be"
      "length be = MEM_WORDS c"
    and bits: "\<forall>k < MEM_WORDS c. \<forall>j < 8. bit (be ! k) j =
          (if L \<le> k \<and> k < L + J then False
           else if k = L + J
           then bit (u ! k) j \<and> byte \<le> 8 * k + j \<and> 8 * k + j < byte + (b - 8 * J)
           else bit (replicate (MEM_WORDS c) (0 :: u8) ! k) j)"
    using lane_enables_exact [of b L byte "replicate (MEM_WORDS c) 0" u] pre by (auto simp: J_def)
  have "bit (be ! (i div 8)) (i mod 8) = (taught c e i \<and> P i)" if i: "i < MEM_BYTES c" for i
  proof -
    have k: "i div 8 < MEM_WORDS c" "i mod 8 < 8" using i cfg(1) by simp_all
    have "taught c e i \<longleftrightarrow> i div 8 = L + J \<and> byte \<le> i \<and> i < byte + (b - 8 * J)"
      using pre(1) by (auto simp: taught_def last_lane_def byte_def b_def L_def J_def)
    moreover have "8 * (i div 8) + i mod 8 = i" by simp
    moreover have "bit (u ! (i div 8)) (i mod 8) = P i" using ub i by blast
    moreover have "bit (be ! (i div 8)) (i mod 8) =
        (i div 8 = L + J \<and> bit (u ! (i div 8)) (i mod 8) \<and> byte \<le> 8 * (i div 8) + i mod 8
            \<and> 8 * (i div 8) + i mod 8 < byte + (b - 8 * J))"
      using bits [rule_format, OF k] k(1) by (cases "i div 8 = L + J") auto
    ultimately show ?thesis by auto
  qed
  then show ?thesis using be by (auto simp: byte_def b_def L_def)
qed

lemma taught_in_bus:
  assumes "MEM_BYTES c = 8 * MEM_WORDS c" and "0 < MEM_WORDS c" and "\<not> meaningless c e" and "taught c e p"
  shows "p < MEM_BYTES c"
proof -
  have "8 * last_lane c e \<le> unat (me_addr e) mod MEM_BYTES c" "p div 8 = last_lane c e"
    using assms(3,4) by (auto simp: meaningless_def taught_def)
  moreover have "unat (me_addr e) mod MEM_BYTES c < MEM_BYTES c" using assms(1,2) by simp
  ultimately have "p div 8 < MEM_WORDS c" using assms(1) by linarith
  then show ?thesis using assms(1) by linarith
qed

lemma learn_refill_spec:
  assumes cfg: "MEM_BYTES c = 8 * MEM_WORDS c" "0 < MEM_WORDS c" "MEM_BYTES c dvd SCOREBOARD_RAM_SIZE"
    and ok: "\<not> meaningless c e" and ram: "wf_ram m" "ram_size m = SCOREBOARD_RAM_SIZE"
  shows "\<exists>m'. learn_refill c e r m = Inr m' \<and>
     (\<forall>a. ram_abs m' a =
        (if refill_offset c e \<le> a \<and> taught c e (a - refill_offset c e) \<and> ram_abs m a = None
         then Some (data_byte (rr_data r) (a - refill_offset c e)) else ram_abs m a))"
proof -
  define n where "n = MEM_BYTES c"
  define W where "W = MEM_WORDS c"
  define off where "off = refill_offset c e"
  define base where "base = align_to (me_addr e) n"
  have n: "n = 8 * W" and W: "0 < W" using cfg by (auto simp: n_def W_def)
  have offb: "base mod ram_size m = off" by (simp add: base_def off_def refill_offset_def n_def ram(2))
  have fits: "base mod ram_size m + n \<le> ram_size m"
    unfolding base_def align_to_def ram(2) n_def
    by (rule align_in_ram [OF cfg(3)])
      (use cfg(1,2) in \<open>simp_all add: SCOREBOARD_RAM_SIZE_def push_bit_eq_mult\<close>)
  obtain u where u: "unset_mask c m base = Inr u"
    and ub: "\<forall>i < n. bit (u ! (i div 8)) (i mod 8) = (\<not> getBmap m (base + i))"
    using unset_mask_spec [of c m base] n by (auto simp: n_def W_def)
  obtain be where be: "lane_enables (unat (me_addr e) mod n) u (first_lane c e) (unat (me_bytes e))
        (replicate W 0) = Inr be" "length be = W"
    and bits: "\<forall>i < n. bit (be ! (i div 8)) (i mod 8) = (taught c e i \<and> \<not> getBmap m (base + i))"
    using taught_bits [OF cfg(1,2) ok ub [unfolded n_def]] by (auto simp: n_def W_def)
  have len: "n \<le> length (bytes_of_words (mem_rdata c r))" "n \<le> 8 * length be"
    by (simp_all add: mem_rdata_def be(2) n flip: W_def)
  obtain m' where m': "ram_write m (bytes_of_words (mem_rdata c r)) be n base = Inr m'"
    and abs: "ram_abs m' = put_bytes (bytes_of_words (mem_rdata c r)) be off n (ram_abs m)"
    using ram_write_correct [OF ram(1) fits len] by (auto simp only: offb)
  have data: "bytes_of_words (mem_rdata c r) ! i = data_byte (rr_data r) i" if "i < n" for i
    unfolding mem_rdata_def W_def [symmetric] by (rule nth_lanes) (use that n in simp)
  have "ram_abs m' a =
        (if off \<le> a \<and> taught c e (a - off) \<and> ram_abs m a = None
         then Some (data_byte (rr_data r) (a - off)) else ram_abs m a)" for a
  proof (cases "off \<le> a \<and> a < off + n")
    case True
    then have i: "a - off < n" "off + (a - off) = a" by linarith+
    have "a < ram_size m" using True fits offb by linarith
    then have "ram_abs m a = None \<longleftrightarrow> \<not> getBmap m a" by (simp add: ram_abs_def)
    moreover have "getBmap m (base + (a - off)) = getBmap m a"
      using getBmap_mod [of m "base + (a - off)"] getBmap_mod [of m a] i(2) offb
      by (metis mod_add_left_eq)
    ultimately show ?thesis
      using True bits i data by (auto simp: abs put_bytes_def)
  next
    case False
    then have "\<not> (off \<le> a \<and> taught c e (a - off))"
      using taught_in_bus [OF cfg(1,2) ok, of "a - off"] by (auto simp: n_def)
    then show ?thesis using False by (auto simp: abs put_bytes_def)
  qed
  moreover have "learn_refill c e r m = Inr m'"
    using u be(1) m' W
    by (simp add: learn_refill_def Let_def base_def n_def W_def first_lane_def)
  ultimately show ?thesis by (auto simp: off_def)
qed

section \<open>Properties\<close>

text \<open>
  C13: what a response without error to an outstanding read teaches the scoreboard, for every
  access. Either the computation of the byte enables has no meaning (the access has 64 bytes or
  more, or the lanes the code computes come after the bytes of the access or 64 bytes before),
  or the bytes of the bus at the \<open>taught\<close> positions are stored where the scoreboard did not know
  the byte: what it knew, from stores that may not have reached the memory yet, it keeps. No
  error is counted, and the last flit retires the memory request. The taught positions are the
  bytes of the access when it lies in the lane the code computes (\<open>taught_whole_access\<close>); as the
  code computes the lane from the address divided by the bytes of the whole bus, there are also
  accesses of which it learns nothing (\<open>taught_nothing\<close>): with a bus of 64 bytes, a read of the
  double word at 4104, in lane 1, is taken for one of lane 0.
\<close>

theorem refill_teaches_unknown_bytes:
  assumes "MEM_BYTES c = 8 * MEM_WORDS c" and "0 < MEM_WORDS c" and "MEM_BYTES c dvd SCOREBOARD_RAM_SIZE"
    and "wf_ram (ram_m s)" and "ram_size (ram_m s) = SCOREBOARD_RAM_SIZE"
    and "sm_wf (inflight_mem_read_m s)" and "sm_find (inflight_mem_read_m s) (unat (rr_id r)) = Some e"
    and "rr_error r = 0"
  shows "if meaningless c e then mem_read_resp_step c r s = Inl Undefined_behaviour
     else \<exists>u. mem_read_resp_step c r s = Inr u \<and> nb_error u = nb_error s
     \<and> (\<forall>a. ram_abs (ram_m u) a =
          (if refill_offset c e \<le> a \<and> taught c e (a - refill_offset c e) \<and> ram_abs (ram_m s) a = None
           then Some (data_byte (rr_data r) (a - refill_offset c e)) else ram_abs (ram_m s) a))
     \<and> sm_find (inflight_mem_read_m u) = (if rr_last r
          then (sm_find (inflight_mem_read_m s))(unat (rr_id r) := None)
          else sm_find (inflight_mem_read_m s))"
proof (cases "meaningless c e")
  case True
  then show ?thesis
    using learn_refill_meaningless [OF assms(1,2)] assms(7,8) by (simp add: mem_read_resp_step_def Let_def)
next
  case False
  obtain m where m: "learn_refill c e r (ram_m s) = Inr m"
    and abs: "\<forall>a. ram_abs m a =
        (if refill_offset c e \<le> a \<and> taught c e (a - refill_offset c e) \<and> ram_abs (ram_m s) a = None
         then Some (data_byte (rr_data r) (a - refill_offset c e)) else ram_abs (ram_m s) a)"
    using learn_refill_spec [OF assms(1-3) False assms(4,5)] by blast
  let ?s = "s\<lparr>nb_mem_read_resp := nb_mem_read_resp s + 1, ram_m := m\<rparr>"
  let ?u = "if rr_last r then ?s\<lparr>inflight_mem_read_m := sm_erase (unat (rr_id r)) (inflight_mem_read_m s)\<rparr>
            else ?s"
  have "mem_read_resp_step c r s = Inr ?u"
    using m assms(7,8) by (simp add: mem_read_resp_step_def Let_def)
  moreover have "ram_m ?u = m" "nb_error ?u = nb_error s" by simp_all
  moreover have "sm_find (inflight_mem_read_m ?u) = (if rr_last r
          then (sm_find (inflight_mem_read_m s))(unat (rr_id r) := None)
          else sm_find (inflight_mem_read_m s))"
    by (simp add: sm.find_erase [OF assms(6)])
  ultimately show ?thesis using abs False by (simp only: if_False) (rule exI [of _ ?u], simp only: simp_thms)
qed

definition ex_mem_entry :: inflight_mem_entry where
  "ex_mem_entry = \<lparr>me_addr = 4098, me_bytes = 2, me_is_uncacheable = True, me_is_error = False,
     me_core_req = None\<rparr>"
definition ex_read_resp :: mem_read_resp where
  "ex_read_resp = \<lparr>rr_error = 0, rr_id = 1, rr_data = 0x44332211, rr_last = True\<rparr>"

lemma ex_ram:
  "wf_ram (ram_m ex_sb)" "ram_size (ram_m ex_sb) = SCOREBOARD_RAM_SIZE" "ram_abs (ram_m ex_sb) a = None"
  using ex_sb_ready ram_abs_new [of SCOREBOARD_RAM_SIZE "''ram''"]
  by (simp_all add: sb_ready_def ex_sb_def sb_init_def set_error_limit_def set_mem_resp_model_def
      scoreboard_new_def SCOREBOARD_RAM_SIZE_def push_bit_eq_mult)

theorem refill_teaches_unknown_bytes_witness:
  "\<exists>u. mem_read_resp_step default_cfg ex_read_resp
         (ex_sb\<lparr>inflight_mem_read_m := [(1, ex_mem_entry)]\<rparr>) = Inr u
     \<and> ram_abs (ram_m u) 4098 = Some 0x33 \<and> ram_abs (ram_m u) 4097 = None
     \<and> ram_abs (ram_m u) 4100 = None"
proof -
  have w: "MEM_BYTES default_cfg = 64" "MEM_WORDS default_cfg = 8"
    by (simp_all add: MEM_BYTES_def MEM_WORDS_def default_cfg_def)
  have ok: "\<not> meaningless default_cfg ex_mem_entry"
    by (simp add: meaningless_def first_lane_def last_lane_def w ex_mem_entry_def)
  have off: "refill_offset default_cfg ex_mem_entry = 4096"
    by (simp add: refill_offset_def w ex_mem_entry_def align_to_def SCOREBOARD_RAM_SIZE_def
        push_bit_eq_mult)
  have t: "taught default_cfg ex_mem_entry 2" "\<not> taught default_cfg ex_mem_entry 1"
    "\<not> taught default_cfg ex_mem_entry 4"
    by (simp_all add: taught_def first_lane_def last_lane_def w ex_mem_entry_def)
  have "data_byte (rr_data ex_read_resp) 2 = 0x33"
    by (simp add: data_byte_def ex_read_resp_def drop_bit_eq_div)
  then show ?thesis
    using refill_teaches_unknown_bytes [of default_cfg "ex_sb\<lparr>inflight_mem_read_m := [(1, ex_mem_entry)]\<rparr>"
        ex_read_resp ex_mem_entry] ex_ram t ok
    by (auto simp: off w sm_find_def sm_wf_def ex_read_resp_def SCOREBOARD_RAM_SIZE_def push_bit_eq_mult)
qed



end
