(* ===== verification/Scoreboard_Reference.thy ===== *)
theory Scoreboard_Reference
  imports Scoreboard_Refill Scoreboard_Atomics
begin

text \<open>
  The reference of the scoreboard (\<open>rtl/tb/include/hpdcache_test_scoreboard.h\<close>): what a cache
  with a coherent memory behind it may do, as a predicate on the events the scoreboard sees.
  Loads, stores and cache operations may overlap in any way; one atomic access (LR, SC or atomic
  operation) is in progress at a time. The theories \<open>Scoreboard_Request\<close>, \<open>Scoreboard_Answer\<close>,
  \<open>Scoreboard_Agreement\<close> and \<open>Scoreboard_Agreement_Mem\<close> show that the scoreboard follows the
  reference, \<open>Scoreboard_Sound\<close> that it decides whether a cache is correct.
\<close>

section \<open>Requests\<close>

definition bus_base :: "cfg \<Rightarrow> req \<Rightarrow> nat" where
  "bus_base c t = align_to (req_address t) (8 * HPDCACHE_REQ_WORDS c)"

definition bus_offset :: "cfg \<Rightarrow> req \<Rightarrow> nat" where
  "bus_offset c t = unat (req_address t) mod (8 * HPDCACHE_REQ_WORDS c)"

definition bus_window :: "cfg \<Rightarrow> req \<Rightarrow> nat set" where
  "bus_window c t = {bus_base c t..<bus_base c t + 8 * HPDCACHE_REQ_WORDS c}"

lemma bus_address: "bus_base c t + bus_offset c t = unat (req_address t)"
  unfolding bus_base_def bus_offset_def align_to_def by (rule div_mult_mod_eq)

definition is_atomic :: "req \<Rightarrow> bool" where
  "is_atomic t \<longleftrightarrow> is_amo t \<or> is_amo_lr t \<or> is_amo_sc t"

definition is_reading :: "req \<Rightarrow> bool" where
  "is_reading t \<longleftrightarrow> is_load t \<or> is_amo_lr t \<or> is_amo t"

text \<open>
  The accesses: they do not cross the window of the bus; those of an atomic request are an
  aligned word or double word, and enable no byte outside of it.
\<close>

definition fits_bus :: "cfg \<Rightarrow> req \<Rightarrow> bool" where
  "fits_bus c t \<longleftrightarrow> req_size t < 8 \<and> bus_offset c t + 2 ^ req_size t \<le> 8 * HPDCACHE_REQ_WORDS c"

definition atomic_access :: "cfg \<Rightarrow> req \<Rightarrow> bool" where
  "atomic_access c t \<longleftrightarrow> req_size t \<in> {2, 3} \<and> 2 ^ req_size t dvd unat (req_address t)
     \<and> (\<forall>i < 8 * HPDCACHE_REQ_WORDS c. bit (req_be t) i \<longrightarrow>
          bus_offset c t \<le> i \<and> i < bus_offset c t + 2 ^ req_size t)"

definition error_request :: "segment list \<Rightarrow> req \<Rightarrow> bool" where
  "error_request segs t \<longleftrightarrow> error_region_loop segs (req_address t)
     (req_address t + ucast (push_bit (req_size t) 1 :: u8))"

section \<open>The state of the reference\<close>

text \<open>
  How far an atomic request is: \<open>Waiting\<close> for its request on the memory interface, an SC \<open>Asked\<close>
  there under an identifier or \<open>Answered\<close> by the memory, \<open>Finished\<close> otherwise.
\<close>

datatype progress = Waiting | Asked nat | Answered bool | Finished

text \<open>
  The bytes that the core has stored, the address reserved by an LR, the requests whose response
  is to come, each with what had been stored when it was sent and whether its access held the
  reservation, the atomic request in progress, and the requests on the memory interface.
\<close>

record reference =
  rf_stored :: "nat \<Rightarrow> u8 option"
  rf_reserved :: "u64 option"
  rf_pending :: "nat \<Rightarrow> (req \<times> (nat \<Rightarrow> u8 option) \<times> bool) option"
  rf_atomic :: "(req \<times> bool \<times> progress) option"
  rf_reads :: "nat \<Rightarrow> mem_req option"
  rf_writes :: "nat set"

definition ref_init :: reference where
  "ref_init = \<lparr>rf_stored = (\<lambda>a. None), rf_reserved = None, rf_pending = (\<lambda>k. None), rf_atomic = None,
     rf_reads = (\<lambda>k. None), rf_writes = {}\<rparr>"

text \<open>The memory that the core sees: the bytes \<open>I\<close> it had at the start, and the stores.\<close>

definition current :: "(nat \<Rightarrow> u8) \<Rightarrow> (nat \<Rightarrow> u8 option) \<Rightarrow> nat \<Rightarrow> u8" where
  "current I st a = (case st a of Some b \<Rightarrow> b | None \<Rightarrow> I a)"

text \<open>The enabled bytes of an access get the values \<open>f\<close> of the positions on the bus.\<close>

definition put_bus :: "cfg \<Rightarrow> req \<Rightarrow> (nat \<Rightarrow> u8) \<Rightarrow> (nat \<Rightarrow> u8 option) \<Rightarrow> nat \<Rightarrow> u8 option" where
  "put_bus c t f st a =
     (if a \<in> bus_window c t \<and> bit (req_be t) (a - bus_base c t)
      then Some (f (a - bus_base c t)) else st a)"

definition store_bytes :: "cfg \<Rightarrow> req \<Rightarrow> (nat \<Rightarrow> u8 option) \<Rightarrow> nat \<Rightarrow> u8 option" where
  "store_bytes c t = put_bus c t (data_byte (req_wdata t))"

text \<open>The value of \<open>n\<close> bytes at an address, and the operand of an atomic operation.\<close>

definition mem_value_at :: "nat \<Rightarrow> (nat \<Rightarrow> u8) \<Rightarrow> nat \<Rightarrow> u64" where
  "mem_value_at n M a = word_of_bytes (map (\<lambda>i. M (a + i)) [0..<n])"

definition amo_operation :: "req \<Rightarrow> hpdcache_req_op_e" where
  "amo_operation t = the (find (\<lambda>opc. op_code opc = req_op t) amo_ops)"

definition amo_result :: "cfg \<Rightarrow> req \<Rightarrow> (nat \<Rightarrow> u8) \<Rightarrow> u64" where
  "amo_result c t M =
     (let n = 2 ^ req_size t; old = mem_value_at n M (unat (req_address t));
          new = mem_value_at n (data_byte (req_wdata t)) (bus_offset c t)
      in if req_size t = 3 then amo_spec (amo_operation t) old new
         else ucast (amo_spec (amo_operation t) (ucast old :: u32) (ucast new)))"

definition amo_bytes ::
  "cfg \<Rightarrow> req \<Rightarrow> (nat \<Rightarrow> u8) \<Rightarrow> (nat \<Rightarrow> u8 option) \<Rightarrow> nat \<Rightarrow> u8 option" where
  "amo_bytes c t M = put_bus c t (\<lambda>i. byte_of (amo_result c t M) (i - bus_offset c t))"

text \<open>The access touches the reserved double word; what the reservation becomes.\<close>

definition holds_reservation :: "cfg \<Rightarrow> reference \<Rightarrow> req \<Rightarrow> bool" where
  "holds_reservation c R t = (case rf_reserved R of None \<Rightarrow> False
     | Some b \<Rightarrow> overlaps c (req_address t) (push_bit (req_size t) 1) b)"

definition ref_reserved :: "cfg \<Rightarrow> segment list \<Rightarrow> req \<Rightarrow> reference \<Rightarrow> u64 option" where
  "ref_reserved c segs t R =
     (if is_amo_lr t then (if error_request segs t then None else Some (req_address t))
      else if is_amo_sc t \<or> (is_store t \<or> is_amo t) \<and> holds_reservation c R t then None
      else rf_reserved R)"

definition expect_error :: "segment list \<Rightarrow> req \<Rightarrow> bool \<Rightarrow> bool" where
  "expect_error segs t held \<longleftrightarrow> (\<not> is_cmo t \<or> is_cmo_prefetch t) \<and> error_request segs t
     \<and> (is_amo_sc t \<longrightarrow> held)"

section \<open>Steps\<close>

text \<open>The bytes that a request of the memory interface accesses, as the scoreboard counts them.\<close>

definition mem_bytes :: "mem_req \<Rightarrow> u8" where
  "mem_bytes q = ucast (push_bit (unat (mr_size q)) 1 :: u64)"

definition mem_window :: "mem_req \<Rightarrow> nat set" where
  "mem_window q = {unat (mr_addr q)..<unat (mr_addr q) + unat (mem_bytes q)}"

text \<open>An SC that the memory acknowledged writes its bytes; an atomic operation its result.\<close>

definition stored_after ::
  "cfg \<Rightarrow> segment list \<Rightarrow> (nat \<Rightarrow> u8) \<Rightarrow> req \<times> (nat \<Rightarrow> u8 option) \<times> bool \<Rightarrow> reference
     \<Rightarrow> nat \<Rightarrow> u8 option" where
  "stored_after c segs I p R =
     (case p of (t, st, held) \<Rightarrow>
        if expect_error segs t held then rf_stored R
        else if is_amo t then amo_bytes c t (current I st) (rf_stored R)
        else if is_amo_sc t \<and> rf_atomic R = Some (t, True, Answered True)
          then store_bytes c t (rf_stored R)
        else rf_stored R)"

fun ref_step :: "cfg \<Rightarrow> segment list \<Rightarrow> (nat \<Rightarrow> u8) \<Rightarrow> sb_event \<Rightarrow> reference \<Rightarrow> reference" where
  "ref_step c segs I (Core_req junk t) R =
     R\<lparr>rf_stored := (if is_store t \<and> \<not> error_request segs t then store_bytes c t (rf_stored R)
                     else rf_stored R),
       rf_reserved := ref_reserved c segs t R,
       rf_pending := (if req_need_rsp t
                      then (rf_pending R)(req_tid t \<mapsto> (t, rf_stored R, holds_reservation c R t))
                      else rf_pending R),
       rf_atomic := (if is_atomic t
                     then Some (t, holds_reservation c R t,
                            if is_amo_sc t \<and> \<not> holds_reservation c R t then Finished else Waiting)
                     else rf_atomic R)\<rparr>"
| "ref_step c segs I (Core_resp r) R =
     (case rf_pending R (rsp_tid r) of None \<Rightarrow> R
      | Some p \<Rightarrow> R\<lparr>rf_stored := stored_after c segs I p R,
                    rf_pending := (rf_pending R)(rsp_tid r := None),
                    rf_atomic := (if is_atomic (fst p) then None else rf_atomic R)\<rparr>)"
| "ref_step c segs I (Mem_read_req q) R =
     R\<lparr>rf_reads := (rf_reads R)(unat (mr_id q) \<mapsto> q),
       rf_atomic := (if mr_is_ldex q then map_option (\<lambda>(t, h, p). (t, h, Finished)) (rf_atomic R)
                     else rf_atomic R)\<rparr>"
| "ref_step c segs I (Mem_read_resp r) R =
     (if rr_last r then R\<lparr>rf_reads := (rf_reads R)(unat (rr_id r) := None)\<rparr> else R)"
| "ref_step c segs I (Mem_write_req q) R =
     R\<lparr>rf_writes := insert (unat (mr_id q)) (rf_writes R),
       rf_reads := (if mr_is_amo q then (rf_reads R)(unat (mr_id q) \<mapsto> mem_req.truncate q)
                    else rf_reads R),
       rf_atomic := (if mr_is_amo q then map_option (\<lambda>(t, h, p). (t, h, Finished)) (rf_atomic R)
                     else if mr_is_stex q
                       then map_option (\<lambda>(t, h, p). (t, h, Asked (unat (mr_id q)))) (rf_atomic R)
                     else rf_atomic R)\<rparr>"
| "ref_step c segs I (Mem_write_resp r) R =
     R\<lparr>rf_writes := rf_writes R - {unat (wr_id r)},
       rf_atomic := map_option (\<lambda>(t, h, p). (t, h,
          if p = Asked (unat (wr_id r)) then Answered (wr_is_atomic r) else p)) (rf_atomic R)\<rparr>"
| "ref_step c segs I ev R = R"

text \<open>The value of the response to an SC.\<close>

definition sc_answer :: "cfg \<Rightarrow> req \<Rightarrow> resp \<Rightarrow> u64" where
  "sc_answer c t r =
     (let w = rsp_word c r (unat (req_address t) div 8 mod HPDCACHE_REQ_WORDS c)
      in if req_size t = 2 then low_32 w else w)"

text \<open>
  What a correct cache does, \<open>A\<close> being the addresses of the test.

  It takes requests under identifiers that are not in use; while an atomic request is in progress
  no other one and none on the same window of the bus. It answers a request that waits, with the
  error flag the segments say: a load, an LR or an atomic operation with the bytes of the memory
  as it was when the request was sent, an SC with 0 if it held the reservation and the memory
  acknowledged it, and 1 otherwise; an atomic request only once its memory access is done.

  It reads and writes the memory under identifiers that are not in use, with the exclusive and
  atomic accesses of the atomic request in progress, on its line; between the answer of the memory
  to an SC and the response to the core there is no other write response. A byte that it reads and
  that no store has touched is the initial one; the memory may return anything for the others, of
  which the cache may hold newer values.
\<close>

definition request_ok :: "cfg \<Rightarrow> nat set \<Rightarrow> req \<Rightarrow> bool" where
  "request_ok c A t \<longleftrightarrow> is_cmo t \<or> (is_load t \<or> is_store t \<or> is_atomic t) \<and> fits_bus c t
     \<and> bus_window c t \<subseteq> A \<and> (is_atomic t \<longrightarrow> atomic_access c t \<and> req_need_rsp t)"

definition in_turn :: "cfg \<Rightarrow> reference \<Rightarrow> req \<Rightarrow> bool" where
  "in_turn c R t \<longleftrightarrow> rf_pending R (req_tid t) = None
     \<and> (case rf_atomic R of None \<Rightarrow> True | Some (t', h, p) \<Rightarrow>
          is_cmo t \<or> \<not> is_atomic t \<and> bus_window c t \<inter> bus_window c t' = {})"

definition response_allowed ::
  "cfg \<Rightarrow> segment list \<Rightarrow> (nat \<Rightarrow> u8) \<Rightarrow> reference \<Rightarrow> resp \<Rightarrow> bool" where
  "response_allowed c segs I R r \<longleftrightarrow>
     (case rf_pending R (rsp_tid r) of None \<Rightarrow> False | Some (t, st, held) \<Rightarrow>
        (\<not> is_store t \<longrightarrow> rsp_error r = expect_error segs t held)
        \<and> (is_atomic t \<longrightarrow> (\<exists>p. rf_atomic R = Some (t, held, p) \<and> (p = Finished \<or> (\<exists>b. p = Answered b))))
        \<and> (\<not> expect_error segs t held \<longrightarrow>
             (is_reading t \<longrightarrow> (\<forall>i < 2 ^ req_size t. data_byte (rsp_rdata r) (bus_offset c t + i)
                  = current I st (unat (req_address t) + i)))
             \<and> (is_amo_sc t \<longrightarrow> sc_answer c t r
                  = (if rf_atomic R = Some (t, True, Answered True) then 0 else 1))))"

definition on_line_of_atomic :: "cfg \<Rightarrow> reference \<Rightarrow> 'a mem_req_scheme \<Rightarrow> (req \<Rightarrow> bool) \<Rightarrow> bool" where
  "on_line_of_atomic c R q kind \<longleftrightarrow> (case rf_atomic R of None \<Rightarrow> False
     | Some (t, h, p) \<Rightarrow> p = Waiting \<and> kind t \<and> get_nline c (mr_addr q) = get_nline c (req_address t))"

fun allowed ::
  "cfg \<Rightarrow> segment list \<Rightarrow> nat set \<Rightarrow> (nat \<Rightarrow> u8) \<Rightarrow> reference \<Rightarrow> sb_event \<Rightarrow> bool" where
  "allowed c segs A I R (Core_req junk t) \<longleftrightarrow> junk_ok c junk \<and> request_ok c A t \<and> in_turn c R t"
| "allowed c segs A I R (Core_resp r) \<longleftrightarrow> response_allowed c segs I R r"
| "allowed c segs A I R (Mem_read_req q) \<longleftrightarrow>
     rf_reads R (unat (mr_id q)) = None \<and> unat (mr_size q) < 64
     \<and> (mr_is_ldex q \<longrightarrow> on_line_of_atomic c R q is_amo_lr)"
| "allowed c segs A I R (Mem_read_resp r) \<longleftrightarrow>
     (\<exists>q. rf_reads R (unat (rr_id r)) = Some q
       \<and> (rr_error r = 0 \<longrightarrow> mem_window q \<subseteq> A
            \<and> (\<forall>a \<in> mem_window q. rf_stored R a = None \<longrightarrow>
                 data_byte (rr_data r) (a - align_to (mr_addr q) (MEM_BYTES c)) = I a)))"
| "allowed c segs A I R (Mem_write_req q) \<longleftrightarrow>
     unat (mr_id q) \<notin> rf_writes R \<and> unat (mr_size q) < 64
     \<and> (mr_is_amo q \<longrightarrow> rf_reads R (unat (mr_id q)) = None \<and> on_line_of_atomic c R q is_amo)
     \<and> (mr_is_stex q \<longrightarrow> on_line_of_atomic c R q is_amo_sc)"
| "allowed c segs A I R (Mem_write_resp r) \<longleftrightarrow> unat (wr_id r) \<in> rf_writes R
     \<and> (case rf_atomic R of Some (t, h, Answered b) \<Rightarrow> False | _ \<Rightarrow> True)"
| "allowed c segs A I R ev \<longleftrightarrow> True"

inductive coherent_run ::
  "cfg \<Rightarrow> segment list \<Rightarrow> nat set \<Rightarrow> (nat \<Rightarrow> u8) \<Rightarrow> scoreboard \<Rightarrow> scoreboard \<Rightarrow> reference \<Rightarrow> bool"
  for c segs A I s0 where
  start: "coherent_run c segs A I s0 s0 ref_init"
| step: "coherent_run c segs A I s0 s R \<Longrightarrow> allowed c segs A I R ev \<Longrightarrow> sb_step c ev s = Inr t
    \<Longrightarrow> coherent_run c segs A I s0 t (ref_step c segs I ev R)"

lemma coherent_reach: "coherent_run c segs A I s0 s R \<Longrightarrow> sb_reach c s0 s"
  by (induction rule: coherent_run.induct) (auto intro: sb_reach.intros)

text \<open>The configurations and the addresses for which the RAM of the scoreboard is large enough.\<close>

definition check_cfg :: "cfg \<Rightarrow> bool" where
  "check_cfg c \<longleftrightarrow> sb_cfg c \<and> 3 \<le> HPDCACHE_CL_OFFSET_WIDTH c \<and> MEM_BYTES c = 8 * MEM_WORDS c
     \<and> 0 < MEM_WORDS c \<and> MEM_BYTES c dvd SCOREBOARD_RAM_SIZE"

definition no_alias :: "nat set \<Rightarrow> bool" where
  "no_alias A \<longleftrightarrow> inj_on (\<lambda>a. a mod SCOREBOARD_RAM_SIZE) A"

lemma request_classes:
  shows "is_load t \<Longrightarrow> \<not> is_store t \<and> \<not> is_cmo t \<and> \<not> is_amo t \<and> \<not> is_amo_lr t \<and> \<not> is_amo_sc t"
    and "is_store t \<Longrightarrow> \<not> is_load t \<and> \<not> is_cmo t \<and> \<not> is_amo t \<and> \<not> is_amo_lr t \<and> \<not> is_amo_sc t"
    and "is_cmo t \<Longrightarrow> \<not> is_load t \<and> \<not> is_store t \<and> \<not> is_amo t \<and> \<not> is_amo_lr t \<and> \<not> is_amo_sc t"
    and "is_amo t \<Longrightarrow> \<not> is_load t \<and> \<not> is_store t \<and> \<not> is_cmo t \<and> \<not> is_amo_lr t \<and> \<not> is_amo_sc t"
    and "is_amo_lr t \<Longrightarrow> \<not> is_load t \<and> \<not> is_store t \<and> \<not> is_cmo t \<and> \<not> is_amo t \<and> \<not> is_amo_sc t"
    and "is_amo_sc t \<Longrightarrow> \<not> is_load t \<and> \<not> is_store t \<and> \<not> is_cmo t \<and> \<not> is_amo t \<and> \<not> is_amo_lr t"
  by (auto simp: op_class_defs)

end
