(* ===== verification/Scoreboard_Request.thy ===== *)
theory Scoreboard_Request
  imports Scoreboard_Reference
begin

text \<open>
  Every round of the scoreboard (\<open>rtl/tb/include/hpdcache_test_scoreboard.h\<close>) on an event that
  the reference allows ends without an error, and keeps the scoreboard and the reference in
  agreement.
\<close>

section \<open>Core requests\<close>

text \<open>The entry that the scoreboard keeps for a request; \<open>K\<close> is the RAM when it was made.\<close>

definition tracks ::
  "cfg \<Rightarrow> segment list \<Rightarrow> req \<Rightarrow> bool \<Rightarrow> (nat \<Rightarrow> u8 option) \<Rightarrow> inflight_entry \<Rightarrow> bool" where
  "tracks c segs t held K e \<longleftrightarrow>
     e_is_read e = is_load t \<and> e_is_write e = is_store t \<and> e_is_amo e = is_amo t
     \<and> e_is_amo_sc e = is_amo_sc t \<and> e_is_amo_lr e = is_amo_lr t \<and> e_op e = req_op t
     \<and> e_addr e = req_address t \<and> e_bytes e = push_bit (req_size t) 1
     \<and> e_is_error e = expect_error segs t held \<and> (is_amo_sc t \<longrightarrow> e_is_atomic e = held)
     \<and> (is_amo t \<or> is_amo_sc t \<longrightarrow>
          e_wdata e = map (\<lambda>i. bv_to_uint64 (get_field (i * 64) 64 (req_wdata t))) [0..<HPDCACHE_REQ_WORDS c]
          \<and> e_be e = map (\<lambda>i. word_of_nat (get_field (i * 8) 8 (req_be t))) [0..<HPDCACHE_REQ_WORDS c])
     \<and> (is_reading t \<and> \<not> expect_error segs t held \<longrightarrow> junk_ok c e
          \<and> (\<forall>i < 8 * HPDCACHE_REQ_WORDS c. K (ram_window c t + i)
               = (if bit (e_rv e ! (i div 8)) (i mod 8) then Some (e_rdata e ! i) else None)))"

definition held_in :: "cfg \<Rightarrow> req \<Rightarrow> scoreboard \<Rightarrow> bool" where
  "held_in c t s \<longleftrightarrow> rs_valid (lrsc_buf_m s)
     \<and> overlaps c (req_address t) (push_bit (req_size t) 1) (rs_base_addr (lrsc_buf_m s))"

definition forwarded :: "req \<Rightarrow> bool \<Rightarrow> bool" where
  "forwarded t held \<longleftrightarrow> is_amo t \<or> is_amo_lr t \<or> is_amo_sc t \<and> held"

text \<open>The entry up to the read of the RAM.\<close>

lemma read_entry_tracks:
  assumes rdy: "sb_ready c s" and mm: "mem_resp_model s = Some segs" and jk: "junk_ok c junk"
    and kind: "is_load t \<or> is_store t \<or> is_cmo t \<or> is_atomic t"
  shows "\<exists>e. read_expected c t s (mark_error t s (make_entry c junk t s)) = Inr e
     \<and> e_is_error e = ((\<not> is_cmo t \<or> is_cmo_prefetch t) \<and> error_request segs t)
     \<and> tracks c segs t held (ram_abs (ram_m s))
         (if is_amo_sc t then e\<lparr>e_is_error := (e_is_error e \<and> held), e_is_atomic := held\<rparr> else e)"
proof -
  have cfg: "sb_cfg c" and ram: "wf_ram (ram_m s)" "ram_size (ram_m s) = SCOREBOARD_RAM_SIZE"
    using rdy by (simp_all add: sb_ready_def)
  define e0 where "e0 = mark_error t s (make_entry c junk t s)"
  note k0 = new_entry_kind [of t s c junk s, folded e0_def]
  note p0 = new_entry_place [of t s c junk s, folded e0_def]
  have err: "e_is_error e0 = ((\<not> is_cmo t \<or> is_cmo_prefetch t) \<and> error_request segs t)"
    using mm by (auto simp: e0_def mark_error_def make_entry_def Let_def error_request_def req_address_def)
  have jk0: "junk_ok c e0"
    using jk by (auto simp: junk_ok_def e0_def mark_error_def make_entry_def Let_def split: option.split)
  have d0: "is_amo t \<or> is_amo_sc t \<Longrightarrow>
      e_wdata e0 = map (\<lambda>i. bv_to_uint64 (get_field (i * 64) 64 (req_wdata t))) [0..<HPDCACHE_REQ_WORDS c]
      \<and> e_be e0 = map (\<lambda>i. word_of_nat (get_field (i * 8) 8 (req_be t))) [0..<HPDCACHE_REQ_WORDS c]"
    using new_entry_data [OF _ cfg, of t s junk s] by (auto simp: e0_def)
  let ?x = "expect_error segs t held"
  have x: "\<not> is_amo_sc t \<Longrightarrow> e_is_error e0 = ?x" "is_amo_sc t \<Longrightarrow> (e_is_error e0 \<and> held) = ?x"
    using err by (auto simp: expect_error_def)
  show ?thesis
  proof (cases "is_reading t \<and> \<not> e_is_error e0")
    case True
    then have ld: "is_load t \<or> is_amo_lr t \<or> is_amo t" "\<not> e_is_error e0" "\<not> is_amo_sc t"
      using request_classes(1,4,5) by (auto simp: is_reading_def)
    obtain rd rv where r: "read_expected c t s e0 = Inr (e0\<lparr>e_rdata := rd, e_rv := rv\<rparr>)"
      "length rd = length (e_rdata e0)" "length rv = length (e_rv e0)"
      "\<forall>i < 8 * HPDCACHE_REQ_WORDS c. ram_abs (ram_m s) (ram_window c t + i)
           = (if bit (rv ! (i div 8)) (i mod 8) then Some (rd ! i) else None)"
      using read_expected_spec [OF cfg ram ld(1,2) p0(1)] jk0 unfolding junk_ok_def by blast
    then have "tracks c segs t held (ram_abs (ram_m s)) (e0\<lparr>e_rdata := rd, e_rv := rv\<rparr>)"
      using k0 p0 x ld d0 jk0 by (simp add: tracks_def junk_ok_def)
    then show ?thesis using r(1) ld(3) err by (simp flip: e0_def)
  next
    case False
    then have "read_expected c t s e0 = Inr e0" by (auto simp: read_expected_def is_reading_def)
    moreover have "tracks c segs t held (ram_abs (ram_m s))
        (if is_amo_sc t then e0\<lparr>e_is_error := (e_is_error e0 \<and> held), e_is_atomic := held\<rparr> else e0)"
    proof (cases "is_amo_sc t")
      case True
      then have "\<not> is_reading t" using request_classes(6) [OF True] by (simp add: is_reading_def)
      then show ?thesis using True k0 p0 x d0 by (simp add: tracks_def)
    next
      case nsc: False
      then show ?thesis using False k0 p0 x(1) d0 by (auto simp: tracks_def)
    qed
    ultimately show ?thesis using err by (simp flip: e0_def)
  qed
qed

lemma store_entry_ram:
  assumes rdy: "sb_ready c s" and jk: "junk_ok c junk" and st: "is_store t"
    and e: "read_expected c t s0 (mark_error t s0 (make_entry c junk t s0)) = Inr e" "\<not> e_is_error e"
  shows "\<exists>m. store_ram c t e s = Inr (s\<lparr>ram_m := m\<rparr>)
     \<and> (\<forall>a. ram_abs m a =
          (if ram_window c t \<le> a \<and> a < ram_window c t + 8 * HPDCACHE_REQ_WORDS c
              \<and> bit (req_be t) (a - ram_window c t)
           then Some (data_byte (req_wdata t) (a - ram_window c t)) else ram_abs (ram_m s) a))"
proof -
  have cfg: "sb_cfg c" and ram: "wf_ram (ram_m s)" "ram_size (ram_m s) = SCOREBOARD_RAM_SIZE"
    using rdy by (simp_all add: sb_ready_def)
  have "is_store t \<or> is_amo_sc t \<or> is_amo t" using st by simp
  note d = new_entry_data [OF this cfg, of s0 junk s0]
  have ee: "e = mark_error t s0 (make_entry c junk t s0)"
    using e(1) request_classes(2) [OF st] by (simp add: read_expected_def)
  show ?thesis
    by (rule store_ram_spec [OF cfg ram st e(2)]) (use d in \<open>simp_all add: ee new_entry_place\<close>)
qed

lemma any_request:
  assumes rdy: "sb_ready c s" and cw: "3 \<le> HPDCACHE_CL_OFFSET_WIDTH c"
    and mm: "mem_resp_model s = Some segs" and jk: "junk_ok c junk"
    and free: "sm_find (inflight_m s) (req_tid t) = None"
    and kind: "is_load t \<or> is_store t \<or> is_cmo t \<or> is_atomic t"
    and room: "is_atomic t \<Longrightarrow> inflight_amo_req_m s = []"
  obtains e b m where
    "core_req_step c junk t s = Inr (track_request t e (count_core_req t s\<lparr>lrsc_buf_m := b,
        inflight_amo_req_m := inflight_amo_req_m s @ (if forwarded t (held_in c t s) then [e] else []),
        ram_m := m\<rparr>))"
    and "tracks c segs t (held_in c t s) (ram_abs (ram_m s)) e"
    and "\<forall>a. ram_abs m a =
          (if is_store t \<and> \<not> error_request segs t \<and> ram_window c t \<le> a
              \<and> a < ram_window c t + 8 * HPDCACHE_REQ_WORDS c \<and> bit (req_be t) (a - ram_window c t)
           then Some (data_byte (req_wdata t) (a - ram_window c t)) else ram_abs (ram_m s) a)"
proof -
  let ?s = "count_core_req t s" and ?h = "held_in c t s"
  have rdy': "sb_ready c ?s" and mm': "mem_resp_model ?s = Some segs"
    using rdy mm by (simp_all add: sb_ready_def count_core_req_frame)
  obtain e1 where e1: "read_expected c t ?s (mark_error t ?s (make_entry c junk t ?s)) = Inr e1"
    and err: "e_is_error e1 = ((\<not> is_cmo t \<or> is_cmo_prefetch t) \<and> error_request segs t)"
    and tr: "tracks c segs t ?h (ram_abs (ram_m ?s))
         (if is_amo_sc t then e1\<lparr>e_is_error := (e_is_error e1 \<and> ?h), e_is_atomic := ?h\<rparr> else e1)"
    using read_entry_tracks [OF rdy' mm' jk kind, of ?h] by blast
  define e where "e = (if is_amo_sc t then e1\<lparr>e_is_error := (e_is_error e1 \<and> ?h), e_is_atomic := ?h\<rparr> else e1)"
  have place: "e_addr e1 = req_address t" "e_bytes e1 = push_bit (req_size t) 1"
    using tr by (auto simp: tracks_def split: if_splits)
  obtain e2 s1 where inv: "lrsc_invalidation c t e1 (lr_reservation t e1 ?s) = (e2, s1)" by fastforce
  define b where "b = lrsc_buf_m s1"
  have s1: "s1 = ?s\<lparr>lrsc_buf_m := b\<rparr>" using reservation_frame(1) [OF inv] by (simp add: b_def)
  have e2: "e2 = e"
  proof (cases "is_amo_sc t")
    case True
    then have "lr_reservation t e1 ?s = ?s" using request_classes(6) [OF True] by (simp add: lr_reservation_def)
    moreover have "lrsc_addr_match c e1 (lrsc_buf_m ?s) = ?h"
      using lrsc_addr_match_iff [OF cw, of e1 "lrsc_buf_m ?s"] place
      by (simp add: held_in_def count_core_req_frame)
    ultimately show ?thesis using True inv by (auto simp: lrsc_invalidation_def Let_def e_def)
  next
    case False
    then show ?thesis using inv by (auto simp: lrsc_invalidation_def Let_def e_def split: if_splits)
  qed
  have tre: "tracks c segs t ?h (ram_abs (ram_m s)) e"
    using tr by (simp add: e_def count_core_req_frame)
  show thesis
  proof (cases "is_cmo t \<and> \<not> req_need_rsp t")
    case True
    then have na: "\<not> is_amo t" "\<not> is_amo_lr t" "\<not> is_amo_sc t" "\<not> is_store t"
      using request_classes(3) by blast+
    have "core_req_step c junk t s = Inr (release_id (req_tid t) ?s)"
      using True free by (simp add: core_req_step_def Let_def count_core_req_frame)
    also have "release_id (req_tid t) ?s = track_request t e (?s\<lparr>lrsc_buf_m := lrsc_buf_m s,
        inflight_amo_req_m := inflight_amo_req_m s @ (if forwarded t ?h then [e] else []),
        ram_m := ram_m s\<rparr>)"
      using True na by (simp add: track_request_def forwarded_def release_id_def count_core_req_def)
    finally show thesis using tre na by (intro that) auto
  next
    case False
    have fw: "forwards_atomic t e = forwarded t ?h"
      using tre by (auto simp: forwards_atomic_def forwarded_def tracks_def)
    have disp: "core_req_step c junk t s = dispatch_request c t e (?s\<lparr>lrsc_buf_m := b\<rparr>)"
      using False free e1 inv
      by (auto simp: core_req_step_def Let_def count_core_req_frame e2 s1)
    define q where "q = inflight_amo_req_m s @ (if forwarded t ?h then [e] else [])"
    define s2 where "s2 = ?s\<lparr>lrsc_buf_m := b, inflight_amo_req_m := q\<rparr>"
    have d2: "dispatch_request c t e (?s\<lparr>lrsc_buf_m := b\<rparr>)
        = andthen (store_ram c t e s2) (\<lambda>s. Inr (track_request t e s))"
    proof (cases "forwarded t ?h")
      case True
      then have "inflight_amo_req_m s = []" using room by (auto simp: forwarded_def is_atomic_def)
      then show ?thesis
        using True
        by (simp add: dispatch_request_def fw Let_def s2_def q_def count_core_req_frame SC_FIFO_DEPTH_def)
    next
      case nf: False
      then have "s2 = ?s\<lparr>lrsc_buf_m := b\<rparr>" by (simp add: s2_def q_def count_core_req_def)
      then show ?thesis using nf by (simp add: dispatch_request_def fw Let_def)
    qed
    have ram2: "ram_m s2 = ram_m s" by (simp add: s2_def count_core_req_frame)
    have "\<exists>m. store_ram c t e s2 = Inr (s2\<lparr>ram_m := m\<rparr>) \<and> (\<forall>a. ram_abs m a =
          (if is_store t \<and> \<not> error_request segs t \<and> ram_window c t \<le> a
              \<and> a < ram_window c t + 8 * HPDCACHE_REQ_WORDS c \<and> bit (req_be t) (a - ram_window c t)
           then Some (data_byte (req_wdata t) (a - ram_window c t)) else ram_abs (ram_m s) a))"
    proof (cases "is_store t \<and> \<not> error_request segs t")
      case True
      then have ee: "e = e1" "\<not> e_is_error e1" using err request_classes(2) by (auto simp: e_def)
      have "sb_ready c s2" using rdy by (simp add: sb_ready_def ram2)
      then obtain m where "store_ram c t e1 s2 = Inr (s2\<lparr>ram_m := m\<rparr>)" "\<forall>a. ram_abs m a =
          (if ram_window c t \<le> a \<and> a < ram_window c t + 8 * HPDCACHE_REQ_WORDS c
              \<and> bit (req_be t) (a - ram_window c t)
           then Some (data_byte (req_wdata t) (a - ram_window c t)) else ram_abs (ram_m s2) a)"
        using store_entry_ram [OF _ jk _ e1 ee(2)] True by blast
      then show ?thesis using True ee(1) by (intro exI [of _ m]) (simp add: ram2)
    next
      case ns: False
      then have "\<not> (is_store t \<and> \<not> e_is_error e)"
        using err request_classes(2) by (auto simp: e_def)
      then have "store_ram c t e s2 = Inr s2" by (auto simp: store_ram_def)
      moreover have "s2\<lparr>ram_m := ram_m s\<rparr> = s2" by (simp add: s2_def count_core_req_def)
      ultimately show ?thesis using ns by (intro exI [of _ "ram_m s"]) auto
    qed
    then obtain m where m: "store_ram c t e s2 = Inr (s2\<lparr>ram_m := m\<rparr>)" "\<forall>a. ram_abs m a =
          (if is_store t \<and> \<not> error_request segs t \<and> ram_window c t \<le> a
              \<and> a < ram_window c t + 8 * HPDCACHE_REQ_WORDS c \<and> bit (req_be t) (a - ram_window c t)
           then Some (data_byte (req_wdata t) (a - ram_window c t)) else ram_abs (ram_m s) a)" by blast
    have "core_req_step c junk t s = Inr (track_request t e (s2\<lparr>ram_m := m\<rparr>))"
      using disp d2 m(1) by simp
    then show thesis using tre m(2) by (intro that [where e = e and b = b and m = m]) (simp_all add: s2_def q_def)
  qed
qed

section \<open>Bytes on the bus\<close>

lemma window_pos:
  assumes "sb_cfg c" and "i < 8 * HPDCACHE_REQ_WORDS c"
  shows "(bus_base c t + i) mod SCOREBOARD_RAM_SIZE = ram_window c t + i"
proof -
  have "(bus_base c t + i) mod SCOREBOARD_RAM_SIZE = (ram_window c t + i) mod SCOREBOARD_RAM_SIZE"
    by (simp add: ram_window_def bus_base_def mod_add_left_eq)
  then show ?thesis using ram_window_fits [OF assms(1), of t] assms(2) by simp
qed

lemma atomic_place:
  assumes cfg: "sb_cfg c" and addr: "e_addr e = req_address t"
  shows "bus_offset c t = 8 * entry_word c e + unat (req_address t) mod 8"
    and "entry_word c e < HPDCACHE_REQ_WORDS c"
    and "ram_dword e = ram_window c t + 8 * entry_word c e"
proof -
  show off: "bus_offset c t = 8 * entry_word c e + unat (req_address t) mod 8"
    by (simp add: bus_offset_def entry_word_def addr sb_widths [OF cfg] CORE_REQ_WORDS_def mod_mult2_eq)
  show w: "entry_word c e < HPDCACHE_REQ_WORDS c" by (rule entry_word_less [OF cfg])
  have "align_to (req_address t) 8 + unat (req_address t) mod 8 = unat (req_address t)"
    unfolding align_to_def by (rule div_mult_mod_eq)
  then have "align_to (req_address t) 8 = bus_base c t + 8 * entry_word c e"
    using bus_address [of c t] off by linarith
  then show "ram_dword e = ram_window c t + 8 * entry_word c e"
    using window_pos [OF cfg, of "8 * entry_word c e" t] w by (simp add: ram_dword_def addr)
qed

text \<open>The enabled bytes of an atomic access are in one double word.\<close>

lemma atomic_lane:
  assumes cfg: "sb_cfg c" and addr: "e_addr e = req_address t" and acc: "atomic_access c t"
  shows "unat (req_address t) mod 8 + 2 ^ req_size t \<le> 8"
    and "i < 8 * HPDCACHE_REQ_WORDS c \<Longrightarrow> bit (req_be t) i \<Longrightarrow> i div 8 = entry_word c e
      \<and> bus_offset c t \<le> i \<and> i < bus_offset c t + 2 ^ req_size t"
proof -
  have sz: "req_size t = 2 \<or> req_size t = 3" and dvd: "2 ^ req_size t dvd unat (req_address t)"
    using acc by (auto simp: atomic_access_def)
  show le: "unat (req_address t) mod 8 + 2 ^ req_size t \<le> 8"
    using sz
  proof
    assume "req_size t = 2"
    then have "unat (req_address t) mod 4 = 0" using dvd by (simp add: dvd_eq_mod_eq_0)
    then have "unat (req_address t) mod 8 \<le> 4" by presburger
    then show ?thesis using \<open>req_size t = 2\<close> by simp
  next
    assume "req_size t = 3"
    then have "unat (req_address t) mod 8 = 0" using dvd by (simp add: dvd_eq_mod_eq_0)
    then show ?thesis using \<open>req_size t = 3\<close> by simp
  qed
  assume i: "i < 8 * HPDCACHE_REQ_WORDS c" "bit (req_be t) i"
  then have b: "bus_offset c t \<le> i" "i < bus_offset c t + 2 ^ req_size t"
    using acc by (auto simp: atomic_access_def)
  then have "8 * entry_word c e \<le> i" "i < 8 * entry_word c e + 8"
    using le atomic_place(1) [OF cfg addr] by linarith+
  then have "i div 8 = entry_word c e" by (intro div_nat_eqI) simp_all
  then show "i div 8 = entry_word c e \<and> bus_offset c t \<le> i \<and> i < bus_offset c t + 2 ^ req_size t"
    using b by simp
qed

definition put_window :: "cfg \<Rightarrow> req \<Rightarrow> (nat \<Rightarrow> u8) \<Rightarrow> (nat \<Rightarrow> u8 option) \<Rightarrow> nat \<Rightarrow> u8 option" where
  "put_window c t f K p =
     (if ram_window c t \<le> p \<and> p < ram_window c t + 8 * HPDCACHE_REQ_WORDS c \<and> bit (req_be t) (p - ram_window c t)
      then Some (f (p - ram_window c t)) else K p)"

lemma put_word_window:
  assumes cfg: "sb_cfg c" and addr: "e_addr e = req_address t" and acc: "atomic_access c t"
    and be: "e_be e = map (\<lambda>i. word_of_nat (get_field (i * 8) 8 (req_be t))) [0..<HPDCACHE_REQ_WORDS c]"
    and f: "\<And>i. i div 8 = entry_word c e \<Longrightarrow> bus_offset c t \<le> i \<Longrightarrow> i < bus_offset c t + 2 ^ req_size t
        \<Longrightarrow> byte_of v (i mod 8) = f i"
  shows "put_word (ram_dword e) v (e_be e ! entry_word c e) K = put_window c t f K"
proof
  fix p
  let ?w = "entry_word c e" and ?n = "8 * HPDCACHE_REQ_WORDS c" and ?i = "p - ram_window c t"
  note pl = atomic_place [OF cfg addr]
  have bit: "bit (e_be e ! ?w) j = bit (req_be t) (8 * ?w + j)" if "j < 8" for j
    using pl(2) that by (simp add: be bit_be_lane)
  show "put_word (ram_dword e) v (e_be e ! ?w) K p = put_window c t f K p"
  proof (cases "ram_dword e \<le> p \<and> p < ram_dword e + 8")
    case True
    then have i: "p - ram_dword e < 8" "?i = 8 * ?w + (p - ram_dword e)" using pl(3) by auto
    then have w: "?i div 8 = ?w" "?i mod 8 = p - ram_dword e" by simp_all
    have n: "ram_window c t \<le> p" "p < ram_window c t + ?n" "?i < ?n" using True pl(2,3) i by auto
    show ?thesis
    proof (cases "bit (req_be t) ?i")
      case on: True
      have "byte_of v (?i mod 8) = f ?i"
        using atomic_lane(2) [OF cfg addr acc n(3) on] by (intro f w(1)) simp_all
      then show ?thesis using True n on bit [OF i(1)] i(2) w(2) by (simp add: put_word_def put_window_def)
    next
      case False
      then show ?thesis using bit [OF i(1)] i(2) by (simp add: put_word_def put_window_def)
    qed
  next
    case False
    have "\<not> bit (req_be t) ?i" if w: "ram_window c t \<le> p" "p < ram_window c t + ?n"
    proof
      assume "bit (req_be t) ?i"
      moreover have "?i < ?n" using w by linarith
      ultimately have "?i div 8 = ?w" using atomic_lane(2) [OF cfg addr acc] by blast
      then have "8 * ?w \<le> ?i" "?i < 8 * ?w + 8" by auto
      then show False using False w(1) pl(3) by auto
    qed
    then show ?thesis using False by (auto simp: put_word_def put_window_def)
  qed
qed

end
