(* ===== verification/Scoreboard_Answer.thy ===== *)
theory Scoreboard_Answer
  imports Scoreboard_Request
begin

text \<open>
  The answers of the cache in \<open>rtl/tb/include/hpdcache_test_scoreboard.h\<close>: when a response is the
  one the reference allows, the round of the scoreboard reports nothing, and leaves in the RAM
  what the reference says an atomic request stores.
\<close>

section \<open>The result of an atomic operation\<close>

lemma amo_operation_of:
  assumes "is_amo t"
  shows "amo_operation t \<in> set amo_ops \<and> op_code (amo_operation t) = req_op t"
proof -
  have "\<exists>opc \<in> set amo_ops. op_code opc = req_op t"
    using assms by (auto simp: is_amo_def amo_ops_def)
  then have "find (\<lambda>opc. op_code opc = req_op t) amo_ops \<noteq> None"
    by (auto simp: find_None_iff)
  then obtain opc where opc: "find (\<lambda>opc. op_code opc = req_op t) amo_ops = Some opc" by blast
  then have "amo_operation t = opc" by (simp add: amo_operation_def)
  then show ?thesis using opc by (auto simp: find_Some_iff)
qed

lemma lane_value:
  assumes "\<And>j. j < 4 \<Longrightarrow> byte_of x (q + j) = f j"
  shows "(ucast (drop_bit (8 * q) x) :: u32) = ucast (word_of_bytes (map f [0..<4]))"
proof (rule bit_word_eqI)
  fix n
  assume "n < LENGTH(32)"
  then have n: "n div 8 < 4" by simp
  have "8 * (q + n div 8) + n mod 8 = 8 * q + n" by simp
  then have "bit x (8 * q + n) = bit (byte_of x (q + n div 8)) (n mod 8)" unfolding bit_byte_of by (simp only:) simp
  also have "\<dots> = bit (map f [0..<4] ! (n div 8)) (n mod 8)" using n assms [OF n] by simp
  finally show "bit (ucast (drop_bit (8 * q) x) :: u32) n
      = bit (ucast (word_of_bytes (map f [0..<4])) :: u32) n"
    using n by (simp add: bit_ucast_iff bit_drop_bit_eq bit_word_of_bytes del: upt_rec_numeral)
qed

lemma lane_byte:
  assumes "(ucast (drop_bit (8 * q) x) :: u32) = y" and "k < 4"
  shows "byte_of x (q + k) = byte_of (ucast y) k"
proof (rule bit_word_eqI)
  fix n
  assume "n < LENGTH(8)"
  then have "8 * k + n < 32" "n < 8" using assms(2) by simp_all
  moreover have "8 * (q + k) + n = 8 * q + (8 * k + n)" by simp
  ultimately show "bit (byte_of x (q + k)) n = bit (byte_of (ucast y) k) n"
    by (simp add: bit_ucast_iff bit_drop_bit_eq add.assoc flip: assms(1))
qed

lemma rsp_word_byte:
  assumes "sb_cfg c" and "j < 8"
  shows "byte_of (rsp_word c r w) j = data_byte (rsp_rdata r) (8 * w + j)"
proof -
  have "rsp_word c r w = bv_to_uint64 (get_field (w * 64) 64 (rsp_rdata r))"
    using assms(1) by (simp add: rsp_word_def sb_cfg_def)
  then show ?thesis using byte_of_lane [OF assms(2)] by simp
qed

lemma amo_stored_bytes:
  assumes cfg: "sb_cfg c" and addr: "e_addr e = req_address t" and acc: "atomic_access c t"
    and bytes: "e_bytes e = push_bit (req_size t) 1"
    and wd: "e_wdata e = map (\<lambda>i. bv_to_uint64 (get_field (i * 64) 64 (req_wdata t))) [0..<HPDCACHE_REQ_WORDS c]"
    and old: "\<And>k. k < 2 ^ req_size t \<Longrightarrow> data_byte (rsp_rdata r) (bus_offset c t + k) = M (unat (req_address t) + k)"
    and res: "amo_stored c (amo_operation t) e r v"
    and k: "k < 2 ^ req_size t"
  shows "byte_of v (unat (req_address t) mod 8 + k) = byte_of (amo_result c t M) k"
proof -
  let ?w = "entry_word c e" and ?q = "unat (req_address t) mod 8" and ?a = "unat (req_address t)"
  note pl = atomic_place [OF cfg addr]
  have le: "?q + 2 ^ req_size t \<le> 8" by (rule atomic_lane(1) [OF cfg addr acc])
  have wb: "byte_of (e_wdata e ! ?w) j = data_byte (req_wdata t) (8 * ?w + j)" if "j < 8" for j
    using pl(2) byte_of_lane [OF that] by (simp add: wd)
  have o: "byte_of (rsp_word c r ?w) (?q + j) = M (?a + j)"
    and n: "byte_of (e_wdata e ! ?w) (?q + j) = data_byte (req_wdata t) (bus_offset c t + j)"
    if "j < 2 ^ req_size t" for j
  proof -
    have j: "?q + j < 8" and e: "bus_offset c t + j = 8 * ?w + (?q + j)" using le that pl(1) by simp_all
    show "byte_of (rsp_word c r ?w) (?q + j) = M (?a + j)"
      using old [OF that] rsp_word_byte [OF cfg j] by (simp only: e)
    show "byte_of (e_wdata e ! ?w) (?q + j) = data_byte (req_wdata t) (bus_offset c t + j)"
      using wb [OF j] by (simp only: e)
  qed
  consider (eight) "req_size t = 3" | (four) "req_size t = 2" using acc by (auto simp: atomic_access_def)
  then show ?thesis
  proof cases
    case eight
    then have q: "?q = 0" and p: "(2 :: nat) ^ req_size t = 8" and b: "e_bytes e = 8"
      using le bytes by simp_all
    have "rsp_word c r ?w = mem_value_at 8 M ?a"
      unfolding mem_value_at_def
      by (rule byte_of_eqI) (use o in \<open>simp add: byte_of_word_of_bytes q p del: upt_rec_numeral\<close>)
    moreover have "e_wdata e ! ?w = mem_value_at 8 (data_byte (req_wdata t)) (bus_offset c t)"
      unfolding mem_value_at_def
      by (rule byte_of_eqI) (use n in \<open>simp add: byte_of_word_of_bytes q p del: upt_rec_numeral\<close>)
    ultimately have "v = amo_result c t M"
      using res b p eight by (simp add: amo_stored_def amo_result_def Let_def)
    then show ?thesis by (simp add: q)
  next
    case four
    then have p: "(2 :: nat) ^ req_size t = 4" and b: "e_bytes e \<noteq> 8" using bytes by simp_all
    have eo: "(ucast (drop_bit (?q * 8) (rsp_word c r ?w)) :: u32) = ucast (mem_value_at 4 M ?a)"
      unfolding mem_value_at_def mult.commute [of ?q 8] by (rule lane_value) (use o p in simp)
    have en: "(ucast (drop_bit (?q * 8) (e_wdata e ! ?w)) :: u32)
        = ucast (mem_value_at 4 (data_byte (req_wdata t)) (bus_offset c t))"
      unfolding mem_value_at_def mult.commute [of ?q 8] by (rule lane_value) (use n p in simp)
    let ?y = "amo_spec (amo_operation t) (ucast (mem_value_at 4 M ?a) :: u32)
        (ucast (mem_value_at 4 (data_byte (req_wdata t)) (bus_offset c t)))"
    have "(ucast (drop_bit (?q * 8) v) :: u32) = ?y"
      using res b by (simp add: amo_stored_def Let_def addr eo en)
    then have "(ucast (drop_bit (8 * ?q) v) :: u32) = ?y" unfolding mult.commute [of 8 ?q] .
    then have "byte_of v (?q + k) = byte_of (ucast ?y) k"
      using k p by (intro lane_byte) simp_all
    moreover have "amo_result c t M = ucast ?y" using four p by (simp add: amo_result_def Let_def)
    ultimately show ?thesis by simp
  qed
qed

section \<open>The checks of a right answer\<close>

lemma write_entry_word_frame:
  "write_entry_word c e ws be s = Inr t \<Longrightarrow> t = s\<lparr>ram_m := ram_m t\<rparr>"
  by (auto simp: write_entry_word_def andthen_Inr_iff)

lemma update_amo_frame: "update_amo c e r s = Inr t \<Longrightarrow> t = s\<lparr>ram_m := ram_m t\<rparr>"
  by (auto simp: update_amo_def Let_def andthen_Inr_iff dest: write_entry_word_frame split: if_splits)

lemma check_byte_right:
  assumes "sb_cfg c" and "junk_ok c e" and "i < 8 * HPDCACHE_REQ_WORDS c" and "\<not> wrong_byte e r i"
  shows "check_byte c e (rsp_bytes c r) i s = Inr s"
proof -
  have "length (rsp_bytes c r) = 8 * HPDCACHE_REQ_WORDS c"
    by (simp add: rsp_bytes_def CORE_REQ_WORDS_def)
  moreover have "i div 8 < length (e_rv e)" "i < length (e_rdata e)"
    using assms(2,3) by (auto simp: junk_ok_def)
  moreover have "drop_bit (i mod 8) b AND 1 \<noteq> 0 \<longleftrightarrow> bit b (i mod 8)" for b :: u8
    by (simp add: bit_iff_and_drop_bit_eq_1 and_one_eq)
  ultimately show ?thesis
    using assms
    by (auto simp: check_byte_def Let_def sb_widths [OF assms(1)] nth_rsp_bytes wrong_byte_def)
qed

lemma fold_ok_skip: "\<forall>i \<in> set is. f i s = Inr s \<Longrightarrow> fold_ok f is s = Inr s"
  by (induction "is") simp_all

text \<open>The bytes of an access as offsets in the window of the bus.\<close>

lemma access_bytes_of:
  assumes "fits_bus c t" and "e_addr e = req_address t" and "e_bytes e = push_bit (req_size t) 1"
    and "sb_cfg c"
  shows "entry_byte c e = bus_offset c t" and "unat (e_bytes e) = 2 ^ req_size t"
proof -
  show "entry_byte c e = bus_offset c t"
    by (simp add: entry_byte_def assms(2) sb_widths(3) [OF assms(4)] bus_offset_def)
  have "req_size t < 8" using assms(1) by (simp add: fits_bus_def)
  then have "unat (of_nat (2 ^ req_size t) :: u8) = 2 ^ req_size t"
    unfolding unsigned_of_nat by (simp add: take_bit_nat_eq_self)
  then show "unat (e_bytes e) = 2 ^ req_size t" unfolding assms(3) by simp
qed

lemma right_data:
  assumes cfg: "sb_cfg c" and tr: "tracks c segs t held K e" and rd: "is_reading t" "\<not> expect_error segs t held"
    and fit: "fits_bus c t"
    and dat: "\<forall>k < 2 ^ req_size t. data_byte (rsp_rdata r) (bus_offset c t + k) = M (unat (req_address t) + k)"
    and K: "\<forall>i < 8 * HPDCACHE_REQ_WORDS c. \<forall>b. K (ram_window c t + i) = Some b \<longrightarrow> b = M (bus_base c t + i)"
  shows "check_data c e (rsp_bytes c r) s = Inr s"
proof -
  let ?n = "8 * HPDCACHE_REQ_WORDS c"
  have l: "e_addr e = req_address t" "e_bytes e = push_bit (req_size t) 1" "junk_ok c e"
    "\<forall>i < ?n. K (ram_window c t + i) = (if bit (e_rv e ! (i div 8)) (i mod 8) then Some (e_rdata e ! i) else None)"
    using tr rd by (simp_all add: tracks_def)
  note ab = access_bytes_of [OF fit l(1,2) cfg]
  have "check_byte c e (rsp_bytes c r) i s = Inr s"
    if i: "i \<in> set [entry_byte c e..<entry_byte c e + unat (e_bytes e)]" for i
  proof -
    define k where "k = i - bus_offset c t"
    have k: "k < 2 ^ req_size t" "i = bus_offset c t + k" using i ab by (auto simp: k_def)
    have lt: "i < ?n" using k fit by (simp add: fits_bus_def)
    have "data_byte (rsp_rdata r) i = M (bus_base c t + i)"
      using dat k bus_address [of c t] by (simp add: add.assoc [symmetric])
    then have "\<not> wrong_byte e r i" using l(4) K lt by (auto simp: wrong_byte_def)
    then show ?thesis by (rule check_byte_right [OF cfg l(3) lt])
  qed
  then show ?thesis unfolding check_data_def by (intro fold_ok_skip) blast
qed

text \<open>What the response to a request leaves in the RAM.\<close>

definition answered ::
  "cfg \<Rightarrow> segment list \<Rightarrow> req \<Rightarrow> bool \<Rightarrow> bool \<Rightarrow> (nat \<Rightarrow> u8) \<Rightarrow> (nat \<Rightarrow> u8 option) \<Rightarrow> nat \<Rightarrow> u8 option" where
  "answered c segs t held ack M K =
     (if expect_error segs t held then K
      else if is_amo t then put_window c t (\<lambda>i. byte_of (amo_result c t M) (i - bus_offset c t)) K
      else if is_amo_sc t \<and> held \<and> ack then put_window c t (data_byte (req_wdata t)) K
      else K)"

lemma atomic_amo_aligned:
  assumes "atomic_access c t" and "e_addr e = req_address t" and "e_bytes e = push_bit (req_size t) 1"
  shows "amo_aligned e"
proof -
  consider (eight) "req_size t = 3" | (four) "req_size t = 2" using assms(1) by (auto simp: atomic_access_def)
  then show ?thesis
  proof cases
    case eight
    then have "unat (req_address t) mod 8 = 0"
      using assms(1) by (simp add: atomic_access_def dvd_eq_mod_eq_0)
    then show ?thesis using assms(2,3) eight by (simp add: amo_aligned_def)
  next
    case four
    then have "unat (req_address t) mod 4 = 0"
      using assms(1) by (simp add: atomic_access_def dvd_eq_mod_eq_0)
    then have "unat (req_address t) mod 8 \<in> {0, 4}" by simp presburger
    then show ?thesis using assms(2,3) four by (simp add: amo_aligned_def)
  qed
qed

lemma lane_position: "i = 8 * w + q + k \<Longrightarrow> q + k < 8 \<Longrightarrow> i mod 8 = q + (k :: nat)"
  by presburger

lemma amo_answered:
  assumes rdy: "sb_ready c s" and tr: "tracks c segs t held K e" and amo: "is_amo t" "\<not> expect_error segs t held"
    and fit: "fits_bus c t" and acc: "atomic_access c t"
    and dat: "\<forall>k < 2 ^ req_size t. data_byte (rsp_rdata r) (bus_offset c t + k) = M (unat (req_address t) + k)"
  shows "\<exists>m. update_amo c e r s = Inr (s\<lparr>ram_m := m\<rparr>)
     \<and> ram_abs m = answered c segs t held ack M (ram_abs (ram_m s))"
proof -
  have cfg: "sb_cfg c" using rdy by (simp add: sb_ready_def)
  note cl = request_classes(4) [OF amo(1)]
  have k: "e_is_amo e" "e_op e = req_op t" "e_addr e = req_address t" "e_bytes e = push_bit (req_size t) 1"
    "e_wdata e = map (\<lambda>i. bv_to_uint64 (get_field (i * 64) 64 (req_wdata t))) [0..<HPDCACHE_REQ_WORDS c]"
    "e_be e = map (\<lambda>i. word_of_nat (get_field (i * 8) 8 (req_be t))) [0..<HPDCACHE_REQ_WORDS c]"
    and ent: "data_entry c e"
    using tr amo cl by (simp_all add: tracks_def data_entry_def)
  note opc = amo_operation_of [OF amo(1)]
  have al: "amo_aligned e" by (rule atomic_amo_aligned [OF acc k(3,4)])
  obtain u v where u: "update_amo c e r s = Inr u" "amo_stored c (amo_operation t) e r v"
    "ram_abs (ram_m u) = put_word (ram_dword e) v (e_be e ! entry_word c e) (ram_abs (ram_m s))"
    using update_amo_spec [OF rdy k(1) _ _ ent al, of "amo_operation t" r] opc k(2) by auto
  have "put_word (ram_dword e) v (e_be e ! entry_word c e) (ram_abs (ram_m s))
      = put_window c t (\<lambda>i. byte_of (amo_result c t M) (i - bus_offset c t)) (ram_abs (ram_m s))"
  proof (rule put_word_window [OF cfg k(3) acc k(6)])
    fix i
    assume i: "i div 8 = entry_word c e" "bus_offset c t \<le> i" "i < bus_offset c t + 2 ^ req_size t"
    define j where "j = i - bus_offset c t"
    have j: "j < 2 ^ req_size t" "i = bus_offset c t + j" using i by (auto simp: j_def)
    have "i mod 8 = unat (req_address t) mod 8 + j"
      using j(2) atomic_place(1) [OF cfg k(3)] atomic_lane(1) [OF cfg k(3) acc] j(1)
      by (intro lane_position [where w = "entry_word c e"]) simp_all
    then show "byte_of v (i mod 8) = byte_of (amo_result c t M) (i - bus_offset c t)"
      using amo_stored_bytes [OF cfg k(3) acc k(4,5) _ u(2) j(1)] dat j(2) by simp
  qed
  then have "ram_abs (ram_m u) = answered c segs t held ack M (ram_abs (ram_m s))"
    using u(3) amo by (simp add: answered_def)
  then show ?thesis using u(1) update_amo_frame [OF u(1)] by (intro exI [of _ "ram_m u"]) simp
qed

lemma sc_answered:
  assumes rdy: "sb_ready c s" and tr: "tracks c segs t held K e" and amo: "is_amo_sc t" "\<not> expect_error segs t held"
    and acc: "atomic_access c t"
    and ans: "sc_answer c t r = (if held \<and> sc_is_atomic s then 0 else 1)"
  shows "\<exists>m. check_sc c e r s = Inr (s\<lparr>ram_m := m\<rparr>)
     \<and> ram_abs m = answered c segs t held (sc_is_atomic s) M (ram_abs (ram_m s))"
proof -
  have cfg: "sb_cfg c" using rdy by (simp add: sb_ready_def)
  let ?w = "entry_word c e"
  note cl = request_classes(6) [OF amo(1)]
  have k: "e_is_amo_sc e" "e_is_atomic e = held" "e_addr e = req_address t" "e_bytes e = push_bit (req_size t) 1"
    "e_wdata e = map (\<lambda>i. bv_to_uint64 (get_field (i * 64) 64 (req_wdata t))) [0..<HPDCACHE_REQ_WORDS c]"
    "e_be e = map (\<lambda>i. word_of_nat (get_field (i * 8) 8 (req_be t))) [0..<HPDCACHE_REQ_WORDS c]"
    using tr amo cl by (simp_all add: tracks_def)
  have w: "?w < HPDCACHE_REQ_WORDS c" by (rule entry_word_less [OF cfg])
  have "e_bytes e = 4 \<longleftrightarrow> req_size t = 2" using acc k(4) by (auto simp: atomic_access_def)
  then have st: "(if e_bytes e = 4 then low_32 (rsp_word c r ?w) else rsp_word c r ?w) = sc_answer c t r"
    by (simp add: sc_answer_def Let_def entry_word_def k(3) sb_widths [OF cfg] CORE_REQ_WORDS_def)
  show ?thesis
  proof (cases "held \<and> sc_is_atomic s")
    case True
    have hd: "drop ?w (e_wdata e) \<noteq> []" "drop ?w (e_be e) \<noteq> []"
      "hd (drop ?w (e_wdata e)) = e_wdata e ! ?w" "hd (drop ?w (e_be e)) = e_be e ! ?w"
      using w by (simp_all add: k(5,6) hd_drop_conv_nth)
    obtain m where m: "write_entry_word c e (drop ?w (e_wdata e)) (drop ?w (e_be e)) s = Inr (s\<lparr>ram_m := m\<rparr>)"
      and abs: "\<forall>a. ram_abs m a = (if ram_dword e \<le> a \<and> a < ram_dword e + 8 \<and> bit (e_be e ! ?w) (a - ram_dword e)
           then Some (byte_of (e_wdata e ! ?w) (a - ram_dword e)) else ram_abs (ram_m s) a)"
      using write_entry_word_spec [OF rdy hd(1,2)] by (auto simp only: hd)
    have "ram_abs m = put_word (ram_dword e) (e_wdata e ! ?w) (e_be e ! ?w) (ram_abs (ram_m s))"
      by (rule ext) (simp add: abs put_word_def)
    also have "\<dots> = put_window c t (data_byte (req_wdata t)) (ram_abs (ram_m s))"
    proof (rule put_word_window [OF cfg k(3) acc k(6)])
      fix i
      assume w': "i div 8 = ?w"
      have "8 * (i div 8) + i mod 8 = i" by simp
      then have "8 * ?w + i mod 8 = i" unfolding w' .
      moreover have "byte_of (e_wdata e ! ?w) (i mod 8) = data_byte (req_wdata t) (8 * ?w + i mod 8)"
        using w by (simp add: k(5) byte_of_lane)
      ultimately show "byte_of (e_wdata e ! ?w) (i mod 8) = data_byte (req_wdata t) i" by simp
    qed
    finally have "ram_abs m = answered c segs t held (sc_is_atomic s) M (ram_abs (ram_m s))"
      using True amo cl by (simp add: answered_def)
    moreover have "check_sc c e r s = Inr (s\<lparr>ram_m := m\<rparr>)"
      using True k(1,2) m ans by (simp add: check_sc_def Let_def st)
    ultimately show ?thesis by blast
  next
    case False
    then have "\<not> (e_is_atomic e \<and> sc_is_atomic s)" by (simp add: k(2))
    then have "check_sc c e r s = Inr s"
      using k(1) ans False by (cases "e_is_atomic e") (simp_all add: check_sc_def Let_def st k(2))
    then show ?thesis using False cl by (intro exI [of _ "ram_m s"]) (auto simp: answered_def)
  qed
qed

lemma right_response:
  assumes rdy: "sb_ready c s" and find: "sm_find (inflight_m s) (rsp_tid r) = Some e"
    and tr: "tracks c segs t held K e" and kind: "is_load t \<or> is_store t \<or> is_cmo t \<or> is_atomic t"
    and flag: "\<not> is_store t \<longrightarrow> rsp_error r = expect_error segs t held"
    and fit: "\<not> is_cmo t \<Longrightarrow> fits_bus c t" and acc: "is_atomic t \<Longrightarrow> atomic_access c t"
    and rd: "is_reading t \<and> \<not> expect_error segs t held \<Longrightarrow>
        (\<forall>k < 2 ^ req_size t. data_byte (rsp_rdata r) (bus_offset c t + k) = M (unat (req_address t) + k))
        \<and> (\<forall>i < 8 * HPDCACHE_REQ_WORDS c. \<forall>b. K (ram_window c t + i) = Some b \<longrightarrow> b = M (bus_base c t + i))"
    and sc: "is_amo_sc t \<and> \<not> expect_error segs t held \<Longrightarrow>
        sc_answer c t r = (if held \<and> sc_is_atomic s then 0 else 1)"
  shows "\<exists>m. core_resp_step c r s = Inr (retire_request (rsp_tid r)
        (s\<lparr>nb_core_resp := nb_core_resp s + 1, nb_cycles_effective := nb_cycles s, ram_m := m\<rparr>))
     \<and> ram_abs m = answered c segs t held (sc_is_atomic s) M (ram_abs (ram_m s))"
proof -
  let ?s = "s\<lparr>nb_core_resp := nb_core_resp s + 1, nb_cycles_effective := nb_cycles s\<rparr>"
  have cfg: "sb_cfg c" and rdy': "sb_ready c ?s" using rdy by (simp_all add: sb_ready_def)
  have k: "e_is_read e = is_load t" "e_is_write e = is_store t" "e_is_amo e = is_amo t"
    "e_is_amo_sc e = is_amo_sc t" "e_is_amo_lr e = is_amo_lr t" "e_is_error e = expect_error segs t held"
    using tr by (simp_all add: tracks_def)
  have "\<exists>m. check_response c e r ?s = Inr (?s\<lparr>ram_m := m\<rparr>)
      \<and> ram_abs m = answered c segs t held (sc_is_atomic s) M (ram_abs (ram_m s))"
  proof -
    consider (error) "expect_error segs t held"
      | (reading) "is_reading t" "\<not> is_amo t" "\<not> expect_error segs t held"
      | (amo) "is_amo t" "\<not> expect_error segs t held"
      | (sc) "is_amo_sc t" "\<not> expect_error segs t held"
      | (other) "\<not> is_reading t" "\<not> is_amo_sc t" "\<not> expect_error segs t held" by blast
    then show ?thesis
    proof cases
      case error
      then show ?thesis using k by (intro exI [of _ "ram_m s"]) (simp add: check_response_def answered_def)
    next
      case reading
      then have nc: "\<not> is_cmo t" "\<not> is_amo_sc t" using request_classes(1,4,5) [of t] unfolding is_reading_def by blast+
      have "check_data c e (rsp_bytes c r) ?s = Inr ?s"
        using right_data [OF cfg tr reading(1,3) fit [OF nc(1)], of r M] rd reading by blast
      then have "check_response c e r ?s = Inr ?s"
        using k reading nc by (auto simp: check_response_def check_sc_def update_amo_def is_reading_def simp flip: rsp_bytes_def)
      then show ?thesis using reading nc by (intro exI [of _ "ram_m s"]) (simp add: answered_def)
    next
      case amo
      then have nc: "\<not> is_cmo t" "\<not> is_amo_sc t" and r: "is_reading t" and a: "is_atomic t"
        using request_classes(4) [of t] unfolding is_reading_def is_atomic_def by blast+
      have "check_data c e (rsp_bytes c r) ?s = Inr ?s"
        using right_data [OF cfg tr r amo(2) fit [OF nc(1)], of r M] rd r amo(2) by blast
      moreover obtain m where "update_amo c e r ?s = Inr (?s\<lparr>ram_m := m\<rparr>)"
        "ram_abs m = answered c segs t held (sc_is_atomic s) M (ram_abs (ram_m ?s))"
        using amo_answered [OF rdy' tr amo fit [OF nc(1)] acc [OF a], of r M "sc_is_atomic s"] rd r amo(2) by blast
      ultimately show ?thesis
        using k amo nc by (intro exI [of _ m]) (simp add: check_response_def check_sc_def flip: rsp_bytes_def)
    next
      case sc
      then have a: "is_atomic t" and cl: "\<not> is_load t" "\<not> is_amo t" "\<not> is_amo_lr t"
        using request_classes(6) [of t] unfolding is_atomic_def by blast+
      have "sc_answer c t r = (if held \<and> sc_is_atomic ?s then 0 else 1)" using assms(9) sc by simp
      then obtain m where "check_sc c e r ?s = Inr (?s\<lparr>ram_m := m\<rparr>)"
        "ram_abs m = answered c segs t held (sc_is_atomic ?s) M (ram_abs (ram_m ?s))"
        using sc_answered [OF rdy' tr sc acc [OF a], of r M] by blast
      then show ?thesis using k sc cl by (intro exI [of _ m]) (simp add: check_response_def)
    next
      case other
      then show ?thesis
        using k by (intro exI [of _ "ram_m s"]) (auto simp: check_response_def check_sc_def answered_def is_reading_def)
    qed
  qed
  then obtain m where m: "check_response c e r ?s = Inr (?s\<lparr>ram_m := m\<rparr>)"
    "ram_abs m = answered c segs t held (sc_is_atomic s) M (ram_abs (ram_m s))" by blast
  have "\<not> (\<not> e_is_write e \<and> rsp_error r \<noteq> e_is_error e)" using k flag by auto
  then have "core_resp_step c r s = Inr (retire_request (rsp_tid r) (?s\<lparr>ram_m := m\<rparr>))"
    using find m(1) unfolding core_resp_step_def by (auto simp: Let_def)
  then show ?thesis using m(2) by (intro exI [of _ m]) simp
qed

end
