(* ===== verification/Scoreboard_Agreement.thy ===== *)
theory Scoreboard_Agreement
  imports Scoreboard_Answer
begin

text \<open>
  Agreement of the scoreboard (\<open>rtl/tb/include/hpdcache_test_scoreboard.h\<close>) with the reference,
  and that every round on an event the reference allows keeps it.
\<close>

section \<open>Agreement\<close>

text \<open>The RAM holds the memory that the core sees, at least every byte that the core has stored.\<close>

definition image_ok ::
  "nat set \<Rightarrow> (nat \<Rightarrow> u8) \<Rightarrow> (nat \<Rightarrow> u8 option) \<Rightarrow> (nat \<Rightarrow> u8 option) \<Rightarrow> bool" where
  "image_ok A I K st \<longleftrightarrow> (\<forall>a \<in> A.
     (\<forall>b. K (a mod SCOREBOARD_RAM_SIZE) = Some b \<longrightarrow> b = current I st a)
     \<and> (st a \<noteq> None \<longrightarrow> K (a mod SCOREBOARD_RAM_SIZE) \<noteq> None))"

text \<open>An entry knows the bytes stored before its request and holds the memory the request saw.\<close>

definition pending_ok ::
  "cfg \<Rightarrow> segment list \<Rightarrow> nat set \<Rightarrow> (nat \<Rightarrow> u8) \<Rightarrow> inflight_entry option
     \<Rightarrow> (req \<times> (nat \<Rightarrow> u8 option) \<times> bool) option \<Rightarrow> bool" where
  "pending_ok c segs A I eo po \<longleftrightarrow> (case po of None \<Rightarrow> eo = None | Some (t, st, held) \<Rightarrow>
     (\<exists>e K. eo = Some e \<and> tracks c segs t held K e
        \<and> (is_load t \<or> is_store t \<or> is_cmo t \<or> is_atomic t)
        \<and> (\<not> is_cmo t \<longrightarrow> fits_bus c t \<and> bus_window c t \<subseteq> A) \<and> (is_atomic t \<longrightarrow> atomic_access c t)
        \<and> (is_reading t \<longrightarrow> (\<forall>i < 8 * HPDCACHE_REQ_WORDS c.
              (\<forall>b. K (ram_window c t + i) = Some b \<longrightarrow> b = current I st (bus_base c t + i))
              \<and> (st (bus_base c t + i) \<noteq> None \<longrightarrow> K (ram_window c t + i) \<noteq> None)))))"

text \<open>The atomic request in progress is in the FIFO as long as it waits for its memory request.\<close>

definition atomic_wf ::
  "inflight_entry list \<Rightarrow> bool \<Rightarrow> (nat \<Rightarrow> (req \<times> (nat \<Rightarrow> u8 option) \<times> bool) option)
     \<Rightarrow> (req \<times> bool \<times> progress) option \<Rightarrow> bool" where
  "atomic_wf fifo ack pending atomic \<longleftrightarrow> (case atomic of None \<Rightarrow> fifo = [] | Some (t, h, p) \<Rightarrow>
     is_atomic t \<and> (\<exists>st. pending (req_tid t) = Some (t, st, h))
     \<and> (if p = Waiting then \<exists>e. fifo = [e] \<and> (is_amo_sc t \<longrightarrow> e_is_atomic e) else fifo = [])
     \<and> (is_amo_sc t \<longrightarrow> h = (p \<noteq> Finished)) \<and> (\<forall>b. p = Answered b \<longrightarrow> ack = b))"

abbreviation atomic_ok :: "scoreboard \<Rightarrow> reference \<Rightarrow> bool" where
  "atomic_ok s R \<equiv> atomic_wf (inflight_amo_req_m s) (sc_is_atomic s) (rf_pending R) (rf_atomic R)"

definition agrees ::
  "cfg \<Rightarrow> segment list \<Rightarrow> nat set \<Rightarrow> (nat \<Rightarrow> u8) \<Rightarrow> scoreboard \<Rightarrow> reference \<Rightarrow> bool" where
  "agrees c segs A I s R \<longleftrightarrow> mem_resp_model s = Some segs \<and> nb_error s = 0
     \<and> image_ok A I (ram_abs (ram_m s)) (rf_stored R)
     \<and> (\<forall>k. pending_ok c segs A I (sm_find (inflight_m s) k) (rf_pending R k))
     \<and> (\<forall>k. map_option (\<lambda>e. (me_addr e, me_bytes e)) (sm_find (inflight_mem_read_m s) k)
            = map_option (\<lambda>q. (mr_addr q, mem_bytes q)) (rf_reads R k))
     \<and> dom (sm_find (inflight_mem_write_m s)) = rf_writes R
     \<and> rf_reserved R = (if rs_valid (lrsc_buf_m s) then Some (rs_base_addr (lrsc_buf_m s)) else None)
     \<and> atomic_ok s R"

section \<open>The image\<close>

lemma window_hit:
  assumes cfg: "sb_cfg c" and na: "no_alias A" and win: "bus_window c t \<subseteq> A" and a: "a \<in> A"
  shows "ram_window c t \<le> a mod SCOREBOARD_RAM_SIZE
       \<and> a mod SCOREBOARD_RAM_SIZE < ram_window c t + 8 * HPDCACHE_REQ_WORDS c
     \<longleftrightarrow> a \<in> bus_window c t" (is "?l \<longleftrightarrow> ?r")
    and "a \<in> bus_window c t \<Longrightarrow> a mod SCOREBOARD_RAM_SIZE - ram_window c t = a - bus_base c t"
proof -
  have pos: "a mod SCOREBOARD_RAM_SIZE = ram_window c t + (a - bus_base c t)"
    if "a \<in> bus_window c t"
    using window_pos [OF cfg, of "a - bus_base c t" t] that by (auto simp: bus_window_def)
  then show "a \<in> bus_window c t \<Longrightarrow> a mod SCOREBOARD_RAM_SIZE - ram_window c t = a - bus_base c t"
    by simp
  show "?l \<longleftrightarrow> ?r"
  proof
    assume l: ?l
    define i where "i = a mod SCOREBOARD_RAM_SIZE - ram_window c t"
    have i: "i < 8 * HPDCACHE_REQ_WORDS c" using l by (auto simp: i_def)
    then have "(bus_base c t + i) mod SCOREBOARD_RAM_SIZE = a mod SCOREBOARD_RAM_SIZE"
      using window_pos [OF cfg i, of t] l by (simp add: i_def)
    moreover have "bus_base c t + i \<in> bus_window c t" using i by (simp add: bus_window_def)
    moreover from this have "bus_base c t + i \<in> A" using win by blast
    ultimately show ?r using na a by (auto simp: no_alias_def dest: inj_onD)
  next
    assume ?r
    then show ?l using pos by (auto simp: bus_window_def)
  qed
qed

lemma image_put:
  assumes "sb_cfg c" and "no_alias A" and "bus_window c t \<subseteq> A" and "image_ok A I K st"
  shows "image_ok A I (put_window c t f K) (put_bus c t f st)"
  unfolding image_ok_def
proof
  fix a
  assume a: "a \<in> A"
  let ?p = "a mod SCOREBOARD_RAM_SIZE" and ?K = "put_window c t f K" and ?st = "put_bus c t f st"
  note h = window_hit [OF assms(1-3) a]
  have old: "(\<forall>b. K ?p = Some b \<longrightarrow> b = current I st a) \<and> (st a \<noteq> None \<longrightarrow> K ?p \<noteq> None)"
    using assms(4) a by (auto simp: image_ok_def)
  show "(\<forall>b. ?K ?p = Some b \<longrightarrow> b = current I ?st a) \<and> (?st a \<noteq> None \<longrightarrow> ?K ?p \<noteq> None)"
  proof (cases "a \<in> bus_window c t \<and> bit (req_be t) (a - bus_base c t)")
    case True
    then have "?K ?p = Some (f (a - bus_base c t))" "?st a = Some (f (a - bus_base c t))"
      using h by (simp_all add: put_bus_def put_window_def)
    then show ?thesis by (simp add: current_def)
  next
    case False
    then have "?st a = st a" by (auto simp: put_bus_def)
    moreover have "?K ?p = K ?p"
    proof (cases "a \<in> bus_window c t")
      case True
      then have "\<not> bit (req_be t) (?p - ram_window c t)" using False h(2) by simp
      then show ?thesis by (simp add: put_window_def)
    next
      case out: False
      then show ?thesis using h(1) by (auto simp: put_window_def)
    qed
    ultimately show ?thesis using old by (simp add: current_def)
  qed
qed

section \<open>Core requests and responses\<close>

lemma agrees_core_req:
  assumes cfg: "check_cfg c" and na: "no_alias A" and inv: "sb_inv s" and ag: "agrees c segs A I s R"
    and al: "allowed c segs A I R (Core_req junk t)"
  shows "\<exists>u. core_req_step c junk t s = Inr u \<and> agrees c segs A I u (ref_step c segs I (Core_req junk t) R)"
proof -
  have sc: "sb_cfg c" and cw: "3 \<le> HPDCACHE_CL_OFFSET_WIDTH c" using cfg by (simp_all add: check_cfg_def)
  have rdy: "sb_ready c s" using inv sc by (simp add: sb_ready_def sb_inv_def)
  have mm: "mem_resp_model s = Some segs" and img: "image_ok A I (ram_abs (ram_m s)) (rf_stored R)"
    and pend: "pending_ok c segs A I (sm_find (inflight_m s) k) (rf_pending R k)"
    and res: "rf_reserved R = (if rs_valid (lrsc_buf_m s) then Some (rs_base_addr (lrsc_buf_m s)) else None)"
    and at: "atomic_ok s R" for k
    using ag by (simp_all add: agrees_def)
  have ra: "request_ok c A t" "in_turn c R t" and jk: "junk_ok c junk" using al by simp_all
  then have none: "rf_pending R (req_tid t) = None" by (simp add: in_turn_def)
  then have free: "sm_find (inflight_m s) (req_tid t) = None" using pend [of "req_tid t"] by (simp add: pending_ok_def)
  have kind: "is_load t \<or> is_store t \<or> is_cmo t \<or> is_atomic t"
    and acc: "\<not> is_cmo t \<Longrightarrow> fits_bus c t \<and> bus_window c t \<subseteq> A"
    using ra(1) by (auto simp: request_ok_def)
  have am: "atomic_access c t \<and> req_need_rsp t \<and> rf_atomic R = None" if "is_atomic t"
  proof -
    have "\<not> is_cmo t" using that request_classes(3) [of t] unfolding is_atomic_def by blast
    then show ?thesis using ra that by (auto simp: request_ok_def in_turn_def split: option.splits)
  qed
  have room: "is_atomic t \<Longrightarrow> inflight_amo_req_m s = []" using am at by (simp add: atomic_wf_def)
  have held: "held_in c t s = holds_reservation c R t"
    by (simp add: held_in_def holds_reservation_def res)
  define h where "h = holds_reservation c R t"
  obtain e b m where st: "core_req_step c junk t s = Inr (track_request t e (count_core_req t s\<lparr>lrsc_buf_m := b,
        inflight_amo_req_m := inflight_amo_req_m s @ (if forwarded t h then [e] else []), ram_m := m\<rparr>))"
    and tr: "tracks c segs t h (ram_abs (ram_m s)) e"
    and abs: "\<forall>a. ram_abs m a =
          (if is_store t \<and> \<not> error_request segs t \<and> ram_window c t \<le> a
              \<and> a < ram_window c t + 8 * HPDCACHE_REQ_WORDS c \<and> bit (req_be t) (a - ram_window c t)
           then Some (data_byte (req_wdata t) (a - ram_window c t)) else ram_abs (ram_m s) a)"
    using any_request [OF rdy cw mm jk free kind room] unfolding held h_def by metis
  define u where "u = track_request t e (count_core_req t s\<lparr>lrsc_buf_m := b,
        inflight_amo_req_m := inflight_amo_req_m s @ (if forwarded t h then [e] else []), ram_m := m\<rparr>)"
  let ?R = "ref_step c segs I (Core_req junk t) R"
  have "sm_wf (inflight_m s)" using inv by (simp add: sb_inv_def entries_ok_def)
  then have tab1: "sm_find (inflight_m u) = (if req_need_rsp t
      then (sm_find (inflight_m s))(req_tid t \<mapsto> e) else sm_find (inflight_m s))"
    using free by (simp add: u_def track_request_def count_core_req_def release_id_def sm.find_insert)
  have tab: "inflight_mem_read_m u = inflight_mem_read_m s" "inflight_mem_write_m u = inflight_mem_write_m s"
    "mem_resp_model u = mem_resp_model s" "nb_error u = nb_error s" "ram_m u = m" "lrsc_buf_m u = b"
    "sc_is_atomic u = sc_is_atomic s"
    "inflight_amo_req_m u = inflight_amo_req_m s @ (if forwarded t h then [e] else [])"
    by (simp_all add: u_def track_request_def count_core_req_def release_id_def)
  have "image_ok A I (ram_abs m) (rf_stored ?R)"
  proof (cases "is_store t \<and> \<not> error_request segs t")
    case True
    then have "bus_window c t \<subseteq> A" using acc request_classes(2) by blast
    moreover have "ram_abs m = put_window c t (data_byte (req_wdata t)) (ram_abs (ram_m s))"
      using abs True by (auto simp: put_window_def fun_eq_iff)
    ultimately show ?thesis using image_put [OF sc na _ img, of t] True by (simp add: store_bytes_def)
  next
    case False
    then have "ram_abs m = ram_abs (ram_m s)" using abs by auto
    then show ?thesis using img False by auto
  qed
  moreover have "pending_ok c segs A I (sm_find (inflight_m u) k) (rf_pending ?R k)" for k
  proof (cases "req_need_rsp t \<and> k = req_tid t")
    case True
    have "(\<forall>b. ram_abs (ram_m s) (ram_window c t + i) = Some b
          \<longrightarrow> b = current I (rf_stored R) (bus_base c t + i))
        \<and> (rf_stored R (bus_base c t + i) \<noteq> None \<longrightarrow> ram_abs (ram_m s) (ram_window c t + i) \<noteq> None)"
      if "is_reading t" "i < 8 * HPDCACHE_REQ_WORDS c" for i
    proof -
      have "\<not> is_cmo t" using that(1) request_classes(1,4,5) [of t] unfolding is_reading_def by blast
      then have "bus_base c t + i \<in> A" using that(2) acc by (auto simp: bus_window_def)
      then show ?thesis using img window_pos [OF sc that(2), of t] by (auto simp: image_ok_def)
    qed
    then have "pending_ok c segs A I (Some e) (Some (t, rf_stored R, h))"
      unfolding pending_ok_def option.case prod.case
      using tr kind acc am by (intro exI [of _ e] exI [of _ "ram_abs (ram_m s)"]) blast
    then show ?thesis using True tab1 by (simp add: h_def)
  next
    case False
    then show ?thesis using pend [of k] tab1 by auto
  qed
  moreover have "rf_reserved ?R = (if rs_valid b then Some (rs_base_addr b) else None)"
  proof -
    have "b = next_reservation c t s"
      using core_req_reservation [OF cw free st] by (simp add: track_request_frame)
    moreover have "in_error_region t s = error_request segs t" by (simp add: in_error_region_def mm error_request_def)
    ultimately show ?thesis
      by (auto simp: next_reservation_def Let_def ref_reserved_def res holds_reservation_def)
  qed
  moreover have "atomic_ok u ?R"
  proof (cases "is_atomic t")
    case True
    have "forwarded t h \<longleftrightarrow> \<not> (is_amo_sc t \<and> \<not> h)"
      using True request_classes(4,5) [of t] unfolding forwarded_def is_atomic_def by blast
    moreover have "is_amo_sc t \<Longrightarrow> e_is_atomic e = h" using tr by (simp add: tracks_def)
    ultimately show ?thesis
      using True am room tab by (simp add: atomic_wf_def h_def [symmetric])
  next
    case False
    then have "\<not> forwarded t h" by (auto simp: forwarded_def is_atomic_def)
    then show ?thesis
      using False at none tab by (auto simp: atomic_wf_def split: option.splits)
  qed
  ultimately have "agrees c segs A I u ?R" using ag by (simp add: agrees_def tab del: ref_step.simps) simp
  then show ?thesis using st by (simp add: u_def)
qed

lemma agrees_core_resp:
  assumes cfg: "check_cfg c" and na: "no_alias A" and inv: "sb_inv s" and ag: "agrees c segs A I s R"
    and al: "allowed c segs A I R (Core_resp r)"
  shows "\<exists>u. core_resp_step c r s = Inr u \<and> agrees c segs A I u (ref_step c segs I (Core_resp r) R)"
proof -
  have sc: "sb_cfg c" using cfg by (simp add: check_cfg_def)
  have rdy: "sb_ready c s" using inv sc by (simp add: sb_ready_def sb_inv_def)
  let ?n = "8 * HPDCACHE_REQ_WORDS c" and ?K = "ram_abs (ram_m s)"
  obtain t st held where p: "rf_pending R (rsp_tid r) = Some (t, st, held)"
    using al by (auto simp: response_allowed_def split: option.splits)
  have flag: "\<not> is_store t \<longrightarrow> rsp_error r = expect_error segs t held"
    and at: "is_atomic t \<Longrightarrow> \<exists>p. rf_atomic R = Some (t, held, p) \<and> (p = Finished \<or> (\<exists>b. p = Answered b))"
    and rd: "\<not> expect_error segs t held \<Longrightarrow> is_reading t \<Longrightarrow>
        \<forall>i < 2 ^ req_size t. data_byte (rsp_rdata r) (bus_offset c t + i) = current I st (unat (req_address t) + i)"
    and ans: "\<not> expect_error segs t held \<Longrightarrow> is_amo_sc t \<Longrightarrow>
        sc_answer c t r = (if rf_atomic R = Some (t, True, Answered True) then 0 else 1)"
    using al p by (simp_all add: response_allowed_def)
  have "pending_ok c segs A I (sm_find (inflight_m s) (rsp_tid r)) (rf_pending R (rsp_tid r))"
    and img: "image_ok A I ?K (rf_stored R)" and ao: "atomic_ok s R"
    using ag by (simp_all add: agrees_def)
  then obtain e K where e: "sm_find (inflight_m s) (rsp_tid r) = Some e" "tracks c segs t held K e"
    and kind: "is_load t \<or> is_store t \<or> is_cmo t \<or> is_atomic t"
    and acc: "\<not> is_cmo t \<Longrightarrow> fits_bus c t \<and> bus_window c t \<subseteq> A" and aa: "is_atomic t \<Longrightarrow> atomic_access c t"
    and known: "is_reading t \<Longrightarrow> \<forall>i < ?n. \<forall>b. K (ram_window c t + i) = Some b \<longrightarrow> b = current I st (bus_base c t + i)"
    unfolding p pending_ok_def option.case prod.case by blast
  have ack: "held \<and> sc_is_atomic s \<longleftrightarrow> rf_atomic R = Some (t, True, Answered True)" if "is_amo_sc t"
  proof -
    have "is_atomic t" using that by (simp add: is_atomic_def)
    then obtain p where p: "rf_atomic R = Some (t, held, p)" "p = Finished \<or> (\<exists>b. p = Answered b)" using at by blast
    then show ?thesis using ao that by (auto simp: atomic_wf_def)
  qed
  obtain m where m: "core_resp_step c r s = Inr (retire_request (rsp_tid r)
        (s\<lparr>nb_core_resp := nb_core_resp s + 1, nb_cycles_effective := nb_cycles s, ram_m := m\<rparr>))"
    and abs: "ram_abs m = answered c segs t held (sc_is_atomic s) (current I st) ?K"
    using right_response [OF rdy e kind flag conjunct1 [OF acc] aa, of "current I st"] rd known ans ack by auto
  define u where "u = retire_request (rsp_tid r)
        (s\<lparr>nb_core_resp := nb_core_resp s + 1, nb_cycles_effective := nb_cycles s, ram_m := m\<rparr>)"
  let ?R = "ref_step c segs I (Core_resp r) R"
  have "image_ok A I (ram_abs m) (stored_after c segs I (t, st, held) R)"
  proof -
    consider (amo) "is_amo t" "\<not> expect_error segs t held"
      | (sc) "is_amo_sc t" "held \<and> sc_is_atomic s" "\<not> expect_error segs t held"
      | (none) "expect_error segs t held \<or> \<not> is_amo t \<and> \<not> (is_amo_sc t \<and> held \<and> sc_is_atomic s)" by blast
    then show ?thesis
    proof cases
      case amo
      then have "bus_window c t \<subseteq> A" using acc request_classes(4) by blast
      then show ?thesis
        using image_put [OF sc na _ img, of t] amo by (simp add: abs answered_def stored_after_def amo_bytes_def)
    next
      case sc': sc
      then have "bus_window c t \<subseteq> A" "\<not> is_amo t" using acc request_classes(6) by blast+
      then show ?thesis
        using image_put [OF sc na _ img, of t] sc' ack
        by (simp add: abs answered_def stored_after_def store_bytes_def)
    next
      case none
      then have "answered c segs t held (sc_is_atomic s) (current I st) ?K = ?K"
        by (auto simp: answered_def)
      moreover have "stored_after c segs I (t, st, held) R = rf_stored R"
        using none ack by (auto simp: stored_after_def)
      ultimately show ?thesis using img by (simp add: abs)
    qed
  qed
  moreover have wf: "sm_wf (inflight_m s)" using inv by (simp add: sb_inv_def entries_ok_def)
  have "pending_ok c segs A I (sm_find (inflight_m u) k) (rf_pending ?R k)" for k
    using ag p wf by (auto simp: agrees_def u_def retire_request_def release_id_def sm.find_erase pending_ok_def)
  moreover have "atomic_ok u ?R"
  proof (cases "is_atomic t")
    case True
    then obtain q where "rf_atomic R = Some (t, held, q)" "q \<noteq> Waiting" using at by blast
    then show ?thesis
      using True ao p by (simp add: atomic_wf_def u_def retire_request_def release_id_def)
  next
    case False
    then show ?thesis
      using ao p by (auto simp: atomic_wf_def u_def retire_request_def release_id_def split: option.splits)
  qed
  ultimately have "agrees c segs A I u ?R"
    using ag p by (simp add: agrees_def u_def retire_request_def release_id_def)
  then show ?thesis using m by (simp add: u_def)
qed

end
