(* ===== verification/Scoreboard_Agreement_Mem.thy ===== *)
theory Scoreboard_Agreement_Mem
  imports Scoreboard_Agreement
begin

text \<open>
  The memory interface in \<open>rtl/tb/include/hpdcache_test_scoreboard.h\<close>: the rounds on the requests
  and responses of the memory that the reference allows keep the agreement with it.
\<close>

section \<open>Refills\<close>

text \<open>
  Whatever access the mask is computed for, if the computation has a meaning it only teaches
  bytes of the access that were not known.
\<close>

lemma lane_mask_bits:
  assumes "lane_mask b (int byte - int (8 * i)) = Inr m" and "bit m j"
  shows "byte \<le> 8 * i + j \<and> 8 * i + j < byte + b \<and> j < 8"
proof -
  have le: "8 * i \<le> byte" and d: "b < 64" "nat (int byte - int (8 * i)) = byte - 8 * i"
    and m: "m = ucast (push_bit (byte - 8 * i) (push_bit b 1 - 1 :: u64))"
    using assms(1)
    by (auto simp: lane_mask_def nat_diff_distrib nat_mult_distrib split: if_splits)
  have "push_bit b 1 - 1 = (mask b :: u64)" by (simp add: mask_eq_exp_minus_1 push_bit_of_1)
  then have "bit (ucast (push_bit (byte - 8 * i) (mask b :: u64)) :: u8) j" using assms(2) m by simp
  then have "byte - 8 * i \<le> j \<and> j - (byte - 8 * i) < b \<and> j < 8"
    by (auto simp: bit_ucast_iff bit_push_bit_iff bit_mask_iff)
  then show ?thesis using le by linarith
qed

lemma lane_enables_within:
  assumes "lane_enables byte unset i bytes be = Inr be'"
  shows "length be' = length be \<and> (\<forall>L < length be. \<forall>j < 8. bit (be' ! L) j \<longrightarrow> bit (be ! L) j
      \<or> bit (unset ! L) j \<and> byte \<le> 8 * L + j \<and> 8 * L + j < byte + bytes)"
  using assms
proof (induction byte unset i bytes be rule: lane_enables.induct)
  case (1 byte unset i bytes be)
  show ?case
  proof (cases "bytes = 0")
    case True
    then show ?thesis using 1(2) by (simp add: lane_enables_0)
  next
    case False
    obtain m where m: "lane_mask bytes (int byte - int (i * 8)) = Inr m" "i < length be"
      "lane_enables byte unset (Suc i) (bytes - 8) (be[i := m AND unset ! i]) = Inr be'"
      using 1(2) False by (subst (asm) lane_enables.simps) (auto split: sum.splits if_splits)
    have ih: "length be' = length be \<and> (\<forall>L < length be. \<forall>j < 8. bit (be' ! L) j
        \<longrightarrow> bit (be[i := m AND unset ! i] ! L) j
          \<or> bit (unset ! L) j \<and> byte \<le> 8 * L + j \<and> 8 * L + j < byte + (bytes - 8))"
      using "1.IH" [OF False m(1) _ m(3)] m(2) by auto
    have "bit (be ! L) j \<or> bit (unset ! L) j \<and> byte \<le> 8 * L + j \<and> 8 * L + j < byte + bytes"
      if bnd: "L < length be" "j < 8" "bit (be' ! L) j" for L j
    proof -
      have "be[i := m AND unset ! i] ! L = (if L = i then m AND unset ! i else be ! L)"
        using m(2) by simp
      moreover have "bit (be[i := m AND unset ! i] ! L) j
          \<or> bit (unset ! L) j \<and> byte \<le> 8 * L + j \<and> 8 * L + j < byte + (bytes - 8)"
        using ih bnd by blast
      ultimately consider "bit (be[i := m AND unset ! i] ! L) j" "L \<noteq> i"
        | "bit (m AND unset ! i) j" "L = i"
        | "bit (unset ! L) j \<and> byte \<le> 8 * L + j \<and> 8 * L + j < byte + (bytes - 8)"
        by (cases "L = i") auto
      then show ?thesis
      proof cases
        case 1
        then show ?thesis by simp
      next
        case 2
        then have "bit m j" "bit (unset ! L) j" by (simp_all add: bit_and_iff)
        moreover have "lane_mask bytes (int byte - int (8 * i)) = Inr m"
          using m(1) by (simp only: mult.commute)
        ultimately show ?thesis using lane_mask_bits 2(2) by blast
      next
        case 3
        then show ?thesis by linarith
      qed
    qed
    then show ?thesis using ih by simp
  qed
qed

lemma learn_refill_within:
  assumes cfg: "check_cfg c" and ram: "wf_ram m" "ram_size m = SCOREBOARD_RAM_SIZE"
    and ok: "learn_refill c e r m = Inr m'"
  shows "ram_abs m' a = ram_abs m a \<or> ram_abs m a = None
     \<and> (\<exists>i < MEM_BYTES c. unat (me_addr e) mod MEM_BYTES c \<le> i
          \<and> i < unat (me_addr e) mod MEM_BYTES c + unat (me_bytes e)
          \<and> a = (align_to (me_addr e) (MEM_BYTES c) + i) mod SCOREBOARD_RAM_SIZE
          \<and> ram_abs m' a = Some (data_byte (rr_data r) i))"
proof -
  define n where "n = MEM_BYTES c"
  define W where "W = MEM_WORDS c"
  define base where "base = align_to (me_addr e) n"
  define byte where "byte = unat (me_addr e) mod n"
  define b where "b = unat (me_bytes e)"
  have n: "n = 8 * W" and W: "0 < W" and dvd: "n dvd SCOREBOARD_RAM_SIZE"
    using cfg unfolding check_cfg_def n_def W_def by blast+
  obtain u where u: "unset_mask c m base = Inr u" "length u = W"
    and ub: "\<forall>i < n. bit (u ! (i div 8)) (i mod 8) = (\<not> getBmap m (base + i))"
    using unset_mask_spec [of c m base] n by (auto simp: n_def W_def)
  obtain be where be: "lane_enables byte u (unat (me_addr e) div n mod W) b (replicate W 0) = Inr be"
    and w: "ram_write m (bytes_of_words (mem_rdata c r)) be n base = Inr m'"
    using ok W u(1)
    by (auto simp: learn_refill_def Let_def andthen_Inr_iff n_def W_def base_def byte_def b_def)
  note le = lane_enables_within [OF be]
  define off where "off = base mod SCOREBOARD_RAM_SIZE"
  have fits: "off + n \<le> SCOREBOARD_RAM_SIZE"
    unfolding off_def base_def align_to_def
    by (rule align_in_ram [OF dvd]) (use n W in \<open>simp_all add: SCOREBOARD_RAM_SIZE_def push_bit_eq_mult\<close>)
  have len: "n \<le> length (bytes_of_words (mem_rdata c r))" "n \<le> 8 * length be"
    using le by (simp_all add: mem_rdata_def n flip: W_def)
  have abs: "ram_abs m' = put_bytes (bytes_of_words (mem_rdata c r)) be off n (ram_abs m)"
    using ram_write_correct [OF ram(1) _ len, of base] w fits by (auto simp: ram(2) off_def)
  show ?thesis
  proof (cases "off \<le> a \<and> a < off + n \<and> bit (be ! ((a - off) div 8)) ((a - off) mod 8)")
    case False
    then show ?thesis by (auto simp: abs put_bytes_def)
  next
    case True
    define i where "i = a - off"
    have i: "i < n" "a = off + i" and bit: "bit (be ! (i div 8)) (i mod 8)"
      using True by (auto simp: i_def)
    have L: "i div 8 < length (replicate W (0 :: u8))" using i(1) n by simp
    have in_acc: "bit (u ! (i div 8)) (i mod 8) \<and> byte \<le> 8 * (i div 8) + i mod 8
        \<and> 8 * (i div 8) + i mod 8 < byte + b"
      using le [THEN conjunct2, rule_format, OF L, of "i mod 8"] bit L by simp
    have pos: "a = (base + i) mod SCOREBOARD_RAM_SIZE"
    proof -
      have "(base + i) mod SCOREBOARD_RAM_SIZE = (off + i) mod SCOREBOARD_RAM_SIZE"
        by (simp add: off_def mod_add_left_eq)
      also have "\<dots> = off + i" using i(1) fits by simp
      finally show ?thesis by (simp add: i(2))
    qed
    have "\<not> getBmap m (base + i)" using in_acc ub i(1) by simp
    then have "\<not> getBmap m a" using getBmap_mod [of m "base + i"] by (simp add: pos ram(2))
    moreover have "a < ram_size m" using i fits by (simp add: ram(2))
    ultimately have "ram_abs m a = None" by (simp add: ram_abs_def)
    moreover have "bytes_of_words (mem_rdata c r) ! i = data_byte (rr_data r) i"
      unfolding mem_rdata_def W_def [symmetric] by (rule nth_lanes) (use i(1) n in simp)
    then have "ram_abs m' a = Some (data_byte (rr_data r) i)"
      using True by (simp add: abs put_bytes_def i_def)
    ultimately show ?thesis
      using i(1) in_acc pos by (auto simp: n_def byte_def b_def base_def)
  qed
qed

lemma image_refill:
  assumes cfg: "check_cfg c" and na: "no_alias A" and img: "image_ok A I K st"
    and win: "{unat (me_addr e)..<unat (me_addr e) + unat (me_bytes e)} \<subseteq> A"
    and dat: "\<forall>a \<in> {unat (me_addr e)..<unat (me_addr e) + unat (me_bytes e)}. st a = None \<longrightarrow>
        data_byte d (a - align_to (me_addr e) (MEM_BYTES c)) = I a"
    and learn: "\<And>p. K' p = K p \<or> K p = None \<and> (\<exists>i < MEM_BYTES c. unat (me_addr e) mod MEM_BYTES c \<le> i
          \<and> i < unat (me_addr e) mod MEM_BYTES c + unat (me_bytes e)
          \<and> p = (align_to (me_addr e) (MEM_BYTES c) + i) mod SCOREBOARD_RAM_SIZE
          \<and> K' p = Some (data_byte d i))"
  shows "image_ok A I K' st"
  unfolding image_ok_def
proof
  fix a
  assume a: "a \<in> A"
  let ?p = "a mod SCOREBOARD_RAM_SIZE" and ?base = "align_to (me_addr e) (MEM_BYTES c)"
  have old: "(\<forall>b. K ?p = Some b \<longrightarrow> b = current I st a) \<and> (st a \<noteq> None \<longrightarrow> K ?p \<noteq> None)"
    using img a by (auto simp: image_ok_def)
  from learn [of ?p] show "(\<forall>b. K' ?p = Some b \<longrightarrow> b = current I st a) \<and> (st a \<noteq> None \<longrightarrow> K' ?p \<noteq> None)"
  proof
    assume "K' ?p = K ?p"
    then show ?thesis using old by simp
  next
    assume "K ?p = None \<and> (\<exists>i < MEM_BYTES c. unat (me_addr e) mod MEM_BYTES c \<le> i
          \<and> i < unat (me_addr e) mod MEM_BYTES c + unat (me_bytes e)
          \<and> ?p = (?base + i) mod SCOREBOARD_RAM_SIZE \<and> K' ?p = Some (data_byte d i))"
    then obtain i where i: "K ?p = None" "unat (me_addr e) mod MEM_BYTES c \<le> i"
      "i < unat (me_addr e) mod MEM_BYTES c + unat (me_bytes e)"
      "?p = (?base + i) mod SCOREBOARD_RAM_SIZE" "K' ?p = Some (data_byte d i)" by blast
    have "?base + unat (me_addr e) mod MEM_BYTES c = unat (me_addr e)" by (simp add: align_to_def)
    then have w: "?base + i \<in> {unat (me_addr e)..<unat (me_addr e) + unat (me_bytes e)}"
      using i(2,3) by auto
    then have "a = ?base + i" using na a win i(4) by (auto simp: no_alias_def dest: inj_onD)
    moreover have "st a = None" using old i(1) by auto
    ultimately have "data_byte d i = I a" using dat [rule_format, OF w] by simp
    then show ?thesis using i(5) \<open>st a = None\<close> by (simp add: current_def)
  qed
qed

lemma agrees_mem_read_resp:
  assumes cfg: "check_cfg c" and na: "no_alias A" and inv: "sb_inv s" and ag: "agrees c segs A I s R"
    and al: "allowed c segs A I R (Mem_read_resp r)" and st: "mem_read_resp_step c r s = Inr u"
  shows "agrees c segs A I u (ref_step c segs I (Mem_read_resp r) R)"
proof -
  let ?s = "s\<lparr>nb_mem_read_resp := nb_mem_read_resp s + 1\<rparr>"
  obtain q where q: "rf_reads R (unat (rr_id r)) = Some q"
    "rr_error r = 0 \<longrightarrow> mem_window q \<subseteq> A \<and> (\<forall>a \<in> mem_window q. rf_stored R a = None \<longrightarrow>
                 data_byte (rr_data r) (a - align_to (mr_addr q) (MEM_BYTES c)) = I a)"
    using al by auto
  have "map_option (\<lambda>e. (me_addr e, me_bytes e)) (sm_find (inflight_mem_read_m s) (unat (rr_id r)))
      = map_option (\<lambda>q. (mr_addr q, mem_bytes q)) (rf_reads R (unat (rr_id r)))"
    using ag by (simp add: agrees_def)
  then obtain e where e: "sm_find (inflight_mem_read_m s) (unat (rr_id r)) = Some e"
    "me_addr e = mr_addr q" "me_bytes e = mem_bytes q" using q(1) by auto
  obtain m where m: "if rr_error r = 0 then learn_refill c e r (ram_m s) = Inr m else m = ram_m s"
    and u: "u = (if rr_last r then ?s\<lparr>ram_m := m,
        inflight_mem_read_m := sm_erase (unat (rr_id r)) (inflight_mem_read_m s)\<rparr> else ?s\<lparr>ram_m := m\<rparr>)"
  proof (cases "rr_error r = 0")
    case True
    then obtain m where "learn_refill c e r (ram_m s) = Inr m"
      using st e(1) by (auto simp: mem_read_resp_step_def Let_def andthen_Inr_iff)
    then show ?thesis using True st e(1) by (intro that [of m]) (auto simp: mem_read_resp_step_def Let_def)
  next
    case False
    then show ?thesis
      using st e(1) by (intro that [of "ram_m s"]) (auto simp: mem_read_resp_step_def Let_def)
  qed
  have img: "image_ok A I (ram_abs (ram_m s)) (rf_stored R)" using ag by (simp add: agrees_def)
  have "image_ok A I (ram_abs m) (rf_stored R)"
  proof (cases "rr_error r = 0")
    case True
    then have l: "learn_refill c e r (ram_m s) = Inr m" using m by simp
    have ram: "wf_ram (ram_m s)" "ram_size (ram_m s) = SCOREBOARD_RAM_SIZE"
      using inv by (simp_all add: sb_inv_def)
    show ?thesis
      by (rule image_refill [OF cfg na img _ _ learn_refill_within [OF cfg ram l]])
        (use q(2) True e(2,3) in \<open>simp_all add: mem_window_def\<close>)
  next
    case False
    then show ?thesis using m img by simp
  qed
  moreover have "sm_wf (inflight_mem_read_m s)" using inv by (simp add: sb_inv_def)
  ultimately show ?thesis using ag by (auto simp: u agrees_def sm.find_erase)
qed

section \<open>Requests to the memory\<close>

lemma core_req_on_line:
  assumes "sm_find m k = Some e" and "get_nline c (e_addr e) = get_nline c addr"
  shows "find_core_req c addr m \<noteq> None"
proof -
  have keep: "foldl (oldest_on_line c addr) (Some b) xs \<noteq> None" for b xs
    by (induction xs arbitrary: b) (auto simp: oldest_on_line_def split: if_splits)
  have "(k, e) \<in> set m" using assms(1) by (auto simp: sm_find_def dest: map_of_SomeD)
  then have "foldl (oldest_on_line c addr) best m \<noteq> None" for best
  proof (induction m arbitrary: best)
    case (Cons x xs)
    show ?case
    proof (cases "x = (k, e)")
      case True
      then have "oldest_on_line c addr best x \<noteq> None"
        using assms(2) by (auto simp: oldest_on_line_def split: option.split)
      then show ?thesis using keep by auto
    next
      case False
      then show ?thesis using Cons by simp
    qed
  qed simp
  then show ?thesis by (simp add: find_core_req_def)
qed

lemma mem_entry_made:
  assumes "mem_resp_model s = Some segs" and "unat (mr_size q) < 64"
  shows "\<exists>e. make_mem_entry c q s = Inr e \<and> me_addr e = mr_addr q
     \<and> me_bytes e = ucast (push_bit (unat (mr_size q)) 1 :: u64)
     \<and> me_core_req e = find_core_req c (mr_addr q) (inflight_m s)"
  using assms by (simp add: make_mem_entry_def Let_def)

text \<open>A request of the atomic access in progress finds its transaction in the FIFO.\<close>

lemma waiting_atomic:
  assumes ag: "agrees c segs A I s R" and on: "on_line_of_atomic c R q kind"
  obtains t h e where "rf_atomic R = Some (t, h, Waiting)" and "kind t" and "is_atomic t"
    and "inflight_amo_req_m s = [e]" and "is_amo_sc t \<longrightarrow> e_is_atomic e"
    and "find_core_req c (mr_addr q) (inflight_m s) \<noteq> None"
proof -
  obtain t h where t: "rf_atomic R = Some (t, h, Waiting)" "kind t"
    "get_nline c (mr_addr q) = get_nline c (req_address t)"
    using on by (auto simp: on_line_of_atomic_def split: option.splits)
  have "atomic_ok s R" using ag by (simp add: agrees_def)
  then obtain e st where e: "is_atomic t" "inflight_amo_req_m s = [e]" "is_amo_sc t \<longrightarrow> e_is_atomic e"
    "rf_pending R (req_tid t) = Some (t, st, h)" using t(1) by (auto simp: atomic_wf_def)
  have "pending_ok c segs A I (sm_find (inflight_m s) (req_tid t)) (rf_pending R (req_tid t))"
    using ag by (simp add: agrees_def)
  then obtain x K where x: "sm_find (inflight_m s) (req_tid t) = Some x" "tracks c segs t h K x"
    unfolding e(4) pending_ok_def option.case prod.case by blast
  moreover have "e_addr x = req_address t" using x(2) by (simp add: tracks_def)
  ultimately have "find_core_req c (mr_addr q) (inflight_m s) \<noteq> None"
    using t(3) by (intro core_req_on_line [OF x(1)]) simp
  then show thesis using t e that by blast
qed

lemma agrees_mem_read_req:
  assumes inv: "sb_inv s" and ag: "agrees c segs A I s R"
    and al: "allowed c segs A I R (Mem_read_req q)"
  shows "\<exists>u. mem_read_req_step c q s = Inr u \<and> agrees c segs A I u (ref_step c segs I (Mem_read_req q) R)"
proof -
  let ?s = "s\<lparr>nb_mem_read_req := nb_mem_read_req s + 1\<rparr>"
  have mm: "mem_resp_model ?s = Some segs" using ag by (simp add: agrees_def)
  obtain e where e: "make_mem_entry c q ?s = Inr e" "me_addr e = mr_addr q" "me_bytes e = mem_bytes q"
    using mem_entry_made [OF mm, of q c] al unfolding mem_bytes_def by auto
  have rd: "map_option (\<lambda>e. (me_addr e, me_bytes e)) (sm_find (inflight_mem_read_m s) k)
      = map_option (\<lambda>q. (mr_addr q, mem_bytes q)) (rf_reads R k)" for k
    using ag by (simp add: agrees_def)
  have free: "sm_find (inflight_mem_read_m s) (unat (mr_id q)) = None"
    using rd [of "unat (mr_id q)"] al by simp
  let ?u = "?s\<lparr>inflight_mem_read_m := sm_insert (unat (mr_id q)) e (inflight_mem_read_m s)\<rparr>"
  let ?R = "ref_step c segs I (Mem_read_req q) R"
  have wf: "sm_wf (inflight_mem_read_m s)" using inv by (simp add: sb_inv_def)
  have base: "agrees c segs A I ?u (R\<lparr>rf_reads := (rf_reads R)(unat (mr_id q) \<mapsto> q)\<rparr>)"
    using ag e(2,3) free wf by (auto simp: agrees_def sm.find_insert)
  show ?thesis
  proof (cases "mr_is_ldex q")
    case False
    then have "mem_read_req_step c q s = Inr ?u"
      using free e(1) by (simp add: mem_read_req_step_def Let_def)
    then show ?thesis using False base by (cases R) simp
  next
    case True
    then have "on_line_of_atomic c R q is_amo_lr" using al by simp
    then obtain t h x where t: "rf_atomic R = Some (t, h, Waiting)" "is_amo_lr t" "is_atomic t"
      "inflight_amo_req_m s = [x]" by (rule waiting_atomic [OF ag])
    have nsc: "\<not> is_amo_sc t" using request_classes(5) [OF t(2)] by simp
    let ?v = "?u\<lparr>inflight_amo_req_m := []\<rparr>"
    have "mem_read_req_step c q s = Inr ?v"
      using free e(1) True t(4) by (simp add: mem_read_req_step_def Let_def take_amo_def)
    moreover have "atomic_ok s R" using ag by (simp add: agrees_def)
    then have "atomic_ok ?v ?R" using t nsc True by (auto simp: atomic_wf_def)
    then have "agrees c segs A I ?v ?R" using base by (simp add: agrees_def)
    ultimately show ?thesis by blast
  qed
qed

lemma agrees_mem_write_req:
  assumes inv: "sb_inv s" and ag: "agrees c segs A I s R"
    and al: "allowed c segs A I R (Mem_write_req q)"
  shows "\<exists>u. mem_write_req_step c q s = Inr u \<and> agrees c segs A I u (ref_step c segs I (Mem_write_req q) R)"
proof -
  let ?i = "unat (mr_id q)"
  let ?s = "s\<lparr>nb_mem_write_req := nb_mem_write_req s + 1\<rparr>"
  have mm: "mem_resp_model ?s = Some segs" using ag by (simp add: agrees_def)
  obtain e where e: "make_mem_entry c q ?s = Inr e" "me_addr e = mr_addr q"
    "me_bytes e = mem_bytes (mem_req.truncate q)" "me_core_req e = find_core_req c (mr_addr q) (inflight_m s)"
    using mem_entry_made [OF mm, of q c] al unfolding mem_bytes_def by (auto simp: mem_req.defs)
  have wr: "dom (sm_find (inflight_mem_write_m s)) = rf_writes R" using ag by (simp add: agrees_def)
  then have free: "sm_find (inflight_mem_write_m s) ?i = None" using al by auto
  let ?u = "?s\<lparr>inflight_mem_write_m := sm_insert ?i e (inflight_mem_write_m s)\<rparr>"
  let ?R = "ref_step c segs I (Mem_write_req q) R" and ?R1 = "R\<lparr>rf_writes := insert ?i (rf_writes R)\<rparr>"
  have wf: "sm_wf (inflight_mem_write_m s)" "sm_wf (inflight_mem_read_m s)" using inv by (simp_all add: sb_inv_def)
  have at: "atomic_ok s R" using ag by (simp add: agrees_def)
  have base: "agrees c segs A I ?u ?R1"
    using ag free wf by (auto simp: agrees_def sm.dom_insert)
  have step: "mem_write_req_step c q s = andthen (mem_amo_request q e ?u)
      (\<lambda>(go_on, s). if go_on then mem_stex_request q e s else Inr s)"
    using free e(1) by (simp add: mem_write_req_step_def Let_def)
  consider (amo) "mr_is_amo q" | (stex) "mr_is_stex q" "\<not> mr_is_amo q" | (plain) "\<not> mr_is_amo q" "\<not> mr_is_stex q" by blast
  then show ?thesis
  proof cases
    case plain
    then have "mem_write_req_step c q s = Inr ?u"
      by (simp add: step mem_amo_request_def mem_stex_request_def)
    then show ?thesis using plain base by (cases R) simp
  next
    case amo
    then have on: "on_line_of_atomic c R q is_amo" and fr: "rf_reads R ?i = None" using al by simp_all
    obtain t h x where t: "rf_atomic R = Some (t, h, Waiting)" "is_amo t" "is_atomic t"
      "inflight_amo_req_m s = [x]" and line: "find_core_req c (mr_addr q) (inflight_m s) \<noteq> None"
      by (rule waiting_atomic [OF ag on])
    have nsc: "\<not> is_amo_sc t" using request_classes(4) [OF t(2)] by simp
    have ns: "\<not> mr_is_stex q"
      using al t(1) nsc by (auto simp: on_line_of_atomic_def)
    let ?v = "?u\<lparr>inflight_amo_req_m := [], inflight_mem_read_m := sm_insert ?i e (inflight_mem_read_m s)\<rparr>"
    have "map_option (\<lambda>e. (me_addr e, me_bytes e)) (sm_find (inflight_mem_read_m s) ?i)
      = map_option (\<lambda>q. (mr_addr q, mem_bytes q)) (rf_reads R ?i)" using ag by (simp add: agrees_def)
    then have rfree: "sm_find (inflight_mem_read_m s) ?i = None" using fr by simp
    have "mem_write_req_step c q s = Inr ?v"
      using amo ns t(4) line e(4) by (auto simp: step mem_amo_request_def mem_stex_request_def take_amo_def)
    moreover have "atomic_ok ?v ?R" using t nsc ns amo at by (auto simp: atomic_wf_def)
    then have "agrees c segs A I ?v ?R"
      using base amo rfree e(2,3) wf by (simp add: agrees_def sm.find_insert) (simp add: mem_req.defs)
    ultimately show ?thesis by blast
  next
    case stex
    then have on: "on_line_of_atomic c R q is_amo_sc" using al by simp
    obtain t h x where t: "rf_atomic R = Some (t, h, Waiting)" "is_amo_sc t" "is_atomic t"
      "inflight_amo_req_m s = [x]" "is_amo_sc t \<longrightarrow> e_is_atomic x"
      and line: "find_core_req c (mr_addr q) (inflight_m s) \<noteq> None"
      by (rule waiting_atomic [OF ag on])
    let ?v = "?u\<lparr>inflight_amo_req_m := []\<rparr>"
    have "mem_write_req_step c q s = Inr ?v"
      using stex t line e(4) by (auto simp: step mem_amo_request_def mem_stex_request_def take_amo_def)
    moreover have "atomic_ok ?v ?R" using t stex at by (auto simp: atomic_wf_def)
    then have "agrees c segs A I ?v ?R" using base stex by (simp add: agrees_def)
    ultimately show ?thesis by blast
  qed
qed

lemma agrees_mem_write_resp:
  assumes inv: "sb_inv s" and ag: "agrees c segs A I s R"
    and al: "allowed c segs A I R (Mem_write_resp r)"
  shows "\<exists>u. mem_write_resp_step r s = Inr u \<and> agrees c segs A I u (ref_step c segs I (Mem_write_resp r) R)"
proof -
  let ?i = "unat (wr_id r)" and ?R = "ref_step c segs I (Mem_write_resp r) R"
  have wr: "dom (sm_find (inflight_mem_write_m s)) = rf_writes R" using ag by (simp add: agrees_def)
  then obtain e where e: "sm_find (inflight_mem_write_m s) ?i = Some e" using al by auto
  let ?u = "s\<lparr>nb_mem_write_resp := nb_mem_write_resp s + 1, sc_is_atomic := wr_is_atomic r,
     inflight_mem_write_m := sm_erase ?i (inflight_mem_write_m s)\<rparr>"
  have "mem_write_resp_step r s = Inr ?u" using e by (simp add: mem_write_resp_step_def Let_def)
  moreover have at: "atomic_ok s R" using ag by (simp add: agrees_def)
  have "atomic_ok ?u ?R"
  proof (cases "rf_atomic R")
    case None
    then show ?thesis using at by (simp add: atomic_wf_def)
  next
    case (Some x)
    obtain t h p where x: "x = (t, h, p)" by (cases x)
    have "p \<noteq> Answered b" for b using al Some x by auto
    then show ?thesis using at Some x by (auto simp: atomic_wf_def)
  qed
  then have "agrees c segs A I ?u ?R"
    using inv ag by (simp add: agrees_def sm.dom_erase sb_inv_def)
  ultimately show ?thesis by blast
qed

end
