(* ===== verification/Scoreboard_Limit.thy ===== *)
theory Scoreboard_Limit
  imports Scoreboard
begin

text \<open>
  The error limit of the scoreboard (\<open>rtl/tb/include/hpdcache_test_scoreboard.h\<close>): with a limit
  \<open>print_error\<close> may end the process. Apart from that the rounds on the responses to the core do
  not depend on it, so that what holds without a limit carries over.
\<close>

definition unlimited :: "scoreboard \<Rightarrow> scoreboard" where
  "unlimited s = s\<lparr>sb_error_limit_m := 0\<rparr>"

text \<open>\<open>x\<close> is what a scoreboard with a limit does, \<open>y\<close> what the same one without does.\<close>

definition same_or_exit :: "scoreboard outcome \<Rightarrow> scoreboard outcome \<Rightarrow> bool" where
  "same_or_exit x y \<longleftrightarrow> x = Inl Process_exit
     \<or> (case x of Inl f \<Rightarrow> y = Inl f | Inr s \<Rightarrow> y = Inr (unlimited s))"

lemma same_or_exit_intros [intro]:
  "same_or_exit (Inl f) (Inl f)" "same_or_exit (Inr s) (Inr (unlimited s))"
  "same_or_exit (Inl Process_exit) y"
  by (simp_all add: same_or_exit_def)

lemma same_or_exit_andthen:
  assumes "same_or_exit x y" and "\<And>s. same_or_exit (f s) (f (unlimited s))"
  shows "same_or_exit (andthen x f) (andthen y f)"
  using assms by (cases x) (auto simp: same_or_exit_def)

lemma same_or_exit_value:
  assumes "\<And>v. same_or_exit (f v) (g v)"
  shows "same_or_exit (andthen x f) (andthen x g)"
  using assms by (cases x) auto

lemma print_error_limit: "same_or_exit (print_error m s) (print_error m (unlimited s))"
  by (simp add: print_error_def Let_def same_or_exit_def unlimited_def)

lemma write_entry_word_limit:
  "same_or_exit (write_entry_word c e ws be s) (write_entry_word c e ws be (unlimited s))"
proof -
  have "write_entry_word c e ws be (unlimited s)
      = andthen (write_entry_word c e ws be s) (\<lambda>s. Inr (unlimited s))"
    by (simp add: write_entry_word_def unlimited_def andthen_def split: sum.split)
  then show ?thesis by (cases "write_entry_word c e ws be s") auto
qed

lemma check_byte_limit: "same_or_exit (check_byte c e rd i s) (check_byte c e rd i (unlimited s))"
  using print_error_limit by (auto simp: check_byte_def Let_def)

lemma check_data_limit: "same_or_exit (check_data c e rd s) (check_data c e rd (unlimited s))"
proof -
  have "same_or_exit (fold_ok (check_byte c e rd) is s) (fold_ok (check_byte c e rd) is (unlimited s))" for "is"
  proof (induction "is" arbitrary: s)
    case (Cons i "is")
    then show ?case by (simp add: same_or_exit_andthen [OF check_byte_limit])
  qed auto
  then show ?thesis by (simp add: check_data_def)
qed

lemma check_sc_limit: "same_or_exit (check_sc c e r s) (check_sc c e r (unlimited s))"
proof -
  have "sc_is_atomic (unlimited s) = sc_is_atomic s" by (simp add: unlimited_def)
  then show ?thesis
    using print_error_limit write_entry_word_limit
    by (auto simp: check_sc_def Let_def intro!: same_or_exit_andthen)
qed

lemma update_amo_limit: "same_or_exit (update_amo c e r s) (update_amo c e r (unlimited s))"
  unfolding update_amo_def Let_def
  by (auto intro!: same_or_exit_value write_entry_word_limit)

lemma check_response_limit: "same_or_exit (check_response c e r s) (check_response c e r (unlimited s))"
  unfolding check_response_def
  by (auto intro!: same_or_exit_andthen check_sc_limit check_data_limit update_amo_limit)

lemma core_resp_step_limit: "same_or_exit (core_resp_step c r s) (core_resp_step c r (unlimited s))"
proof -
  let ?s = "\<lambda>s. s\<lparr>nb_core_resp := nb_core_resp s + 1, nb_cycles_effective := nb_cycles s\<rparr>"
  have u: "?s (unlimited s) = unlimited (?s s)" by (simp add: unlimited_def)
  have m: "inflight_m (unlimited v) = inflight_m v" for v by (simp add: unlimited_def)
  have retire: "retire_request i (unlimited v) = unlimited (retire_request i v)" for i v
    by (simp add: retire_request_def release_id_def unlimited_def)
  show ?thesis
  proof (cases "sm_find (inflight_m s) (rsp_tid r)")
    case None
    then show ?thesis using print_error_limit by (simp add: core_resp_step_def Let_def u m)
  next
    case (Some e)
    have "same_or_exit (Inr (retire_request i v)) (Inr (retire_request i (unlimited v)))" for i v
      unfolding retire by (rule same_or_exit_intros)
    then show ?thesis
      using Some print_error_limit same_or_exit_andthen [OF check_response_limit]
      unfolding core_resp_step_def Let_def u m by simp
  qed
qed

end
