(* ===== verification/Scoreboard_Sound.thy ===== *)
theory Scoreboard_Sound
  imports Scoreboard_Agreement_Mem Scoreboard_Limit
begin

text \<open>
  The scoreboard (\<open>rtl/tb/include/hpdcache_test_scoreboard.h\<close>) decides whether a cache is correct:
  it never reports an error for a cache that behaves like the reference, and it reports a wrong
  answer.
\<close>

section \<open>Runs\<close>

lemma agrees_init:
  assumes "\<not> rs_valid lrsc"
  shows "agrees c segs A I (sb_init lrsc sq (Some segs) n) ref_init"
proof -
  have "ram_abs (ram_new nm SCOREBOARD_RAM_SIZE) = Map.empty" for nm
    by (rule ram_abs_new) (simp_all add: SCOREBOARD_RAM_SIZE_def push_bit_eq_mult)
  moreover have "sm_find [] = Map.empty" by (rule ext) (simp add: sm_find_def)
  ultimately show ?thesis
    using assms
    by (simp add: agrees_def sb_init_def set_error_limit_def set_mem_resp_model_def scoreboard_new_def
        ref_init_def image_ok_def pending_ok_def atomic_wf_def)
qed

lemma agrees_step:
  assumes "check_cfg c" and "no_alias A" and "sb_inv s" and "agrees c segs A I s R"
    and "allowed c segs A I R ev" and "sb_step c ev s = Inr u"
  shows "agrees c segs A I u (ref_step c segs I ev R)"
proof (cases ev)
  case (Clock sig)
  then have "u = perf_events_process sig s" using assms(6) by simp
  then show ?thesis using Clock assms(4) by (simp add: perf_events_process_def Let_def agrees_def)
next
  case (Core_req junk t)
  then show ?thesis using agrees_core_req [OF assms(1-4), where junk = junk and t = t] assms(5,6) by auto
next
  case (Core_resp r)
  then show ?thesis using agrees_core_resp [OF assms(1-4), where r = r] assms(5,6) by auto
next
  case (Mem_read_req q)
  then show ?thesis using agrees_mem_read_req [OF assms(3,4), where q = q] assms(5,6) by auto
next
  case (Mem_read_resp r)
  then show ?thesis using agrees_mem_read_resp [OF assms(1-4), where r = r] assms(5,6) by auto
next
  case (Mem_write_req q)
  then show ?thesis using agrees_mem_write_req [OF assms(3,4), where q = q] assms(5,6) by auto
next
  case (Mem_write_resp r)
  then show ?thesis using agrees_mem_write_resp [OF assms(3,4), where r = r] assms(5,6) by auto
next
  case (Seq_allocate k)
  then obtain q where "u = s\<lparr>seq := q\<rparr>"
    using assms(6) by (auto simp: seq_allocate_def split: option.splits sum.splits)
  then show ?thesis using Seq_allocate assms(4) by (simp add: agrees_def)
qed

lemma coherent_agrees:
  assumes "check_cfg c" and "no_alias A" and "\<not> rs_valid lrsc"
    and "coherent_run c segs A I (sb_init lrsc sq (Some segs) n) s R"
  shows "agrees c segs A I s R \<and> sb_inv s"
  using assms(4)
proof (induction rule: coherent_run.induct)
  case start
  then show ?case by (simp add: agrees_init [OF assms(3)] sb_inv_init)
next
  case (step s R ev t)
  then show ?case using agrees_step [OF assms(1,2)] sb_inv_step by blast
qed

text \<open>The events whose round always has a meaning.\<close>

fun meaningful :: "sb_event \<Rightarrow> bool" where
  "meaningful (Mem_read_resp r) \<longleftrightarrow> False"
| "meaningful (Seq_allocate k) \<longleftrightarrow> False"
| "meaningful ev \<longleftrightarrow> True"

lemma agrees_progress:
  assumes "check_cfg c" and "no_alias A" and "sb_inv s" and "agrees c segs A I s R"
    and "allowed c segs A I R ev" and "meaningful ev"
  shows "\<exists>u. sb_step c ev s = Inr u"
  using assms(5,6) agrees_core_req [OF assms(1-4)] agrees_core_resp [OF assms(1-4)]
    agrees_mem_read_req [OF assms(3,4)] agrees_mem_write_req [OF assms(3,4)]
    agrees_mem_write_resp [OF assms(3,4)]
  by (cases ev) (simp_all del: allowed.simps, blast+)

lemma coherent_extend:
  assumes "check_cfg c" and "no_alias A" and "\<not> rs_valid lrsc"
    and "coherent_run c segs A I (sb_init lrsc sq (Some segs) n) s R"
    and "allowed c segs A I R ev" and "meaningful ev"
  shows "\<exists>u. sb_step c ev s = Inr u
     \<and> coherent_run c segs A I (sb_init lrsc sq (Some segs) n) u (ref_step c segs I ev R)"
  using agrees_progress [OF assms(1,2) _ _ assms(5,6)] coherent_agrees [OF assms(1-4)]
    coherent_run.step [OF assms(4,5)] by blast

lemma coherent_no_alarm:
  assumes "check_cfg c" and "no_alias A" and "\<not> rs_valid lrsc"
    and "coherent_run c segs A I (sb_init lrsc sq (Some segs) n) s R"
  shows "nb_error s = 0 \<and> sb_log s = []
     \<and> (\<forall>ev. allowed c segs A I R ev \<and> meaningful ev \<longrightarrow>
          (\<exists>u. sb_step c ev s = Inr u \<and> nb_error u = 0))"
proof -
  note ag = coherent_agrees [OF assms]
  have "nb_error s = 0" using ag by (simp add: agrees_def)
  moreover from this have "sb_log s = []" using ag by (simp add: sb_inv_def)
  moreover have "\<exists>u. sb_step c ev s = Inr u \<and> nb_error u = 0"
    if ev: "allowed c segs A I R ev" "meaningful ev" for ev
  proof -
    obtain u where u: "sb_step c ev s = Inr u"
      using agrees_progress [OF assms(1,2) _ _ ev] ag by blast
    then have "agrees c segs A I u (ref_step c segs I ev R)"
      using agrees_step [OF assms(1,2) _ _ ev(1)] ag by blast
    then show ?thesis using u by (simp add: agrees_def)
  qed
  ultimately show ?thesis by blast
qed

section \<open>Wrong answers\<close>

text \<open>
  An answer that the scoreboard has to report: to a request that does not wait, with the wrong
  error flag, with a byte other than the one stored last, or with the wrong status of an SC whose
  memory access is done.
\<close>

definition wrong_answer :: "cfg \<Rightarrow> segment list \<Rightarrow> reference \<Rightarrow> resp \<Rightarrow> bool" where
  "wrong_answer c segs R r \<longleftrightarrow>
     (case rf_pending R (rsp_tid r) of None \<Rightarrow> True | Some (t, st, held) \<Rightarrow>
        (\<not> is_store t \<and> rsp_error r \<noteq> expect_error segs t held)
        \<or> (\<not> expect_error segs t held \<and> is_reading t
             \<and> (\<exists>i < 2 ^ req_size t. st (unat (req_address t) + i) \<noteq> None
                  \<and> st (unat (req_address t) + i) \<noteq> Some (data_byte (rsp_rdata r) (bus_offset c t + i))))
        \<or> (\<not> expect_error segs t held \<and> is_amo_sc t
             \<and> (\<exists>p. rf_atomic R = Some (t, held, p) \<and> (p = Finished \<or> (\<exists>b. p = Answered b)))
             \<and> sc_answer c t r \<noteq> (if rf_atomic R = Some (t, True, Answered True) then 0 else 1)))"

lemma wrong_data_counted:
  assumes rdy: "sb_ready c s" and lim: "sb_error_limit_m s = 0"
    and find: "sm_find (inflight_m s) (rsp_tid r) = Some e" and tr: "tracks c segs t held K e"
    and rd: "is_reading t" "\<not> expect_error segs t held" "\<not> rsp_error r"
    and fit: "fits_bus c t" and acc: "is_atomic t \<Longrightarrow> atomic_access c t"
    and i: "i < 2 ^ req_size t" "K (ram_window c t + (bus_offset c t + i)) = Some b"
      "data_byte (rsp_rdata r) (bus_offset c t + i) \<noteq> b"
  shows "\<exists>u. core_resp_step c r s = Inr u \<and> nb_error s < nb_error u"
proof -
  have cfg: "sb_cfg c" using rdy by (simp add: sb_ready_def)
  let ?j = "bus_offset c t + i" and ?is = "[entry_byte c e..<entry_byte c e + unat (e_bytes e)]"
  have l: "e_addr e = req_address t" "e_bytes e = push_bit (req_size t) 1" "junk_ok c e"
    "\<forall>i < 8 * HPDCACHE_REQ_WORDS c. K (ram_window c t + i)
        = (if bit (e_rv e ! (i div 8)) (i mod 8) then Some (e_rdata e ! i) else None)"
    and k: "e_is_read e = is_load t" "e_is_amo e = is_amo t" "e_is_amo_sc e = is_amo_sc t"
    "e_is_amo_lr e = is_amo_lr t" "e_op e = req_op t" "\<not> e_is_error e" "e_is_write e = is_store t"
    using tr rd by (simp_all add: tracks_def)
  have nsc: "\<not> is_amo_sc t" "\<not> is_store t"
    using rd(1) request_classes(1,4,5) [of t] unfolding is_reading_def by blast+
  note ab = access_bytes_of [OF fit l(1,2) cfg]
  have ok: "entry_ok c e" using l(3) ab fit by (simp add: entry_ok_def fits_bus_def)
  have j: "?j < 8 * HPDCACHE_REQ_WORDS c" using fit i(1) by (simp add: fits_bus_def)
  then have "wrong_byte e r ?j" using l(4) i(2,3) by (auto simp: wrong_byte_def split: if_splits)
  moreover have "?j \<in> set ?is" using ab i(1) by simp
  ultimately have "filter (wrong_byte e r) ?is \<noteq> []" by (auto simp: filter_empty_conv)
  then have pos: "0 < length (filter (wrong_byte e r) ?is)" unfolding length_greater_0_conv .
  show ?thesis
  proof (cases "is_amo t")
    case True
    have dat: "data_entry c e" using tr True k(6,7) nsc(2) by (simp add: tracks_def data_entry_def)
    have "amo_aligned e"
      by (rule atomic_amo_aligned [OF acc l(1,2)]) (use True in \<open>simp add: is_atomic_def\<close>)
    then show ?thesis
      using amo_response_step [OF rdy lim find dat ok _ rd(3), of "amo_operation t"] amo_operation_of [OF True]
        True k nsc pos by auto
  next
    case False
    let ?s = "s\<lparr>nb_core_resp := nb_core_resp s + 1, nb_cycles_effective := nb_cycles s\<rparr>"
    have lim': "sb_error_limit_m ?s = 0" using lim by simp
    obtain v where v: "check_data c e (rsp_bytes c r) ?s = Inr v"
      "nb_error v = nb_error ?s + length (filter (wrong_byte e r) ?is)"
      using check_data_spec [OF cfg ok lim'] by blast
    have "check_response c e r ?s = Inr v"
      using v(1) k False nsc rd(1)
      by (auto simp: check_response_def check_sc_def update_amo_def is_reading_def simp flip: rsp_bytes_def)
    then have "core_resp_step c r s = Inr (retire_request (rsp_tid r) v)"
      by (rule resp_step_entry [OF find k(6) rd(3)])
    then show ?thesis using v(2) pos by (simp add: retire_request_def release_id_def)
  qed
qed

lemma agrees_wrong_answer:
  assumes rdy: "sb_ready c s" and lim: "sb_error_limit_m s = 0" and ag: "agrees c segs A I s R"
    and wrong: "wrong_answer c segs R r"
  shows "\<exists>u. core_resp_step c r s = Inr u \<and> 0 < nb_error u"
proof -
  have sc: "sb_cfg c" using rdy by (simp add: sb_ready_def)
  have pend: "pending_ok c segs A I (sm_find (inflight_m s) (rsp_tid r)) (rf_pending R (rsp_tid r))"
    and at: "atomic_ok s R" using ag by (simp_all add: agrees_def)
  let ?n = "8 * HPDCACHE_REQ_WORDS c"
  show ?thesis
  proof (cases "rf_pending R (rsp_tid r)")
    case None
    then have "sm_find (inflight_m s) (rsp_tid r) = None" using pend by (simp add: pending_ok_def)
    then show ?thesis using lim by (simp add: core_resp_step_def Let_def print_error_def)
  next
    case (Some x)
    obtain t st held where x: "x = (t, st, held)" by (cases x)
    obtain e K where e: "sm_find (inflight_m s) (rsp_tid r) = Some e" "tracks c segs t held K e"
      and acc: "\<not> is_cmo t \<Longrightarrow> fits_bus c t" "is_atomic t \<Longrightarrow> atomic_access c t"
      and K: "is_reading t \<Longrightarrow> \<forall>i < ?n.
              (\<forall>b. K (ram_window c t + i) = Some b \<longrightarrow> b = current I st (bus_base c t + i))
              \<and> (st (bus_base c t + i) \<noteq> None \<longrightarrow> K (ram_window c t + i) \<noteq> None)"
      using pend unfolding Some x pending_ok_def option.case prod.case by blast
    have k: "e_is_write e = is_store t" "e_is_error e = expect_error segs t held" using e(2) by (simp_all add: tracks_def)
    consider (flag) "\<not> is_store t" "rsp_error r \<noteq> expect_error segs t held"
      | (data) i where "\<not> rsp_error r" "\<not> expect_error segs t held" "is_reading t" "i < 2 ^ req_size t"
          "st (unat (req_address t) + i) \<noteq> None"
          "st (unat (req_address t) + i) \<noteq> Some (data_byte (rsp_rdata r) (bus_offset c t + i))"
      | (sc) p where "\<not> rsp_error r" "\<not> expect_error segs t held" "is_amo_sc t"
          "rf_atomic R = Some (t, held, p)" "p = Finished \<or> (\<exists>b. p = Answered b)"
          "sc_answer c t r \<noteq> (if rf_atomic R = Some (t, True, Answered True) then 0 else 1)"
    proof -
      have "\<not> is_store t" if "is_reading t \<or> is_amo_sc t"
        using that request_classes(2) [of t] unfolding is_reading_def by blast
      then show thesis using wrong flag data sc unfolding wrong_answer_def Some x option.case prod.case by blast
    qed
    then show ?thesis
    proof cases
      case flag
      then show ?thesis using e(1) k lim by (simp add: core_resp_step_def Let_def print_error_def)
    next
      case data
      have nc: "\<not> is_cmo t" using data(3) request_classes(3) [of t] unfolding is_reading_def by blast
      have j: "bus_offset c t + i < ?n" using acc(1) [OF nc] data(4) by (simp add: fits_bus_def)
      have a: "bus_base c t + (bus_offset c t + i) = unat (req_address t) + i"
        using bus_address [of c t] by simp
      obtain b where b: "K (ram_window c t + (bus_offset c t + i)) = Some b"
        "b = current I st (unat (req_address t) + i)"
        using K [OF data(3), rule_format, OF j] data(5) unfolding a by blast
      have "data_byte (rsp_rdata r) (bus_offset c t + i) \<noteq> b"
        using data(5,6) b(2) by (auto simp: current_def)
      then show ?thesis
        using wrong_data_counted [OF rdy lim e data(3,2,1) acc(1) [OF nc] acc(2) data(4) b(1)]
        by (auto intro: order_le_less_trans)
    next
      case sc': sc
      note cl = request_classes(6) [OF sc'(3)]
      have ia: "is_atomic t" using sc'(3) by (simp add: is_atomic_def)
      have ent: "data_entry c e" and kd: "e_is_amo_sc e" "\<not> e_is_read e" "\<not> e_is_amo e" "\<not> e_is_amo_lr e"
        "e_is_atomic e = held" "e_addr e = req_address t" "e_bytes e = push_bit (req_size t) 1"
        using e(2) sc'(2,3) cl by (simp_all add: tracks_def data_entry_def)
      have "e_bytes e = 4 \<longleftrightarrow> req_size t = 2" using acc(2) [OF ia] kd(7) by (auto simp: atomic_access_def)
      then have "sc_status c e r = sc_answer c t r"
        by (simp add: sc_status_def sc_answer_def Let_def entry_word_def kd(6) sb_widths [OF sc] CORE_REQ_WORDS_def)
      moreover have "sc_success s e \<longleftrightarrow> rf_atomic R = Some (t, True, Answered True)"
        using at sc'(3-5) kd(5) by (auto simp: sc_success_def atomic_wf_def)
      ultimately show ?thesis
        using sc_response_step [OF rdy lim e(1) ent kd(1-4) sc'(1)] sc'(6) by auto
    qed
  qed
qed

text \<open>
  With a limit of errors, the report of one may end the process instead. The error flag of the
  response to a store is not checked.
\<close>

lemma coherent_wrong_answer:
  assumes "check_cfg c" and "no_alias A" and "\<not> rs_valid lrsc"
    and run: "coherent_run c segs A I (sb_init lrsc sq (Some segs) n) s R" and wrong: "wrong_answer c segs R r"
  shows "(\<exists>u. core_resp_step c r s = Inr u \<and> 0 < nb_error u) \<or> 0 < n \<and> core_resp_step c r s = Inl Process_exit"
proof -
  note ag = coherent_agrees [OF assms(1-4)]
  have sc: "sb_cfg c" using assms(1) by (simp add: check_cfg_def)
  have "sb_ready c (unlimited s)" "agrees c segs A I (unlimited s) R" "sb_error_limit_m (unlimited s) = 0"
    using ag sc by (simp_all add: sb_ready_def sb_inv_def agrees_def unlimited_def)
  then obtain v where v: "core_resp_step c r (unlimited s) = Inr v" "0 < nb_error v"
    using agrees_wrong_answer [OF _ _ _ wrong] by blast
  have lim: "sb_error_limit_m s = n"
    using sb_reach_limit [OF coherent_reach [OF run]]
    by (simp add: sb_init_def set_error_limit_def set_mem_resp_model_def)
  show ?thesis
  proof (cases n)
    case 0
    then have "unlimited s = s" using lim by (simp add: unlimited_def)
    then show ?thesis using v by auto
  next
    case (Suc m)
    then show ?thesis
      using core_resp_step_limit [of c r s] v by (auto simp: same_or_exit_def unlimited_def split: sum.splits)
  qed
qed

lemma coherent_store_answer:
  assumes "check_cfg c" and "no_alias A" and "\<not> rs_valid lrsc"
    and "coherent_run c segs A I (sb_init lrsc sq (Some segs) n) s R"
    and "rf_pending R (rsp_tid r) = Some (t, st, held)" and "is_store t"
  shows "\<exists>u. core_resp_step c r s = Inr u \<and> nb_error u = 0"
proof -
  have "\<not> is_atomic t" "\<not> is_reading t" "\<not> is_amo_sc t"
    using request_classes(2) [OF assms(6)] by (auto simp: is_atomic_def is_reading_def)
  then have "allowed c segs A I R (Core_resp r)" using assms(5,6) by (simp add: response_allowed_def)
  moreover have "meaningful (Core_resp r)" by simp
  ultimately have "\<exists>u. sb_step c (Core_resp r) s = Inr u \<and> nb_error u = 0"
    using coherent_no_alarm [OF assms(1-4)] by blast
  then show ?thesis by simp
qed

section \<open>Runs to try the properties on\<close>

abbreviation ex_A :: "nat set" where "ex_A \<equiv> {4096..<8192}"
abbreviation ex_I :: "nat \<Rightarrow> u8" where "ex_I \<equiv> \<lambda>a. 0"
abbreviation ex_lrsc :: lrsc_reservation_buf where
  "ex_lrsc \<equiv> \<lparr>rs_valid = False, rs_base_addr = 0, rs_end_addr = 0, rs_is_atomic = False\<rparr>"
abbreviation ex_start :: scoreboard where "ex_start \<equiv> sb_init ex_lrsc ex_sq (Some []) 0"

lemma ex_run_cfg: "check_cfg default_cfg" "no_alias ex_A" "\<not> rs_valid ex_lrsc"
proof -
  show "check_cfg default_cfg"
    using sb_cfg_default
    by (simp add: check_cfg_def default_offset MEM_BYTES_def MEM_WORDS_def)
      (simp add: default_cfg_def SCOREBOARD_RAM_SIZE_def push_bit_eq_mult)
  show "no_alias ex_A" by (auto simp: no_alias_def inj_on_def SCOREBOARD_RAM_SIZE_def push_bit_eq_mult)
  show "\<not> rs_valid ex_lrsc" by simp
qed

lemma ex_extend:
  assumes "coherent_run default_cfg [] ex_A ex_I ex_start s R"
    and "allowed default_cfg [] ex_A ex_I R ev" and "meaningful ev"
    and "ref_step default_cfg [] ex_I ev R = R'"
  shows "\<exists>u. sb_step default_cfg ev s = Inr u \<and> coherent_run default_cfg [] ex_A ex_I ex_start u R'"
  using coherent_extend [OF ex_run_cfg assms(1-3)] unfolding assms(4) .

text \<open>A store of two bytes, and the load that reads them.\<close>

abbreviation ex_answer :: resp where "ex_answer \<equiv> resp_new\<lparr>rsp_tid := 4, rsp_rdata := 0x1234\<rparr>"

lemma ex_words: "HPDCACHE_REQ_WORDS default_cfg = 1"
  by (simp add: default_cfg_def)

lemma ex_no_error: "\<not> error_request [] t" "\<not> expect_error [] t held"
  by (simp_all add: error_request_def expect_error_def)

lemma ex_store_facts:
  "request_ok default_cfg ex_A ex_store" "in_turn default_cfg ref_init t" "req_tid ex_store = 3"
  "\<not> req_need_rsp ex_store" "bus_window default_cfg ex_store = {4096..<4104}"
  "bus_base default_cfg ex_store = 4096" "\<not> is_atomic ex_store" "\<not> is_amo_lr ex_store"
  "\<not> is_amo_sc ex_store"
proof -
  have a: "unat (req_address ex_store) = 4096"
    by (simp add: ex_store_def req_address_def bv_to_uint64_def)
  show "bus_window default_cfg ex_store = {4096..<4104}" "bus_base default_cfg ex_store = 4096"
    by (simp_all add: bus_window_def bus_base_def align_to_def a ex_words)
  moreover show na: "\<not> is_atomic ex_store" "\<not> is_amo_lr ex_store" "\<not> is_amo_sc ex_store"
    using request_classes(2) [OF ex_load_after_store_premises(1)] by (simp_all add: is_atomic_def)
  moreover have "req_size ex_store = 1" by (simp add: ex_store_def)
  ultimately show "request_ok default_cfg ex_A ex_store"
    using ex_load_after_store_premises(1)
    by (simp add: request_ok_def fits_bus_def bus_offset_def a ex_words)
  show "in_turn default_cfg ref_init t" by (simp add: in_turn_def ref_init_def)
  show "req_tid ex_store = 3" "\<not> req_need_rsp ex_store" by (simp_all add: ex_store_def req_new_def)
qed

lemma ex_load_facts:
  "request_ok default_cfg ex_A ex_load" "bus_offset default_cfg ex_load = 0" "req_size ex_load = 1"
  "unat (req_address ex_load) = 4096" "\<not> is_atomic ex_load" "\<not> is_store ex_load" "is_reading ex_load"
  "\<not> is_amo_lr ex_load" "\<not> is_amo_sc ex_load" "\<not> is_amo ex_load"
proof -
  show a: "unat (req_address ex_load) = 4096"
    by (simp add: ex_load_def req_address_def bv_to_uint64_def)
  show o: "bus_offset default_cfg ex_load = 0" by (simp add: bus_offset_def a ex_words)
  have w: "bus_window default_cfg ex_load = {4096..<4104}"
    by (simp add: bus_window_def bus_base_def align_to_def a ex_words)
  show na: "\<not> is_atomic ex_load" "\<not> is_store ex_load" "is_reading ex_load"
    "\<not> is_amo_lr ex_load" "\<not> is_amo_sc ex_load" "\<not> is_amo ex_load"
    using request_classes(1) [OF ex_load_after_store_premises(2)] ex_load_after_store_premises(2)
    by (simp_all add: is_atomic_def is_reading_def)
  show sz: "req_size ex_load = 1" by (simp add: ex_load_def)
  show "request_ok default_cfg ex_A ex_load"
    using ex_load_after_store_premises(2) na sz
    by (simp add: request_ok_def fits_bus_def o w ex_words)
qed

definition ex_stored :: "nat \<Rightarrow> u8 option" where
  "ex_stored = store_bytes default_cfg ex_store (\<lambda>a. None)"

lemma ex_stored_bytes: "ex_stored 4096 = Some 0x34" "ex_stored 4097 = Some 0x12"
  by (simp_all add: ex_stored_def store_bytes_def put_bus_def ex_store_facts)
    (simp_all add: ex_store_def data_byte_def bit_iff_odd drop_bit_eq_div)

lemma ex_coherent:
  "\<exists>s R. coherent_run default_cfg [] ex_A ex_I ex_start s R
     \<and> R = ref_init\<lparr>rf_stored := ex_stored, rf_pending := [4 \<mapsto> (ex_load, ex_stored, False)]\<rparr>"
proof -
  note pr = ex_load_after_store_premises and f = ex_store_facts and g = ex_load_facts
  let ?R = "ref_init\<lparr>rf_stored := ex_stored\<rparr>"
  have "ref_step default_cfg [] ex_I (Core_req ex_junk ex_store) ref_init = ?R"
    using pr f by (simp add: ref_init_def ex_stored_def ex_no_error ref_reserved_def holds_reservation_def)
  then obtain u where u: "coherent_run default_cfg [] ex_A ex_I ex_start u ?R"
    using ex_extend [OF coherent_run.start, of "Core_req ex_junk ex_store" ?R] pr(4) f(1,2) by auto
  have "in_turn default_cfg ?R ex_load" by (simp add: in_turn_def ref_init_def)
  moreover have "ref_step default_cfg [] ex_I (Core_req ex_junk ex_load) ?R
      = ?R\<lparr>rf_pending := [4 \<mapsto> (ex_load, ex_stored, False)]\<rparr>"
    using pr g by (simp add: ref_init_def ref_reserved_def holds_reservation_def)
  ultimately show ?thesis using ex_extend [OF u, of "Core_req ex_junk ex_load"] pr(4) g(1) by auto
qed

lemma ex_answer_allowed:
  assumes "rf_pending R = [4 \<mapsto> (ex_load, ex_stored, False)]"
  shows "allowed default_cfg [] ex_A ex_I R (Core_resp ex_answer)"
proof -
  have "data_byte 0x1234 i = current ex_I ex_stored (4096 + i)" if "i < 2" for i
    using that ex_stored_bytes by (cases i) (simp_all add: data_byte_def current_def drop_bit_eq_div)
  moreover have "rsp_tid ex_answer = 4" "\<not> rsp_error ex_answer" by (simp_all add: resp_new_def)
  ultimately show ?thesis
    using assms ex_load_facts by (simp add: response_allowed_def ex_no_error)
qed

text \<open>An atomic addition of 5 to a double word, up to its request on the memory interface.\<close>

definition ex_add :: req where
  "ex_add = req_new\<lparr>req_op := op_code HPDCACHE_REQ_AMO_ADD, req_tid := 5, req_need_rsp := True,
     req_addr := 4096, req_size := 3, req_be := 0xff, req_wdata := 5\<rparr>"

lemma ex_add_facts:
  "is_amo ex_add" "is_atomic ex_add" "request_ok default_cfg ex_A ex_add" "req_tid ex_add = 5"
  "req_need_rsp ex_add" "unat (req_address ex_add) = 4096" "req_size ex_add = 3"
  "bus_offset default_cfg ex_add = 0" "\<not> is_store ex_add" "\<not> is_amo_lr ex_add" "\<not> is_amo_sc ex_add"
  "is_reading ex_add"
proof -
  show am: "is_amo ex_add" "is_atomic ex_add" "is_reading ex_add"
    by (simp_all add: is_amo_def is_atomic_def is_reading_def Let_def) (simp_all add: ex_add_def)
  show "\<not> is_store ex_add" "\<not> is_amo_lr ex_add" "\<not> is_amo_sc ex_add"
    using request_classes(4) [OF am(1)] by simp_all
  show f: "req_tid ex_add = 5" "req_need_rsp ex_add" "req_size ex_add = 3" by (simp_all add: ex_add_def)
  show a: "unat (req_address ex_add) = 4096"
    by (simp add: ex_add_def req_address_def bv_to_uint64_def)
  show o: "bus_offset default_cfg ex_add = 0" by (simp add: bus_offset_def a ex_words)
  have "bus_window default_cfg ex_add = {4096..<4104}"
    by (simp add: bus_window_def bus_base_def align_to_def a ex_words)
  moreover have "atomic_access default_cfg ex_add"
    using a o f by (simp add: atomic_access_def ex_words)
  ultimately show "request_ok default_cfg ex_A ex_add"
    using am f o by (simp add: request_ok_def fits_bus_def ex_words)
qed

definition ex_add_mem :: mem_write_req where
  "ex_add_mem = mem_write_req_new\<lparr>mr_addr := 4096, mr_size := 3,
     mr_command := mem_command_code HPDCACHE_MEM_ATOMIC, mr_atomic := mem_atomic_code HPDCACHE_MEM_ATOMIC_ADD\<rparr>"

abbreviation ex_add_answer :: resp where "ex_add_answer \<equiv> resp_new\<lparr>rsp_tid := 5\<rparr>"

lemma ex_add_mem_facts:
  "mr_is_amo ex_add_mem" "\<not> mr_is_stex ex_add_mem" "unat (mr_id ex_add_mem) = 0"
  "unat (mr_size ex_add_mem) = 3" "mr_addr ex_add_mem = req_address ex_add"
  by (simp_all add: ex_add_mem_def mem_write_req_new_def mr_is_amo_def mr_is_stex_def ex_add_def
      req_address_def bv_to_uint64_def mem_req_new_def mem_req.defs)

lemma ex_atomic_coherent:
  "\<exists>s R. coherent_run default_cfg [] ex_A ex_I ex_start s R
     \<and> rf_pending R = [5 \<mapsto> (ex_add, (\<lambda>a. None), False)] \<and> rf_atomic R = Some (ex_add, False, Finished)"
proof -
  note f = ex_add_facts and g = ex_add_mem_facts
  let ?R = "ref_init\<lparr>rf_pending := [5 \<mapsto> (ex_add, (\<lambda>a. None), False)],
     rf_atomic := Some (ex_add, False, Waiting)\<rparr>"
  have "ref_step default_cfg [] ex_I (Core_req ex_junk ex_add) ref_init = ?R"
    using f by (simp add: ref_init_def ref_reserved_def holds_reservation_def)
  then obtain u where u: "coherent_run default_cfg [] ex_A ex_I ex_start u ?R"
    using ex_extend [OF coherent_run.start, of "Core_req ex_junk ex_add" ?R]
      ex_load_after_store_premises(4) f(3) ex_store_facts(2) by auto
  have al: "allowed default_cfg [] ex_A ex_I ?R (Mem_write_req ex_add_mem)"
    using f g by (simp add: ref_init_def on_line_of_atomic_def)
  have "meaningful (Mem_write_req ex_add_mem)" by simp
  then obtain v where "coherent_run default_cfg [] ex_A ex_I ex_start v
      (ref_step default_cfg [] ex_I (Mem_write_req ex_add_mem) ?R)"
    using ex_extend [OF u al _ refl] by blast
  moreover have "rf_pending (ref_step default_cfg [] ex_I (Mem_write_req ex_add_mem) ?R)
      = [5 \<mapsto> (ex_add, (\<lambda>a. None), False)]"
    "rf_atomic (ref_step default_cfg [] ex_I (Mem_write_req ex_add_mem) ?R) = Some (ex_add, False, Finished)"
    using g by simp_all
  ultimately show ?thesis by blast
qed

lemma ex_add_allowed:
  assumes "rf_pending R = [5 \<mapsto> (ex_add, (\<lambda>a. None), False)]"
    and "rf_atomic R = Some (ex_add, False, Finished)"
  shows "allowed default_cfg [] ex_A ex_I R (Core_resp ex_add_answer)"
proof -
  have "data_byte 0 i = 0" for i by (simp add: data_byte_def)
  moreover have "rsp_tid ex_add_answer = 5" "\<not> rsp_error ex_add_answer" "rsp_rdata ex_add_answer = 0"
    by (simp_all add: resp_new_def)
  ultimately show ?thesis
    using assms ex_add_facts by (simp add: response_allowed_def ex_no_error current_def)
qed

section \<open>Properties\<close>

text \<open>
  C1: The scoreboard raises no false alarm. In a run of a cache that behaves like the reference,
  with loads, stores, cache operations, LR, SC and atomic operations, whatever the order of its
  responses and refills and whatever the memory holds of the bytes that are only newer in the
  cache, no error is reported; and the round of the next event of such a cache ends without one,
  except for a refill whose mask has no meaning and for an identifier that the sequence cannot
  allocate.
\<close>

theorem correct_cache_raises_no_alarm:
  assumes "check_cfg c" and "no_alias A" and "\<not> rs_valid lrsc"
    and "coherent_run c segs A I (sb_init lrsc sq (Some segs) n) s R"
  shows "nb_error s = 0 \<and> sb_log s = []
     \<and> (\<forall>ev. allowed c segs A I R ev \<and> meaningful ev \<longrightarrow>
          (\<exists>u. sb_step c ev s = Inr u \<and> nb_error u = 0))"
  using assms by (rule coherent_no_alarm)

theorem correct_cache_raises_no_alarm_witness:
  "\<exists>s R u. coherent_run default_cfg [] ex_A ex_I ex_start s R \<and> rf_atomic R = Some (ex_add, False, Finished)
     \<and> sb_step default_cfg (Core_resp ex_add_answer) s = Inr u \<and> nb_error u = 0"
proof -
  obtain s R where s: "coherent_run default_cfg [] ex_A ex_I ex_start s R"
    "rf_pending R = [5 \<mapsto> (ex_add, (\<lambda>a. None), False)]" "rf_atomic R = Some (ex_add, False, Finished)"
    using ex_atomic_coherent by blast
  obtain u where "sb_step default_cfg (Core_resp ex_add_answer) s = Inr u" "nb_error u = 0"
    using correct_cache_raises_no_alarm [OF ex_run_cfg s(1)] ex_add_allowed [OF s(2,3)] meaningful.simps by blast
  then show ?thesis using s by blast
qed

text \<open>
  C2: Nor does it miss the first wrong answer. After any run of a correct cache, and with any limit
  of errors, a response to a request that does not wait, one with the wrong error flag to any
  request but a store, a load, an LR or an atomic operation answered with a byte other than
  the one the core had stored last when it sent the request, and an SC whose status is not the
  one that the reservation and the memory say, are reported: counted as errors, or the
  process ends because the limit is reached. The error flag of the response to a store
  is not looked at: whatever it says, nothing is reported.
\<close>

theorem wrong_answer_is_reported:
  assumes "check_cfg c" and "no_alias A" and "\<not> rs_valid lrsc"
    and "coherent_run c segs A I (sb_init lrsc sq (Some segs) n) s R"
  shows "(wrong_answer c segs R r \<longrightarrow> (\<exists>u. core_resp_step c r s = Inr u \<and> 0 < nb_error u)
       \<or> 0 < n \<and> core_resp_step c r s = Inl Process_exit)
     \<and> (\<forall>t st held. rf_pending R (rsp_tid r) = Some (t, st, held) \<and> is_store t \<longrightarrow>
          (\<exists>u. core_resp_step c r s = Inr u \<and> nb_error u = 0))"
  using coherent_wrong_answer [OF assms] coherent_store_answer [OF assms] by blast

theorem wrong_answer_is_reported_witness:
  "\<exists>s R u. coherent_run default_cfg [] ex_A ex_I ex_start s R
     \<and> core_resp_step default_cfg (resp_new\<lparr>rsp_tid := 4, rsp_rdata := 0x5534\<rparr>) s = Inr u \<and> 0 < nb_error u"
proof -
  let ?r = "resp_new\<lparr>rsp_tid := 4, rsp_rdata := 0x5534\<rparr>"
  obtain s R where s: "coherent_run default_cfg [] ex_A ex_I ex_start s R"
    "R = ref_init\<lparr>rf_stored := ex_stored, rf_pending := [4 \<mapsto> (ex_load, ex_stored, False)]\<rparr>"
    using ex_coherent by auto
  have "(1 :: nat) < 2 ^ req_size ex_load \<and> ex_stored (4096 + 1) \<noteq> None
      \<and> ex_stored (4096 + 1) \<noteq> Some (data_byte 0x5534 (0 + 1))"
    by (simp add: ex_load_facts ex_stored_bytes data_byte_def drop_bit_eq_div)
  then have "wrong_answer default_cfg [] R ?r"
    using s(2) ex_load_facts(4,7) unfolding wrong_answer_def
    by (auto simp: ex_no_error ex_load_facts(2) resp_new_def intro!: exI [of _ "1 :: nat"])
  then show ?thesis using wrong_answer_is_reported [OF ex_run_cfg s(1), of ?r] s(1) by blast
qed

text \<open>
  C5: The checks at the end of the test. When such a cache has answered every request and the
  memory has too, no request is left in the tables, none waits in the FIFO of atomic requests and
  the counters of requests and responses agree, so that the scoreboard has nothing to report
  about them.
\<close>

theorem correct_cache_passes_final_check:
  assumes "check_cfg c" and "no_alias A" and "\<not> rs_valid lrsc"
    and "coherent_run c segs A I (sb_init lrsc sq (Some segs) n) s R"
    and "rf_pending R = Map.empty" and "rf_reads R = Map.empty" and "rf_writes R = {}"
  shows "check_inflight_requests s \<and> inflight_amo_req_m s = [] \<and> nb_core_resp s = nb_core_req_need_rsp s"
proof -
  note ag = coherent_agrees [OF assms(1-4)]
  have nil: "m = []" if "\<forall>k. sm_find m k = None" for m :: "'v std_map"
    using that by (cases m) (auto simp: sm_find_def split: if_splits)
  have "\<forall>k. sm_find (inflight_m s) k = None" "\<forall>k. sm_find (inflight_mem_read_m s) k = None"
    "\<forall>k. sm_find (inflight_mem_write_m s) k = None"
    using ag assms(5-7) by (auto simp: agrees_def pending_ok_def)
  then have e: "inflight_m s = []" "inflight_mem_read_m s = []" "inflight_mem_write_m s = []"
    by (simp_all add: nil)
  moreover have "nb_core_req_need_rsp s = nb_core_resp s"
    using ag e(1) by (simp add: sb_inv_def balanced_def agrees_def)
  moreover have "atomic_ok s R" using ag by (simp add: agrees_def)
  then have "inflight_amo_req_m s = []" using assms(5) by (auto simp: atomic_wf_def split: option.splits)
  ultimately show ?thesis by (simp add: check_inflight_requests_def)
qed

theorem correct_cache_passes_final_check_witness:
  "\<exists>s u. sb_reach default_cfg ex_start s \<and> core_resp_step default_cfg ex_answer s = Inr u
     \<and> check_inflight_requests u \<and> nb_core_resp u = nb_core_req_need_rsp u"
proof -
  obtain s R where s: "coherent_run default_cfg [] ex_A ex_I ex_start s R"
    "R = ref_init\<lparr>rf_stored := ex_stored, rf_pending := [4 \<mapsto> (ex_load, ex_stored, False)]\<rparr>"
    using ex_coherent by auto
  have al: "allowed default_cfg [] ex_A ex_I R (Core_resp ex_answer)"
    by (rule ex_answer_allowed) (simp add: s(2))
  have "rsp_tid ex_answer = 4" by (simp add: resp_new_def)
  then have "ref_step default_cfg [] ex_I (Core_resp ex_answer) R = ref_init\<lparr>rf_stored := ex_stored\<rparr>"
    using ex_load_facts by (simp add: s(2) ref_init_def stored_after_def)
  then obtain u where u: "core_resp_step default_cfg ex_answer s = Inr u"
    "coherent_run default_cfg [] ex_A ex_I ex_start u (ref_init\<lparr>rf_stored := ex_stored\<rparr>)"
    using ex_extend [OF s(1) al] by auto
  have "check_inflight_requests u \<and> nb_core_resp u = nb_core_req_need_rsp u"
    using correct_cache_passes_final_check [OF ex_run_cfg u(2)] by (simp add: ref_init_def)
  then show ?thesis using coherent_reach [OF s(1)] u(1) by blast
qed

end
