(* ===== verification/Scoreboard_Path.thy ===== *)
theory Scoreboard_Path
  imports Scoreboard_Sound
begin

text \<open>
  Stretches of a run of the scoreboard (\<open>rtl/tb/include/hpdcache_test_scoreboard.h\<close>) with a
  correct cache: what a store of a core leaves, and a later request sees, when other events come
  in between.
\<close>

section \<open>Stretches\<close>

text \<open>
  From a state of the scoreboard and of the reference, any events that the reference allows and
  that satisfy \<open>P\<close> in the state of the reference they happen in.
\<close>

inductive stretch ::
  "cfg \<Rightarrow> segment list \<Rightarrow> nat set \<Rightarrow> (nat \<Rightarrow> u8) \<Rightarrow> (reference \<Rightarrow> sb_event \<Rightarrow> bool)
     \<Rightarrow> scoreboard \<Rightarrow> reference \<Rightarrow> scoreboard \<Rightarrow> reference \<Rightarrow> bool"
  for c segs A I P s0 R0 where
  stretch_nil: "stretch c segs A I P s0 R0 s0 R0"
| stretch_step: "stretch c segs A I P s0 R0 s R \<Longrightarrow> allowed c segs A I R ev \<Longrightarrow> P R ev
    \<Longrightarrow> sb_step c ev s = Inr t \<Longrightarrow> stretch c segs A I P s0 R0 t (ref_step c segs I ev R)"

lemma coherent_stretch:
  assumes "stretch c segs A I P s R t S" and "coherent_run c segs A I s0 s R"
  shows "coherent_run c segs A I s0 t S"
  using assms by (induction rule: stretch.induct) (auto intro: coherent_run.step)

lemma stretch_keeps:
  assumes "stretch c segs A I P s R t S" and "f R = x"
    and "\<And>R ev. P R ev \<Longrightarrow> allowed c segs A I R ev \<Longrightarrow> f R = x \<Longrightarrow> f (ref_step c segs I ev R) = x"
  shows "f S = x"
  using assms(1)
proof (induction rule: stretch.induct)
  case stretch_nil
  show ?case by (rule assms(2))
next
  case (stretch_step v R ev t)
  show ?case by (rule assms(3) [OF stretch_step.hyps(3,2) stretch_step.IH])
qed

section \<open>The last store of a byte\<close>

text \<open>
  The event stores the byte at \<open>a\<close>: the request of a store that enables it, or the response to an
  atomic operation or to a successful SC that does.
\<close>

definition enables :: "cfg \<Rightarrow> req \<Rightarrow> nat \<Rightarrow> bool" where
  "enables c t a \<longleftrightarrow> a \<in> bus_window c t \<and> bit (req_be t) (a - bus_base c t)"

fun stores_to :: "cfg \<Rightarrow> segment list \<Rightarrow> nat \<Rightarrow> reference \<Rightarrow> sb_event \<Rightarrow> bool" where
  "stores_to c segs a R (Core_req junk t) \<longleftrightarrow> is_store t \<and> \<not> error_request segs t \<and> enables c t a"
| "stores_to c segs a R (Core_resp r) \<longleftrightarrow>
     (case rf_pending R (rsp_tid r) of None \<Rightarrow> False | Some (t, st, held) \<Rightarrow>
        \<not> expect_error segs t held \<and> enables c t a
        \<and> (is_amo t \<or> is_amo_sc t \<and> rf_atomic R = Some (t, True, Answered True)))"
| "stores_to c segs a R ev \<longleftrightarrow> False"

lemma put_bus_at: "put_bus c t f st a = (if enables c t a then Some (f (a - bus_base c t)) else st a)"
  by (simp add: put_bus_def enables_def)

lemma stored_kept:
  assumes "\<not> stores_to c segs a R ev"
  shows "rf_stored (ref_step c segs I ev R) a = rf_stored R a"
  using assms
  by (cases ev)
    (auto simp: store_bytes_def amo_bytes_def put_bus_at stored_after_def split: option.split prod.split)

text \<open>The response to the request under an identifier has not come.\<close>

definition answers :: "nat \<Rightarrow> sb_event \<Rightarrow> bool" where
  "answers i ev \<longleftrightarrow> (\<exists>r. ev = Core_resp r \<and> rsp_tid r = i)"

lemma pending_kept:
  assumes "\<not> answers i ev" and "allowed c segs A I R ev" and "rf_pending R i = Some x"
  shows "rf_pending (ref_step c segs I ev R) i = Some x"
  using assms by (cases ev) (auto simp: answers_def in_turn_def split: option.split)

section \<open>A store and a later read\<close>

text \<open>
  A store, then events of which none stores the byte at \<open>a\<close>, then a read of this byte, then events of
  which none is the response to it: the byte expected is the one of the store.
\<close>

lemma store_seen_later:
  assumes "is_store t1" and "\<not> error_request segs t1" and "enables c t1 a"
    and "stretch c segs A I (\<lambda>R ev. \<not> stores_to c segs a R ev) u (ref_step c segs I (Core_req j1 t1) R) v R1"
    and "req_need_rsp t2"
    and "stretch c segs A I (\<lambda>R ev. \<not> answers (req_tid t2) ev) w (ref_step c segs I (Core_req j2 t2) R1) x R2"
  shows "\<exists>st. rf_pending R2 (req_tid t2) = Some (t2, st, holds_reservation c R1 t2)
     \<and> st a = Some (data_byte (req_wdata t1) (a - bus_base c t1))"
proof -
  let ?b = "Some (data_byte (req_wdata t1) (a - bus_base c t1))"
  have "rf_stored (ref_step c segs I (Core_req j1 t1) R) a = ?b"
    using assms(1-3) by (simp add: store_bytes_def put_bus_at)
  then have "rf_stored R1 a = ?b"
    by (rule stretch_keeps [OF assms(4), where f = "\<lambda>R. rf_stored R a"]) (simp add: stored_kept)
  moreover have "rf_pending (ref_step c segs I (Core_req j2 t2) R1) (req_tid t2)
      = Some (t2, rf_stored R1, holds_reservation c R1 t2)"
    using assms(5) by simp
  then have "rf_pending R2 (req_tid t2) = Some (t2, rf_stored R1, holds_reservation c R1 t2)"
    by (rule stretch_keeps [OF assms(6), where f = "\<lambda>R. rf_pending R (req_tid t2)"]) (rule pending_kept)
  ultimately show ?thesis by blast
qed

text \<open>So an answer with another byte is wrong, and the scoreboard reports it.\<close>

lemma wrong_read_of_store:
  assumes cfg: "check_cfg c" "no_alias A" "\<not> rs_valid lrsc"
    and run: "coherent_run c segs A I (sb_init lrsc sq (Some segs) n) s R"
    and one: "allowed c segs A I R (Core_req j1 t1)" "core_req_step c j1 t1 s = Inr u"
      "is_store t1" "\<not> error_request segs t1" "enables c t1 a"
    and before: "stretch c segs A I (\<lambda>R ev. \<not> stores_to c segs a R ev) u (ref_step c segs I (Core_req j1 t1) R) v R1"
    and two: "allowed c segs A I R1 (Core_req j2 t2)" "core_req_step c j2 t2 v = Inr w"
      "is_reading t2" "req_need_rsp t2" "\<not> error_request segs t2"
      "unat (req_address t2) \<le> a" "a < unat (req_address t2) + 2 ^ req_size t2"
    and after: "stretch c segs A I (\<lambda>R ev. \<not> answers (req_tid t2) ev) w (ref_step c segs I (Core_req j2 t2) R1) x R2"
    and resp: "rsp_tid r = req_tid t2"
      "data_byte (rsp_rdata r) (a - bus_base c t2) \<noteq> data_byte (req_wdata t1) (a - bus_base c t1)"
  shows "(\<exists>y. core_resp_step c r x = Inr y \<and> 0 < nb_error y) \<or> 0 < n \<and> core_resp_step c r x = Inl Process_exit"
proof -
  note ext = coherent_run.step [of c segs A I "sb_init lrsc sq (Some segs) n"]
  have "coherent_run c segs A I (sb_init lrsc sq (Some segs) n) u (ref_step c segs I (Core_req j1 t1) R)"
    by (rule ext [OF run one(1)]) (simp add: one(2))
  then have "coherent_run c segs A I (sb_init lrsc sq (Some segs) n) v R1"
    by (rule coherent_stretch [OF before])
  then have "coherent_run c segs A I (sb_init lrsc sq (Some segs) n) w (ref_step c segs I (Core_req j2 t2) R1)"
    by (rule ext [OF _ two(1)]) (simp add: two(2))
  then have cr: "coherent_run c segs A I (sb_init lrsc sq (Some segs) n) x R2"
    by (rule coherent_stretch [OF after])
  obtain st where p: "rf_pending R2 (rsp_tid r) = Some (t2, st, holds_reservation c R1 t2)"
    and st: "st a = Some (data_byte (req_wdata t1) (a - bus_base c t1))"
    using store_seen_later [OF one(3-5) before two(4) after] resp(1) by auto
  define i where "i = a - unat (req_address t2)"
  have i: "i < 2 ^ req_size t2" "unat (req_address t2) + i = a" using two(6,7) by (auto simp: i_def)
  have off: "a - bus_base c t2 = bus_offset c t2 + i" using bus_address [of c t2] i(2) by simp
  have "\<not> expect_error segs t2 held" for held using two(5) by (simp add: expect_error_def)
  moreover have "st (unat (req_address t2) + i) \<noteq> None
      \<and> st (unat (req_address t2) + i) \<noteq> Some (data_byte (rsp_rdata r) (bus_offset c t2 + i))"
    using st resp(2) unfolding i(2) off [symmetric] by simp
  ultimately have "wrong_answer c segs R2 r"
    using two(3) i(1) unfolding wrong_answer_def p option.case prod.case by blast
  then show ?thesis by (rule coherent_wrong_answer [OF cfg cr])
qed

end
