(* ===== verification/Stimuli_Checked.thy ===== *)
theory Stimuli_Checked
  imports Sequences_Run Scoreboard_Path
begin

text \<open>
  The random sequence (\<open>rtl/tb/sequence_lib/hpdcache_test_random_seq.h\<close>) and the RAM of the
  scoreboard (\<open>rtl/tb/include/hpdcache_test_scoreboard.h\<close>): the segments of the sequence are
  placed so that no two addresses share a byte of the RAM, and its accesses are of the kind the
  scoreboard checks.
\<close>

definition test_addresses :: "cfg \<Rightarrow> nat set" where
  "test_addresses c = {a. \<exists>seg \<in> set (random_segments c True). in_segment seg a}"

lemma test_addresses_eq:
  assumes "32 \<le> HPDCACHE_PA_WIDTH c"
  shows "test_addresses c = {0..<0x4000} \<union> {0x40004000..<0x40008000} \<union> {0x80008000..<0x8000C000}
     \<union> {0xC000C000..<0xC0010000}"
  by (auto simp: test_addresses_def random_segments_def in_segment_def make_segment_bounds [OF assms])

text \<open>Segment \<open>i\<close> is the \<open>i\<close>-th block of 16 KiB of the RAM.\<close>

lemma test_address_position:
  assumes "32 \<le> HPDCACHE_PA_WIDTH c" and "a \<in> test_addresses c"
  obtains i r where "a = i * 0x40000000 + r" "r div 0x4000 = i" "a mod SCOREBOARD_RAM_SIZE = r"
proof -
  have "\<exists>i r. a = i * 0x40000000 + r \<and> i < 4 \<and> i * 0x4000 \<le> r \<and> r < i * 0x4000 + 0x4000"
    using assms(2) unfolding test_addresses_eq [OF assms(1)]
  proof (elim UnE)
    assume "a \<in> {0..<0x4000}"
    then show ?thesis by (intro exI [of _ 0] exI [of _ a]) simp
  next
    assume "a \<in> {0x40004000..<0x40008000}"
    then show ?thesis by (intro exI [of _ 1] exI [of _ "a - 0x40000000"]) auto
  next
    assume "a \<in> {0x80008000..<0x8000C000}"
    then show ?thesis by (intro exI [of _ 2] exI [of _ "a - 0x80000000"]) auto
  next
    assume "a \<in> {0xC000C000..<0xC0010000}"
    then show ?thesis by (intro exI [of _ 3] exI [of _ "a - 0xC0000000"]) auto
  qed
  then obtain i r where ir: "a = i * 0x40000000 + r" "i < 4" "i * 0x4000 \<le> r" "r < i * 0x4000 + 0x4000"
    by blast
  have "a = r + 64 * i * 16777216" using ir(1) by simp
  then have "a mod 16777216 = r mod 16777216" by (simp only: mod_mult_self1)
  moreover have "r < 16777216" using ir by linarith
  moreover have "SCOREBOARD_RAM_SIZE = 16777216" by (simp add: SCOREBOARD_RAM_SIZE_def push_bit_eq_mult)
  ultimately have "a mod SCOREBOARD_RAM_SIZE = r" by simp
  moreover have "r div 0x4000 = i" by (rule div_nat_eqI) (use ir in auto)
  ultimately show thesis using ir(1) that by blast
qed

lemma test_addresses_no_alias:
  assumes "32 \<le> HPDCACHE_PA_WIDTH c"
  shows "no_alias (test_addresses c)"
  unfolding no_alias_def
proof (rule inj_onI)
  fix a b
  assume ab: "a \<in> test_addresses c" "b \<in> test_addresses c"
    and eq: "a mod SCOREBOARD_RAM_SIZE = b mod SCOREBOARD_RAM_SIZE"
  obtain i r where a: "a = i * 0x40000000 + r" "r div 0x4000 = i" "a mod SCOREBOARD_RAM_SIZE = r"
    by (rule test_address_position [OF assms ab(1)])
  obtain j q where b: "b = j * 0x40000000 + q" "q div 0x4000 = j" "b mod SCOREBOARD_RAM_SIZE = q"
    by (rule test_address_position [OF assms ab(2)])
  show "a = b" using a b eq by simp
qed

text \<open>The window of the bus does not leave the segment.\<close>

lemma aligned_window_inside:
  fixes a :: nat
  assumes "b \<le> a" and "a < b + n" and "w dvd b" and "w dvd n" and "0 < w"
  shows "{a div w * w..<a div w * w + w} \<subseteq> {b..<b + n}"
proof -
  obtain q where q: "b = w * q" using assms(3) ..
  obtain m where m: "n = w * m" using assms(4) ..
  have "q \<le> a div w" using assms(1,5) by (simp add: q less_eq_div_iff_mult_less_eq mult.commute)
  then have "b \<le> a div w * w" by (simp add: q mult.commute)
  moreover have "a < (q + m) * w" using assms(2) by (simp add: q m algebra_simps)
  then have "a div w < q + m" by (simp add: div_less_iff_less_mult assms(5))
  then have "a div w * w + w \<le> (q + m) * w" by (metis Suc_leI add.commute mult_Suc mult_le_mono1)
  then have "a div w * w + w \<le> b + n" by (simp add: q m algebra_simps)
  ultimately show ?thesis by auto
qed

lemma segment_window:
  assumes "32 \<le> HPDCACHE_PA_WIDTH c" and "a \<in> test_addresses c" and "k \<le> 5"
  shows "{a div 2 ^ k * 2 ^ k..<a div 2 ^ k * 2 ^ k + 2 ^ k} \<subseteq> test_addresses c"
proof -
  have "(2 :: nat) ^ k dvd 2 ^ 14" using assms(3) by (intro le_imp_power_dvd) simp
  then have d: "(2 :: nat) ^ k dvd 0x4000" by simp
  then have m: "(2 :: nat) ^ k dvd m * 0x4000" for m by (rule dvd_mult)
  have b: "(2 :: nat) ^ k dvd 0" "(2 :: nat) ^ k dvd 0x40004000" "(2 :: nat) ^ k dvd 0x80008000"
    "(2 :: nat) ^ k dvd 0xC000C000"
    using m [of "0x10001"] m [of "0x20002"] m [of "0x30003"] by simp_all
  note w = aligned_window_inside [of _ a "0x4000", OF _ _ _ d]
  have p: "(0 :: nat) < 2 ^ k" by simp
  let ?W = "{a div 2 ^ k * 2 ^ k..<a div 2 ^ k * 2 ^ k + 2 ^ k}"
  have "a \<in> {0..<0x4000} \<Longrightarrow> ?W \<subseteq> {0..<0x4000}"
    "a \<in> {0x40004000..<0x40008000} \<Longrightarrow> ?W \<subseteq> {0x40004000..<0x40008000}"
    "a \<in> {0x80008000..<0x8000C000} \<Longrightarrow> ?W \<subseteq> {0x80008000..<0x8000C000}"
    "a \<in> {0xC000C000..<0xC0010000} \<Longrightarrow> ?W \<subseteq> {0xC000C000..<0xC0010000}"
    using w [of 0, OF _ _ b(1) p] w [of "0x40004000", OF _ _ b(2) p]
      w [of "0x80008000", OF _ _ b(3) p] w [of "0xC000C000", OF _ _ b(4) p]
    by simp_all
  then show ?thesis using assms(2) unfolding test_addresses_eq [OF assms(1)] by blast
qed

lemma request_kinds:
  assumes "req_op t \<in> range op_code"
  shows "is_load t \<or> is_store t \<or> is_cmo t \<or> is_atomic t"
proof -
  obtain opc where "req_op t = op_code opc" using assms by blast
  then show ?thesis
    by (cases opc)
      (simp_all add: is_load_def is_store_def is_cmo_def is_atomic_def is_amo_def is_amo_lr_def is_amo_sc_def)
qed

lemma stimulus_accepted:
  assumes cfg: "seq_cfg c k" "sb_cfg c" and t: "stimulus c t" and seg: "req_addr t \<in> test_addresses c"
  shows "request_ok c (test_addresses c) t"
proof (cases "is_cmo t")
  case True
  then show ?thesis by (simp add: request_ok_def)
next
  case False
  have pa: "32 \<le> HPDCACHE_PA_WIDTH c" "HPDCACHE_PA_WIDTH c \<le> 64" and k: "k \<le> 5"
    using cfg(1) by (simp_all add: seq_cfg_def wf_cfg_def)
  have B: "REQ_DATA_BYTES c = 2 ^ k" by (rule seq_cfg_facts(1) [OF cfg(1)])
  have n: "8 * HPDCACHE_REQ_WORDS c = 2 ^ k"
    using sb_widths(1) [OF cfg(2)] B by (simp add: REQ_DATA_BYTES_def)
  have na: "natural_access c t" and wf: "wf_req c t" using t False by (simp_all add: stimulus_def)
  have "(2 :: nat) ^ HPDCACHE_PA_WIDTH c \<le> 2 ^ 64" using pa(2) by (intro power_increasing) auto
  then have "req_addr t < 2 ^ 64" using wf unfolding wf_req_def by linarith
  then have a: "unat (req_address t) = req_addr t"
    by (simp add: req_address_def bv_to_uint64_def unsigned_of_nat take_bit_nat_eq_self)
  have off: "bus_offset c t = req_addr t mod 2 ^ k" by (simp add: bus_offset_def a n)
  have "2 ^ req_size t \<le> (2 :: nat) ^ k" using na B by (simp add: natural_access_def)
  then have sz: "req_size t \<le> k" by simp
  have "req_addr t mod 2 ^ k + 2 ^ req_size t \<le> 2 ^ k"
    using na by (intro aligned_offset [OF sz]) (simp add: natural_access_def)
  then have "fits_bus c t" using sz k by (simp add: fits_bus_def n off)
  moreover have "bus_window c t \<subseteq> test_addresses c"
    using segment_window [OF pa(1) seg k] by (simp add: bus_window_def bus_base_def align_to_def n a)
  moreover have "is_load t \<or> is_store t \<or> is_atomic t"
    using request_kinds [of t] t False by (auto simp: stimulus_def)
  moreover have "atomic_access c t \<and> req_need_rsp t" if "is_atomic t"
  proof -
    have "req_is_amo t" using that by (auto simp: is_atomic_def req_is_amo_def)
    then have "req_size t \<in> {2, 3}" "req_need_rsp t" using t by (simp_all add: stimulus_def)
    moreover have "bus_offset c t \<le> i \<and> i < bus_offset c t + 2 ^ req_size t" if "bit (req_be t) i" for i
      using na that by (auto simp: natural_access_def off B bit_push_bit_iff bit_mask_iff)
    moreover have "2 ^ req_size t dvd unat (req_address t)" using na by (simp add: natural_access_def a)
    ultimately show ?thesis by (auto simp: atomic_access_def)
  qed
  ultimately show ?thesis by (simp add: request_ok_def)
qed

text \<open>A generated access enables each of its bytes, at the position of its address on the bus.\<close>

lemma stimulus_enables:
  assumes cfg: "seq_cfg c k" "sb_cfg c" and t: "stimulus c t" "\<not> is_cmo t" and seg: "req_addr t \<in> test_addresses c"
    and i: "i < 2 ^ req_size t"
  shows "enables c t (req_addr t + i)"
proof -
  have pa: "HPDCACHE_PA_WIDTH c \<le> 64" using cfg(1) by (simp add: seq_cfg_def wf_cfg_def)
  have n: "8 * HPDCACHE_REQ_WORDS c = REQ_DATA_BYTES c"
    using sb_widths(1) [OF cfg(2)] by (simp add: REQ_DATA_BYTES_def)
  have na: "natural_access c t" and wf: "wf_req c t" using t by (simp_all add: stimulus_def)
  have "(2 :: nat) ^ HPDCACHE_PA_WIDTH c \<le> 2 ^ 64" using pa by (intro power_increasing) auto
  then have "req_addr t < 2 ^ 64" using wf unfolding wf_req_def by linarith
  then have a: "unat (req_address t) = req_addr t"
    by (simp add: req_address_def bv_to_uint64_def unsigned_of_nat take_bit_nat_eq_self)
  then have off: "bus_offset c t = req_addr t mod REQ_DATA_BYTES c" by (simp add: bus_offset_def n)
  have p: "req_addr t + i = bus_base c t + (bus_offset c t + i)" using bus_address [of c t] a by simp
  have "fits_bus c t" using stimulus_accepted [OF cfg t(1) seg] t(2) by (simp add: request_ok_def)
  then have "bus_offset c t + i < 8 * HPDCACHE_REQ_WORDS c" using i by (simp add: fits_bus_def)
  moreover have "bit (req_be t) (bus_offset c t + i)"
    using na i by (simp add: natural_access_def off bit_push_bit_iff bit_mask_iff)
  ultimately show ?thesis unfolding enables_def bus_window_def p by simp
qed

lemma bus_position:
  assumes "sb_cfg c" and "bus_base c t \<le> a" and "a < bus_base c t + 8 * HPDCACHE_REQ_WORDS c"
  shows "a - bus_base c t = a mod REQ_DATA_BYTES c"
proof -
  let ?n = "REQ_DATA_BYTES c"
  have n: "8 * HPDCACHE_REQ_WORDS c = ?n" using sb_widths(1) [OF assms(1)] by (simp add: REQ_DATA_BYTES_def)
  define j where "j = a - bus_base c t"
  have j: "a = bus_base c t + j" "j < ?n" using assms(2,3) by (simp_all add: j_def n)
  have "a mod ?n = j" using j by (simp add: bus_base_def align_to_def n)
  then show ?thesis by (simp add: j_def)
qed

section \<open>Properties\<close>

text \<open>
  C3: The random sequence only makes requests that the scoreboard can check. Its four segments do
  not share a byte of the scoreboard's RAM, although they span far more than its size; every
  request that a run of it sends is of the kind the reference allows, so that the scoreboard
  takes it in any state a correct cache brings it to, when its turn has come, and reports nothing.
\<close>

theorem random_requests_raise_no_alarm:
  assumes "check_cfg c" and "seq_cfg c k" and "seq_inv c q" and "transaction_fifo q = []"
    and "\<forall>n. plays_round c (random_ok c b) (rds n)" and "random_run c b m rds q = returns q'"
    and "t \<in> set (transaction_fifo q')" and "junk_ok c junk" and "\<not> rs_valid lrsc"
    and "coherent_run c segs (test_addresses c) I (sb_init lrsc sq (Some segs) n) s R" and "in_turn c R t"
  shows "no_alias (test_addresses c) \<and> request_ok c (test_addresses c) t
     \<and> (\<exists>u. core_req_step c junk t s = Inr u \<and> nb_error u = 0)"
proof -
  have pa: "32 \<le> HPDCACHE_PA_WIDTH c" using assms(2) by (simp add: seq_cfg_def)
  have sc: "sb_cfg c" using assms(1) by (simp add: check_cfg_def)
  note na = test_addresses_no_alias [OF pa]
  obtain q1 where q1: "random_run c b m rds q = returns q1"
    "sends c (random_good c (random_segments c True)) (max_transactions q) (max_transactions q * (m + 2)) q q1"
    using rnd.rounds_ok [OF assms(3), of b rds m "max_transactions q"] assms(5)
    by (auto simp: random_run_def)
  have "q1 = q'" using q1(1) assms(6) by simp
  then have good: "stimulus c t" "req_addr t \<in> test_addresses c"
    using q1(2) assms(4,7) by (auto simp: sends_def random_good_def test_addresses_def)
  note ok = stimulus_accepted [OF assms(2) sc good]
  have "allowed c segs (test_addresses c) I R (Core_req junk t)" using assms(8,11) ok by simp
  moreover have "meaningful (Core_req junk t)" by simp
  ultimately have "\<exists>u. sb_step c (Core_req junk t) s = Inr u \<and> nb_error u = 0"
    using coherent_no_alarm [OF assms(1) na assms(9,10)] by blast
  then show ?thesis using na ok by simp
qed

definition ex_store_choice :: choice where
  "ex_store_choice = ex_choice\<lparr>ch_op_amo := HPDCACHE_REQ_STORE, ch_need_rsp := False\<rparr>"

definition ex_store_round :: round where
  "ex_store_round = ex_round\<lparr>rd_main := ex_store_choice\<rparr>"

lemma ex_store_possible: "possible (random_params default_cfg ex_build) ex_store_choice"
proof -
  have lg: "LOG2_REQ_DATA_BYTES default_cfg = 3" by (rule seq_cfg_facts(2) [OF seq_cfg_default])
  show ?thesis
    by (simp add: possible_def random_params_def lg ex_store_choice_def ex_choice_def ex_build_def
        drawn_def drawn_between_def random_op_distribution_def random_op_amo_distribution_def
        amo_op_weights_def)
qed

lemma ex_store_plays: "plays_round default_cfg (random_ok default_cfg ex_build) ex_store_round"
  using ex_plays(1) ex_store_possible seq_cfg_default
  by (auto simp: plays_round_def plays_def ex_store_round_def random_ok_def ex_store_choice_def
      ex_round_def)

text \<open>One round of the example sends a store.\<close>

lemma ex_store_sent:
  "\<exists>q' t. random_run default_cfg ex_build 2 (\<lambda>n. ex_store_round) (seq_new ''random''\<lparr>max_transactions := 1\<rparr>)
      = returns q' \<and> transaction_fifo q' = [t] \<and> is_store t"
proof -
  let ?q = "seq_new ''random''\<lparr>max_transactions := 1\<rparr>"
  let ?mk = "random_request default_cfg (random_params default_cfg ex_build) ex_store_choice"
  have "responsive default_cfg (ch_acks ex_store_choice)"
    using ex_store_plays by (simp add: plays_round_def plays_def ex_store_round_def)
  moreover have "\<exists>r. ?mk i req_new = Inr r \<and> is_store r \<and> req_tid r = i"
    if i: "i < 2 ^ HPDCACHE_REQ_TRANS_ID_WIDTH default_cfg" for i
  proof -
    obtain r where r: "?mk i req_new = Inr r" "req_tid r = i"
      using random_request_ok [OF seq_cfg_default ex_store_possible i] by blast
    have "req_op r = op_code HPDCACHE_REQ_STORE"
      using random_request_head(1) [OF r(1)]
      by (simp add: ex_store_choice_def ex_choice_def random_params_def random_segments_def
          set_wr_policy_hint_def set_amo_supported_def)
    then show ?thesis using r by (auto simp: is_store_def)
  qed
  ultimately obtain r q' where q': "send_new default_cfg ?mk ex_store_choice ?q = returns (r, q')"
    "is_store r" "sends default_cfg is_store 1 1 ?q q'"
    using send_new_ok [OF seq_inv_new [of default_cfg 1 "''random''"], of ex_store_choice ?mk is_store] by blast
  have "\<not> is_amo_lr r" using q'(2) class_exclusive(1) by blast
  then have run: "random_run default_cfg ex_build 2 (\<lambda>n. ex_store_round) ?q = returns q'"
    using q'(1) by (simp add: random_run_def random_round_def ex_store_round_def ex_round_def)
  have "transaction_fifo ?q = []" by (simp add: seq_new_def)
  then obtain ts where "transaction_fifo q' = ts" "length ts = 1" "\<forall>t \<in> set ts. is_store t"
    using q'(3) by (auto simp: sends_def)
  then obtain t where "transaction_fifo q' = [t]" "is_store t" by (auto simp: length_Suc_conv)
  then show ?thesis using run by blast
qed

theorem random_requests_raise_no_alarm_witness:
  "\<exists>q' t u. random_run default_cfg ex_build 2 (\<lambda>n. ex_store_round)
        (seq_new ''random''\<lparr>max_transactions := 1\<rparr>) = returns q'
     \<and> transaction_fifo q' = [t] \<and> core_req_step default_cfg ex_junk t ex_start = Inr u \<and> nb_error u = 0"
proof -
  let ?q = "seq_new ''random''\<lparr>max_transactions := 1\<rparr>"
  obtain q' t where q': "random_run default_cfg ex_build 2 (\<lambda>n. ex_store_round) ?q = returns q'"
    "transaction_fifo q' = [t]" "is_store t" using ex_store_sent by blast
  have t: "t \<in> set (transaction_fifo q')" and e: "transaction_fifo ?q = []"
    using q' by (simp_all add: seq_new_def)
  have "\<exists>u. core_req_step default_cfg ex_junk t ex_start = Inr u \<and> nb_error u = 0"
    using random_requests_raise_no_alarm [OF ex_run_cfg(1) seq_cfg_default seq_inv_new e _ q'(1) t
        ex_load_after_store_premises(4) ex_run_cfg(3) coherent_run.start ex_store_facts(2)] ex_store_plays by blast
  then show ?thesis using q' by blast
qed

end
