(* ===== verification/Rtl_Interface.thy ===== *)
theory Rtl_Interface
  imports Driver
begin

text \<open>
  The other side of the core interface. The driver packs a request by hand into a vector of
  \<open>HPDCACHE_CORE_REQ_WIDTH\<close> bits; the cache reads that vector as the packed structure
  \<open>hpdcache_req_t\<close> of \<open>rtl/include/hpdcache_typedef.svh\<close>, with the widths of
  \<open>hpdcacheBuildConfig\<close> (\<open>rtl/src/hpdcache_pkg.sv\<close>). Here the SystemVerilog structures are
  lists of members, most significant first, as the language lays them out; the theorems say
  that the two sides agree on widths, positions, operation codes and request classes.
\<close>

section \<open>Packed structures\<close>

type_synonym packed = "(string \<times> nat) list"

primrec packed_width :: "packed \<Rightarrow> nat" where
  "packed_width [] = 0"
| "packed_width (m # s) = snd m + packed_width s"

primrec member_pos :: "packed \<Rightarrow> string \<Rightarrow> nat" where
  "member_pos [] f = 0"
| "member_pos (m # s) f = (if fst m = f then packed_width s else member_pos s f)"

primrec member_width :: "packed \<Rightarrow> string \<Rightarrow> nat" where
  "member_width [] f = 0"
| "member_width (m # s) f = (if fst m = f then snd m else member_width s f)"

text \<open>The value of a member of a structure held in a vector, and the vector of some values.\<close>

definition get_member :: "packed \<Rightarrow> string \<Rightarrow> nat \<Rightarrow> nat" where
  "get_member s f v = take_bit (member_width s f) (drop_bit (member_pos s f) v)"

primrec assemble :: "packed \<Rightarrow> (string \<Rightarrow> nat) \<Rightarrow> nat" where
  "assemble [] x = 0"
| "assemble (m # s) x = take_bit (snd m) (x (fst m)) * 2 ^ packed_width s + assemble s x"

lemma assemble_less: "assemble s x < 2 ^ packed_width s"
proof (induction s)
  case Nil
  then show ?case by simp
next
  case (Cons m s)
  have "take_bit (snd m) (x (fst m)) < (2 :: nat) ^ snd m" by (rule take_bit_nat_less_exp)
  then have "Suc (take_bit (snd m) (x (fst m))) * 2 ^ packed_width s \<le> 2 ^ snd m * 2 ^ packed_width s"
    by (intro mult_le_mono1 Suc_leI)
  with Cons show ?case by (simp add: power_add)
qed

lemma member_below: "member_pos s f + member_width s f \<le> packed_width s"
  by (induction s) auto

lemma get_member_high:
  assumes "w < 2 ^ packed_width s"
  shows "get_member s f (h * 2 ^ packed_width s + w) = get_member s f w"
proof -
  let ?p = "member_pos s f" and ?n = "member_width s f" and ?t = "packed_width s"
  have "take_bit (?p + ?n) (h * 2 ^ ?t + w) = take_bit (?p + ?n) w"
  proof -
    have "take_bit ?t (h * 2 ^ ?t + w) = take_bit ?t w" by (simp add: take_bit_eq_mod)
    then have "take_bit (?p + ?n) (take_bit ?t (h * 2 ^ ?t + w)) = take_bit (?p + ?n) (take_bit ?t w)"
      by simp
    then show ?thesis using member_below [of s f] by (simp add: take_bit_take_bit min_def)
  qed
  then have "drop_bit ?p (take_bit (?n + ?p) (h * 2 ^ ?t + w)) = drop_bit ?p (take_bit (?n + ?p) w)"
    by (simp add: add.commute)
  then show ?thesis by (simp add: get_member_def drop_bit_take_bit)
qed

lemma get_member_assemble:
  assumes "f \<in> fst ` set s"
  shows "get_member s f (assemble s x) = take_bit (member_width s f) (x f)"
  using assms
proof (induction s)
  case Nil
  then show ?case by simp
next
  case (Cons m s)
  show ?case
  proof (cases "fst m = f")
    case True
    have "(take_bit (snd m) (x f) * 2 ^ packed_width s + assemble s x) div 2 ^ packed_width s
        = take_bit (snd m) (x f)"
      using assemble_less [of s x] by simp
    with True show ?thesis by (simp add: get_member_def drop_bit_eq_div)
  next
    case False
    with Cons have "get_member s f (assemble s x) = take_bit (member_width s f) (x f)" by auto
    with False show ?thesis
      using get_member_high [OF assemble_less, of s f "take_bit (snd m) (x (fst m))" x]
      by (simp add: get_member_def)
  qed
qed

text \<open>A member is the field of its position and width.\<close>

lemma get_member_field:
  assumes "0 < member_width s f"
  shows "get_member s f v = get_field (member_pos s f) (member_width s f) v"
  using assms by (simp add: get_member_def get_field_def bv_range_def)

section \<open>Configuration of the cache\<close>

text \<open>\<open>$clog2\<close>: the number of bits that count up to an argument.\<close>

function clog2 :: "nat \<Rightarrow> nat" where
  "clog2 n = (if n \<le> 1 then 0 else Suc (clog2 (Suc n div 2)))"
  by pat_completeness auto

termination
  by (relation "measure id") auto

declare clog2.simps [simp del]

lemma clog2_le: "clog2 n \<le> k \<longleftrightarrow> n \<le> 2 ^ k"
proof (induction n arbitrary: k rule: clog2.induct)
  case (1 n)
  show ?case
  proof (cases "n \<le> 1")
    case True
    have "1 \<le> (2 :: nat) ^ k" by simp
    with True have "n \<le> 2 ^ k" by linarith
    with True show ?thesis by (simp add: clog2.simps [of n])
  next
    case n: False
    show ?thesis
    proof (cases k)
      case 0
      with n show ?thesis by (simp add: clog2.simps [of n])
    next
      case (Suc j)
      have "Suc n div 2 \<le> 2 ^ j \<longleftrightarrow> n \<le> 2 ^ Suc j" by (simp add: less_Suc_eq_le [symmetric]) linarith
      with 1 n Suc show ?thesis by (simp add: clog2.simps [of n])
    qed
  qed
qed

lemma clog2_eqI: "2 ^ k < 2 * n \<Longrightarrow> n \<le> 2 ^ k \<Longrightarrow> clog2 n = k"
proof (cases k)
  case (Suc j)
  assume "2 ^ k < 2 * n" and "n \<le> 2 ^ k"
  with Suc have "\<not> clog2 n \<le> j" and "clog2 n \<le> k" by (simp_all add: clog2_le)
  with Suc show ?thesis by linarith
qed (use clog2_le [of n 0] in simp)

lemma clog2_power [simp]: "clog2 (2 ^ k) = k"
  by (rule clog2_eqI) simp_all

text \<open>The macro of the testbench is this logarithm up to its last branch.\<close>

lemma LOG2_clog2: "x \<le> 16384 \<Longrightarrow> HPDCACHE_TEST_DEFS_LOG2 x = clog2 x"
proof (cases "x \<le> 1")
  case True
  then show ?thesis by (simp add: HPDCACHE_TEST_DEFS_LOG2_def clog2.simps [of x])
next
  case False
  assume "x \<le> 16384"
  with False show ?thesis by (intro clog2_eqI [symmetric] LOG2_lower LOG2_upper) simp_all
qed

record rtl_cfg =
  clWidth :: nat
  clOffsetWidth :: nat
  clWordIdxWidth :: nat
  wordByteIdxWidth :: nat
  wayIndexWidth :: nat
  setWidth :: nat
  nlineWidth :: nat
  tagWidth :: nat
  reqWordIdxWidth :: nat
  reqOffsetWidth :: nat
  reqDataWidth :: nat
  reqDataBytes :: nat
  mshrSetWidth :: nat
  mshrWayWidth :: nat
  wbufDataWidth :: nat
  wbufDirPtrWidth :: nat
  wbufDataPtrWidth :: nat

text \<open>
  \<open>hpdcacheBuildConfig\<close> for the parameters that \<open>hpdcache_wrapper.sv\<close> takes from the same
  \<open>CONF_HPDCACHE_\<dots>\<close> macros as the testbench; the fields that come from parameters the
  testbench does not have (\<open>cbufEntries\<close>, \<open>accessWords\<close>) are left out.
\<close>

definition hpdcacheBuildConfig :: "cfg \<Rightarrow> rtl_cfg" where
  "hpdcacheBuildConfig p =
     (let clw = HPDCACHE_CL_WORDS p * HPDCACHE_WORD_WIDTH p;
          clo = clog2 (clw div 8);
          set = clog2 (HPDCACHE_SETS p);
          nline = HPDCACHE_PA_WIDTH p - clo;
          tag = nline - set;
          data = HPDCACHE_REQ_WORDS p * HPDCACHE_WORD_WIDTH p
      in \<lparr>clWidth = clw, clOffsetWidth = clo,
          clWordIdxWidth = clog2 (HPDCACHE_CL_WORDS p),
          wordByteIdxWidth = clog2 (HPDCACHE_WORD_WIDTH p div 8),
          wayIndexWidth = (if HPDCACHE_WAYS p > 1 then clog2 (HPDCACHE_WAYS p) else 1),
          setWidth = set, nlineWidth = nline, tagWidth = tag,
          reqWordIdxWidth = clog2 (HPDCACHE_REQ_WORDS p),
          reqOffsetWidth = HPDCACHE_PA_WIDTH p - tag,
          reqDataWidth = data, reqDataBytes = data div 8,
          mshrSetWidth = (if HPDCACHE_MSHR_SETS p > 1 then clog2 (HPDCACHE_MSHR_SETS p) else 1),
          mshrWayWidth = (if HPDCACHE_MSHR_WAYS p > 1 then clog2 (HPDCACHE_MSHR_WAYS p) else 1),
          wbufDataWidth = data * HPDCACHE_WBUF_WORDS p,
          wbufDirPtrWidth = clog2 (HPDCACHE_WBUF_DIR_ENTRIES p),
          wbufDataPtrWidth = clog2 (HPDCACHE_WBUF_DATA_ENTRIES p)\<rparr>)"

section \<open>Structures of the core interface\<close>

definition hpdcache_pma_t :: packed where
  "hpdcache_pma_t = [(''uncacheable'', 1), (''io'', 1), (''wr_policy_hint'', 3)]"

definition hpdcache_req_t :: "cfg \<Rightarrow> packed" where
  "hpdcache_req_t c =
     (let r = hpdcacheBuildConfig c
      in [(''addr_offset'', reqOffsetWidth r),
          (''wdata'', HPDCACHE_REQ_WORDS c * HPDCACHE_WORD_WIDTH c),
          (''op'', 5),
          (''be'', HPDCACHE_REQ_WORDS c * (HPDCACHE_WORD_WIDTH c div 8)),
          (''size'', 3),
          (''sid'', HPDCACHE_REQ_SRC_ID_WIDTH c),
          (''tid'', HPDCACHE_REQ_TRANS_ID_WIDTH c),
          (''need_rsp'', 1),
          (''phys_indexed'', 1),
          (''addr_tag'', tagWidth r),
          (''pma'', packed_width hpdcache_pma_t)])"

definition hpdcache_rsp_t :: "cfg \<Rightarrow> packed" where
  "hpdcache_rsp_t c =
     [(''rdata'', HPDCACHE_REQ_WORDS c * HPDCACHE_WORD_WIDTH c),
      (''sid'', HPDCACHE_REQ_SRC_ID_WIDTH c),
      (''tid'', HPDCACHE_REQ_TRANS_ID_WIDTH c),
      (''error'', 1),
      (''aborted'', 1)]"

text \<open>Values of the write policy hint, one bit each.\<close>

primrec rtl_wr_policy :: "hpdcache_wr_policy_hint_e \<Rightarrow> nat" where
  "rtl_wr_policy HPDCACHE_WR_POLICY_AUTO = 1"
| "rtl_wr_policy HPDCACHE_WR_POLICY_WB = 2"
| "rtl_wr_policy HPDCACHE_WR_POLICY_WT = 4"

section \<open>Operations of the package\<close>

primrec rtl_op :: "hpdcache_req_op_e \<Rightarrow> 5 word" where
  "rtl_op HPDCACHE_REQ_LOAD = 0x00"
| "rtl_op HPDCACHE_REQ_STORE = 0x01"
| "rtl_op HPDCACHE_REQ_AMO_LR = 0x04"
| "rtl_op HPDCACHE_REQ_AMO_SC = 0x05"
| "rtl_op HPDCACHE_REQ_AMO_SWAP = 0x06"
| "rtl_op HPDCACHE_REQ_AMO_ADD = 0x07"
| "rtl_op HPDCACHE_REQ_AMO_AND = 0x08"
| "rtl_op HPDCACHE_REQ_AMO_OR = 0x09"
| "rtl_op HPDCACHE_REQ_AMO_XOR = 0x0a"
| "rtl_op HPDCACHE_REQ_AMO_MAX = 0x0b"
| "rtl_op HPDCACHE_REQ_AMO_MAXU = 0x0c"
| "rtl_op HPDCACHE_REQ_AMO_MIN = 0x0d"
| "rtl_op HPDCACHE_REQ_AMO_MINU = 0x0e"
| "rtl_op HPDCACHE_REQ_CMO_FENCE = 0x10"
| "rtl_op HPDCACHE_REQ_CMO_PREFETCH = 0x11"
| "rtl_op HPDCACHE_REQ_CMO_INVAL_NLINE = 0x12"
| "rtl_op HPDCACHE_REQ_CMO_INVAL_ALL = 0x13"
| "rtl_op HPDCACHE_REQ_CMO_FLUSH_NLINE = 0x14"
| "rtl_op HPDCACHE_REQ_CMO_FLUSH_ALL = 0x15"
| "rtl_op HPDCACHE_REQ_CMO_FLUSH_INVAL_NLINE = 0x16"
| "rtl_op HPDCACHE_REQ_CMO_FLUSH_INVAL_ALL = 0x17"

definition rtl_is_load :: "5 word \<Rightarrow> bool" where
  "rtl_is_load op \<longleftrightarrow> op = rtl_op HPDCACHE_REQ_LOAD"

definition rtl_is_store :: "5 word \<Rightarrow> bool" where
  "rtl_is_store op \<longleftrightarrow> op = rtl_op HPDCACHE_REQ_STORE"

definition rtl_is_amo :: "5 word \<Rightarrow> bool" where
  "rtl_is_amo op \<longleftrightarrow>
     op \<in> set (List.map rtl_op
       [HPDCACHE_REQ_AMO_LR, HPDCACHE_REQ_AMO_SC, HPDCACHE_REQ_AMO_SWAP, HPDCACHE_REQ_AMO_ADD,
        HPDCACHE_REQ_AMO_AND, HPDCACHE_REQ_AMO_OR, HPDCACHE_REQ_AMO_XOR, HPDCACHE_REQ_AMO_MAX,
        HPDCACHE_REQ_AMO_MAXU, HPDCACHE_REQ_AMO_MIN, HPDCACHE_REQ_AMO_MINU])"

definition rtl_is_amo_lr :: "5 word \<Rightarrow> bool" where
  "rtl_is_amo_lr op \<longleftrightarrow> op = rtl_op HPDCACHE_REQ_AMO_LR"

definition rtl_is_amo_sc :: "5 word \<Rightarrow> bool" where
  "rtl_is_amo_sc op \<longleftrightarrow> op = rtl_op HPDCACHE_REQ_AMO_SC"

definition rtl_is_cmo_inval :: "5 word \<Rightarrow> bool" where
  "rtl_is_cmo_inval op \<longleftrightarrow>
     op \<in> set (List.map rtl_op [HPDCACHE_REQ_CMO_INVAL_NLINE, HPDCACHE_REQ_CMO_INVAL_ALL])"

definition rtl_is_cmo_flush :: "5 word \<Rightarrow> bool" where
  "rtl_is_cmo_flush op \<longleftrightarrow>
     op \<in> set (List.map rtl_op
       [HPDCACHE_REQ_CMO_FLUSH_NLINE, HPDCACHE_REQ_CMO_FLUSH_ALL,
        HPDCACHE_REQ_CMO_FLUSH_INVAL_NLINE, HPDCACHE_REQ_CMO_FLUSH_INVAL_ALL])"

definition rtl_is_cmo_fence :: "5 word \<Rightarrow> bool" where
  "rtl_is_cmo_fence op \<longleftrightarrow> op = rtl_op HPDCACHE_REQ_CMO_FENCE"

definition rtl_is_cmo_prefetch :: "5 word \<Rightarrow> bool" where
  "rtl_is_cmo_prefetch op \<longleftrightarrow> op = rtl_op HPDCACHE_REQ_CMO_PREFETCH"

definition rtl_is_cmo :: "5 word \<Rightarrow> bool" where
  "rtl_is_cmo op \<longleftrightarrow>
     rtl_is_cmo_flush op \<or> rtl_is_cmo_fence op \<or> rtl_is_cmo_inval op \<or> rtl_is_cmo_prefetch op"

section \<open>The two sides agree\<close>

lemma cfg_agrees:
  assumes "wf_cfg c"
  shows "setWidth (hpdcacheBuildConfig c) = HPDCACHE_SET_WIDTH c"
    "clOffsetWidth (hpdcacheBuildConfig c) = HPDCACHE_CL_OFFSET_WIDTH c"
    "nlineWidth (hpdcacheBuildConfig c) = HPDCACHE_NLINE_WIDTH c"
    "tagWidth (hpdcacheBuildConfig c) = HPDCACHE_TAG_WIDTH c"
    "reqOffsetWidth (hpdcacheBuildConfig c) = HPDCACHE_ADDR_OFFSET_WIDTH c"
    "reqDataWidth (hpdcacheBuildConfig c) = HPDCACHE_REQ_DATA_WIDTH c"
proof -
  have s: "clog2 (HPDCACHE_SETS c) = HPDCACHE_SET_WIDTH c"
    and o: "clog2 ((HPDCACHE_CL_WORDS c * HPDCACHE_WORD_WIDTH c) div 8) = HPDCACHE_CL_OFFSET_WIDTH c"
    using assms by (simp_all add: wf_cfg_def del: One_nat_def)
  show "setWidth (hpdcacheBuildConfig c) = HPDCACHE_SET_WIDTH c"
    "clOffsetWidth (hpdcacheBuildConfig c) = HPDCACHE_CL_OFFSET_WIDTH c"
    "nlineWidth (hpdcacheBuildConfig c) = HPDCACHE_NLINE_WIDTH c"
    "tagWidth (hpdcacheBuildConfig c) = HPDCACHE_TAG_WIDTH c"
    "reqOffsetWidth (hpdcacheBuildConfig c) = HPDCACHE_ADDR_OFFSET_WIDTH c"
    "reqDataWidth (hpdcacheBuildConfig c) = HPDCACHE_REQ_DATA_WIDTH c"
    by (simp_all add: hpdcacheBuildConfig_def Let_def s o HPDCACHE_NLINE_WIDTH_def HPDCACHE_TAG_WIDTH_def
        HPDCACHE_ADDR_OFFSET_WIDTH_def HPDCACHE_REQ_DATA_WIDTH_def)
qed

lemma be_width:
  assumes "wf_cfg c"
  shows "HPDCACHE_REQ_WORDS c * (HPDCACHE_WORD_WIDTH c div 8) = HPDCACHE_REQ_DATA_WIDTH c div 8"
proof -
  have "8 dvd HPDCACHE_WORD_WIDTH c" using assms by (auto simp: wf_cfg_def)
  then show ?thesis by (simp add: HPDCACHE_REQ_DATA_WIDTH_def div_mult_swap)
qed

lemma pma_width: "packed_width hpdcache_pma_t = HPDCACHE_REQ_PMA_WIDTH"
  by (simp add: hpdcache_pma_t_def HPDCACHE_REQ_PMA_WIDTH_def)

text \<open>The structure of a request in the names of the testbench.\<close>

lemma req_layout:
  assumes "wf_cfg c"
  shows "hpdcache_req_t c =
    [(''addr_offset'', HPDCACHE_ADDR_OFFSET_WIDTH c), (''wdata'', HPDCACHE_REQ_DATA_WIDTH c),
     (''op'', HPDCACHE_REQ_OP_WIDTH), (''be'', HPDCACHE_REQ_DATA_WIDTH c div 8),
     (''size'', HPDCACHE_REQ_SIZE_WIDTH), (''sid'', HPDCACHE_REQ_SRC_ID_WIDTH c),
     (''tid'', HPDCACHE_REQ_TRANS_ID_WIDTH c), (''need_rsp'', HPDCACHE_REQ_NEED_RSP_WIDTH),
     (''phys_indexed'', HPDCACHE_REQ_PHYS_INDEXED_WIDTH), (''addr_tag'', HPDCACHE_TAG_WIDTH c),
     (''pma'', HPDCACHE_REQ_PMA_WIDTH)]"
  by (simp only: hpdcache_req_t_def Let_def cfg_agrees [OF assms] be_width [OF assms] pma_width)
    (simp add: fixed_widths HPDCACHE_REQ_DATA_WIDTH_def)

lemma rsp_layout:
  "hpdcache_rsp_t c =
    [(''rdata'', HPDCACHE_REQ_DATA_WIDTH c), (''sid'', HPDCACHE_REQ_SRC_ID_WIDTH c),
     (''tid'', HPDCACHE_REQ_TRANS_ID_WIDTH c), (''error'', HPDCACHE_RSP_ERROR_WIDTH),
     (''aborted'', HPDCACHE_RSP_ABORTED_WIDTH)]"
  by (simp add: hpdcache_rsp_t_def fixed_widths HPDCACHE_REQ_DATA_WIDTH_def)

text \<open>The members of a request, as the cache reads them from a vector.\<close>

definition rtl_request :: "cfg \<Rightarrow> nat \<Rightarrow> (string \<times> nat) list" where
  "rtl_request c v = List.map (\<lambda>m. (fst m, get_member (hpdcache_req_t c) (fst m) v)) (hpdcache_req_t c)"

lemma req_member_pos:
  assumes "wf_cfg c"
  shows "member_pos (hpdcache_req_t c) ''addr_offset'' = ADDR_POS c"
    "member_pos (hpdcache_req_t c) ''wdata'' = WDATA_POS c"
    "member_pos (hpdcache_req_t c) ''op'' = OP_POS c"
    "member_pos (hpdcache_req_t c) ''be'' = BE_POS c"
    "member_pos (hpdcache_req_t c) ''size'' = SIZE_POS c"
    "member_pos (hpdcache_req_t c) ''sid'' = SRC_ID_POS c"
    "member_pos (hpdcache_req_t c) ''tid'' = TRANS_ID_POS c"
    "member_pos (hpdcache_req_t c) ''need_rsp'' = NEED_RSP_POS c"
    "member_pos (hpdcache_req_t c) ''phys_indexed'' = PHYS_INDEXED_POS c"
    "member_pos (hpdcache_req_t c) ''addr_tag'' = TAG_POS c"
    "member_pos (hpdcache_req_t c) ''pma'' = PMA_POS c"
    "packed_width (hpdcache_req_t c) = HPDCACHE_CORE_REQ_WIDTH c"
  by (simp_all add: req_layout [OF assms] pos_defs HPDCACHE_CORE_REQ_WIDTH_def)

lemma req_member_width:
  assumes "wf_cfg c"
  shows "member_width (hpdcache_req_t c) ''addr_offset'' = HPDCACHE_ADDR_OFFSET_WIDTH c"
    "member_width (hpdcache_req_t c) ''wdata'' = HPDCACHE_REQ_DATA_WIDTH c"
    "member_width (hpdcache_req_t c) ''op'' = HPDCACHE_REQ_OP_WIDTH"
    "member_width (hpdcache_req_t c) ''be'' = HPDCACHE_REQ_DATA_WIDTH c div 8"
    "member_width (hpdcache_req_t c) ''size'' = HPDCACHE_REQ_SIZE_WIDTH"
    "member_width (hpdcache_req_t c) ''sid'' = HPDCACHE_REQ_SRC_ID_WIDTH c"
    "member_width (hpdcache_req_t c) ''tid'' = HPDCACHE_REQ_TRANS_ID_WIDTH c"
    "member_width (hpdcache_req_t c) ''need_rsp'' = HPDCACHE_REQ_NEED_RSP_WIDTH"
    "member_width (hpdcache_req_t c) ''phys_indexed'' = HPDCACHE_REQ_PHYS_INDEXED_WIDTH"
    "member_width (hpdcache_req_t c) ''addr_tag'' = HPDCACHE_TAG_WIDTH c"
    "member_width (hpdcache_req_t c) ''pma'' = HPDCACHE_REQ_PMA_WIDTH"
  by (simp_all add: req_layout [OF assms])

lemma rtl_request_fields:
  assumes "wf_cfg c"
  shows "rtl_request c v =
    [(''addr_offset'', get_field (ADDR_POS c) (HPDCACHE_ADDR_OFFSET_WIDTH c) v),
     (''wdata'', get_field (WDATA_POS c) (HPDCACHE_REQ_DATA_WIDTH c) v),
     (''op'', get_field (OP_POS c) HPDCACHE_REQ_OP_WIDTH v),
     (''be'', get_field (BE_POS c) (HPDCACHE_REQ_DATA_WIDTH c div 8) v),
     (''size'', get_field (SIZE_POS c) HPDCACHE_REQ_SIZE_WIDTH v),
     (''sid'', get_field (SRC_ID_POS c) (HPDCACHE_REQ_SRC_ID_WIDTH c) v),
     (''tid'', get_field (TRANS_ID_POS c) (HPDCACHE_REQ_TRANS_ID_WIDTH c) v),
     (''need_rsp'', get_field (NEED_RSP_POS c) HPDCACHE_REQ_NEED_RSP_WIDTH v),
     (''phys_indexed'', get_field (PHYS_INDEXED_POS c) HPDCACHE_REQ_PHYS_INDEXED_WIDTH v),
     (''addr_tag'', get_field (TAG_POS c) (HPDCACHE_TAG_WIDTH c) v),
     (''pma'', get_field (PMA_POS c) HPDCACHE_REQ_PMA_WIDTH v)]"
proof -
  note pos = widths_positive [OF assms]
  have m: "get_member (hpdcache_req_t c) f v = get_field p w v"
    if "member_pos (hpdcache_req_t c) f = p" "member_width (hpdcache_req_t c) f = w" "0 < w" for f p w
    using get_member_field [of "hpdcache_req_t c" f v] that by simp
  have "rtl_request c v =
      List.map (\<lambda>f. (f, get_member (hpdcache_req_t c) f v)) (List.map fst (hpdcache_req_t c))"
    by (simp add: rtl_request_def)
  also have "List.map fst (hpdcache_req_t c) =
      [''addr_offset'', ''wdata'', ''op'', ''be'', ''size'', ''sid'', ''tid'', ''need_rsp'',
       ''phys_indexed'', ''addr_tag'', ''pma'']"
    by (simp add: req_layout [OF assms])
  finally show ?thesis
    by (simp only: list.map list.inject prod.inject simp_thms)
      (intro conjI m req_member_pos [OF assms] req_member_width [OF assms]; use pos in \<open>simp add: fixed_widths\<close>)
qed

lemma pma_members:
  "get_member hpdcache_pma_t ''uncacheable'' (unat (core_get_req_pma t)) = of_bool (req_uncacheable t)"
  "get_member hpdcache_pma_t ''io'' (unat (core_get_req_pma t)) = of_bool (req_io t)"
  "get_member hpdcache_pma_t ''wr_policy_hint'' (unat (core_get_req_pma t))
     = rtl_wr_policy (req_wr_policy_hint t)"
  by (cases "req_wr_policy_hint t"; cases "req_io t"; cases "req_uncacheable t";
      simp add: get_member_def hpdcache_pma_t_def core_get_req_pma_def is_wr_policy_auto_def
        is_wr_policy_wb_def is_wr_policy_wt_def Let_def push_bit_of_1 take_bit_eq_mod drop_bit_eq_div)+

lemma rtl_op_code: "unat (rtl_op x) = op_code x"
  by (cases x) simp_all

lemmas rtl_class_defs =
  rtl_is_load_def rtl_is_store_def rtl_is_amo_lr_def rtl_is_amo_sc_def rtl_is_amo_def
  rtl_is_cmo_def rtl_is_cmo_flush_def rtl_is_cmo_fence_def rtl_is_cmo_inval_def
  rtl_is_cmo_prefetch_def

text \<open>The members that the fields of a request make.\<close>

definition request_members :: "cfg \<Rightarrow> 'a req_scheme \<Rightarrow> (string \<times> nat) list" where
  "request_members c t =
    [(''addr_offset'', req_addr t mod 2 ^ reqOffsetWidth (hpdcacheBuildConfig c)),
     (''wdata'', req_wdata t), (''op'', req_op t), (''be'', req_be t), (''size'', req_size t),
     (''sid'', req_sid t), (''tid'', req_tid t), (''need_rsp'', of_bool (req_need_rsp t)),
     (''phys_indexed'', of_bool (req_phys_indexed t)),
     (''addr_tag'', req_addr t div 2 ^ reqOffsetWidth (hpdcacheBuildConfig c)),
     (''pma'', unat (core_get_req_pma t))]"

lemma rtl_request_driven:
  assumes "wf_cfg c" and "wf_req c t"
  shows "rtl_request c (core_req_to_bv c t) = request_members c t"
    and "core_req_to_bv c t < 2 ^ packed_width (hpdcache_req_t c)"
proof -
  let ?v = "core_req_to_bv c t" and ?o = "HPDCACHE_ADDR_OFFSET_WIDTH c"
  note d = core_req_decodes [OF assms, unfolded decodes_to_def]
  note pos = widths_positive [OF assms(1)]
  have "get_field (ADDR_POS c) ?o ?v < 2 ^ ?o"
    using pos by (simp add: get_field_def bv_range_def)
  with d have a: "get_field (ADDR_POS c) ?o ?v = req_addr t mod 2 ^ ?o"
    "get_field (TAG_POS c) (HPDCACHE_TAG_WIDTH c) ?v = req_addr t div 2 ^ ?o"
    by (auto simp: mod_mult_self3 div_mult_self3 dest!: sym [of _ "req_addr t"])
  have one: "get_field p 1 ?v = of_bool (get_field p 1 ?v = 1)" for p
  proof -
    have "get_field p 1 ?v < 2" by (simp add: get_field_def bv_range_def)
    then show ?thesis by (cases "get_field p 1 ?v = 1") auto
  qed
  have n: "get_field (NEED_RSP_POS c) HPDCACHE_REQ_NEED_RSP_WIDTH ?v = of_bool (req_need_rsp t)"
    "get_field (PHYS_INDEXED_POS c) HPDCACHE_REQ_PHYS_INDEXED_WIDTH ?v = of_bool (req_phys_indexed t)"
    using d one [of "NEED_RSP_POS c"] one [of "PHYS_INDEXED_POS c"]
    by (simp_all only: HPDCACHE_REQ_NEED_RSP_WIDTH_def HPDCACHE_REQ_PHYS_INDEXED_WIDTH_def)
  show "rtl_request c ?v = request_members c t"
    using d by (simp add: rtl_request_fields [OF assms(1)] request_members_def a n cfg_agrees [OF assms(1)])
  show "?v < 2 ^ packed_width (hpdcache_req_t c)"
    using d by (simp add: req_member_pos(12) [OF assms(1)])
qed

section \<open>Properties\<close>

text \<open>
  C34: the cache reads from the vector that the driver writes each field of the request, by the
  members of its own structure and the widths its own configuration function computes; the
  offset and the tag make the address, the members of \<open>pma\<close> are the attributes of the request,
  and the vector has the width of the structure.
\<close>

theorem cache_reads_driven_request:
  assumes "wf_cfg c" and "wf_req c t"
  shows "rtl_request c (core_req_to_bv c t) =
      [(''addr_offset'', req_addr t mod 2 ^ reqOffsetWidth (hpdcacheBuildConfig c)),
       (''wdata'', req_wdata t), (''op'', req_op t), (''be'', req_be t), (''size'', req_size t),
       (''sid'', req_sid t), (''tid'', req_tid t), (''need_rsp'', of_bool (req_need_rsp t)),
       (''phys_indexed'', of_bool (req_phys_indexed t)),
       (''addr_tag'', req_addr t div 2 ^ reqOffsetWidth (hpdcacheBuildConfig c)),
       (''pma'', unat (core_get_req_pma t))]
    \<and> get_member hpdcache_pma_t ''uncacheable'' (unat (core_get_req_pma t)) = of_bool (req_uncacheable t)
    \<and> get_member hpdcache_pma_t ''io'' (unat (core_get_req_pma t)) = of_bool (req_io t)
    \<and> get_member hpdcache_pma_t ''wr_policy_hint'' (unat (core_get_req_pma t))
        = rtl_wr_policy (req_wr_policy_hint t)
    \<and> core_req_to_bv c t < 2 ^ packed_width (hpdcache_req_t c)"
  using rtl_request_driven [OF assms] pma_members unfolding request_members_def by (intro conjI)

theorem cache_reads_driven_request_witness:
  "get_member (hpdcache_req_t default_cfg) ''op''
     (core_req_to_bv default_cfg (req_new\<lparr>req_addr := 0x12345, req_op := 7, req_tid := 9\<rparr>)) = 7"
  using cache_reads_driven_request [OF wf_default_cfg,
      of "req_new\<lparr>req_addr := 0x12345, req_op := 7, req_tid := 9\<rparr>"]
  by (simp add: wf_req_def req_new_def default_cfg_def fixed_widths rtl_request_def hpdcache_req_t_def
      Let_def)

text \<open>
  C35: whatever response the cache assembles from its members, the driver unpacks those members.
\<close>

theorem driver_reads_cache_response:
  assumes "wf_cfg c"
  shows "core_resp_to_struct c r (assemble (hpdcache_rsp_t c) x) =
    r\<lparr>rsp_aborted := odd (x ''aborted''), rsp_error := odd (x ''error''),
      rsp_tid := take_bit (HPDCACHE_REQ_TRANS_ID_WIDTH c) (x ''tid''),
      rsp_sid := take_bit (HPDCACHE_REQ_SRC_ID_WIDTH c) (x ''sid''),
      rsp_rdata := take_bit (HPDCACHE_REQ_DATA_WIDTH c) (x ''rdata'')\<rparr>"
proof -
  let ?v = "assemble (hpdcache_rsp_t c) x"
  note pos = widths_positive [OF assms]
  have m: "get_field (member_pos (hpdcache_rsp_t c) f) (member_width (hpdcache_rsp_t c) f) ?v
      = take_bit (member_width (hpdcache_rsp_t c) f) (x f)"
    if "f \<in> fst ` set (hpdcache_rsp_t c)" for f
    using that pos get_member_assemble [OF that, of x]
    by (subst get_member_field [symmetric]) (auto simp: rsp_layout fixed_widths)
  have od: "0 < n mod Suc (Suc 0) \<longleftrightarrow> odd n" for n :: nat
    by (simp add: odd_iff_mod_2_eq_one flip: numeral_2_eq_2)
  show ?thesis
    using m [of "''aborted''"] m [of "''error''"] m [of "''tid''"] m [of "''sid''"] m [of "''rdata''"]
    by (simp add: rsp_layout core_resp_to_struct_def Let_def fixed_widths add.commute
        take_bit_eq_mod od del: assemble.simps)
qed

theorem driver_reads_cache_response_witness:
  "rsp_rdata (core_resp_to_struct default_cfg resp_new
     (assemble (hpdcache_rsp_t default_cfg) (\<lambda>f. if f = ''rdata'' then 77 else 1))) = 77"
  using driver_reads_cache_response [OF wf_default_cfg, of resp_new "\<lambda>f. if f = ''rdata'' then 77 else 1"]
  by (simp add: default_cfg_def HPDCACHE_REQ_DATA_WIDTH_def take_bit_eq_mod)

text \<open>
  on every operation code the testbench and the cache put a request in the same class, the
  cache counting LR and SC among the atomic operations.
\<close>

theorem request_classes_of_cache:
  assumes "req_op t < 2 ^ HPDCACHE_REQ_OP_WIDTH"
  defines "op \<equiv> word_of_nat (req_op t) :: 5 word"
  shows "rtl_is_load op = is_load t \<and> rtl_is_store op = is_store t
     \<and> rtl_is_amo_lr op = is_amo_lr t \<and> rtl_is_amo_sc op = is_amo_sc t
     \<and> rtl_is_amo op = (is_amo t \<or> is_amo_lr t \<or> is_amo_sc t)
     \<and> rtl_is_cmo op = is_cmo t \<and> rtl_is_cmo_prefetch op = is_cmo_prefetch t"
proof -
  have "(op = rtl_op x) = (req_op t = op_code x)" for x
  proof -
    have "unat op = req_op t mod 2 ^ LENGTH(5)" unfolding op_def by (rule unat_of_nat)
    then have "unat op = req_op t" using assms(1) by (simp add: HPDCACHE_REQ_OP_WIDTH_def)
    then show ?thesis by (simp add: word_unat_eq_iff rtl_op_code)
  qed
  then show ?thesis
    by (simp add: op_class_defs is_cmo_prefetch_def rtl_class_defs del: op_code.simps rtl_op.simps) blast
qed

theorem request_classes_of_cache_witness:
  "rtl_is_cmo 0x15 \<and> is_cmo (req_new\<lparr>req_op := 0x15\<rparr>)"
  using request_classes_of_cache [of "req_new\<lparr>req_op := 0x15\<rparr>"]
  by (simp add: HPDCACHE_REQ_OP_WIDTH_def is_cmo_def Let_def)

end
