(* ===== verification/Wiring.thy ===== *)
theory Wiring
  imports Rtl_Interface
begin

text \<open>
  The netlist of the testbench. \<open>hpdcache_tb.cpp\<close> declares the signals and FIFOs and binds to
  them the ports of the Verilated cache, the agent, the memory responder and the scoreboard; the
  agent (\<open>sc_verif_lib/include/agent.h\<close>, \<open>include/hpdcache_test_agent.h\<close>) owns a driver, two
  more FIFOs and the sequences that are added to it, and binds the ports of the driver to its
  own ports. Ports, channels and bindings are lists in the order of the source; the ports of the
  cache are those of \<open>rtl/tb/hpdcache_wrapper.sv\<close>, from which Verilator makes the class of
  \<open>top\<close>.

  The theorems say what the elaboration of such a netlist by SystemC needs (each port bound
  once, to a channel of its type, one writer for each channel), for every configuration of the
  cache that the testbench can have, and that no wire is crossed.
\<close>

section \<open>Names\<close>

text \<open>
  A name is read by its parts: \<open>mem_req_read_valid\<close> is \<open>Mem_req_read Valid\<close>, \<open>evt_stall\<close> is
  \<open>Evt Stall\<close>, \<open>core_req\<close> itself is \<open>Core_req Payload\<close>; a port \<open>n_i\<close> is \<open>Pin n\<close>, a port \<open>n_o\<close> is
  \<open>Pout n\<close> (and \<open>rst_ni\<close> is \<open>Pin Rst\<close>). The FIFO ports of the scoreboard are the \<open>Sb_\<dots>\<close>
  names, without that prefix in the source.
\<close>

datatype field =
  Payload | Valid | Ready | Abort | Tag | Pma | Addr | Atomic | Be | Cacheable | Command | Data
  | Data_ready | Data_valid | Error | Id | Is_atomic | Last | Len | Size

datatype event_name =
  Cache_dat_cor_err | Cache_dat_unc_err | Cache_dir_cor_err | Cache_dir_unc_err
  | Cache_read_miss | Cache_write_miss | Cmo_req | Prefetch_req | Read_req | Req_on_hold
  | Rtab_rollback | Scrub_complete | Stall | Stall_refill | Uncached_req | Write_req

datatype config_name =
  Default_wb | Enable | Error_on_cacheable_amo | Prefetch_updt_plru | Rtab_single_entry
  | Scrub_enable | Scrub_period | Scrub_restart | Wbuf_inhibit_write_coalescing
  | Wbuf_reset_timecnt_on_write | Wbuf_sequential_waw | Wbuf_threshold

datatype wire =
  Clk | Rst | Wbuf_flush | Wbuf_empty | No_inflight_requests
  | Core_req field | Core_rsp field
  | Mem_req_read field | Mem_resp_read field | Mem_req_write field | Mem_resp_write field
  | Evt event_name | Cfg config_name
  | Sb_core_req | Sb_core_resp
  | Sb_mem_read_req | Sb_mem_read_resp | Sb_mem_write_req | Sb_mem_write_resp
  | Transaction_fifo | Transaction_ret

datatype port_name = Pin wire | Pout wire

text \<open>Inside the agent a port is bound to a port of the agent or to a channel of its own.\<close>

datatype inner_net = Port port_name | Channel wire

section \<open>Types of channels and ports\<close>

text \<open>
  A width is a number or one of the names that the declarations use: those of
  \<open>hpdcache_test_defs.h\<close> on the side of the testbench, the structures and types of the RTL
  (\<open>RTL_\<dots>\<close>) on the ports of the cache.
\<close>

datatype width =
  Bits nat
  | CORE_REQ | TAG | REQ_PMA | CORE_RSP | MEM_ADDR | MEM_ID | MEM_DATA | MEM_BE
  | RTL_REQ | RTL_TAG | RTL_PMA | RTL_RSP | WBUF_TIMECNT

text \<open>
  \<open>Bool_net\<close> is a signal of \<open>bool\<close>, \<open>Bv_net w\<close> one of \<open>sc_bv<w>\<close>; the others are the
  \<open>sc_fifo\<close>s of each class of transaction.
\<close>

datatype net_type =
  Bool_net | Bv_net width
  | Req_fifo | Resp_fifo
  | Mem_read_req_fifo | Mem_read_resp_fifo | Mem_write_req_fifo | Mem_write_resp_fifo
  | Transaction_ptr_fifo | Id_fifo

datatype direction = In_port | Out_port

type_synonym nets = "(wire \<times> net_type) list"
type_synonym ports = "(port_name \<times> direction \<times> net_type) list"
type_synonym bindings = "(port_name \<times> wire) list"
type_synonym inner_bindings = "(port_name \<times> inner_net) list"

fun is_fifo :: "net_type \<Rightarrow> bool" where
  "is_fifo Bool_net = False"
| "is_fifo (Bv_net w) = False"
| "is_fifo _ = True"

text \<open>
  The number of wires of a width in a configuration; \<open>tw\<close> is \<open>wbufTimecntWidth\<close>, a parameter of
  the cache that the testbench does not read.
\<close>

fun bits_of :: "cfg \<Rightarrow> nat \<Rightarrow> width \<Rightarrow> nat" where
  "bits_of c tw (Bits n) = n"
| "bits_of c tw CORE_REQ = HPDCACHE_CORE_REQ_WIDTH c"
| "bits_of c tw TAG = HPDCACHE_TAG_WIDTH c"
| "bits_of c tw REQ_PMA = HPDCACHE_REQ_PMA_WIDTH"
| "bits_of c tw CORE_RSP = HPDCACHE_CORE_RSP_WIDTH c"
| "bits_of c tw MEM_ADDR = HPDCACHE_MEM_ADDR_WIDTH c"
| "bits_of c tw MEM_ID = HPDCACHE_MEM_ID_WIDTH c"
| "bits_of c tw MEM_DATA = HPDCACHE_MEM_DATA_WIDTH c"
| "bits_of c tw MEM_BE = HPDCACHE_MEM_DATA_WIDTH c div 8"
| "bits_of c tw RTL_REQ = packed_width (hpdcache_req_t c)"
| "bits_of c tw RTL_TAG = tagWidth (hpdcacheBuildConfig c)"
| "bits_of c tw RTL_PMA = packed_width hpdcache_pma_t"
| "bits_of c tw RTL_RSP = packed_width (hpdcache_rsp_t c)"
| "bits_of c tw WBUF_TIMECNT = tw"

section \<open>Ports of the modules\<close>

definition top_ports :: ports where
  "top_ports =
    [(Pin Clk, In_port, Bool_net), (Pin Rst, In_port, Bool_net),
     (Pin Wbuf_flush, In_port, Bool_net), (Pin (Core_req Valid), In_port, Bool_net),
     (Pout (Core_req Ready), Out_port, Bool_net), (Pin (Core_req Payload), In_port, Bv_net RTL_REQ),
     (Pin (Core_req Abort), In_port, Bool_net), (Pin (Core_req Tag), In_port, Bv_net RTL_TAG),
     (Pin (Core_req Pma), In_port, Bv_net RTL_PMA), (Pout (Core_rsp Valid), Out_port, Bool_net),
     (Pout (Core_rsp Payload), Out_port, Bv_net RTL_RSP),
     (Pin (Mem_req_read Ready), In_port, Bool_net), (Pout (Mem_req_read Valid), Out_port, Bool_net),
     (Pout (Mem_req_read Addr), Out_port, Bv_net MEM_ADDR),
     (Pout (Mem_req_read Len), Out_port, Bv_net (Bits 8)),
     (Pout (Mem_req_read Size), Out_port, Bv_net (Bits 3)),
     (Pout (Mem_req_read Id), Out_port, Bv_net MEM_ID),
     (Pout (Mem_req_read Command), Out_port, Bv_net (Bits 2)),
     (Pout (Mem_req_read Atomic), Out_port, Bv_net (Bits 4)),
     (Pout (Mem_req_read Cacheable), Out_port, Bool_net),
     (Pout (Mem_resp_read Ready), Out_port, Bool_net),
     (Pin (Mem_resp_read Valid), In_port, Bool_net),
     (Pin (Mem_resp_read Error), In_port, Bv_net (Bits 2)),
     (Pin (Mem_resp_read Id), In_port, Bv_net MEM_ID),
     (Pin (Mem_resp_read Data), In_port, Bv_net MEM_DATA),
     (Pin (Mem_resp_read Last), In_port, Bool_net), (Pin (Mem_req_write Ready), In_port, Bool_net),
     (Pout (Mem_req_write Valid), Out_port, Bool_net),
     (Pout (Mem_req_write Addr), Out_port, Bv_net MEM_ADDR),
     (Pout (Mem_req_write Len), Out_port, Bv_net (Bits 8)),
     (Pout (Mem_req_write Size), Out_port, Bv_net (Bits 3)),
     (Pout (Mem_req_write Id), Out_port, Bv_net MEM_ID),
     (Pout (Mem_req_write Command), Out_port, Bv_net (Bits 2)),
     (Pout (Mem_req_write Atomic), Out_port, Bv_net (Bits 4)),
     (Pout (Mem_req_write Cacheable), Out_port, Bool_net),
     (Pin (Mem_req_write Data_ready), In_port, Bool_net),
     (Pout (Mem_req_write Data_valid), Out_port, Bool_net),
     (Pout (Mem_req_write Data), Out_port, Bv_net MEM_DATA),
     (Pout (Mem_req_write Be), Out_port, Bv_net MEM_BE),
     (Pout (Mem_req_write Last), Out_port, Bool_net),
     (Pout (Mem_resp_write Ready), Out_port, Bool_net),
     (Pin (Mem_resp_write Valid), In_port, Bool_net),
     (Pin (Mem_resp_write Is_atomic), In_port, Bool_net),
     (Pin (Mem_resp_write Error), In_port, Bv_net (Bits 2)),
     (Pin (Mem_resp_write Id), In_port, Bv_net MEM_ID),
     (Pout (Evt Cache_write_miss), Out_port, Bool_net),
     (Pout (Evt Cache_read_miss), Out_port, Bool_net),
     (Pout (Evt Cache_dir_unc_err), Out_port, Bool_net),
     (Pout (Evt Cache_dir_cor_err), Out_port, Bool_net),
     (Pout (Evt Cache_dat_unc_err), Out_port, Bool_net),
     (Pout (Evt Cache_dat_cor_err), Out_port, Bool_net),
     (Pout (Evt Scrub_complete), Out_port, Bool_net), (Pout (Evt Uncached_req), Out_port, Bool_net),
     (Pout (Evt Cmo_req), Out_port, Bool_net), (Pout (Evt Write_req), Out_port, Bool_net),
     (Pout (Evt Read_req), Out_port, Bool_net), (Pout (Evt Prefetch_req), Out_port, Bool_net),
     (Pout (Evt Req_on_hold), Out_port, Bool_net), (Pout (Evt Rtab_rollback), Out_port, Bool_net),
     (Pout (Evt Stall_refill), Out_port, Bool_net), (Pout (Evt Stall), Out_port, Bool_net),
     (Pout Wbuf_empty, Out_port, Bool_net), (Pin (Cfg Enable), In_port, Bool_net),
     (Pin (Cfg Wbuf_threshold), In_port, Bv_net WBUF_TIMECNT),
     (Pin (Cfg Wbuf_reset_timecnt_on_write), In_port, Bool_net),
     (Pin (Cfg Wbuf_sequential_waw), In_port, Bool_net),
     (Pin (Cfg Wbuf_inhibit_write_coalescing), In_port, Bool_net),
     (Pin (Cfg Prefetch_updt_plru), In_port, Bool_net),
     (Pin (Cfg Error_on_cacheable_amo), In_port, Bool_net),
     (Pin (Cfg Rtab_single_entry), In_port, Bool_net), (Pin (Cfg Default_wb), In_port, Bool_net),
     (Pin (Cfg Scrub_enable), In_port, Bool_net),
     (Pin (Cfg Scrub_period), In_port, Bv_net (Bits 6)),
     (Pin (Cfg Scrub_restart), In_port, Bool_net)]"

definition driver_base_ports :: ports where
  "driver_base_ports =
    [(Pin Clk, In_port, Bool_net), (Pin Rst, In_port, Bool_net),
     (Pin Transaction_fifo, In_port, Transaction_ptr_fifo), (Pout Transaction_ret, Out_port, Id_fifo)]"

definition driver_own_ports :: ports where
  "driver_own_ports =
    [(Pout (Core_req Valid), Out_port, Bool_net), (Pin (Core_req Ready), In_port, Bool_net),
     (Pout (Core_req Payload), Out_port, Bv_net CORE_REQ),
     (Pout (Core_req Abort), Out_port, Bool_net), (Pout (Core_req Tag), Out_port, Bv_net TAG),
     (Pout (Core_req Pma), Out_port, Bv_net REQ_PMA), (Pin (Core_rsp Valid), In_port, Bool_net),
     (Pin (Core_rsp Payload), In_port, Bv_net CORE_RSP),
     (Pin No_inflight_requests, In_port, Bool_net), (Pout Sb_core_req, Out_port, Req_fifo),
     (Pout Sb_core_resp, Out_port, Resp_fifo)]"

definition sequence_ports :: ports where
  "sequence_ports =
    [(Pin Clk, In_port, Bool_net), (Pin Rst, In_port, Bool_net),
     (Pout Transaction_fifo, Out_port, Transaction_ptr_fifo), (Pin Transaction_ret, In_port, Id_fifo)]"

definition agent_base_ports :: ports where
  "agent_base_ports =
    [(Pin Clk, In_port, Bool_net), (Pin Rst, In_port, Bool_net)]"

definition agent_own_ports :: ports where
  "agent_own_ports =
    [(Pout (Core_req Valid), Out_port, Bool_net), (Pin (Core_req Ready), In_port, Bool_net),
     (Pout (Core_req Payload), Out_port, Bv_net CORE_REQ),
     (Pout (Core_req Tag), Out_port, Bv_net TAG), (Pout (Core_req Pma), Out_port, Bv_net REQ_PMA),
     (Pout (Core_req Abort), Out_port, Bool_net), (Pin (Core_rsp Valid), In_port, Bool_net),
     (Pin (Core_rsp Payload), In_port, Bv_net CORE_RSP),
     (Pin No_inflight_requests, In_port, Bool_net), (Pout Sb_core_req, Out_port, Req_fifo),
     (Pout Sb_core_resp, Out_port, Resp_fifo)]"

definition mem_resp_ports :: ports where
  "mem_resp_ports =
    [(Pin Clk, In_port, Bool_net), (Pin Rst, In_port, Bool_net),
     (Pout (Mem_req_read Ready), Out_port, Bool_net), (Pin (Mem_req_read Valid), In_port, Bool_net),
     (Pin (Mem_req_read Addr), In_port, Bv_net MEM_ADDR),
     (Pin (Mem_req_read Len), In_port, Bv_net (Bits 8)),
     (Pin (Mem_req_read Size), In_port, Bv_net (Bits 3)),
     (Pin (Mem_req_read Id), In_port, Bv_net MEM_ID),
     (Pin (Mem_req_read Command), In_port, Bv_net (Bits 2)),
     (Pin (Mem_req_read Atomic), In_port, Bv_net (Bits 4)),
     (Pin (Mem_req_read Cacheable), In_port, Bool_net),
     (Pin (Mem_resp_read Ready), In_port, Bool_net),
     (Pout (Mem_resp_read Valid), Out_port, Bool_net),
     (Pout (Mem_resp_read Error), Out_port, Bv_net (Bits 2)),
     (Pout (Mem_resp_read Id), Out_port, Bv_net MEM_ID),
     (Pout (Mem_resp_read Data), Out_port, Bv_net MEM_DATA),
     (Pout (Mem_resp_read Last), Out_port, Bool_net),
     (Pout (Mem_req_write Ready), Out_port, Bool_net),
     (Pin (Mem_req_write Valid), In_port, Bool_net),
     (Pin (Mem_req_write Addr), In_port, Bv_net MEM_ADDR),
     (Pin (Mem_req_write Len), In_port, Bv_net (Bits 8)),
     (Pin (Mem_req_write Size), In_port, Bv_net (Bits 3)),
     (Pin (Mem_req_write Id), In_port, Bv_net MEM_ID),
     (Pin (Mem_req_write Command), In_port, Bv_net (Bits 2)),
     (Pin (Mem_req_write Atomic), In_port, Bv_net (Bits 4)),
     (Pin (Mem_req_write Cacheable), In_port, Bool_net),
     (Pout (Mem_req_write Data_ready), Out_port, Bool_net),
     (Pin (Mem_req_write Data_valid), In_port, Bool_net),
     (Pin (Mem_req_write Data), In_port, Bv_net MEM_DATA),
     (Pin (Mem_req_write Be), In_port, Bv_net MEM_BE),
     (Pin (Mem_req_write Last), In_port, Bool_net), (Pin (Mem_resp_write Ready), In_port, Bool_net),
     (Pout (Mem_resp_write Valid), Out_port, Bool_net),
     (Pout (Mem_resp_write Is_atomic), Out_port, Bool_net),
     (Pout (Mem_resp_write Error), Out_port, Bv_net (Bits 2)),
     (Pout (Mem_resp_write Id), Out_port, Bv_net MEM_ID),
     (Pout Sb_mem_read_req, Out_port, Mem_read_req_fifo),
     (Pout Sb_mem_read_resp, Out_port, Mem_read_resp_fifo),
     (Pout Sb_mem_write_req, Out_port, Mem_write_req_fifo),
     (Pout Sb_mem_write_resp, Out_port, Mem_write_resp_fifo)]"

definition scoreboard_ports :: ports where
  "scoreboard_ports =
    [(Pin Clk, In_port, Bool_net), (Pin Sb_core_req, In_port, Req_fifo),
     (Pin Sb_core_resp, In_port, Resp_fifo), (Pin Sb_mem_read_req, In_port, Mem_read_req_fifo),
     (Pin Sb_mem_read_resp, In_port, Mem_read_resp_fifo),
     (Pin Sb_mem_write_req, In_port, Mem_write_req_fifo),
     (Pin Sb_mem_write_resp, In_port, Mem_write_resp_fifo),
     (Pin (Evt Cache_write_miss), In_port, Bool_net),
     (Pin (Evt Cache_read_miss), In_port, Bool_net),
     (Pin (Evt Cache_dir_unc_err), In_port, Bool_net),
     (Pin (Evt Cache_dir_cor_err), In_port, Bool_net),
     (Pin (Evt Cache_dat_unc_err), In_port, Bool_net),
     (Pin (Evt Cache_dat_cor_err), In_port, Bool_net),
     (Pin (Evt Scrub_complete), In_port, Bool_net), (Pin (Evt Uncached_req), In_port, Bool_net),
     (Pin (Evt Cmo_req), In_port, Bool_net), (Pin (Evt Write_req), In_port, Bool_net),
     (Pin (Evt Read_req), In_port, Bool_net), (Pin (Evt Prefetch_req), In_port, Bool_net),
     (Pin (Evt Req_on_hold), In_port, Bool_net), (Pin (Evt Rtab_rollback), In_port, Bool_net),
     (Pin (Evt Stall_refill), In_port, Bool_net), (Pin (Evt Stall), In_port, Bool_net),
     (Pout No_inflight_requests, Out_port, Bool_net)]"

section \<open>Channels\<close>

definition agent_channels :: nets where
  "agent_channels =
    [(Transaction_fifo, Transaction_ptr_fifo), (Transaction_ret, Id_fifo)]"

definition testbench_signals :: nets where
  "testbench_signals =
    [(Clk, Bool_net), (Rst, Bool_net), (Wbuf_flush, Bool_net), (Core_req Valid, Bool_net),
     (Core_req Ready, Bool_net), (Core_req Payload, Bv_net CORE_REQ), (Core_req Abort, Bool_net),
     (Core_req Tag, Bv_net TAG), (Core_req Pma, Bv_net REQ_PMA), (Core_rsp Valid, Bool_net),
     (Core_rsp Payload, Bv_net CORE_RSP), (Mem_req_read Ready, Bool_net),
     (Mem_req_read Valid, Bool_net), (Mem_req_read Addr, Bv_net MEM_ADDR),
     (Mem_req_read Len, Bv_net (Bits 8)), (Mem_req_read Size, Bv_net (Bits 3)),
     (Mem_req_read Id, Bv_net MEM_ID), (Mem_req_read Command, Bv_net (Bits 2)),
     (Mem_req_read Atomic, Bv_net (Bits 4)), (Mem_req_read Cacheable, Bool_net),
     (Mem_resp_read Ready, Bool_net), (Mem_resp_read Valid, Bool_net),
     (Mem_resp_read Error, Bv_net (Bits 2)), (Mem_resp_read Id, Bv_net MEM_ID),
     (Mem_resp_read Data, Bv_net MEM_DATA), (Mem_resp_read Last, Bool_net),
     (Mem_req_write Ready, Bool_net), (Mem_req_write Valid, Bool_net),
     (Mem_req_write Addr, Bv_net MEM_ADDR), (Mem_req_write Len, Bv_net (Bits 8)),
     (Mem_req_write Size, Bv_net (Bits 3)), (Mem_req_write Id, Bv_net MEM_ID),
     (Mem_req_write Command, Bv_net (Bits 2)), (Mem_req_write Atomic, Bv_net (Bits 4)),
     (Mem_req_write Cacheable, Bool_net), (Mem_req_write Data_ready, Bool_net),
     (Mem_req_write Data_valid, Bool_net), (Mem_req_write Data, Bv_net MEM_DATA),
     (Mem_req_write Be, Bv_net MEM_BE), (Mem_req_write Last, Bool_net),
     (Mem_resp_write Ready, Bool_net), (Mem_resp_write Valid, Bool_net),
     (Mem_resp_write Is_atomic, Bool_net), (Mem_resp_write Error, Bv_net (Bits 2)),
     (Mem_resp_write Id, Bv_net MEM_ID), (Sb_core_req, Req_fifo), (Sb_core_resp, Resp_fifo),
     (Sb_mem_read_req, Mem_read_req_fifo), (Sb_mem_read_resp, Mem_read_resp_fifo),
     (Sb_mem_write_req, Mem_write_req_fifo), (Sb_mem_write_resp, Mem_write_resp_fifo),
     (Evt Cache_write_miss, Bool_net), (Evt Cache_read_miss, Bool_net),
     (Evt Cache_dir_unc_err, Bool_net), (Evt Cache_dir_cor_err, Bool_net),
     (Evt Cache_dat_unc_err, Bool_net), (Evt Cache_dat_cor_err, Bool_net),
     (Evt Scrub_complete, Bool_net), (Evt Uncached_req, Bool_net), (Evt Cmo_req, Bool_net),
     (Evt Write_req, Bool_net), (Evt Read_req, Bool_net), (Evt Prefetch_req, Bool_net),
     (Evt Req_on_hold, Bool_net), (Evt Rtab_rollback, Bool_net), (Evt Stall_refill, Bool_net),
     (Evt Stall, Bool_net), (No_inflight_requests, Bool_net), (Wbuf_empty, Bool_net),
     (Cfg Enable, Bool_net), (Cfg Wbuf_threshold, Bv_net (Bits 3)),
     (Cfg Wbuf_reset_timecnt_on_write, Bool_net), (Cfg Wbuf_sequential_waw, Bool_net),
     (Cfg Wbuf_inhibit_write_coalescing, Bool_net), (Cfg Prefetch_updt_plru, Bool_net),
     (Cfg Error_on_cacheable_amo, Bool_net), (Cfg Rtab_single_entry, Bool_net),
     (Cfg Default_wb, Bool_net), (Cfg Scrub_enable, Bool_net), (Cfg Scrub_period, Bv_net (Bits 6)),
     (Cfg Scrub_restart, Bool_net)]"

section \<open>Bindings\<close>

definition driver_bindings :: inner_bindings where
  "driver_bindings =
    [(Pin Clk, Port (Pin Clk)), (Pin Rst, Port (Pin Rst)),
     (Pout (Core_req Valid), Port (Pout (Core_req Valid))),
     (Pin (Core_req Ready), Port (Pin (Core_req Ready))),
     (Pout (Core_req Payload), Port (Pout (Core_req Payload))),
     (Pout (Core_req Tag), Port (Pout (Core_req Tag))),
     (Pout (Core_req Pma), Port (Pout (Core_req Pma))),
     (Pout (Core_req Abort), Port (Pout (Core_req Abort))),
     (Pin (Core_rsp Valid), Port (Pin (Core_rsp Valid))),
     (Pin (Core_rsp Payload), Port (Pin (Core_rsp Payload))),
     (Pout Sb_core_req, Port (Pout Sb_core_req)), (Pout Sb_core_resp, Port (Pout Sb_core_resp)),
     (Pin No_inflight_requests, Port (Pin No_inflight_requests)),
     (Pin Transaction_fifo, Channel Transaction_fifo),
     (Pout Transaction_ret, Channel Transaction_ret)]"

definition sequence_bindings :: inner_bindings where
  "sequence_bindings =
    [(Pin Clk, Port (Pin Clk)), (Pin Rst, Port (Pin Rst)),
     (Pout Transaction_fifo, Channel Transaction_fifo),
     (Pin Transaction_ret, Channel Transaction_ret)]"

definition top_bindings :: bindings where
  "top_bindings =
    [(Pin Clk, Clk), (Pin Rst, Rst), (Pin Wbuf_flush, Wbuf_flush),
     (Pin (Core_req Valid), Core_req Valid), (Pout (Core_req Ready), Core_req Ready),
     (Pin (Core_req Payload), Core_req Payload), (Pin (Core_req Abort), Core_req Abort),
     (Pin (Core_req Tag), Core_req Tag), (Pin (Core_req Pma), Core_req Pma),
     (Pout (Core_rsp Valid), Core_rsp Valid), (Pout (Core_rsp Payload), Core_rsp Payload),
     (Pin (Mem_req_read Ready), Mem_req_read Ready),
     (Pout (Mem_req_read Valid), Mem_req_read Valid), (Pout (Mem_req_read Addr), Mem_req_read Addr),
     (Pout (Mem_req_read Len), Mem_req_read Len), (Pout (Mem_req_read Size), Mem_req_read Size),
     (Pout (Mem_req_read Id), Mem_req_read Id), (Pout (Mem_req_read Command), Mem_req_read Command),
     (Pout (Mem_req_read Atomic), Mem_req_read Atomic),
     (Pout (Mem_req_read Cacheable), Mem_req_read Cacheable),
     (Pout (Mem_resp_read Ready), Mem_resp_read Ready),
     (Pin (Mem_resp_read Valid), Mem_resp_read Valid),
     (Pin (Mem_resp_read Error), Mem_resp_read Error), (Pin (Mem_resp_read Id), Mem_resp_read Id),
     (Pin (Mem_resp_read Data), Mem_resp_read Data), (Pin (Mem_resp_read Last), Mem_resp_read Last),
     (Pin (Mem_req_write Ready), Mem_req_write Ready),
     (Pout (Mem_req_write Valid), Mem_req_write Valid),
     (Pout (Mem_req_write Addr), Mem_req_write Addr), (Pout (Mem_req_write Len), Mem_req_write Len),
     (Pout (Mem_req_write Size), Mem_req_write Size), (Pout (Mem_req_write Id), Mem_req_write Id),
     (Pout (Mem_req_write Command), Mem_req_write Command),
     (Pout (Mem_req_write Atomic), Mem_req_write Atomic),
     (Pout (Mem_req_write Cacheable), Mem_req_write Cacheable),
     (Pin (Mem_req_write Data_ready), Mem_req_write Data_ready),
     (Pout (Mem_req_write Data_valid), Mem_req_write Data_valid),
     (Pout (Mem_req_write Data), Mem_req_write Data), (Pout (Mem_req_write Be), Mem_req_write Be),
     (Pout (Mem_req_write Last), Mem_req_write Last),
     (Pout (Mem_resp_write Ready), Mem_resp_write Ready),
     (Pin (Mem_resp_write Valid), Mem_resp_write Valid),
     (Pin (Mem_resp_write Is_atomic), Mem_resp_write Is_atomic),
     (Pin (Mem_resp_write Error), Mem_resp_write Error),
     (Pin (Mem_resp_write Id), Mem_resp_write Id),
     (Pout (Evt Cache_write_miss), Evt Cache_write_miss),
     (Pout (Evt Cache_read_miss), Evt Cache_read_miss),
     (Pout (Evt Cache_dir_unc_err), Evt Cache_dir_unc_err),
     (Pout (Evt Cache_dir_cor_err), Evt Cache_dir_cor_err),
     (Pout (Evt Cache_dat_unc_err), Evt Cache_dat_unc_err),
     (Pout (Evt Cache_dat_cor_err), Evt Cache_dat_cor_err),
     (Pout (Evt Scrub_complete), Evt Scrub_complete), (Pout (Evt Uncached_req), Evt Uncached_req),
     (Pout (Evt Cmo_req), Evt Cmo_req), (Pout (Evt Write_req), Evt Write_req),
     (Pout (Evt Read_req), Evt Read_req), (Pout (Evt Prefetch_req), Evt Prefetch_req),
     (Pout (Evt Req_on_hold), Evt Req_on_hold), (Pout (Evt Rtab_rollback), Evt Rtab_rollback),
     (Pout (Evt Stall_refill), Evt Stall_refill), (Pout (Evt Stall), Evt Stall),
     (Pout Wbuf_empty, Wbuf_empty), (Pin (Cfg Enable), Cfg Enable),
     (Pin (Cfg Wbuf_threshold), Cfg Wbuf_threshold),
     (Pin (Cfg Wbuf_reset_timecnt_on_write), Cfg Wbuf_reset_timecnt_on_write),
     (Pin (Cfg Wbuf_sequential_waw), Cfg Wbuf_sequential_waw),
     (Pin (Cfg Wbuf_inhibit_write_coalescing), Cfg Wbuf_inhibit_write_coalescing),
     (Pin (Cfg Prefetch_updt_plru), Cfg Prefetch_updt_plru),
     (Pin (Cfg Error_on_cacheable_amo), Cfg Error_on_cacheable_amo),
     (Pin (Cfg Rtab_single_entry), Cfg Rtab_single_entry), (Pin (Cfg Default_wb), Cfg Default_wb),
     (Pin (Cfg Scrub_enable), Cfg Scrub_enable), (Pin (Cfg Scrub_period), Cfg Scrub_period),
     (Pin (Cfg Scrub_restart), Cfg Scrub_restart)]"

definition agent_bindings :: bindings where
  "agent_bindings =
    [(Pin Clk, Clk), (Pin Rst, Rst), (Pout (Core_req Valid), Core_req Valid),
     (Pin (Core_req Ready), Core_req Ready), (Pout (Core_req Payload), Core_req Payload),
     (Pout (Core_req Tag), Core_req Tag), (Pout (Core_req Pma), Core_req Pma),
     (Pout (Core_req Abort), Core_req Abort), (Pin (Core_rsp Valid), Core_rsp Valid),
     (Pin (Core_rsp Payload), Core_rsp Payload), (Pout Sb_core_req, Sb_core_req),
     (Pout Sb_core_resp, Sb_core_resp), (Pin No_inflight_requests, No_inflight_requests)]"

definition mem_resp_bindings :: bindings where
  "mem_resp_bindings =
    [(Pin Clk, Clk), (Pin Rst, Rst), (Pout (Mem_req_read Ready), Mem_req_read Ready),
     (Pin (Mem_req_read Valid), Mem_req_read Valid), (Pin (Mem_req_read Addr), Mem_req_read Addr),
     (Pin (Mem_req_read Len), Mem_req_read Len), (Pin (Mem_req_read Size), Mem_req_read Size),
     (Pin (Mem_req_read Id), Mem_req_read Id), (Pin (Mem_req_read Command), Mem_req_read Command),
     (Pin (Mem_req_read Atomic), Mem_req_read Atomic),
     (Pin (Mem_req_read Cacheable), Mem_req_read Cacheable),
     (Pin (Mem_resp_read Ready), Mem_resp_read Ready),
     (Pout (Mem_resp_read Valid), Mem_resp_read Valid),
     (Pout (Mem_resp_read Error), Mem_resp_read Error), (Pout (Mem_resp_read Id), Mem_resp_read Id),
     (Pout (Mem_resp_read Data), Mem_resp_read Data),
     (Pout (Mem_resp_read Last), Mem_resp_read Last),
     (Pout (Mem_req_write Ready), Mem_req_write Ready),
     (Pin (Mem_req_write Valid), Mem_req_write Valid),
     (Pin (Mem_req_write Addr), Mem_req_write Addr), (Pin (Mem_req_write Len), Mem_req_write Len),
     (Pin (Mem_req_write Size), Mem_req_write Size), (Pin (Mem_req_write Id), Mem_req_write Id),
     (Pin (Mem_req_write Command), Mem_req_write Command),
     (Pin (Mem_req_write Atomic), Mem_req_write Atomic),
     (Pin (Mem_req_write Cacheable), Mem_req_write Cacheable),
     (Pout (Mem_req_write Data_ready), Mem_req_write Data_ready),
     (Pin (Mem_req_write Data_valid), Mem_req_write Data_valid),
     (Pin (Mem_req_write Data), Mem_req_write Data), (Pin (Mem_req_write Be), Mem_req_write Be),
     (Pin (Mem_req_write Last), Mem_req_write Last),
     (Pin (Mem_resp_write Ready), Mem_resp_write Ready),
     (Pout (Mem_resp_write Valid), Mem_resp_write Valid),
     (Pout (Mem_resp_write Is_atomic), Mem_resp_write Is_atomic),
     (Pout (Mem_resp_write Error), Mem_resp_write Error),
     (Pout (Mem_resp_write Id), Mem_resp_write Id), (Pout Sb_mem_read_req, Sb_mem_read_req),
     (Pout Sb_mem_read_resp, Sb_mem_read_resp), (Pout Sb_mem_write_req, Sb_mem_write_req),
     (Pout Sb_mem_write_resp, Sb_mem_write_resp)]"

definition scoreboard_bindings :: bindings where
  "scoreboard_bindings =
    [(Pin Clk, Clk), (Pin Sb_core_req, Sb_core_req), (Pin Sb_core_resp, Sb_core_resp),
     (Pin Sb_mem_read_req, Sb_mem_read_req), (Pin Sb_mem_read_resp, Sb_mem_read_resp),
     (Pin Sb_mem_write_req, Sb_mem_write_req), (Pin Sb_mem_write_resp, Sb_mem_write_resp),
     (Pin (Evt Cache_write_miss), Evt Cache_write_miss),
     (Pin (Evt Cache_read_miss), Evt Cache_read_miss),
     (Pin (Evt Cache_dir_unc_err), Evt Cache_dir_unc_err),
     (Pin (Evt Cache_dir_cor_err), Evt Cache_dir_cor_err),
     (Pin (Evt Cache_dat_unc_err), Evt Cache_dat_unc_err),
     (Pin (Evt Cache_dat_cor_err), Evt Cache_dat_cor_err),
     (Pin (Evt Scrub_complete), Evt Scrub_complete), (Pin (Evt Uncached_req), Evt Uncached_req),
     (Pin (Evt Cmo_req), Evt Cmo_req), (Pin (Evt Write_req), Evt Write_req),
     (Pin (Evt Read_req), Evt Read_req), (Pin (Evt Prefetch_req), Evt Prefetch_req),
     (Pin (Evt Req_on_hold), Evt Req_on_hold), (Pin (Evt Rtab_rollback), Evt Rtab_rollback),
     (Pin (Evt Stall_refill), Evt Stall_refill), (Pin (Evt Stall), Evt Stall),
     (Pout No_inflight_requests, No_inflight_requests)]"

text \<open>The signals that the testbench writes itself, in \<open>simulate\<close>.\<close>

definition testbench_writes :: "wire list" where
  "testbench_writes =
    [Wbuf_flush, Cfg Enable, Cfg Wbuf_threshold, Cfg Wbuf_reset_timecnt_on_write,
     Cfg Wbuf_sequential_waw, Cfg Wbuf_inhibit_write_coalescing, Cfg Prefetch_updt_plru,
     Cfg Error_on_cacheable_amo, Cfg Rtab_single_entry, Cfg Default_wb, Cfg Scrub_enable,
     Cfg Scrub_period, Cfg Scrub_restart, Rst, Clk]"

section \<open>Connections\<close>

text \<open>
  An end of a connection: the module, its port and the channel it is bound to. A port of a
  module inside the agent is bound to a port of the agent or to a channel of the agent;
  \<open>through_agent\<close> follows the former to the testbench.
\<close>

datatype module_inst =
  Cache_i | Agent_i | Driver_i | Sequence_i | Mem_resp_i | Scoreboard_i | Testbench_i

type_synonym wire_end = "module_inst \<times> port_name \<times> direction \<times> net_type \<times> wire option"

fun through_agent :: "inner_net \<Rightarrow> wire option" where
  "through_agent (Channel n) = Some n"
| "through_agent (Port p) = map_of agent_bindings p"

definition connect :: "module_inst \<Rightarrow> ports \<Rightarrow> (port_name \<Rightarrow> wire option) \<Rightarrow> wire_end list" where
  "connect i ps bs = List.map (\<lambda>(p, d, t). (i, p, d, t, bs p)) ps"

definition inside_agent :: "inner_bindings \<Rightarrow> port_name \<Rightarrow> wire option" where
  "inside_agent bs p = Option.bind (map_of bs p) through_agent"

definition agent_ends :: "wire_end list" where
  "agent_ends = connect Agent_i (agent_base_ports @ agent_own_ports) (map_of agent_bindings)"

definition leaf_ends :: "wire_end list" where
  "leaf_ends =
     connect Cache_i top_ports (map_of top_bindings)
     @ connect Driver_i (driver_base_ports @ driver_own_ports) (inside_agent driver_bindings)
     @ connect Sequence_i sequence_ports (inside_agent sequence_bindings)
     @ connect Mem_resp_i mem_resp_ports (map_of mem_resp_bindings)
     @ connect Scoreboard_i scoreboard_ports (map_of scoreboard_bindings)"

definition channels :: nets where
  "channels = testbench_signals @ agent_channels"

text \<open>Each port has one binding, and each binding is of a port.\<close>

definition bound_once :: "ports \<Rightarrow> (port_name \<times> 'n) list \<Rightarrow> bool" where
  "bound_once ps bs \<longleftrightarrow>
     distinct (List.map fst bs) \<and> list_all (\<lambda>p. fst p \<in> set (List.map fst bs)) ps
     \<and> length bs = length ps"

fun same_net :: "cfg \<Rightarrow> nat \<Rightarrow> net_type \<Rightarrow> net_type \<Rightarrow> bool" where
  "same_net c tw (Bv_net w) (Bv_net w') = (bits_of c tw w = bits_of c tw w')"
| "same_net c tw t t' = (t = t')"

fun carries :: "cfg \<Rightarrow> nat \<Rightarrow> wire_end \<Rightarrow> bool" where
  "carries c tw (i, p, d, t, None) = False"
| "carries c tw (i, p, d, t, Some n) =
     (case map_of channels n of None \<Rightarrow> False | Some t' \<Rightarrow> same_net c tw t t')"

fun end_at :: "direction \<Rightarrow> wire \<Rightarrow> wire_end \<Rightarrow> bool" where
  "end_at d n (i, p, d', t, m) = (d' = d \<and> m = Some n)"

definition writers :: "wire_end list \<Rightarrow> wire \<Rightarrow> module_inst list" where
  "writers es n = List.map fst (filter (end_at Out_port n) es)
     @ (if n \<in> set testbench_writes then [Testbench_i] else [])"

definition readers :: "wire_end list \<Rightarrow> wire \<Rightarrow> module_inst list" where
  "readers es n = List.map fst (filter (end_at In_port n) es)"

text \<open>
  \<open>sc_signal\<close> admits one writer, \<open>sc_fifo\<close> one writer and one reader; only \<open>wbuf_empty\<close> is
  read by nobody.
\<close>

definition one_writer :: "wire_end list \<Rightarrow> bool" where
  "one_writer es \<longleftrightarrow> list_all (\<lambda>n. length (writers es (fst n)) = 1) channels"

definition all_read :: "wire_end list \<Rightarrow> bool" where
  "all_read es \<longleftrightarrow>
     list_all (\<lambda>n. if is_fifo (snd n) then length (readers es (fst n)) = 1
       else (readers es (fst n) = []) = (fst n = Wbuf_empty)) channels"

text \<open>A port is named after its channel, and its suffix says its direction.\<close>

fun named_after :: "wire_end \<Rightarrow> bool" where
  "named_after (i, Pin n, In_port, t, m) = (m = Some n)"
| "named_after (i, Pout n, Out_port, t, m) = (m = Some n)"
| "named_after _ = False"

section \<open>Types agree\<close>

text \<open>The pairs of names of a width that the two sides use for one channel.\<close>

definition width_pairs :: "(width \<times> width) list" where
  "width_pairs =
    [(RTL_REQ, CORE_REQ), (RTL_TAG, TAG), (RTL_PMA, REQ_PMA), (RTL_RSP, CORE_RSP),
     (WBUF_TIMECNT, Bits 3)]"

fun matches :: "net_type \<Rightarrow> net_type \<Rightarrow> bool" where
  "matches (Bv_net w) (Bv_net w') = (w = w' \<or> (w, w') \<in> set width_pairs)"
| "matches t t' = (t = t')"

fun end_matches :: "wire_end \<Rightarrow> bool" where
  "end_matches (i, p, d, t, None) = False"
| "end_matches (i, p, d, t, Some n) =
     (case map_of channels n of None \<Rightarrow> False | Some t' \<Rightarrow> matches t t')"

lemma widths_agree:
  assumes "wf_cfg c"
  shows "bits_of c tw RTL_REQ = bits_of c tw CORE_REQ" "bits_of c tw RTL_TAG = bits_of c tw TAG"
    "bits_of c tw RTL_PMA = bits_of c tw REQ_PMA" "bits_of c tw RTL_RSP = bits_of c tw CORE_RSP"
  using req_member_pos(12) [OF assms] cfg_agrees(4) [OF assms] pma_width
  by (simp_all add: rsp_layout HPDCACHE_CORE_RSP_WIDTH_def)

lemma matches_same_net:
  assumes "wf_cfg c" and "matches t t'"
  shows "same_net c 3 t t'"
  using assms(2) widths_agree [OF assms(1), of 3]
  by (cases t; cases t'; simp del: bits_of.simps add: width_pairs_def)
    (auto simp del: bits_of.simps(2-13))

lemma end_matches_carries:
  assumes "wf_cfg c" and "end_matches e"
  shows "carries c 3 e"
  using assms(2) matches_same_net [OF assms(1)]
  by (cases e rule: end_matches.cases) (auto split: option.splits)

text \<open>What is computed on the ends of the netlist.\<close>

lemma ends_match: "list_all end_matches (leaf_ends @ agent_ends)"
  by code_simp

lemma ends_named: "list_all named_after (leaf_ends @ agent_ends)"
  by code_simp

lemma writer_found: "one_writer leaf_ends"
  by code_simp

lemma readers_found: "all_read leaf_ends"
  by code_simp

text \<open>The two ends of each FIFO.\<close>

definition fifo_ends :: "wire_end list \<Rightarrow> (wire \<times> module_inst list \<times> module_inst list) list" where
  "fifo_ends es =
     List.map (\<lambda>n. (fst n, writers es (fst n), readers es (fst n))) (filter (is_fifo \<circ> snd) channels)"

lemma fifos_joined:
  "fifo_ends leaf_ends =
    [(Sb_core_req, [Driver_i], [Scoreboard_i]),
     (Sb_core_resp, [Driver_i], [Scoreboard_i]),
     (Sb_mem_read_req, [Mem_resp_i], [Scoreboard_i]),
     (Sb_mem_read_resp, [Mem_resp_i], [Scoreboard_i]),
     (Sb_mem_write_req, [Mem_resp_i], [Scoreboard_i]),
     (Sb_mem_write_resp, [Mem_resp_i], [Scoreboard_i]),
     (Transaction_fifo, [Sequence_i], [Driver_i]),
     (Transaction_ret, [Driver_i], [Sequence_i])]"
  by code_simp

lemma ports_bound_once:
  "bound_once top_ports top_bindings"
  "bound_once (agent_base_ports @ agent_own_ports) agent_bindings"
  "bound_once (driver_base_ports @ driver_own_ports) driver_bindings"
  "bound_once sequence_ports sequence_bindings"
  "bound_once mem_resp_ports mem_resp_bindings"
  "bound_once scoreboard_ports scoreboard_bindings"
  by code_simp+

section \<open>Properties\<close>

text \<open>
  The netlist can be elaborated for every well-formed configuration whose write buffer counter
  has the 3 bits of \<open>cfg_wbuf_threshold\<close>, and no wire of it is crossed. In each module every
  port is bound exactly once; every port, of the cache with the widths of the RTL and of the
  testbench with its own macros, reaches a channel of the same kind and number of wires, which
  is the channel of its own name in the direction its suffix says, through the agent as well.
  Every channel has exactly one writer and no signal but \<open>wbuf_empty\<close> is left unread; each FIFO
  joins the two modules it is meant for, the transactions of the sequence to the driver and every
  record for the scoreboard from the module that observes it.
\<close>

theorem netlist_well_formed:
  assumes "wf_cfg c"
  shows "bound_once top_ports top_bindings
    \<and> bound_once (agent_base_ports @ agent_own_ports) agent_bindings
    \<and> bound_once (driver_base_ports @ driver_own_ports) driver_bindings
    \<and> bound_once sequence_ports sequence_bindings
    \<and> bound_once mem_resp_ports mem_resp_bindings
    \<and> bound_once scoreboard_ports scoreboard_bindings
    \<and> list_all (carries c 3) (leaf_ends @ agent_ends)
    \<and> list_all named_after (leaf_ends @ agent_ends)
    \<and> one_writer leaf_ends \<and> all_read leaf_ends
    \<and> fifo_ends leaf_ends =
      [(Sb_core_req, [Driver_i], [Scoreboard_i]),
       (Sb_core_resp, [Driver_i], [Scoreboard_i]),
       (Sb_mem_read_req, [Mem_resp_i], [Scoreboard_i]),
       (Sb_mem_read_resp, [Mem_resp_i], [Scoreboard_i]),
       (Sb_mem_write_req, [Mem_resp_i], [Scoreboard_i]),
       (Sb_mem_write_resp, [Mem_resp_i], [Scoreboard_i]),
       (Transaction_fifo, [Sequence_i], [Driver_i]),
       (Transaction_ret, [Driver_i], [Sequence_i])]"
proof -
  have "list_all (carries c 3) (leaf_ends @ agent_ends)"
    using ends_match end_matches_carries [OF assms] by (rule list.pred_mono_strong)
  then show ?thesis
    using ports_bound_once ends_named writer_found readers_found fifos_joined by (intro conjI)
qed

theorem netlist_well_formed_witness:
  "list_all (carries default_cfg 3) (leaf_ends @ agent_ends) \<and> one_writer leaf_ends"
  using netlist_well_formed [OF wf_default_cfg] by (elim conjE) (intro conjI)

end
