(* ===== verification/Mem_Timing.thy ===== *)
theory Mem_Timing
  imports Sequences
begin

text \<open>
  The memory responder cycle by cycle (\<open>rtl/tb/include/hpdcache_test_mem_resp_model.h\<close>): the
  handshakes of its processes and the delays they draw
  (\<open>rtl/tb/include/hpdcache_test_mem_resp_model_base.h\<close>). \<open>Mem_Resp\<close> says what a process does
  with a beat; here an activation of a process, from one \<open>wait()\<close> to the next, is a step of an
  automaton whose states are the waits of the code, and the theorems say that the processes take
  each beat of the cache exactly once, in order and in bounded time, and hand it each response
  once, in order. An activation that falls through to the top of its loop goes on there, as the
  code does, so that beats can follow each other without a cycle between them.
\<close>

section \<open>Delays\<close>

record delays =
  ra_ready_delay :: "(nat \<times> nat) bag"
  rd_valid_delay :: "(nat \<times> nat) bag"
  wa_ready_delay :: "(nat \<times> nat) bag"
  wd_ready_delay :: "(nat \<times> nat) bag"
  wb_valid_delay :: "(nat \<times> nat) bag"

definition delays_new :: delays where
  "delays_new =
     \<lparr>ra_ready_delay = [((0, 2), 90), ((3, 8), 8), ((9, 32), 2)],
      rd_valid_delay = [((0, 2), 8), ((3, 8), 90), ((9, 64), 2)],
      wa_ready_delay = [((0, 2), 90), ((3, 8), 8), ((9, 32), 2)],
      wd_ready_delay = [((0, 2), 90), ((3, 8), 8), ((9, 32), 2)],
      wb_valid_delay = [((0, 2), 8), ((3, 8), 90), ((9, 64), 2)]\<rparr>"

definition set_ra_ready_delay_distribution :: "(nat \<times> nat) bag \<Rightarrow> delays \<Rightarrow> delays" where
  "set_ra_ready_delay_distribution dist s = s\<lparr>ra_ready_delay := dist\<rparr>"

definition set_rd_valid_delay_distribution :: "(nat \<times> nat) bag \<Rightarrow> delays \<Rightarrow> delays" where
  "set_rd_valid_delay_distribution dist s = s\<lparr>rd_valid_delay := dist\<rparr>"

definition set_wa_ready_delay_distribution :: "(nat \<times> nat) bag \<Rightarrow> delays \<Rightarrow> delays" where
  "set_wa_ready_delay_distribution dist s = s\<lparr>wa_ready_delay := dist\<rparr>"

definition set_wd_ready_delay_distribution :: "(nat \<times> nat) bag \<Rightarrow> delays \<Rightarrow> delays" where
  "set_wd_ready_delay_distribution dist s = s\<lparr>wd_ready_delay := dist\<rparr>"

definition set_wb_valid_delay_distribution :: "(nat \<times> nat) bag \<Rightarrow> delays \<Rightarrow> delays" where
  "set_wb_valid_delay_distribution dist s = s\<lparr>wb_valid_delay := dist\<rparr>"

text \<open>The read and write sequences measure bandwidth: they take the delays away.\<close>

definition read_seq_delays :: "delays \<Rightarrow> delays" where
  "read_seq_delays s =
     (let s = set_ra_ready_delay_distribution [((0, 0), 100)] s;
          s = set_rd_valid_delay_distribution [((0, 0), 100)] s;
          s = set_wa_ready_delay_distribution [((0, 0), 100)] s;
          s = set_wd_ready_delay_distribution [((0, 0), 100)] s
      in set_wb_valid_delay_distribution [((0, 0), 100)] s)"

text \<open>\<open>keep_only\<close> is the operation of the SystemC verification library that fixes a value.\<close>

definition write_seq_delays ::
  "(nat \<Rightarrow> (nat \<times> nat) bag \<Rightarrow> (nat \<times> nat) bag) \<Rightarrow> delays \<Rightarrow> delays" where
  "write_seq_delays keep_only s =
     (let s = s\<lparr>ra_ready_delay := keep_only 0 (ra_ready_delay s)\<rparr>;
          s = s\<lparr>rd_valid_delay := keep_only 16 (rd_valid_delay s)\<rparr>;
          s = set_wa_ready_delay_distribution [((0, 0), 100)] s;
          s = set_wd_ready_delay_distribution [((0, 0), 100)] s
      in set_wb_valid_delay_distribution [((0, 0), 100)] s)"

lemma delay_bounds:
  "drawn_between (ra_ready_delay delays_new) n \<Longrightarrow> n \<le> 32"
  "drawn_between (wa_ready_delay delays_new) n \<Longrightarrow> n \<le> 32"
  "drawn_between (wd_ready_delay delays_new) n \<Longrightarrow> n \<le> 32"
  "drawn_between (rd_valid_delay delays_new) n \<Longrightarrow> n \<le> 64"
  "drawn_between (wb_valid_delay delays_new) n \<Longrightarrow> n \<le> 64"
  by (auto simp: drawn_between_def delays_new_def)

section \<open>Running an automaton\<close>

text \<open>The outputs of the activations on a list of inputs, and the state they end in.\<close>

primrec outputs :: "('i \<Rightarrow> 's \<Rightarrow> 's \<times> 'o) \<Rightarrow> 's \<Rightarrow> 'i list \<Rightarrow> 'o list" where
  "outputs step st [] = []"
| "outputs step st (i # is) = snd (step i st) # outputs step (fst (step i st)) is"

primrec final_state :: "('i \<Rightarrow> 's \<Rightarrow> 's \<times> 'o) \<Rightarrow> 's \<Rightarrow> 'i list \<Rightarrow> 's" where
  "final_state step st [] = st"
| "final_state step st (i # is) = final_state step (fst (step i st)) is"

text \<open>
  What a process samples on its channel at an activation: the signals of the cache, the delay
  it would draw, and how long a FIFO keeps it waiting.
\<close>

record 'a beat =
  b_valid :: bool
  b_payload :: 'a
  b_delay :: nat
  b_room :: bool
  b_waits :: nat

text \<open>
  The cache transfers a beat in a cycle in which \<open>valid\<close> and \<open>ready\<close> are both set.
\<close>

fun transfers :: "'a beat list \<Rightarrow> bool list \<Rightarrow> 'a list" where
  "transfers (b # bs) (ready # rs) =
     (if b_valid b \<and> ready then [b_payload b] else []) @ transfers bs rs"
| "transfers _ _ = []"

text \<open>
  The rule of the interface: a beat that is not taken stays; \<open>p\<close> is the beat that waits.
\<close>

fun held :: "'a option \<Rightarrow> 'a beat list \<Rightarrow> bool list \<Rightarrow> bool" where
  "held p (b # bs) (ready # rs) =
     ((case p of None \<Rightarrow> True | Some x \<Rightarrow> b_valid b \<and> b_payload b = x)
      \<and> held (if b_valid b \<and> \<not> ready then Some (b_payload b) else None) bs rs)"
| "held _ _ _ = True"

section \<open>Write address and write data\<close>

text \<open>
  \<open>write_address_process\<close> and \<open>write_data_process\<close> have the same body. The waits are: no valid
  beat, the delay, the retry of \<open>nb_write\<close> while \<open>ready\<close> stays set, and the end of the round.
  An output is the value of \<open>ready\<close> and what was written in the FIFO.
\<close>

datatype 'a accepting = Idle | Delaying nat | Retrying 'a | Taken

definition accept_beat :: "'a beat \<Rightarrow> 'a accepting \<times> bool \<times> 'a list" where
  "accept_beat b =
     (if b_room b then (Taken, True, [b_payload b]) else (Retrying (b_payload b), True, []))"

definition accept_top :: "'a beat \<Rightarrow> 'a accepting \<times> bool \<times> 'a list" where
  "accept_top b =
     (if \<not> b_valid b then (Idle, False, [])
      else if b_delay b = 0 then accept_beat b
      else (Delaying (b_delay b), False, []))"

fun accept_step :: "'a beat \<Rightarrow> 'a accepting \<Rightarrow> 'a accepting \<times> bool \<times> 'a list" where
  "accept_step b Idle = accept_top b"
| "accept_step b (Delaying n) = (if n \<le> 1 then accept_beat b else (Delaying (n - 1), False, []))"
| "accept_step b (Retrying p) = (if b_room b then (Taken, True, [p]) else (Retrying p, True, []))"
| "accept_step b Taken = accept_top b"

lemma accept_taken_once:
  assumes "\<forall>b \<in> set bs. b_room b" and "\<forall>p. st \<noteq> Retrying p"
    and "\<forall>n. st = Delaying n \<longrightarrow> (\<exists>p. x = Some p)"
    and "held x bs (map fst (outputs accept_step st bs))"
  shows "concat (map snd (outputs accept_step st bs))
    = transfers bs (map fst (outputs accept_step st bs))"
  using assms
proof (induction bs arbitrary: st x)
  case Nil
  then show ?case by simp
next
  case (Cons b bs)
  let ?o = "accept_step b st"
  let ?x = "if b_valid b \<and> \<not> fst (snd ?o) then Some (b_payload b) else None"
  have room: "b_room b" using Cons.prems(1) by simp
  have v: "b_valid b" if "st = Delaying n" for n
    using that Cons.prems(3,4) by auto
  have now: "snd (snd ?o) = (if b_valid b \<and> fst (snd ?o) then [b_payload b] else [])"
    and next_ok: "\<forall>p. fst ?o \<noteq> Retrying p" "\<forall>n. fst ?o = Delaying n \<longrightarrow> (\<exists>p. ?x = Some p)"
    using room v Cons.prems(2) by (cases st; simp add: accept_top_def accept_beat_def)+
  have "held ?x bs (map fst (outputs accept_step (fst ?o) bs))"
    using Cons.prems(4) by simp
  with Cons.IH [of "fst ?o" ?x] Cons.prems(1) next_ok
  have "concat (map snd (outputs accept_step (fst ?o) bs))
      = transfers bs (map fst (outputs accept_step (fst ?o) bs))" by simp
  with now show ?case by simp
qed

lemma accept_in_delay:
  assumes "\<forall>b \<in> set bs. b_valid b \<and> b_room b" and "0 < n" and "n \<le> length bs"
  shows "True \<in> set (map fst (take n (outputs accept_step (Delaying n) bs)))"
  using assms
proof (induction n arbitrary: bs)
  case 0
  then show ?case by simp
next
  case (Suc n)
  then obtain b bs' where bs: "bs = b # bs'" by (cases bs) auto
  show ?case
  proof (cases n)
    case 0
    with bs Suc.prems show ?thesis by (simp add: accept_beat_def)
  next
    case (Suc m)
    with Suc.IH [of bs'] Suc.prems bs show ?thesis by simp
  qed
qed

section \<open>Read requests\<close>

text \<open>
  \<open>read_process\<close> samples the request first and tells the scoreboard, then delays, and carries
  out the operation a cycle after it has set \<open>ready\<close>. The operation waits \<open>b_waits\<close> cycles for
  the FIFO of responses. An output is the value of \<open>ready\<close>, what was told to the scoreboard and
  the requests carried out.
\<close>

datatype 'a reading = R_idle | R_delay 'a nat | R_granted 'a | R_busy nat

definition read_top :: "'a beat \<Rightarrow> 'a list \<Rightarrow> 'a reading \<times> bool \<times> 'a list \<times> 'a list" where
  "read_top b done_l =
     (if \<not> b_valid b then (R_idle, False, [], done_l)
      else if b_delay b = 0 then (R_granted (b_payload b), True, [b_payload b], done_l)
      else (R_delay (b_payload b) (b_delay b), False, [b_payload b], done_l))"

fun read_step :: "'a beat \<Rightarrow> 'a reading \<Rightarrow> 'a reading \<times> bool \<times> 'a list \<times> 'a list" where
  "read_step b R_idle = read_top b []"
| "read_step b (R_delay p n) =
     (if n \<le> 1 then (R_granted p, True, [], []) else (R_delay p (n - 1), False, [], []))"
| "read_step b (R_granted p) =
     (if b_waits b = 0 then read_top b [p] else (R_busy (b_waits b), False, [], [p]))"
| "read_step b (R_busy n) = (if n \<le> 1 then read_top b [] else (R_busy (n - 1), False, [], []))"

fun delayed_req :: "'a reading \<Rightarrow> 'a list" where
  "delayed_req (R_delay p n) = [p]"
| "delayed_req _ = []"

fun granted_req :: "'a reading \<Rightarrow> 'a list" where
  "granted_req (R_granted p) = [p]"
| "granted_req _ = []"

lemma read_taken_once:
  assumes "\<forall>p n. st = R_delay p n \<longrightarrow> x = Some p"
    and "held x bs (map fst (outputs read_step st bs))"
  shows "delayed_req st @ concat (map (fst \<circ> snd) (outputs read_step st bs))
      = transfers bs (map fst (outputs read_step st bs)) @ delayed_req (final_state read_step st bs)
    \<and> granted_req st @ transfers bs (map fst (outputs read_step st bs))
      = concat (map (snd \<circ> snd) (outputs read_step st bs)) @ granted_req (final_state read_step st bs)"
  using assms
proof (induction bs arbitrary: st x)
  case Nil
  then show ?case by simp
next
  case (Cons b bs)
  let ?o = "read_step b st"
  let ?x = "if b_valid b \<and> \<not> fst (snd ?o) then Some (b_payload b) else None"
  let ?t = "if b_valid b \<and> fst (snd ?o) then [b_payload b] else []"
  have v: "b_valid b \<and> b_payload b = p" if "st = R_delay p n" for p n
    using that Cons.prems by auto
  have now: "delayed_req st @ fst (snd (snd ?o)) = ?t @ delayed_req (fst ?o)"
    "granted_req st @ ?t = snd (snd (snd ?o)) @ granted_req (fst ?o)"
    and nxt: "\<forall>p n. fst ?o = R_delay p n \<longrightarrow> ?x = Some p"
    using v by (cases st; simp add: read_top_def)+
  have "held ?x bs (map fst (outputs read_step (fst ?o) bs))"
    using Cons.prems(2) by simp
  from Cons.IH [OF nxt this] now show ?case by (simp flip: append_assoc) (metis append_assoc)
qed

lemma read_in_delay:
  assumes "0 < n" and "n \<le> length bs"
  shows "True \<in> set (map fst (take n (outputs read_step (R_delay p n) bs)))"
  using assms
proof (induction n arbitrary: bs)
  case 0
  then show ?case by simp
next
  case (Suc n)
  then obtain b bs' where bs: "bs = b # bs'" by (cases bs) auto
  show ?case
  proof (cases n)
    case 0
    with bs show ?thesis by simp
  next
    case (Suc m)
    with Suc.IH [of bs'] Suc.prems bs show ?thesis by simp
  qed
qed

section \<open>Responses\<close>

text \<open>
  \<open>read_response_process\<close> and \<open>write_response_process\<close>: take a response from the FIFO, delay,
  tell the scoreboard, and present it until the cache is ready. The input is the ready signal
  of the cache, the delay and what entered the FIFO since the last activation; the output is
  what was told to the scoreboard and what the cache took.
\<close>

datatype 'a presenting = P_idle | P_delay 'a nat | P_present 'a

record 'a resp_in =
  i_ready :: bool
  i_delay :: nat
  i_arrived :: "'a list"

fun resp_top :: "'a resp_in \<Rightarrow> 'a list \<Rightarrow> 'a list \<Rightarrow> ('a presenting \<times> 'a list) \<times> 'a list \<times> 'a list" where
  "resp_top i [] took = ((P_idle, []), [], took)"
| "resp_top i (r # q) took =
     (if i_delay i = 0 then ((P_present r, q), [r], took) else ((P_delay r (i_delay i), q), [], took))"

fun resp_step ::
  "'a resp_in \<Rightarrow> 'a presenting \<times> 'a list \<Rightarrow> ('a presenting \<times> 'a list) \<times> 'a list \<times> 'a list" where
  "resp_step i (P_idle, q) = resp_top i (q @ i_arrived i) []"
| "resp_step i (P_delay r n, q) =
     (if n \<le> 1 then ((P_present r, q @ i_arrived i), [r], [])
      else ((P_delay r (n - 1), q @ i_arrived i), [], []))"
| "resp_step i (P_present r, q) =
     (if i_ready i then resp_top i (q @ i_arrived i) [r] else ((P_present r, q @ i_arrived i), [], []))"

fun presented :: "'a presenting \<times> 'a list \<Rightarrow> 'a list" where
  "presented (P_present r, q) = [r]"
| "presented (_, q) = []"

fun waiting :: "'a presenting \<times> 'a list \<Rightarrow> 'a list" where
  "waiting (P_delay r n, q) = r # q"
| "waiting (_, q) = q"

lemma resp_top_splits:
  "presented (fst (resp_top i q took)) = fst (snd (resp_top i q took))"
  "fst (snd (resp_top i q took)) @ waiting (fst (resp_top i q took)) = q"
  "snd (snd (resp_top i q took)) = took"
  by (cases q; simp)+

lemma resp_step_splits:
  "presented st @ fst (snd (resp_step i st)) = snd (snd (resp_step i st)) @ presented (fst (resp_step i st))"
  "waiting st @ i_arrived i = fst (snd (resp_step i st)) @ waiting (fst (resp_step i st))"
  by (cases "(i, st)" rule: resp_step.cases; simp add: resp_top_splits)+

lemma responses_conserved:
  "presented st @ concat (map fst (outputs resp_step st is))
     = concat (map snd (outputs resp_step st is)) @ presented (final_state resp_step st is)
   \<and> waiting st @ concat (map i_arrived is)
     = concat (map fst (outputs resp_step st is)) @ waiting (final_state resp_step st is)"
proof (induction "is" arbitrary: st)
  case Nil
  then show ?case by simp
next
  case (Cons i "is")
  from Cons.IH [of "fst (resp_step i st)"] resp_step_splits [of st i] show ?case
    by (simp flip: append_assoc) (metis append_assoc)
qed

section \<open>Printing of beats\<close>

definition mem_write_req_flit_to_string :: "mem_req \<Rightarrow> string" where
  "mem_write_req_flit_to_string r =
     ''MEM_WRITE'' @ '' / ADDR = 0x'' @ hex (unat (mr_addr r)) @ '' / LEN = 0d'' @ dec_nat (unat (mr_len r))
     @ '' / ID = 0x'' @ hex (unat (mr_id r))"

definition mem_write_req_data_flit_to_string ::
  "cfg \<Rightarrow> (nat \<Rightarrow> nat \<Rightarrow> string) \<Rightarrow> mem_write_req_data_flit \<Rightarrow> string" where
  "mem_write_req_data_flit_to_string c hexbv r =
     ''MEM_WRITE_DATA'' @ '' / DATA = 0x'' @ hexbv (HPDCACHE_MEM_DATA_WIDTH c) (wd_data r)
     @ '' / BE = 0x'' @ hexbv (HPDCACHE_MEM_DATA_WIDTH c div 8) (wd_be r)
     @ (if wd_last r then '' / LAST'' else [])"

section \<open>Properties\<close>

lemma fold_write_address:
  "write_req_fifo (fold (write_address_process True) ps s)
     = write_req_fifo s @ List.map mem_req_of_ports ps"
  by (induction ps arbitrary: s) (simp_all add: write_address_process_def)

lemma fold_write_data:
  "write_req_data_fifo (fold (write_data_process True) ds s) = write_req_data_fifo s @ ds"
  by (induction ds arbitrary: s) (simp_all add: write_data_process_def)

text \<open>
  C24: Cycle by cycle, the two processes of the write channel put in their FIFOs exactly the requests
  and the data that the cache transfers, each once and in order: what the abstract processes do
  for each transfer. The cache keeps a beat until it is taken, and the FIFOs have room.
\<close>

theorem write_beats_taken_once:
  assumes "\<forall>b \<in> set as. b_room b" and "\<forall>b \<in> set ds. b_room b"
  defines "oa \<equiv> outputs accept_step Idle as" and "od \<equiv> outputs accept_step Idle ds"
  assumes "held None as (map fst oa)" and "held None ds (map fst od)"
  shows "write_req_fifo (fold (write_address_process True) (transfers as (map fst oa)) s)
      = write_req_fifo s @ List.map mem_req_of_ports (concat (map snd oa))
    \<and> write_req_data_fifo (fold (write_data_process True) (transfers ds (map fst od)) s)
      = write_req_data_fifo s @ concat (map snd od)"
  using accept_taken_once [of as Idle None] accept_taken_once [of ds Idle None] assms
  by (simp add: fold_write_address fold_write_data)

text \<open>
  Beats for the examples: two transfers without a cycle in between, and one that is delayed.
\<close>

definition ex_beat :: "bool \<Rightarrow> 'a \<Rightarrow> nat \<Rightarrow> 'a beat" where
  "ex_beat v p d = \<lparr>b_valid = v, b_payload = p, b_delay = d, b_room = True, b_waits = 0\<rparr>"

definition ex_data :: "nat \<Rightarrow> mem_write_req_data_flit" where
  "ex_data n = \<lparr>wd_data = n, wd_be = 1, wd_last = True\<rparr>"

definition ex_resp_model :: mem_resp where
  "ex_resp_model = mem_resp_new default_cfg ''m'' (\<lambda>_. 0) 0 []"

theorem write_beats_taken_once_witness:
  "write_req_data_fifo (fold (write_data_process True) [ex_data 5, ex_data 6, ex_data 7] ex_resp_model)
     = [ex_data 5, ex_data 6, ex_data 7]"
  using write_beats_taken_once [where s = ex_resp_model and as = "[]" and ds =
      "[ex_beat True (ex_data 5) 0, ex_beat True (ex_data 6) 0, ex_beat True (ex_data 7) 2,
        ex_beat True (ex_data 7) 0, ex_beat True (ex_data 7) 0, ex_beat False (ex_data 8) 0]"]
  by (simp add: ex_beat_def accept_top_def accept_beat_def ex_resp_model_def mem_resp_new_def)

text \<open>
  C25: Cycle by cycle, the read process tells the scoreboard each request that the cache transfers
  once and in order (the last one may be told before it is transferred, while \<open>ready\<close> is
  delayed), and carries out each of them once and in order after the transfer.
\<close>

theorem read_requests_taken_once:
  assumes "held None bs (map fst (outputs read_step R_idle bs))"
  defines "os \<equiv> outputs read_step R_idle bs" and "st \<equiv> final_state read_step R_idle bs"
  shows "concat (map (fst \<circ> snd) os) = transfers bs (map fst os) @ delayed_req st
    \<and> transfers bs (map fst os) = concat (map (snd \<circ> snd) os) @ granted_req st"
  using read_taken_once [of R_idle None bs] assms by simp

theorem read_requests_taken_once_witness:
  "concat (map (snd \<circ> snd) (outputs read_step R_idle
     [ex_beat True (1 :: nat) 0, ex_beat True 2 1, ex_beat True 2 0, ex_beat False 0 0])) = [1, 2]"
  using read_requests_taken_once [of
      "[ex_beat True (1 :: nat) 0, ex_beat True 2 1, ex_beat True 2 0, ex_beat False 0 0]"]
  by (simp add: ex_beat_def read_top_def)

text \<open>
  The delays that the constructor allows, and the states that a process can be in when it draws no others.
\<close>

definition drawn_delays :: "'a beat \<Rightarrow> bool" where
  "drawn_delays b \<longleftrightarrow> drawn_between (ra_ready_delay delays_new) (b_delay b)
     \<and> drawn_between (wa_ready_delay delays_new) (b_delay b)
     \<and> drawn_between (wd_ready_delay delays_new) (b_delay b)"

lemma drawn_delay_bound: "drawn_delays b \<Longrightarrow> b_delay b \<le> 32"
  using delay_bounds(1) by (simp add: drawn_delays_def)

lemma accept_delays:
  assumes "\<forall>b \<in> set bs. drawn_delays b" and "\<forall>n. st = Delaying n \<longrightarrow> 0 < n \<and> n \<le> 32"
  shows "\<forall>n. final_state accept_step st bs = Delaying n \<longrightarrow> 0 < n \<and> n \<le> 32"
  using assms
proof (induction bs arbitrary: st)
  case (Cons b bs)
  have d: "b_delay b \<le> 32" using Cons.prems(1) by (simp add: drawn_delay_bound)
  have st: "\<And>n. st = Delaying n \<Longrightarrow> 0 < n \<and> n \<le> 32" using Cons.prems(2) by blast
  have "\<forall>n. fst (accept_step b st) = Delaying n \<longrightarrow> 0 < n \<and> n \<le> 32"
  proof (cases st)
    case (Delaying m)
    then show ?thesis using st [OF Delaying] by (auto simp: accept_beat_def)
  qed (use d in \<open>simp_all add: accept_top_def accept_beat_def\<close>)
  with Cons.IH [of "fst (accept_step b st)"] Cons.prems(1) show ?case by simp
qed simp

lemma read_delays:
  assumes "\<forall>b \<in> set bs. drawn_delays b" and "\<forall>p n. st = R_delay p n \<longrightarrow> 0 < n \<and> n \<le> 32"
  shows "\<forall>p n. final_state read_step st bs = R_delay p n \<longrightarrow> 0 < n \<and> n \<le> 32"
  using assms
proof (induction bs arbitrary: st)
  case (Cons b bs)
  have d: "b_delay b \<le> 32" using Cons.prems(1) by (simp add: drawn_delay_bound)
  have st: "\<And>p n. st = R_delay p n \<Longrightarrow> 0 < n \<and> n \<le> 32" using Cons.prems(2) by blast
  have "\<forall>p n. fst (read_step b st) = R_delay p n \<longrightarrow> 0 < n \<and> n \<le> 32"
  proof (cases st)
    case (R_delay q m)
    then show ?thesis using st [OF R_delay] by auto
  qed (use d in \<open>simp_all add: read_top_def\<close>)
  with Cons.IH [of "fst (read_step b st)"] Cons.prems(1) show ?case by simp
qed simp

lemma accept_within:
  assumes "length bs = 33" and "\<forall>b \<in> set bs. b_valid b \<and> b_room b \<and> drawn_delays b"
    and "\<forall>n. st = Delaying n \<longrightarrow> 0 < n \<and> n \<le> 32"
  shows "True \<in> set (map fst (outputs accept_step st bs))"
proof -
  from assms(1) obtain b bs' where bs: "bs = b # bs'" and l: "length bs' = 32" by (cases bs) auto
  have b: "b_valid b" "b_room b" "b_delay b \<le> 32" and r: "\<forall>b \<in> set bs'. b_valid b \<and> b_room b"
    using assms(2) bs drawn_delay_bound by auto
  have delayed: "True \<in> set (map fst (outputs accept_step (Delaying n) cs))"
    if "\<forall>b \<in> set cs. b_valid b \<and> b_room b" "0 < n" "n \<le> length cs" for n cs
    using accept_in_delay [OF that] set_take_subset by (fastforce simp: take_map)
  have top: "True \<in> set (map fst (outputs accept_step st bs))" if "accept_step b st = accept_top b"
    using b delayed [OF r, of "b_delay b"] l bs that
    by (cases "b_delay b = 0") (simp_all add: accept_top_def accept_beat_def)
  show ?thesis
  proof (cases st)
    case (Delaying n)
    then show ?thesis using delayed [of bs n] assms bs l by simp
  next
    case (Retrying p)
    then show ?thesis using b bs by simp
  qed (use top in simp_all)
qed

text \<open>How long a read process that is not idle is kept by the FIFO of responses.\<close>

fun kept_busy :: "'a reading \<Rightarrow> 'a beat list \<Rightarrow> nat" where
  "kept_busy (R_busy n) bs = n - 1"
| "kept_busy (R_granted p) (b # bs) = b_waits b"
| "kept_busy st bs = 0"

lemma read_top_within:
  assumes "33 \<le> length bs" and "\<forall>b \<in> set bs. b_valid b \<and> drawn_delays b"
    and "\<And>b. fst (read_step b st) = fst (read_top b ([] :: 'a list))"
    and "\<And>b. fst (snd (read_step b st)) = fst (snd (read_top b ([] :: 'a list)))"
  shows "True \<in> set (map fst (outputs read_step (st :: 'a reading) bs))"
proof -
  from assms(1) obtain b bs' where bs: "bs = b # bs'" and l: "32 \<le> length bs'" by (cases bs) auto
  have b: "b_valid b" "b_delay b \<le> 32" using assms(2) bs drawn_delay_bound by auto
  show ?thesis
  proof (cases "b_delay b = 0")
    case True
    then show ?thesis using b bs assms(4) [of b] by (simp add: read_top_def)
  next
    case False
    then have n: "0 < b_delay b" "b_delay b \<le> length bs'" using b l by simp_all
    have "True \<in> set (map fst (outputs read_step (R_delay (b_payload b) (b_delay b)) bs'))"
      using read_in_delay [OF n] set_take_subset by (fastforce simp: take_map)
    then show ?thesis using bs b False assms(3) [of b] by (simp add: read_top_def)
  qed
qed

lemma read_busy_within:
  assumes "33 + (n - 1) \<le> length bs" and "\<forall>b \<in> set bs. b_valid b \<and> drawn_delays b"
  shows "True \<in> set (map fst (outputs read_step (R_busy n) bs))"
  using assms
proof (induction n arbitrary: bs)
  case 0
  then show ?case by (intro read_top_within) simp_all
next
  case (Suc n)
  then obtain b bs' where bs: "bs = b # bs'" by (cases bs) auto
  show ?case
  proof (cases n)
    case 0
    with Suc.prems show ?thesis by (intro read_top_within) simp_all
  next
    case (Suc m)
    with Suc.IH [of bs'] Suc.prems bs show ?thesis by simp
  qed
qed

lemma read_within:
  assumes "33 + kept_busy st bs \<le> length bs" and "\<forall>b \<in> set bs. b_valid b \<and> drawn_delays b"
    and "\<forall>p n. st = R_delay p n \<longrightarrow> 0 < n \<and> n \<le> 32"
  shows "True \<in> set (map fst (outputs read_step st bs))"
proof (cases st)
  case R_idle
  then show ?thesis using assms by (intro read_top_within) simp_all
next
  case (R_delay p n)
  then have "0 < n" "n \<le> length bs" using assms(1,3) by auto
  from read_in_delay [OF this] show ?thesis
    using set_take_subset R_delay by (fastforce simp: take_map)
next
  case (R_granted p)
  from assms(1) obtain b bs' where bs: "bs = b # bs'" by (cases bs) auto
  show ?thesis
  proof (cases "b_waits b")
    case 0
    let ?o = "read_top b [p]"
    have eq: "outputs read_step st bs = snd ?o # outputs read_step (fst ?o) bs'"
      "outputs read_step R_idle bs = snd (read_top b []) # outputs read_step (fst (read_top b [])) bs'"
      using 0 R_granted bs by simp_all
    have "fst ?o = fst (read_top b [])" "fst (snd ?o) = fst (snd (read_top b []))"
      by (simp_all add: read_top_def)
    moreover have "True \<in> set (map fst (outputs read_step R_idle bs))"
      using assms by (intro read_top_within) simp_all
    ultimately show ?thesis by (simp add: eq)
  next
    case (Suc n)
    then show ?thesis
      using read_busy_within [of "Suc n" bs'] assms(1,2) R_granted bs by simp
  qed
next
  case (R_busy n)
  then show ?thesis using read_busy_within [of n bs] assms(1,2) by simp
qed

text \<open>
  C27: A beat that the cache keeps valid is transferred (\<open>ready\<close> is set for it) in bounded time,
  whatever the process has done before and whatever it is doing, with any delays that the
  distributions of the constructor allow: a beat of the write channel within 33 cycles in which
  the FIFO has room, and a read request within 33 cycles and those for which the FIFO of responses
  still keeps the process busy with the request before.
\<close>

theorem beats_taken_in_bounded_time:
  assumes "\<forall>b \<in> set before. drawn_delays b" and "\<forall>b \<in> set bs. b_valid b \<and> drawn_delays b"
  defines "ast \<equiv> final_state accept_step Idle before" and "rst \<equiv> final_state read_step R_idle before"
  shows "((\<forall>b \<in> set bs. b_room b) \<and> length bs = 33
        \<longrightarrow> True \<in> set (map fst (outputs accept_step ast bs)))
    \<and> (length bs = 33 + kept_busy rst bs \<longrightarrow> True \<in> set (map fst (outputs read_step rst bs)))"
proof (intro conjI impI)
  assume r: "(\<forall>b \<in> set bs. b_room b) \<and> length bs = 33"
  show "True \<in> set (map fst (outputs accept_step ast bs))"
    by (rule accept_within) (use r assms(2) accept_delays [OF assms(1), of Idle] in \<open>simp_all add: ast_def\<close>)
next
  assume l: "length bs = 33 + kept_busy rst bs"
  show "True \<in> set (map fst (outputs read_step rst bs))"
    by (rule read_within)
      (use l assms(2) read_delays [OF assms(1), of R_idle] in \<open>simp_all add: rst_def\<close>)
qed

text \<open>The process of the example is busy for 40 cycles with a request before.\<close>

theorem beats_taken_in_bounded_time_witness:
  "True \<in> set (map fst (outputs read_step (R_busy 40) (replicate 72 (ex_beat True (0 :: nat) 32))))"
proof -
  let ?before = "[ex_beat True (7 :: nat) 0, (ex_beat True 0 0)\<lparr>b_waits := 40\<rparr>]"
  have d: "drawn_delays (ex_beat True (0 :: nat) 32)" "\<forall>b \<in> set ?before. drawn_delays b"
    by (simp_all add: drawn_delays_def ex_beat_def drawn_between_def delays_new_def)
  have "final_state read_step R_idle ?before = R_busy 40"
    by (simp add: ex_beat_def read_top_def)
  then show ?thesis
    using beats_taken_in_bounded_time [OF d(2), of "replicate 72 (ex_beat True (0 :: nat) 32)"] d(1)
    by (simp add: ex_beat_def)
qed

text \<open>
  C26: The cache takes the responses in the order in which they entered the FIFO, each once, whatever
  the delays and its ready signal, and the scoreboard is told each response before the cache
  takes it: at any moment the FIFO, a delayed and a presented response make up the difference.
\<close>

theorem responses_delivered_in_order:
  fixes ins :: "'a resp_in list"
  defines "os \<equiv> outputs resp_step (P_idle, []) ins"
    and "st \<equiv> final_state resp_step (P_idle, []) ins"
  shows "concat (map fst os) = concat (map snd os) @ presented st
    \<and> concat (map i_arrived ins) = concat (map fst os) @ waiting st"
  using responses_conserved [of "(P_idle, [])" ins] by (simp add: os_def st_def)

text \<open>
  When the FIFO is full, \<open>ready\<close> stays set while \<open>nb_write\<close> is retried: the cache transfers the
  next beat in each of these cycles and the process never sees it.
\<close>

lemma full_fifo_loses_a_beat:
  fixes p q :: 'a
  defines "bs \<equiv> [\<lparr>b_valid = True, b_payload = p, b_delay = 0, b_room = False, b_waits = 0\<rparr>,
                 \<lparr>b_valid = True, b_payload = q, b_delay = 0, b_room = True, b_waits = 0\<rparr>]"
  shows "transfers bs (map fst (outputs accept_step Idle bs)) = [p, q]
    \<and> concat (map snd (outputs accept_step Idle bs)) = [p]
    \<and> final_state accept_step Idle bs = Taken"
  by (simp add: bs_def accept_top_def accept_beat_def)

end
