(* ===== verification/End_Of_Test.thy ===== *)
theory End_Of_Test
  imports Testbench
begin

text \<open>
  How a test ends: after the null pointer of the sequence the driver waits until the scoreboard
  reports no inflight request and then sets \<open>gotFinish\<close> (\<open>include/hpdcache_test_driver.h\<close>), on which
  the main loop of \<open>hpdcache_tb.cpp\<close> stops. Half periods of the clock are numbered from 1, as in
  \<open>simulate\<close>; the odd ones start with a falling edge, on which \<open>check_inflight_requests\<close> of the
  scoreboard writes its output, the even ones with a rising edge, on which the driver reads it.
\<close>

section \<open>The end of the driver\<close>

text \<open>
  \<open>sb i\<close> is the scoreboard when the edge of half period \<open>i\<close> comes, \<open>e\<close> the half period in which the
  driver reads the null pointer.
\<close>

definition no_inflight_requests :: "(nat \<Rightarrow> scoreboard) \<Rightarrow> nat \<Rightarrow> bool" where
  "no_inflight_requests sb j \<longleftrightarrow> check_inflight_requests (sb (j - 1))"

definition driver_ends :: "(nat \<Rightarrow> scoreboard) \<Rightarrow> nat \<Rightarrow> nat \<Rightarrow> bool" where
  "driver_ends sb e j \<longleftrightarrow> even j \<and> e < j \<and> no_inflight_requests sb j"

text \<open>Whether \<open>gotFinish\<close> is set after half period \<open>k\<close>.\<close>

definition got_finish :: "(nat \<Rightarrow> scoreboard) \<Rightarrow> nat \<Rightarrow> nat \<Rightarrow> bool" where
  "got_finish sb e k \<longleftrightarrow> list_ex (driver_ends sb e) [1..<Suc k]"

lemma got_finish_iff: "got_finish sb e k \<longleftrightarrow> (\<exists>j. 0 < j \<and> j \<le> k \<and> driver_ends sb e j)"
  by (auto simp: got_finish_def list_ex_iff Suc_le_eq less_Suc_eq_le simp del: upt_Suc)

lemma got_finish_mono: "got_finish sb e k \<Longrightarrow> k \<le> k' \<Longrightarrow> got_finish sb e k'"
  by (auto simp: got_finish_iff)

lemma simulate_start: "length (reset_cycles True @ reset_cycles False) = 20"
  by (simp add: reset_cycles_def eval_nat_numeral)

section \<open>Properties\<close>

text \<open>
  C37: The simulation stops before its bound of cycles exactly when, after the end of the sequence
  and in time, the driver sees a scoreboard with no inflight request; it stops at that half
  period. When no error was reported, the scoreboard has by then received a response for every
  request that wants one.
\<close>

theorem test_ends_when_quiet:
  assumes "simulate (got_finish sb e) t = (n, hs)" and "5 < unat (max_cycles t)"
    and "\<forall>i. sb_reach c (sb_init lrsc sq segs sz) (sb i)"
  shows "(n < unat (max_cycles t) \<longleftrightarrow>
       (\<exists>j. 0 < j \<and> j \<le> 10 + 2 * unat (max_cycles t) \<and> driver_ends sb e j))
    \<and> (\<forall>j. 20 < j \<and> driver_ends sb e j \<longrightarrow> length hs \<le> j)
    \<and> (\<forall>j. driver_ends sb e j \<and> nb_error (sb (j - 1)) = 0 \<longrightarrow>
         nb_core_resp (sb (j - 1)) = nb_core_req_need_rsp (sb (j - 1)))"
proof (intro conjI allI impI)
  let ?m = "unat (max_cycles t)" and ?f = "got_finish sb e"
  obtain hs' where r: "clock_loop ?f ?m 20 5 = (n, hs')" "length hs = 20 + length hs'"
    using assms(1) unfolding simulate_def Let_def simulate_start
    using simulate_start by (cases "clock_loop ?f ?m 20 5") auto
  have le: "5 \<le> ?m" using assms(2) by simp
  note s = clock_loop_spec [OF r(1) le]
  show "n < ?m \<longleftrightarrow> (\<exists>j. 0 < j \<and> j \<le> 10 + 2 * ?m \<and> driver_ends sb e j)"
  proof
    assume "n < ?m"
    with s have "?f (20 + length hs')" and "length hs' \<le> 2 * (?m - 5)" by blast+
    then show "\<exists>j. 0 < j \<and> j \<le> 10 + 2 * ?m \<and> driver_ends sb e j"
      using le by (auto simp: got_finish_iff)
  next
    assume "\<exists>j. 0 < j \<and> j \<le> 10 + 2 * ?m \<and> driver_ends sb e j"
    then have f: "?f (10 + 2 * ?m)" by (auto simp: got_finish_iff)
    show "n < ?m"
    proof (rule ccontr)
      assume "\<not> n < ?m"
      with s have "n = ?m" by simp
      with s have l: "length hs' = 2 * (?m - 5)" and "hs' \<noteq> [] \<longrightarrow> \<not> ?f (20 + length hs')" by blast+
      moreover have "0 < 2 * (?m - 5)" using assms(2) by simp
      ultimately have "\<not> ?f (20 + 2 * (?m - 5))" by auto
      moreover have "20 + 2 * (?m - 5) = 10 + 2 * ?m" using le by simp
      ultimately show False using f by simp
    qed
  qed
  fix j
  show "length hs \<le> j" if "20 < j \<and> driver_ends sb e j"
  proof (rule ccontr)
    assume "\<not> length hs \<le> j"
    with r(2) that have "0 < j - 20" "j - 20 < length hs'" "20 + (j - 20) = j" by auto
    with s have "\<not> ?f j" by metis
    with that show False by (auto simp: got_finish_iff)
  qed
  assume j: "driver_ends sb e j \<and> nb_error (sb (j - 1)) = 0"
  have "sb_inv (sb (j - 1))" using assms(3) sb_inv_reach sb_inv_init by blast
  with j show "nb_core_resp (sb (j - 1)) = nb_core_req_need_rsp (sb (j - 1))"
    by (simp add: sb_inv_def balanced_def driver_ends_def no_inflight_requests_def check_inflight_requests_def)
qed

theorem test_ends_when_quiet_witness:
  "fst (simulate (got_finish (\<lambda>i. ex_sb) 40) ((test_new False)\<lparr>max_cycles := 100\<rparr>)) < 100"
proof -
  let ?sb = "\<lambda>i. ex_sb" and ?t = "(test_new False)\<lparr>max_cycles := 100\<rparr>"
  obtain n hs where r: "simulate (got_finish ?sb 40) ?t = (n, hs)" by fastforce
  have m: "unat (max_cycles ?t) = 100" by simp
  have q: "driver_ends ?sb 40 42"
    by (simp add: driver_ends_def no_inflight_requests_def check_inflight_requests_def ex_sb_def
        sb_init_def scoreboard_new_def set_error_limit_def set_mem_resp_model_def)
  have reach: "\<forall>i. sb_reach default_cfg ex_sb (?sb i)" by (simp add: sb_reach.start)
  have "n < unat (max_cycles ?t) \<longleftrightarrow>
      (\<exists>j. 0 < j \<and> j \<le> 10 + 2 * unat (max_cycles ?t) \<and> driver_ends ?sb 40 j)"
    using test_ends_when_quiet [OF r [unfolded ex_sb_def] _ reach [unfolded ex_sb_def], folded ex_sb_def] m
    by simp
  moreover have "\<exists>j. 0 < j \<and> j \<le> 10 + 2 * unat (max_cycles ?t) \<and> driver_ends ?sb 40 j"
    using q m by (intro exI [of _ 42]) simp
  ultimately have "n < 100" using m by simp
  with r show ?thesis by simp
qed

end
