(* ===== verification/Scoreboard_Report.thy ===== *)
theory Scoreboard_Report
  imports Complex_Main Testbench Scoreboard_Inv
begin

text \<open>
  The end of a test in \<open>rtl/tb/include/hpdcache_test_scoreboard.h\<close>: after its last checks the
  destructor prints the counters and the rates computed from them, unless the verbosity is
  \<open>SC_NONE\<close>. A line is its label and its value; a rate is the exact quotient, which the code
  rounds to a \<open>double\<close>.
\<close>

section \<open>The report\<close>

primrec verbosity_level :: "sc_verbosity \<Rightarrow> nat" where
  "verbosity_level SC_NONE = 0"
| "verbosity_level SC_LOW = 100"
| "verbosity_level SC_MEDIUM = 200"
| "verbosity_level SC_HIGH = 300"
| "verbosity_level SC_FULL = 400"
| "verbosity_level SC_DEBUG = 500"

definition check_verbosity :: "sc_verbosity \<Rightarrow> sc_verbosity \<Rightarrow> bool" where
  "check_verbosity set_level v \<longleftrightarrow> verbosity_level set_level \<ge> verbosity_level v"

definition instrumentation :: "scoreboard \<Rightarrow> (string \<times> nat) list" where
  "instrumentation s =
     [(''SB.NB_ERROR'', nb_error s),
      (''SB.NB_CYCLES'', unat (nb_cycles_effective s)),
      (''SB.NB_CORE_REQ'', unat (nb_core_req s)),
      (''SB.NB_CORE_RESP'', unat (nb_core_resp s)),
      (''SB.NB_MEM_READ_REQ'', unat (nb_mem_read_req s)),
      (''SB.NB_MEM_READ_RESP'', unat (nb_mem_read_resp s)),
      (''SB.NB_MEM_WRITE_REQ'', unat (nb_mem_write_req s)),
      (''SB.NB_MEM_WRITE_RESP'', unat (nb_mem_write_resp s)),
      (''CACHE.WRITE_MISSES'', unat (cache_write_miss (evt s))),
      (''CACHE.READ_MISSES'', unat (cache_read_miss (evt s))),
      (''CACHE.DIR_UNC_ERRORS'', unat (cache_dir_unc_err (evt s))),
      (''CACHE.DIR_COR_ERRORS'', unat (cache_dir_cor_err (evt s))),
      (''CACHE.DAT_UNC_ERRORS'', unat (cache_dat_unc_err (evt s))),
      (''CACHE.DAT_COR_ERRORS'', unat (cache_dat_cor_err (evt s))),
      (''CACHE.SCRUBBER_COMPLETE'', unat (scrub_complete (evt s))),
      (''CACHE.UNCACHED_REQUESTS'', unat (uncached_req (evt s))),
      (''CACHE.CMO_REQUESTS'', unat (cmo_req (evt s))),
      (''CACHE.WRITE_REQUESTS'', unat (write_req (evt s))),
      (''CACHE.READ_REQUESTS'', unat (read_req (evt s))),
      (''CACHE.PREFETCH_REQUESTS'', unat (prefetch_req (evt s))),
      (''CACHE.ON_HOLD_REQUESTS'', unat (req_on_hold (evt s))),
      (''CACHE.RTAB_ROLLBACK'', unat (rtab_rollback (evt s))),
      (''CACHE.STALL_REFILL'', unat (stall_refill (evt s))),
      (''CACHE.STALL'', unat (stall (evt s)))]"

definition quotient :: "u64 \<Rightarrow> u64 \<Rightarrow> rat" where
  "quotient a b = (if b > 0 then of_nat (unat a) / of_nat (unat b) else 0)"

definition computed_values :: "scoreboard \<Rightarrow> (string \<times> rat) list" where
  "computed_values s =
     [(''Cycles per request'', quotient (nb_cycles_effective s) (nb_core_req s)),
      (''Read miss rate'', quotient (cache_read_miss (evt s)) (read_req (evt s))),
      (''Write miss rate'', quotient (cache_write_miss (evt s)) (write_req (evt s)))]"

text \<open>The whole destructor: what it leaves and what it prints in the end.\<close>

definition delete_scoreboard ::
  "sc_verbosity \<Rightarrow> scoreboard \<Rightarrow>
     (scoreboard \<times> ((string \<times> nat) list \<times> (string \<times> rat) list) option) outcome" where
  "delete_scoreboard set_level s =
     andthen (sb_destructor s) (\<lambda>s.
       Inr (s, if check_verbosity set_level SC_LOW then Some (instrumentation s, computed_values s)
               else None))"

section \<open>A report without errors\<close>

lemma quotient_bounds: "a \<le> b \<Longrightarrow> 0 \<le> quotient a b \<and> quotient a b \<le> 1"
proof (cases "b > 0")
  case True
  assume "a \<le> b"
  define x y where "x = unat a" and "y = unat b"
  have "x \<le> y" "0 < y" using \<open>a \<le> b\<close> True by (simp_all add: x_def y_def word_le_nat_alt word_less_nat_alt)
  moreover have "quotient a b = of_nat x / of_nat y"
    using True by (simp only: quotient_def x_def y_def if_True)
  ultimately show ?thesis by (simp add: divide_le_eq)
qed (simp add: quotient_def)

lemma report_if_clean:
  "report_if b msg s = Inr s' \<Longrightarrow> nb_error s' = 0 \<Longrightarrow> \<not> b \<and> s' = s"
  by (auto simp: report_if_def print_error_def Let_def split: if_splits)

lemma destructor_clean:
  assumes "sb_destructor s = Inr s'" and "nb_error s' = 0"
  shows "s' = s" and "nb_core_resp s = nb_core_req_need_rsp s" and "ids (seq s) = []"
    and "cache_write_miss (evt s) \<le> write_req (evt s)" and "cache_read_miss (evt s) \<le> read_req (evt s)"
  using assms
  by (auto simp: sb_destructor_def andthen_Inr_iff dest!: report_if_clean)

text \<open>
  A printed report with no error means that the scoreboard got through its last checks
  untouched: every request that needed a response has one and none is left inflight, no
  identifier is taken, and neither miss rate is above 1.
\<close>

theorem clean_report:
  assumes "sb_reach c (sb_init lrsc sq segs n) s" and "length (inflight_m s) < 2 ^ 64"
    and "delete_scoreboard v s = Inr (s', Some (stats, rates))"
    and "map_of stats ''SB.NB_ERROR'' = Some 0"
  shows "s' = s \<and> inflight_m s = [] \<and> ids (seq s) = [] \<and> v \<noteq> SC_NONE
     \<and> (\<forall>(l, q) \<in> set rates. l \<noteq> ''Cycles per request'' \<longrightarrow> 0 \<le> q \<and> q \<le> 1)"
proof -
  have d: "sb_destructor s = Inr s'" and r: "stats = instrumentation s'" "rates = computed_values s'"
    and v: "v \<noteq> SC_NONE"
    using assms(3) by (auto simp: delete_scoreboard_def andthen_Inr_iff check_verbosity_def split: if_splits)
  have e: "nb_error s' = 0" using assms(4) by (simp add: r instrumentation_def)
  note cl = destructor_clean [OF d e]
  have "inflight_m s = []"
    using responses_balance_requests [OF assms(1) _ assms(2)] cl(1,2) e by simp
  moreover have "\<forall>(l, q) \<in> set rates. l \<noteq> ''Cycles per request'' \<longrightarrow> 0 \<le> q \<and> q \<le> 1"
    using quotient_bounds [OF cl(4)] quotient_bounds [OF cl(5)] by (simp add: r computed_values_def cl(1))
  ultimately show ?thesis using cl(1,3) v by simp
qed

end
