(* ===== verification/Spec2Isabelle.thy ===== *)
theory Spec2Isabelle
  imports Cache_Directory_Plru Cache_Data Fault_Scopes Trace_Replay Trace_Recording Testbench Scoreboard_Atomics Stimuli_Checked
    Wiring Mem_Timing End_Of_Test Scoreboard_Report
begin

text \<open>
  The testbench of the HPDcache (\<open>src/rtl/tb/\<close>): random or recorded requests are driven into the
  simulated cache, a memory model answers it, and a scoreboard checks every response. The hardware
  itself is not in scope: the development is about the C++ and C code that decides whether the
  hardware passes, so that a test that passes means something and one that fails is not a false
  alarm. Paths below are relative to \<open>src/\<close>.

  \<^bold>\<open>Parts and how they interact.\<close> A sequence (\<open>rtl/tb/sequence_lib/\<close>) draws requests and takes
  identifiers for them; the driver packs each one on the request port of the cache and hands it to
  the scoreboard; the cache reads and writes memory through the memory responder; responses and
  memory transactions reach the scoreboard, which compares them with its image of the memory and
  gives identifiers back to the sequence. \<open>rtl/tb/hpdcache_tb.cpp\<close> builds all this from the command
  line and runs the clock. A QEMU plugin records traces that one of the sequences replays.

  \<^bold>\<open>Theories.\<close>
  \<^item> \<open>Prelude\<close>: the C++ integer types, outcomes (\<open>Inl\<close> an assertion, an exit or undefined behaviour),
    counted loops, bytes of words, \<open>sc_bv\<close> vectors as natural numbers. \<open>Std_Map\<close>: \<open>std::map\<close>.
  \<^item> \<open>Test_Defs\<close>: the build parameters (\<open>include/hpdcache_test_defs.h\<close>), a record \<open>cfg\<close> that is an
    argument of everything else.
  \<^item> \<open>Mem_Model\<close>, \<open>Ram_Model\<close> (\<open>sc_verif_lib/modules/mem_model/\<close>): main memory, and the byte array with a
    bitmap of the scoreboard. \<open>Mem_Resp\<close> (\<open>include/hpdcache_test_mem_resp_model*.h\<close>): the responder, one
    function per operation; \<open>Mem_Timing\<close>: its processes cycle by cycle, with handshakes and delays.
  \<^item> \<open>Cache_Directory\<close>, \<open>Cache_Directory_Plru\<close>, \<open>Cache_Data\<close> (\<open>sc_verif_lib/modules/generic_cache/\<close>).
  \<^item> \<open>Transaction\<close>, \<open>Transaction_Pool\<close>, \<open>Sequence_Base\<close> (\<open>include/hpdcache_test_transaction.h\<close>,
    \<open>hpdcache_test_sequence.h\<close> and \<open>sc_verif_lib/include/\<close>): requests, the pool of objects, identifiers.
  \<^item> \<open>Sequences\<close>, with the lemmas \<open>Sequences_Check\<close> (every request is well formed) and \<open>Sequences_Run\<close>
    (the runs end): the test sequences. \<open>Driver\<close> (\<open>include/hpdcache_test_driver.h\<close>). \<open>Rtl_Interface\<close>: the
    structures and widths with which the cache (\<open>rtl/src/hpdcache_pkg.sv\<close>, \<open>rtl/include/\<close>) reads what
    the driver packs, and writes what it unpacks.
  \<^item> \<open>Amo\<close>: both functions that compute atomic operations, and what they mean.
  \<^item> \<open>Scoreboard\<close>, \<open>Scoreboard_Mem\<close> (\<open>include/hpdcache_test_scoreboard.h\<close>): the state and the threads, one
    function per transaction handled. Lemmas: \<open>Scoreboard_Inv\<close> (invariants of every reachable state),
    \<open>Scoreboard_Check\<close> (loads and stores), \<open>Scoreboard_Atomics\<close>, \<open>Scoreboard_Refill\<close> (what read responses
    teach). The reference of a correct cache is \<open>Scoreboard_Reference\<close>; \<open>Scoreboard_Request\<close>,
    \<open>Scoreboard_Answer\<close>, \<open>Scoreboard_Agreement\<close> and \<open>Scoreboard_Agreement_Mem\<close> show that the scoreboard
    agrees with it after every event it allows; \<open>Scoreboard_Sound\<close> that a correct cache is never
    reported and that its first wrong answer is, with any limit of errors (\<open>Scoreboard_Limit\<close>);
    \<open>Scoreboard_Path\<close> follows a stored byte through the events before a read of it; \<open>Stimuli_Checked\<close> that the requests of the random
    sequence are of the kind the reference allows; \<open>Scoreboard_Report\<close> models the report at the end.
  \<^item> \<open>Trace\<close> (\<open>include/hpdcache_test_trace_manager.h\<close>), \<open>Qemu_Plugin\<close> (\<open>qemu_plugin/qemu_plugin.c\<close>), with
    the lemmas \<open>Trace_Codec\<close> (one reads what the other writes; every byte reaches the compressor),
    \<open>Trace_Replay\<close> (down to the requests) and \<open>Trace_Recording\<close> (from a whole program, through the file).
  \<^item> \<open>Fault_Injection\<close>, \<open>Fault_Scopes\<close> (\<open>include/hpdcache_fault_injection.h\<close>), \<open>Testbench\<close> (\<open>hpdcache_tb.cpp\<close>, \<open>logger.h\<close>).
    \<open>Wiring\<close>: the channels, ports and bindings of \<open>hpdcache_tb.cpp\<close> and of the agent. \<open>End_Of_Test\<close>: when
    the driver, the scoreboard and the main loop end a simulation.

  \<^bold>\<open>Modelling.\<close> Classes are records, extended as the classes are derived; a member function is a
  function on the record. A thread of SystemC that handles one transaction without waiting is one
  function, and the interleaving of the threads is a sequence of such steps (\<open>sb_step\<close> and
  \<open>sb_reach\<close> for the scoreboard). Assertions, \<open>exit\<close> and undefined behaviour are values of \<open>outcome\<close>.
  Integers are words where they can wrap; sizes and positions that the code bounds are natural
  numbers. What the code draws at random, the results of the compression library and of \<open>getopt\<close> are
  arguments.

  \<^bold>\<open>Interfaces.\<close> \<open>keyed_table\<close> (\<open>Std_Map\<close>, used by the tables of the scoreboard), \<open>word_memory\<close> (\<open>Mem_Model\<close>,
  used by the responder), \<open>replacement_policy\<close> (the virtual members of the directory, provided by the
  PLRU class), \<open>object_pool\<close>, \<open>byte_source\<close> (what the trace decoder needs of the decompressor loop), and
  \<open>request_source\<close> with \<open>lrsc_source\<close> (what the loops of a sequence need of the code that draws a request).

  \<^bold>\<open>Loops and bounds.\<close> No fuel is used. Loops that may not end are \<open>partial_function (option)\<close>: the probe
  for a free identifier, the loops around the (de)compressor; \<open>None\<close> is a run that does not return, and
  termination is proved as a property (\<open>allocate_id_fresh\<close>, and the runs of the sequences, under the
  assumption that the scoreboard keeps giving identifiers back); for the reader of traces, which can
  fail to return, \<open>reading_a_trace_ends\<close> says exactly when it does not. The clock loop
  stops at the limit of cycles, its measure. Configurations are constrained where the code needs it:
  \<open>wf_cfg\<close> (widths), \<open>sb_cfg\<close> and \<open>check_cfg\<close> (data a power of two of bytes, memory words of 8 bytes,
  a memory flit that divides the RAM of the scoreboard); \<open>default_cfg\<close> satisfies them all.

  \<^bold>\<open>Not modelled.\<close> The cache RTL, but for what the testbench shares with it: the translation of
  atomic operations of \<open>rtl/src/hpdcache_uncached.sv\<close>, the structures and the configuration function
  of the package, the ports of the wrapper; and miniz. Clock cycles, outside \<open>Mem_Timing\<close> and
  \<open>End_Of_Test\<close>: \<open>wait\<close>, delays drawn at random and the latency of a FIFO change when a transaction
  is handled, not how, and any order of the steps is covered. Other printing, waveforms, coverage and SystemC
  tracing have no effect on the state. Code under \<open>ENABLE_CACHE_DIR_VERIF\<close> is off in the sources.
\<close>

section \<open>From the random sequence to the cache and the scoreboard\<close>

text \<open>The transactions the driver reads, each with the cycles for which the cache stalls it.\<close>

definition with_stalls :: "(nat \<Rightarrow> nat) \<Rightarrow> req list \<Rightarrow> (req \<times> nat) list" where
  "with_stalls stalls ts = zip ts (map stalls [0..<length ts])"

lemma map_fst_with_stalls [simp]: "map fst (with_stalls stalls ts) = ts"
  by (simp add: with_stalls_def)

text \<open>
  C14: What the random sequence generates is what the cache and the scoreboard get. Its run ends; the
  driver, however the cache stalls it, puts every transaction on the request port as a bus value
  in which the cache reads, by its own structure, the fields of the transaction, and hands the same
  transactions to the scoreboard in the same order; all of them are well formed.
\<close>

theorem random_stimuli_reach_cache:
  assumes "seq_inv c s" and "\<forall>n. plays_round c (random_ok c b) (rds n)" and "transaction_fifo s = []"
  shows "\<exists>s'. random_run c b k rds s = returns s' \<and> max_transactions s \<le> length (transaction_fifo s')
     \<and> (let ev = drive_request c (with_stalls stalls (transaction_fifo s'))
        in [t. Sb_Core_Req t \<leftarrow> ev] = transaction_fifo s'
         \<and> map (rtl_request c) [v. Core_Req v \<leftarrow> ev] = map (request_members c) (transaction_fifo s'))
     \<and> (\<forall>t \<in> set (transaction_fifo s'). stimulus c t)"
proof -
  obtain s' where s': "random_run c b k rds s = returns s'"
    "sends c (random_good c (random_segments c True)) (max_transactions s) (max_transactions s * (k + 2)) s s'"
    using rnd.rounds_ok [OF assms(1), of b rds k "max_transactions s"] assms(2)
    by (auto simp: random_run_def)
  then have ts: "max_transactions s \<le> length (transaction_fifo s')"
    "\<forall>t \<in> set (transaction_fifo s'). stimulus c t"
    using assms(3) by (auto simp: sends_def random_good_def)
  have "wf_cfg c"
    using assms(2) by (auto simp: plays_round_def plays_def random_ok_def dest: seq_cfg_facts(3))
  then have "map (rtl_request c \<circ> core_req_to_bv c) (transaction_fifo s')
      = map (request_members c) (transaction_fifo s')"
    using ts(2) by (auto simp: stimulus_def intro!: rtl_request_driven)
  then have "let ev = drive_request c (with_stalls stalls (transaction_fifo s'))
        in [t. Sb_Core_Req t \<leftarrow> ev] = transaction_fifo s'
         \<and> map (rtl_request c) [v. Core_Req v \<leftarrow> ev] = map (request_members c) (transaction_fifo s')"
    using drive_request_order [of c "with_stalls stalls (transaction_fifo s')"]
    by (simp add: Let_def flip: map_map)
  then show ?thesis using s'(1) ts by blast
qed

theorem random_stimuli_reach_cache_witness:
  "\<exists>s'. random_run default_cfg ex_build 2 (\<lambda>n. ex_round) (seq_new ''random''\<lparr>max_transactions := 4\<rparr>)
       = returns s'
     \<and> [t. Sb_Core_Req t \<leftarrow> drive_request default_cfg (with_stalls (\<lambda>n. n mod 3) (transaction_fifo s'))]
       = transaction_fifo s' \<and> 4 \<le> length (transaction_fifo s')"
  using random_stimuli_reach_cache [OF seq_inv_new [of default_cfg 4 "''random''"], of ex_build
      "\<lambda>n. ex_round" 2 "\<lambda>n. n mod 3"] ex_plays(1) by (fastforce simp: Let_def seq_new_def)

text \<open>
  C4: A store that the random sequence generates is checked byte by byte, by any later load. A store
  outside of the error segments, made after any run of a correct cache, is followed by any events of
  such a cache (other requests, responses, refills, writes to memory) of which none stores the byte
  at address \<open>a\<close> again, \<open>a\<close> being any byte that the size and the address of the store say. Then a
  load, an LR or an atomic operation reads this byte, and again any events happen before its
  response. A response that carries another byte than the store's data at the position of \<open>a\<close> on
  the bus is reported: counted as an error, or the process ends at the limit of errors.
\<close>

theorem generated_store_is_checked:
  assumes "check_cfg c" and "seq_cfg c k" and "possible (random_params c b) ch"
    and "tid < 2 ^ HPDCACHE_REQ_TRANS_ID_WIDTH c"
    and "random_request c (random_params c b) ch tid req_new = Inr t1" and "is_store t1"
    and "\<not> rs_valid lrsc"
    and "coherent_run c segs (test_addresses c) I (sb_init lrsc sq (Some segs) n) s R"
    and "in_turn c R t1" and "junk_ok c j1" and "\<not> error_request segs t1" and "core_req_step c j1 t1 s = Inr u"
    and "req_addr t1 \<le> a" and "a < req_addr t1 + 2 ^ req_size t1"
    and "stretch c segs (test_addresses c) I (\<lambda>R ev. \<not> stores_to c segs a R ev)
           u (ref_step c segs I (sb_event.Core_req j1 t1) R) v R1"
    and "allowed c segs (test_addresses c) I R1 (sb_event.Core_req j2 t2)" and "core_req_step c j2 t2 v = Inr w"
    and "is_reading t2" and "req_need_rsp t2" and "\<not> error_request segs t2"
    and "unat (req_address t2) \<le> a" and "a < unat (req_address t2) + 2 ^ req_size t2"
    and "stretch c segs (test_addresses c) I (\<lambda>R ev. \<not> answers (req_tid t2) ev)
           w (ref_step c segs I (sb_event.Core_req j2 t2) R1) x R2"
    and "rsp_tid r = req_tid t2"
    and "data_byte (rsp_rdata r) (a mod REQ_DATA_BYTES c) \<noteq> data_byte (req_wdata t1) (a mod REQ_DATA_BYTES c)"
  shows "(\<exists>y. core_resp_step c r x = Inr y \<and> 0 < nb_error y) \<or> 0 < n \<and> core_resp_step c r x = Inl Process_exit"
proof -
  have sc: "sb_cfg c" using assms(1) by (simp add: check_cfg_def)
  have na: "no_alias (test_addresses c)" using assms(2) by (intro test_addresses_no_alias) (simp add: seq_cfg_def)
  obtain r' where "random_request c (random_params c b) ch tid req_new = Inr r'"
    "random_good c (random_segments c True) r'"
    using random_request_ok [OF assms(2-4)] by auto
  then have t1: "stimulus c t1" "req_addr t1 \<in> test_addresses c"
    using assms(5) by (simp_all add: random_good_def test_addresses_def)
  have nc: "\<not> is_cmo t1" using assms(6) by (simp add: op_class_defs)
  obtain i where i: "a = req_addr t1 + i" "i < 2 ^ req_size t1"
    using assms(13,14) by (metis add_less_cancel_left le_Suc_ex)
  have en: "enables c t1 a"
    using stimulus_enables [OF assms(2) sc t1(1) nc t1(2) i(2)] by (simp add: i(1))
  have al1: "allowed c segs (test_addresses c) I R (sb_event.Core_req j1 t1)"
    using stimulus_accepted [OF assms(2) sc t1] assms(9,10) by simp
  have p1: "a - bus_base c t1 = a mod REQ_DATA_BYTES c"
    using en by (intro bus_position [OF sc]) (auto simp: enables_def bus_window_def)
  have "\<not> is_cmo t2" using assms(18) request_classes(1,4,5) [of t2] unfolding is_reading_def by blast
  then have fit: "fits_bus c t2" using assms(16) by (auto simp: request_ok_def)
  then have p2: "a - bus_base c t2 = a mod REQ_DATA_BYTES c"
    using assms(21,22) bus_address [of c t2] by (intro bus_position [OF sc]) (simp_all add: fits_bus_def)
  show ?thesis
    by (rule wrong_read_of_store [OF assms(1) na assms(7,8) al1 assms(12,6,11) en assms(15-24)])
      (simp add: p1 p2 assms(25))
qed

text \<open>
  An example: the store, a request on the memory interface, the load of the same bytes, the response
  to the request of the memory, and an answer with a wrong byte.
\<close>

definition ex_load_of :: "req \<Rightarrow> req" where
  "ex_load_of t = t\<lparr>req_op := op_code HPDCACHE_REQ_LOAD, req_tid := 4, req_need_rsp := True\<rparr>"

abbreviation ex_test :: "nat set" where "ex_test \<equiv> test_addresses default_cfg"

lemma ex_test_extend:
  assumes "coherent_run default_cfg [] ex_test ex_I ex_start s R"
    and "allowed default_cfg [] ex_test ex_I R ev" and "meaningful ev"
  shows "\<exists>u. sb_step default_cfg ev s = Inr u
     \<and> coherent_run default_cfg [] ex_test ex_I ex_start u (ref_step default_cfg [] ex_I ev R)"
  using coherent_extend [OF ex_run_cfg(1) _ ex_run_cfg(3) assms] test_addresses_no_alias [of default_cfg]
    seq_cfg_default by (simp add: seq_cfg_def)

lemma ex_wrong_byte: "\<exists>d. data_byte d j \<noteq> (b :: u8)"
proof (cases "b = 0")
  case True
  have "data_byte (2 ^ (8 * j)) j = 1" by (simp add: data_byte_def drop_bit_eq_div)
  then show ?thesis using True by (intro exI [of _ "2 ^ (8 * j)"]) simp
next
  case False
  have "data_byte 0 j = 0" by (simp add: data_byte_def)
  then show ?thesis using False by (intro exI [of _ 0]) simp
qed

lemma ex_generated_store:
  "\<exists>t. random_request default_cfg (random_params default_cfg ex_build) ex_store_choice 3 req_new = Inr t
     \<and> is_store t \<and> req_tid t = 3 \<and> \<not> req_need_rsp t \<and> stimulus default_cfg t \<and> req_addr t \<in> ex_test"
proof -
  have tid: "3 < (2 :: nat) ^ HPDCACHE_REQ_TRANS_ID_WIDTH default_cfg" by (simp add: default_cfg_def)
  obtain t where t: "random_request default_cfg (random_params default_cfg ex_build) ex_store_choice 3 req_new = Inr t"
    "req_tid t = 3" "random_good default_cfg (random_segments default_cfg True) t"
    using random_request_ok [OF seq_cfg_default ex_store_possible tid] by blast
  have "req_op t = op_code HPDCACHE_REQ_STORE"
    using random_request_head(1) [OF t(1)]
    by (simp add: ex_store_choice_def ex_choice_def random_params_def random_segments_def
        set_wr_policy_hint_def set_amo_supported_def)
  then have "is_store t" "\<not> req_is_amo t" by (simp_all add: req_is_amo_def op_class_defs)
  moreover from this(2) have "\<not> req_need_rsp t"
    using random_request_head(2) [OF t(1)] by (simp add: ex_store_choice_def)
  ultimately show ?thesis using t by (auto simp: random_good_def test_addresses_def)
qed

text \<open>The load of the bytes of a generated store is of the kind the reference allows.\<close>

lemma ex_load_of_facts:
  assumes "is_store t" and "stimulus default_cfg t" and "req_addr t \<in> ex_test"
  shows "request_ok default_cfg ex_test (ex_load_of t)" and "is_load (ex_load_of t)" and "is_reading (ex_load_of t)"
    and "\<not> is_atomic (ex_load_of t)" and "\<not> is_store (ex_load_of t)"
    and "req_address (ex_load_of t) = req_address t" and "req_size (ex_load_of t) = req_size t"
    and "unat (req_address t) = req_addr t"
proof -
  show ld: "is_load (ex_load_of t)" by (simp add: ex_load_of_def is_load_def)
  note cl = request_classes(1) [OF ld]
  show na: "\<not> is_atomic (ex_load_of t)" "\<not> is_store (ex_load_of t)" "is_reading (ex_load_of t)"
    using cl ld by (simp_all add: is_atomic_def is_reading_def)
  show e: "req_address (ex_load_of t) = req_address t" "req_size (ex_load_of t) = req_size t"
    by (simp_all add: ex_load_of_def req_address_def)
  have "\<not> is_cmo t" using request_classes(2) [OF assms(1)] by simp
  then have "fits_bus default_cfg t" "bus_window default_cfg t \<subseteq> ex_test"
    using stimulus_accepted [OF seq_cfg_default sb_cfg_default assms(2,3)] by (simp_all add: request_ok_def)
  then show "request_ok default_cfg ex_test (ex_load_of t)"
    using ld na(1) e by (simp add: request_ok_def fits_bus_def bus_offset_def bus_window_def bus_base_def)
  have "wf_req default_cfg t" using assms(2) by (simp add: stimulus_def)
  then have "req_addr t < 2 ^ 49" by (simp add: wf_req_def default_cfg_def)
  then show "unat (req_address t) = req_addr t"
    by (simp add: req_address_def bv_to_uint64_def unsigned_of_nat take_bit_nat_eq_self)
qed

theorem generated_store_is_checked_witness:
  "\<exists>t u v w x r y. random_request default_cfg (random_params default_cfg ex_build) ex_store_choice 3 req_new = Inr t
     \<and> core_req_step default_cfg ex_junk t ex_start = Inr u
     \<and> mem_write_req_step default_cfg mem_write_req_new u = Inr v
     \<and> core_req_step default_cfg ex_junk (ex_load_of t) v = Inr w
     \<and> mem_write_resp_step mem_write_resp_new w = Inr x
     \<and> rsp_tid r = 4 \<and> core_resp_step default_cfg r x = Inr y \<and> 0 < nb_error y"
proof -
  let ?ref = "\<lambda>ev R. ref_step default_cfg [] ex_I ev R"
  obtain t where t: "random_request default_cfg (random_params default_cfg ex_build) ex_store_choice 3 req_new = Inr t"
    "is_store t" "req_tid t = 3" "\<not> req_need_rsp t" "stimulus default_cfg t" "req_addr t \<in> ex_test"
    using ex_generated_store by blast
  let ?t2 = "ex_load_of t" and ?wq = "sb_event.Mem_write_req mem_write_req_new"
  note f = ex_load_of_facts [OF t(2,5,6)]
  have t2: "req_tid ?t2 = 4" "req_need_rsp ?t2" by (simp_all add: ex_load_of_def)
  have nat: "\<not> is_atomic t" using request_classes(2) [OF t(2)] by (simp add: is_atomic_def)
  define R1 where "R1 = ?ref (sb_event.Core_req ex_junk t) ref_init"
  define R2 where "R2 = ?ref ?wq R1"
  define R3 where "R3 = ?ref (sb_event.Core_req ex_junk ?t2) R2"
  have junk: "junk_ok default_cfg ex_junk" using ex_load_after_store_premises(4) .
  have p: "rf_pending R1 = (\<lambda>k. None)" "rf_atomic R1 = None" "rf_writes R1 = {}" "rf_reads R1 = (\<lambda>k. None)"
    using t(4) nat by (simp_all add: R1_def ref_init_def)
  have mw: "\<not> mr_is_amo mem_write_req_new" "\<not> mr_is_stex mem_write_req_new" "unat (mr_id mem_write_req_new) = 0"
    "unat (mr_size mem_write_req_new) < 64"
    by (simp_all add: mem_write_req_new_def mr_is_amo_def mr_is_stex_def mem_req_new_def mem_req.defs)
  have q: "rf_pending R2 = (\<lambda>k. None)" "rf_atomic R2 = None" "rf_writes R2 = {0}"
    using mw p by (simp_all add: R2_def)
  have al1: "allowed default_cfg [] ex_test ex_I ref_init (sb_event.Core_req ex_junk t)"
    using stimulus_accepted [OF seq_cfg_default sb_cfg_default t(5,6)] junk by (simp add: in_turn_def ref_init_def)
  obtain u where u: "core_req_step default_cfg ex_junk t ex_start = Inr u"
    "coherent_run default_cfg [] ex_test ex_I ex_start u R1"
    using ex_test_extend [OF coherent_run.start al1] by (auto simp: R1_def)
  have al2: "allowed default_cfg [] ex_test ex_I R1 ?wq" using mw p by simp
  obtain v where v: "mem_write_req_step default_cfg mem_write_req_new u = Inr v"
    "coherent_run default_cfg [] ex_test ex_I ex_start v R2"
    using ex_test_extend [OF u(2) al2] by (auto simp: R2_def)
  have al3: "allowed default_cfg [] ex_test ex_I R2 (sb_event.Core_req ex_junk ?t2)"
    using f(1) junk q by (simp add: in_turn_def)
  obtain w where w: "core_req_step default_cfg ex_junk ?t2 v = Inr w"
    "coherent_run default_cfg [] ex_test ex_I ex_start w R3"
    using ex_test_extend [OF v(2) al3] by (auto simp: R3_def)
  have "rf_writes R3 = {0}" "rf_atomic R3 = None" using q f(4) by (simp_all add: R3_def)
  then have al4: "allowed default_cfg [] ex_test ex_I R3 (sb_event.Mem_write_resp mem_write_resp_new)"
    by (simp add: mem_write_resp_new_def)
  obtain x where x: "mem_write_resp_step mem_write_resp_new w = Inr x"
    using ex_test_extend [OF w(2) al4] by auto
  have s1: "stretch default_cfg [] ex_test ex_I (\<lambda>R ev. \<not> stores_to default_cfg [] (req_addr t) R ev) u R1 v R2"
    unfolding R2_def by (rule stretch_step [OF stretch_nil al2]) (simp_all add: v(1))
  have s2: "stretch default_cfg [] ex_test ex_I (\<lambda>R ev. \<not> answers (req_tid ?t2) ev) w R3 x
      (?ref (sb_event.Mem_write_resp mem_write_resp_new) R3)"
    by (rule stretch_step [OF stretch_nil al4]) (simp_all add: x answers_def)
  let ?j = "req_addr t mod REQ_DATA_BYTES default_cfg"
  obtain d where d: "data_byte d ?j \<noteq> data_byte (req_wdata t) ?j" using ex_wrong_byte by blast
  let ?r = "resp_new\<lparr>rsp_tid := 4, rsp_rdata := d\<rparr>"
  have tid: "3 < (2 :: nat) ^ HPDCACHE_REQ_TRANS_ID_WIDTH default_cfg" by (simp add: default_cfg_def)
  have turn: "in_turn default_cfg ref_init t" by (simp add: in_turn_def ref_init_def)
  have "\<exists>y. core_resp_step default_cfg ?r x = Inr y \<and> 0 < nb_error y"
    using generated_store_is_checked [OF ex_run_cfg(1) seq_cfg_default ex_store_possible tid t(1,2) ex_run_cfg(3)
        coherent_run.start turn junk ex_no_error(1) u(1) _ _ s1 [unfolded R1_def] al3 w(1) f(3) t2(2)
        ex_no_error(1) _ _ s2 [unfolded R3_def], of ?r] d t2(1) f(6-8) by simp
  moreover have "rsp_tid ?r = 4" by (simp add: resp_new_def)
  ultimately show ?thesis using t(1) u(1) v(1) w(1) x by blast
qed

end
